(* ===== verification/Prelude.thy ===== *)
theory Prelude
  imports Main "HOL-Library.Char_ord" "HOL-Library.List_Lexorder" "HOL-Library.Sublist"
begin

text \<open>
  Shared vocabulary of the development.

  A Rust \<^verbatim>\<open>str\<close> is its UTF-8 byte sequence, so it is modelled by \<^typ>\<open>string\<close> (a list of
  bytes): \<^verbatim>\<open>len\<close> is \<^const>\<open>length\<close>, comparison is the lexicographic order on bytes, and slicing
  works on byte offsets.  A Rust \<^verbatim>\<open>char\<close> is represented by its own UTF-8 encoding, that is by a
  non-empty byte list; \<open>chars\<close> cuts a string into these groups.  The functions of the Rust
  standard library that the sources call on strings and unsigned integers are defined here.
  Errors are values: \<^verbatim>\<open>Result<T, E>\<close> is \<open>'e + 't\<close> with \<^const>\<open>Inl\<close> for \<^verbatim>\<open>Err\<close>.
\<close>

named_theorems byte_class "character classes as ranges of byte values"
named_theorems rust_str "evaluation rules for the string library"

subsection \<open>Results\<close>

fun andThen :: "'e + 'a \<Rightarrow> ('a \<Rightarrow> 'e + 'b) \<Rightarrow> 'e + 'b" where
  "andThen (Inl e) f = Inl e"
| "andThen (Inr a) f = f a"

fun map_err :: "('e \<Rightarrow> 'f) \<Rightarrow> 'e + 'a \<Rightarrow> 'f + 'a" where
  "map_err f (Inl e) = Inl (f e)"
| "map_err f (Inr a) = Inr a"

fun is_ok :: "'e + 'a \<Rightarrow> bool" where
  "is_ok (Inl e) = False"
| "is_ok (Inr a) = True"

definition ok_or :: "'e \<Rightarrow> 'a option \<Rightarrow> 'e + 'a" where
  "ok_or e x = (case x of None \<Rightarrow> Inl e | Some a \<Rightarrow> Inr a)"

definition fail_if :: "bool \<Rightarrow> 'e \<Rightarrow> 'e + unit" where
  "fail_if b e = (if b then Inl e else Inr ())"

text \<open>A \<^verbatim>\<open>for\<close> loop whose body may return an error through \<^verbatim>\<open>?\<close>.\<close>

fun try_each :: "('a \<Rightarrow> 'e + unit) \<Rightarrow> 'a list \<Rightarrow> 'e + unit" where
  "try_each f [] = Inr ()"
| "try_each f (x # xs) = andThen (f x) (\<lambda>_. try_each f xs)"

text \<open>A sequence of checks, each of which may return early with an error.\<close>

fun run_checks :: "('e + unit) list \<Rightarrow> 'e + unit" where
  "run_checks [] = Inr ()"
| "run_checks (c # cs) = andThen c (\<lambda>_. run_checks cs)"

fun discard :: "'e + 'a \<Rightarrow> 'e + unit" where
  "discard (Inl e) = Inl e"
| "discard (Inr a) = Inr ()"

lemma andThen_Inr [simp]: "andThen r f = Inr b \<longleftrightarrow> (\<exists>a. r = Inr a \<and> f a = Inr b)"
  by (cases r) auto

lemma andThen_Inl [simp]: "andThen r f = Inl e \<longleftrightarrow> r = Inl e \<or> (\<exists>a. r = Inr a \<and> f a = Inl e)"
  by (cases r) auto

lemma map_err_Inr [simp]: "map_err f r = Inr a \<longleftrightarrow> r = Inr a"
  by (cases r) auto

lemma discard_Inr [simp]: "discard r = Inr u \<longleftrightarrow> is_ok r"
  by (cases r) auto

lemma run_checks_Inr: "run_checks cs = Inr u \<longleftrightarrow> list_all (\<lambda>c. c = Inr ()) cs"
  by (induction cs) auto

lemma is_ok_iff: "is_ok r \<longleftrightarrow> (\<exists>a. r = Inr a)"
  by (cases r) auto

lemma ok_or_Inr [simp]: "ok_or e x = Inr a \<longleftrightarrow> x = Some a"
  by (cases x) (auto simp: ok_or_def)

lemma ok_or_Some [simp]: "ok_or e (Some a) = Inr a"
  by (simp add: ok_or_def)

lemma ok_or_None [simp]: "ok_or e None = Inl e"
  by (simp add: ok_or_def)

lemma fail_if_Inr [simp]: "fail_if b e = Inr u \<longleftrightarrow> \<not> b"
  by (simp add: fail_if_def)

lemma fail_if_Inl [simp]: "fail_if b e = Inl e' \<longleftrightarrow> b \<and> e = e'"
  by (simp add: fail_if_def)

lemma try_each_Inr [simp]: "try_each f xs = Inr u \<longleftrightarrow> (\<forall>x \<in> set xs. f x = Inr ())"
  by (induction xs) auto

lemma try_each_Inl: "try_each f xs = Inl e \<Longrightarrow> \<exists>x \<in> set xs. f x = Inl e"
  by (induction xs) auto

subsection \<open>Bytes and characters\<close>

abbreviation byte :: "char \<Rightarrow> nat" where
  "byte c \<equiv> of_char c"

definition is_lower :: "char \<Rightarrow> bool" where
  [byte_class]: "is_lower c \<longleftrightarrow> 97 \<le> byte c \<and> byte c \<le> 122"

definition is_digit :: "char \<Rightarrow> bool" where
  [byte_class]: "is_digit c \<longleftrightarrow> 48 \<le> byte c \<and> byte c \<le> 57"

definition is_hex_lower :: "char \<Rightarrow> bool" where
  [byte_class]: "is_hex_lower c \<longleftrightarrow> is_digit c \<or> 97 \<le> byte c \<and> byte c \<le> 102"

definition is_hexdigit :: "char \<Rightarrow> bool" where
  [byte_class]: "is_hexdigit c \<longleftrightarrow> is_hex_lower c \<or> 65 \<le> byte c \<and> byte c \<le> 70"

definition is_ascii :: "char \<Rightarrow> bool" where
  [byte_class]: "is_ascii c \<longleftrightarrow> byte c < 128"

definition is_cont :: "char \<Rightarrow> bool" where
  [byte_class]: "is_cont c \<longleftrightarrow> 128 \<le> byte c \<and> byte c < 192"

abbreviation newline :: char where "newline \<equiv> CHR 0x0A"
abbreviation carriage :: char where "carriage \<equiv> CHR 0x0D"

text \<open>\<open>chars\<close>: a byte starts a new character unless it is a UTF-8 continuation byte.\<close>

fun chars :: "string \<Rightarrow> string list" where
  "chars [] = []"
| "chars [c] = [[c]]"
| "chars (c # d # ds) =
     (if is_cont d
      then (case chars (d # ds) of [] \<Rightarrow> [[c]] | g # gs \<Rightarrow> (c # g) # gs)
      else [c] # chars (d # ds))"

definition char_count :: "string \<Rightarrow> nat" where
  "char_count s = length (chars s)"

text \<open>The first character of a string that satisfies a predicate on single bytes, as the loops
  \<^verbatim>\<open>for ch in s.chars() { if !matches!(ch, ...) { return Err(..(ch)) } }\<close> find it.\<close>

definition ascii_in :: "(char \<Rightarrow> bool) \<Rightarrow> string \<Rightarrow> bool" where
  "ascii_in P ch = (case ch of [c] \<Rightarrow> P c | _ \<Rightarrow> False)"

definition bad_char :: "(char \<Rightarrow> bool) \<Rightarrow> string \<Rightarrow> string option" where
  "bad_char P s = List.find (\<lambda>ch. \<not> ascii_in P ch) (chars s)"

lemma chars_ex: "\<exists>g gs. chars (c # cs) = (c # g) # gs"
  by (induction cs arbitrary: c) (auto split: list.splits)

lemma concat_chars [simp]: "concat (chars s) = s"
proof (induction s rule: chars.induct)
  case (3 c d ds)
  then show ?case using chars_ex [of d ds] by (cases "is_cont d") auto
qed simp_all

lemma chars_eq_Nil [simp]: "chars s = [] \<longleftrightarrow> s = []"
  by (metis chars.simps(1) concat.simps(1) concat_chars)

lemma chars_ascii: "(\<And>c. c \<in> set s \<Longrightarrow> \<not> is_cont c) \<Longrightarrow> chars s = map (\<lambda>c. [c]) s"
  by (induction s rule: chars.induct) auto

lemma chars_append:
  "t \<noteq> [] \<Longrightarrow> \<not> is_cont (hd t) \<Longrightarrow> chars (s @ t) = chars s @ chars t"
proof (induction s rule: chars.induct)
  case (2 c)
  then show ?case by (cases t) auto
next
  case (3 c d ds)
  then show ?case using chars_ex [of d ds] by (cases "is_cont d") auto
qed simp

text \<open>Character groups: re-reading a concatenation of groups gives the groups back.\<close>

fun groups :: "string list \<Rightarrow> bool" where
  "groups [] = True"
| "groups (g # gs) \<longleftrightarrow> g \<noteq> [] \<and> list_all is_cont (tl g)
     \<and> (case gs of [] \<Rightarrow> True | h # _ \<Rightarrow> h \<noteq> [] \<and> \<not> is_cont (hd h)) \<and> groups gs"

lemma chars_single: "list_all is_cont cs \<Longrightarrow> chars (c # cs) = [c # cs]"
  by (induction cs arbitrary: c) auto

lemma chars_concat_groups: "groups gs \<Longrightarrow> chars (concat gs) = gs"
proof (induction gs)
  case Nil
  then show ?case by simp
next
  case (Cons g gs)
  then obtain c cs where g: "g = c # cs" "list_all is_cont cs" by (cases g) auto
  have single: "chars g = [g]" using g chars_single by simp
  show ?case
  proof (cases gs)
    case Nil
    with single show ?thesis by simp
  next
    case (Cons h hs)
    with Cons.prems have "h \<noteq> []" "\<not> is_cont (hd h)" by auto
    then have "concat gs \<noteq> []" "\<not> is_cont (hd (concat gs))" using Cons by auto
    then have "chars (g @ concat gs) = chars g @ chars (concat gs)" by (rule chars_append)
    with single Cons.IH Cons.prems show ?thesis by simp
  qed
qed

lemma groups_chars: "groups (chars s)"
proof (induction s rule: chars.induct)
  case (3 c d ds)
  then show ?case using chars_ex [of d ds] by (cases "is_cont d") auto
qed simp_all

lemma groups_append: "groups (xs @ ys) \<Longrightarrow> groups xs \<and> groups ys"
proof (induction xs)
  case (Cons x xs)
  then show ?case by (cases xs) auto
qed simp

lemma groups_take: "groups gs \<Longrightarrow> groups (take n gs)"
  by (metis append_take_drop_id groups_append)

lemma groups_drop: "groups gs \<Longrightarrow> groups (drop n gs)"
  by (metis append_take_drop_id groups_append)

lemma chars_take: "chars (concat (take n (chars s))) = take n (chars s)"
  by (simp add: chars_concat_groups groups_chars groups_take)

lemma bad_char_None: "bad_char P s = None \<longleftrightarrow> (\<forall>ch \<in> set (chars s). ascii_in P ch)"
  unfolding bad_char_def find_None_iff by blast

lemma ascii_in_groups:
  assumes "\<forall>ch \<in> set (chars s). ascii_in P ch"
  shows "\<forall>c \<in> set s. P c"
proof
  fix c assume "c \<in> set s"
  then have "c \<in> set (concat (chars s))" by simp
  then obtain g where g: "g \<in> set (chars s)" "c \<in> set g" by (auto simp del: concat_chars)
  with assms have "ascii_in P g" by blast
  with g(2) show "P c" by (cases g rule: chars.cases) (auto simp: ascii_in_def)
qed

lemma bad_char_ascii:
  assumes "\<And>c. P c \<Longrightarrow> \<not> is_cont c"
  shows "bad_char P s = None \<longleftrightarrow> list_all P s"
proof
  assume "bad_char P s = None"
  then show "list_all P s"
    using ascii_in_groups [of s P] by (simp add: bad_char_None list_all_iff)
next
  assume a: "list_all P s"
  then have "chars s = map (\<lambda>c. [c]) s"
    using assms by (intro chars_ascii) (auto simp: list_all_iff)
  with a show "bad_char P s = None"
    by (simp add: bad_char_None list_all_iff ascii_in_def)
qed

subsection \<open>Invariants of step relations\<close>

text \<open>What every component with a step relation promises: its steps keep an invariant.  Then sequences of
  steps keep it too.\<close>

locale step_invariant =
  fixes step :: "'s \<Rightarrow> 's \<Rightarrow> bool" and inv :: "'s \<Rightarrow> bool"
  assumes step_keeps: "step s s' \<Longrightarrow> inv s \<Longrightarrow> inv s'"
begin

lemma steps_keep: "step\<^sup>*\<^sup>* s s' \<Longrightarrow> inv s \<Longrightarrow> inv s'"
  by (induction rule: rtranclp_induct) (auto intro: step_keeps)

lemma started_keeps:
  assumes "\<exists>s. start s \<and> step\<^sup>*\<^sup>* s s'" "\<And>s. start s \<Longrightarrow> inv s"
  shows "inv s'"
  using assms steps_keep by blast

end

end
