(* ===== verification/Rust_Strings.thy ===== *)
theory Rust_Strings
  imports Prelude
begin

text \<open>
  The operations of Rust's \<^verbatim>\<open>str\<close> that the sources use: searching, splitting, line iteration,
  trimming, and decimal conversion of unsigned integers with their overflow check.  Each is
  executable and comes with the laws the components rely on.
\<close>

subsection \<open>Prefixes, suffixes and searching\<close>

fun strip_prefix :: "string \<Rightarrow> string \<Rightarrow> string option" where
  "strip_prefix [] s = Some s"
| "strip_prefix (p # ps) [] = None"
| "strip_prefix (p # ps) (c # s) = (if p = c then strip_prefix ps s else None)"

definition starts_with :: "string \<Rightarrow> string \<Rightarrow> bool" where
  "starts_with p s \<longleftrightarrow> strip_prefix p s \<noteq> None"

definition strip_suffix :: "string \<Rightarrow> string \<Rightarrow> string option" where
  "strip_suffix p s = map_option rev (strip_prefix (rev p) (rev s))"

definition ends_with :: "string \<Rightarrow> string \<Rightarrow> bool" where
  "ends_with p s \<longleftrightarrow> strip_suffix p s \<noteq> None"

text \<open>\<^verbatim>\<open>str::find\<close> with a string pattern: the byte offset of the leftmost occurrence.\<close>

fun find_str :: "string \<Rightarrow> string \<Rightarrow> nat option" where
  "find_str p [] = (if p = [] then Some 0 else None)"
| "find_str p (c # s) =
     (if starts_with p (c # s) then Some 0 else map_option Suc (find_str p s))"

definition contains_str :: "string \<Rightarrow> string \<Rightarrow> bool" where
  "contains_str p s \<longleftrightarrow> find_str p s \<noteq> None"

text \<open>\<^verbatim>\<open>str::split_once\<close> and \<^verbatim>\<open>str::split\<close> with an ASCII character.\<close>

fun split_once :: "char \<Rightarrow> string \<Rightarrow> (string \<times> string) option" where
  "split_once d [] = None"
| "split_once d (c # s) =
     (if c = d then Some ([], s)
      else map_option (\<lambda>(a, b). (c # a, b)) (split_once d s))"

fun split_on :: "char \<Rightarrow> string \<Rightarrow> string list" where
  "split_on d [] = [[]]"
| "split_on d (c # s) =
     (if c = d then [] # split_on d s
      else (case split_on d s of [] \<Rightarrow> [[c]] | w # ws \<Rightarrow> (c # w) # ws))"

lemma strip_prefix_Some [simp]: "strip_prefix p s = Some t \<longleftrightarrow> s = p @ t"
  by (induction p s rule: strip_prefix.induct) auto

lemma strip_prefix_None: "strip_prefix p s = None \<longleftrightarrow> \<not> prefix p s"
  by (metis not_Some_eq prefix_def strip_prefix_Some)

lemma starts_with_iff: "starts_with p s \<longleftrightarrow> prefix p s"
  by (simp add: starts_with_def strip_prefix_None)

lemma strip_suffix_Some [simp]: "strip_suffix p s = Some t \<longleftrightarrow> s = t @ p"
  by (auto simp: strip_suffix_def) (metis rev_append rev_rev_ident)

lemma ends_with_iff: "ends_with p s \<longleftrightarrow> (\<exists>t. s = t @ p)"
  unfolding ends_with_def by (metis not_Some_eq strip_suffix_Some)

lemma starts_with_append [simp]: "starts_with p (p @ s)"
  by (simp add: starts_with_iff)

lemma find_str_Some: "find_str p s = Some i \<Longrightarrow> i \<le> length s \<and> prefix p (drop i s)"
  by (induction p s arbitrary: i rule: find_str.induct)
    (auto simp: starts_with_iff split: if_splits)

lemma find_str_first: "find_str p s = Some i \<Longrightarrow> j < i \<Longrightarrow> \<not> prefix p (drop j s)"
proof (induction p s arbitrary: i j rule: find_str.induct)
  case (2 p c s)
  then show ?case by (cases j) (auto simp: starts_with_iff split: if_splits)
qed (auto split: if_splits)

lemma find_str_None: "find_str p s = None \<Longrightarrow> \<not> prefix p (drop i s)"
proof (induction p s arbitrary: i rule: find_str.induct)
  case (2 p c s)
  then show ?case by (cases i) (auto simp: starts_with_iff split: if_splits)
qed (auto split: if_splits)

lemma find_strI:
  assumes "prefix p (drop i s)" "i \<le> length s" "\<And>j. j < i \<Longrightarrow> \<not> prefix p (drop j s)"
  shows "find_str p s = Some i"
proof (cases "find_str p s")
  case None
  then show ?thesis using assms(1) find_str_None by blast
next
  case (Some k)
  then show ?thesis
    using assms find_str_Some [OF Some] find_str_first [OF Some]
    by (metis linorder_neqE_nat)
qed

lemma contains_str_iff: "contains_str p s \<longleftrightarrow> (\<exists>a b. s = a @ p @ b)"
proof
  assume "contains_str p s"
  then obtain i where i: "find_str p s = Some i" by (auto simp: contains_str_def)
  then have "prefix p (drop i s)" by (simp add: find_str_Some)
  then obtain b where "drop i s = p @ b" by (auto simp: prefix_def)
  then show "\<exists>a b. s = a @ p @ b" by (metis append_take_drop_id)
next
  assume "\<exists>a b. s = a @ p @ b"
  then obtain a b where "s = a @ p @ b" by blast
  then have "prefix p (drop (length a) s)" by simp
  then show "contains_str p s" using find_str_None by (auto simp: contains_str_def)
qed

lemma split_once_Some:
  "split_once d s = Some (a, b) \<longleftrightarrow> s = a @ d # b \<and> d \<notin> set a"
proof (induction s arbitrary: a)
  case (Cons c s)
  then show ?case by (cases a) auto
qed simp

lemma split_once_None: "split_once d s = None \<longleftrightarrow> d \<notin> set s"
  by (induction s) auto

lemma split_on_nonempty [simp]: "split_on d s \<noteq> []"
  by (induction s) (auto split: list.splits)

lemma split_on_notin: "d \<notin> set s \<Longrightarrow> split_on d s = [s]"
  by (induction s) auto

lemma split_on_append: "d \<notin> set a \<Longrightarrow> split_on d (a @ d # b) = a # split_on d b"
  by (induction a) auto

lemma split_on_pieces: "w \<in> set (split_on d s) \<Longrightarrow> d \<notin> set w"
proof (induction s arbitrary: w)
  case (Cons c s)
  obtain v vs where v: "split_on d s = v # vs" by (cases "split_on d s") auto
  show ?case using Cons v by (auto split: if_splits)
qed simp

subsection \<open>Lines\<close>

text \<open>\<^verbatim>\<open>str::split_inclusive\<close> at newlines, and \<^verbatim>\<open>str::lines\<close> built on it: a line loses its newline and
  then one carriage return; a last line without newline is kept as it is.\<close>

fun split_inclusive :: "string \<Rightarrow> string list" where
  "split_inclusive [] = []"
| "split_inclusive (c # s) =
     (if c = newline then [c] # split_inclusive s
      else (case split_inclusive s of [] \<Rightarrow> [[c]] | l # ls \<Rightarrow> (c # l) # ls))"

definition lines_map :: "string \<Rightarrow> string" where
  "lines_map l =
     (case strip_suffix [newline] l of
        None \<Rightarrow> l
      | Some l' \<Rightarrow> (case strip_suffix [carriage] l' of None \<Rightarrow> l' | Some l'' \<Rightarrow> l''))"

definition lines :: "string \<Rightarrow> string list" where
  "lines s = map lines_map (split_inclusive s)"

text \<open>\<^verbatim>\<open>str::replace\<close> of every CRLF pair by LF.\<close>

fun replace_crlf :: "string \<Rightarrow> string" where
  "replace_crlf [] = []"
| "replace_crlf [c] = [c]"
| "replace_crlf (c # d # s) =
     (if c = carriage \<and> d = newline then newline # replace_crlf s
      else c # replace_crlf (d # s))"

lemma concat_split_inclusive [simp]: "concat (split_inclusive s) = s"
  by (induction s) (auto split: list.splits)

lemma split_inclusive_Nil [simp]: "split_inclusive s = [] \<longleftrightarrow> s = []"
  by (metis concat.simps(1) concat_split_inclusive split_inclusive.simps(1))

lemma split_inclusive_line:
  "newline \<notin> set a \<Longrightarrow> split_inclusive (a @ newline # s) = (a @ [newline]) # split_inclusive s"
  by (induction a) auto

lemma split_inclusive_last: "newline \<notin> set a \<Longrightarrow> a \<noteq> [] \<Longrightarrow> split_inclusive a = [a]"
proof (induction a)
  case (Cons c a)
  then show ?case by (cases a) auto
qed simp

lemma lines_map_nl: "a = [] \<or> last a \<noteq> carriage \<Longrightarrow> lines_map (a @ [newline]) = a"
proof -
  assume a: "a = [] \<or> last a \<noteq> carriage"
  have "strip_suffix [newline] (a @ [newline]) = Some a" by simp
  moreover have "strip_suffix [carriage] a = None"
    using a by (metis append_is_Nil_conv last_snoc not_Cons_self2 not_Some_eq strip_suffix_Some)
  ultimately show ?thesis by (simp add: lines_map_def del: strip_suffix_Some)
qed

lemma lines_line:
  "newline \<notin> set a \<Longrightarrow> a = [] \<or> last a \<noteq> carriage \<Longrightarrow>
   lines (a @ newline # s) = a # lines s"
  by (simp add: lines_def split_inclusive_line lines_map_nl)

lemma lines_last: "newline \<notin> set a \<Longrightarrow> a \<noteq> [] \<Longrightarrow> lines a = [a]"
proof -
  assume a: "newline \<notin> set a" "a \<noteq> []"
  have "strip_suffix [newline] a = None"
    using a(1) by (metis in_set_conv_decomp not_Some_eq strip_suffix_Some)
  then show ?thesis using a by (simp add: lines_def split_inclusive_last lines_map_def)
qed

lemma lines_Nil [simp]: "lines [] = []"
  by (simp add: lines_def)

lemma lines_eq_Nil [simp]: "lines s = [] \<longleftrightarrow> s = []"
  by (simp add: lines_def)

lemma replace_crlf_id: "carriage \<notin> set s \<Longrightarrow> replace_crlf s = s"
  by (induction s rule: replace_crlf.induct) auto

lemma replace_crlf_eq_Nil [simp]: "replace_crlf s = [] \<longleftrightarrow> s = []"
  by (induction s rule: replace_crlf.induct) auto

subsection \<open>Lines of a concatenation\<close>

lemma split_inclusive_append:
  "a = [] \<or> last a = newline \<Longrightarrow> split_inclusive (a @ b) = split_inclusive a @ split_inclusive b"
proof (induction a rule: length_induct)
  case (1 a)
  show ?case
  proof (cases "a = []")
    case False
    then have "newline \<in> set a" using 1(2) last_in_set by metis
    then obtain u v where uv: "a = u @ newline # v" "newline \<notin> set u" using split_list_first by metis
    have "v = [] \<or> last v = newline" using 1(2) uv(1) by (cases v) auto
    moreover have "length v < length a" using uv(1) by simp
    ultimately have "split_inclusive (v @ b) = split_inclusive v @ split_inclusive b" using 1(1) by blast
    then show ?thesis using split_inclusive_line [OF uv(2)] by (simp add: uv(1))
  qed simp
qed

lemma lines_append: "a = [] \<or> last a = newline \<Longrightarrow> lines (a @ b) = lines a @ lines b"
  by (simp add: lines_def split_inclusive_append)

lemma lines_unlines:
  "\<forall>l \<in> set ls. newline \<notin> set l \<and> carriage \<notin> set l \<Longrightarrow>
   lines (concat (map (\<lambda>l. l @ [newline]) ls) @ s) = ls @ lines s"
proof (induction ls)
  case (Cons l ls)
  then have "l = [] \<or> last l \<noteq> carriage" by (metis last_in_set list.set_intros(1))
  then show ?case using Cons lines_line by simp
qed simp

lemma replace_crlf_Cons: "c \<noteq> carriage \<Longrightarrow> replace_crlf (c # b) = c # replace_crlf b"
  by (cases b) auto

lemma replace_crlf_append: "a = [] \<or> last a \<noteq> carriage \<Longrightarrow> replace_crlf (a @ b) = replace_crlf a @ replace_crlf b"
  by (induction a rule: replace_crlf.induct) (auto simp: replace_crlf_Cons split: if_splits)

lemma replace_crlf_last: "a \<noteq> [] \<Longrightarrow> last a = newline \<Longrightarrow> last (replace_crlf a) = newline"
  by (induction a rule: replace_crlf.induct) (auto split: if_splits)

lemma lines_newline:
  assumes "a \<noteq> []" "last a \<noteq> newline" "last a \<noteq> carriage"
  shows "lines (a @ [newline]) = lines a"
proof -
  obtain p l where pl: "a = p @ l" "newline \<notin> set l" "p = [] \<or> last p = newline"
  proof (cases "newline \<in> set a")
    case True
    then obtain p l where "a = p @ newline # l" "newline \<notin> set l" using split_list_last by metis
    then show ?thesis using that [of "p @ [newline]" l] by simp
  qed (use that [of "[]" a] in simp)
  have l: "l \<noteq> []" using pl assms by auto
  then have "last l \<noteq> carriage" using pl(1) assms(3) by simp
  note l = l this
  have "lines (a @ [newline]) = lines p @ lines (l @ [newline])"
    using lines_append [OF pl(3), of "l @ [newline]"] by (simp add: pl(1))
  also have "lines (l @ [newline]) = [l]" using lines_line [OF pl(2), of "[]"] l by simp
  also have "[l] = lines l" using lines_last pl(2) l(1) by simp
  finally show ?thesis using lines_append [OF pl(3), of l] by (simp add: pl(1))
qed

lemma unlines_lines:
  assumes "carriage \<notin> set s" "s = [] \<or> last s = newline"
  shows "concat (map (\<lambda>l. l @ [newline]) (lines s)) = s"
  using assms
proof (induction s rule: length_induct)
  case (1 s)
  show ?case
  proof (cases "s = []")
    case False
    then have "newline \<in> set s" using 1(3) last_in_set by metis
    then obtain u v where uv: "s = u @ newline # v" "newline \<notin> set u" using split_list_first by metis
    have u: "u = [] \<or> last u \<noteq> carriage" using 1(2) uv(1) by (metis Un_iff last_in_set set_append)
    have v: "v = [] \<or> last v = newline" "carriage \<notin> set v" "length v < length s"
      using 1(2,3) uv(1) by (auto split: if_splits)
    have "concat (map (\<lambda>l. l @ [newline]) (lines v)) = v" using 1(1) v by blast
    then show ?thesis using lines_line [OF uv(2) u] by (simp add: uv(1))
  qed simp
qed

lemma split_inclusive_sub: "l \<in> set (split_inclusive s) \<Longrightarrow> set l \<subseteq> set s"
  by (metis concat_split_inclusive UN_upper set_concat)

subsection \<open>Trimming\<close>

text \<open>\<^verbatim>\<open>char::is_whitespace\<close>: the code points of the Unicode property White\_Space, each by its UTF-8
  encoding.\<close>

definition whitespace_chars :: "string list" where
  "whitespace_chars =
     [[CHR 0x09], [CHR 0x0A], [CHR 0x0B], [CHR 0x0C], [CHR 0x0D], [CHR 0x20],
      [CHR 0xC2, CHR 0x85], [CHR 0xC2, CHR 0xA0], [CHR 0xE1, CHR 0x9A, CHR 0x80],
      [CHR 0xE2, CHR 0x80, CHR 0x80], [CHR 0xE2, CHR 0x80, CHR 0x81],
      [CHR 0xE2, CHR 0x80, CHR 0x82], [CHR 0xE2, CHR 0x80, CHR 0x83],
      [CHR 0xE2, CHR 0x80, CHR 0x84], [CHR 0xE2, CHR 0x80, CHR 0x85],
      [CHR 0xE2, CHR 0x80, CHR 0x86], [CHR 0xE2, CHR 0x80, CHR 0x87],
      [CHR 0xE2, CHR 0x80, CHR 0x88], [CHR 0xE2, CHR 0x80, CHR 0x89],
      [CHR 0xE2, CHR 0x80, CHR 0x8A], [CHR 0xE2, CHR 0x80, CHR 0xA8],
      [CHR 0xE2, CHR 0x80, CHR 0xA9], [CHR 0xE2, CHR 0x80, CHR 0xAF],
      [CHR 0xE2, CHR 0x81, CHR 0x9F], [CHR 0xE3, CHR 0x80, CHR 0x80]]"

definition is_whitespace :: "string \<Rightarrow> bool" where
  "is_whitespace ch \<longleftrightarrow> ch \<in> set whitespace_chars"

definition trim_chars :: "string list \<Rightarrow> string list" where
  "trim_chars cs = rev (dropWhile is_whitespace (rev (dropWhile is_whitespace cs)))"

definition trim :: "string \<Rightarrow> string" where
  "trim s = concat (trim_chars (chars s))"

definition trim_end_matches :: "char \<Rightarrow> string \<Rightarrow> string" where
  "trim_end_matches d s = rev (dropWhile (\<lambda>c. c = d) (rev s))"

definition trim_matches :: "char \<Rightarrow> string \<Rightarrow> string" where
  "trim_matches d s = trim_end_matches d (dropWhile (\<lambda>c. c = d) s)"

lemma trim_chars_sub: "\<exists>xs ys. cs = xs @ trim_chars cs @ ys"
proof -
  let ?d = "dropWhile is_whitespace cs"
  have "?d = rev (takeWhile is_whitespace (rev ?d) @ dropWhile is_whitespace (rev ?d))" by simp
  then have "?d = trim_chars cs @ rev (takeWhile is_whitespace (rev ?d))"
    by (metis rev_append trim_chars_def)
  then show ?thesis by (metis takeWhile_dropWhile_id)
qed

lemma chars_trim: "chars (trim s) = trim_chars (chars s)"
proof -
  obtain xs ys where "chars s = xs @ trim_chars (chars s) @ ys" using trim_chars_sub by blast
  then have "groups (trim_chars (chars s))" using groups_chars groups_append by metis
  then show ?thesis by (simp add: trim_def chars_concat_groups)
qed

lemma dropWhile_idem: "dropWhile P (dropWhile P xs) = dropWhile P xs"
  by (induction xs) auto

lemma dropWhile_hd: "xs = [] \<or> \<not> P (hd xs) \<Longrightarrow> dropWhile P xs = xs"
  by (cases xs) auto

lemma trim_chars_idem: "trim_chars (trim_chars cs) = trim_chars cs"
proof -
  let ?d = "dropWhile is_whitespace cs"
  let ?t = "trim_chars cs"
  have pre: "\<exists>zs. ?d = ?t @ zs"
    by (metis rev_append rev_rev_ident takeWhile_dropWhile_id trim_chars_def)
  have "?t = [] \<or> \<not> is_whitespace (hd ?t)"
    using pre hd_dropWhile [of is_whitespace cs]
    by (metis append_is_Nil_conv hd_append2)
  then have "dropWhile is_whitespace ?t = ?t" by (rule dropWhile_hd)
  then show ?thesis
    unfolding trim_chars_def [of "trim_chars cs"]
    by (simp add: trim_chars_def dropWhile_idem)
qed

lemma trim_trim [simp]: "trim (trim s) = trim s"
  by (metis chars_trim trim_chars_idem trim_def)

lemma trim_Nil [simp]: "trim [] = []"
  by (simp add: trim_def trim_chars_def)

lemma char_count_trim: "char_count (trim s) \<le> char_count s"
proof -
  obtain xs ys where "chars s = xs @ trim_chars (chars s) @ ys" using trim_chars_sub by blast
  then have "length (chars s) = length xs + length (trim_chars (chars s)) + length ys"
    by (metis add.assoc length_append)
  then show ?thesis by (simp add: char_count_def chars_trim)
qed

subsection \<open>Decimal numbers\<close>

definition digit_char :: "nat \<Rightarrow> char" where
  "digit_char d = char_of (48 + d)"

definition digit_val :: "char \<Rightarrow> nat" where
  "digit_val c = byte c - 48"

fun show_nat :: "nat \<Rightarrow> string" where
  "show_nat n = (if n < 10 then [digit_char n] else show_nat (n div 10) @ [digit_char (n mod 10)])"

declare show_nat.simps [simp del]

definition pad0 :: "nat \<Rightarrow> string \<Rightarrow> string" where
  "pad0 w s = replicate (w - length s) (CHR ''0'') @ s"

definition read_digits :: "string \<Rightarrow> nat" where
  "read_digits s = foldl (\<lambda>n c. 10 * n + digit_val c) 0 s"

text \<open>\<^verbatim>\<open>str::parse\<close> at an unsigned type with maximum \<open>m\<close>: an optional plus sign, at least one ASCII
  digit, nothing else, and no overflow.\<close>

definition parse_uint :: "nat \<Rightarrow> string \<Rightarrow> nat option" where
  "parse_uint m s =
     (let t = (case s of c # s' \<Rightarrow> if c = CHR ''+'' then s' else s | [] \<Rightarrow> s)
      in if t \<noteq> [] \<and> list_all is_digit t \<and> read_digits t \<le> m then Some (read_digits t) else None)"

abbreviation u8_max :: nat where "u8_max \<equiv> 255"
abbreviation u32_max :: nat where "u32_max \<equiv> 4294967295"
abbreviation u64_max :: nat where "u64_max \<equiv> 18446744073709551615"

text \<open>Unsigned 64-bit addition as the release build performs it: modulo \<open>2 ^ 64\<close>.\<close>

definition u64_add :: "nat \<Rightarrow> nat \<Rightarrow> nat" where
  "u64_add a b = (a + b) mod 18446744073709551616"

lemma u64_add_exact: "a + b \<le> u64_max \<Longrightarrow> u64_add a b = a + b"
  by (simp add: u64_add_def)

lemma u64_add_le: "u64_add a b \<le> u64_max"
  unfolding u64_add_def
  using mod_less_divisor [of "18446744073709551616" "a + b"] by linarith

lemma byte_digit_char [simp]: "d < 10 \<Longrightarrow> byte (digit_char d) = 48 + d"
  by (simp add: digit_char_def)

lemma is_digit_digit_char [simp]: "d < 10 \<Longrightarrow> is_digit (digit_char d)"
  by (simp add: byte_class)

lemma digit_val_digit_char [simp]: "d < 10 \<Longrightarrow> digit_val (digit_char d) = d"
  by (simp add: digit_val_def)

lemma show_nat_digits: "list_all is_digit (show_nat n)"
proof (induction n rule: show_nat.induct)
  case (1 n)
  then show ?case by (cases "n < 10") (simp_all add: show_nat.simps [of n])
qed

lemma show_nat_nonempty [simp]: "show_nat n \<noteq> []"
  by (simp add: show_nat.simps [of n])

lemma read_digits_snoc: "read_digits (s @ [c]) = 10 * read_digits s + digit_val c"
  by (simp add: read_digits_def)

lemma read_show_nat [simp]: "read_digits (show_nat n) = n"
proof (induction n rule: show_nat.induct)
  case (1 n)
  show ?case
  proof (cases "n < 10")
    case True
    then show ?thesis by (simp add: show_nat.simps [of n] read_digits_def)
  next
    case False
    with 1 show ?thesis by (simp add: show_nat.simps [of n] read_digits_snoc)
  qed
qed

lemma read_digits_zeros [simp]: "read_digits (replicate k (CHR ''0'') @ s) = read_digits s"
  by (induction k) (simp_all add: read_digits_def digit_val_def)

lemma read_pad0 [simp]: "read_digits (pad0 w s) = read_digits s"
  by (simp add: pad0_def)

lemma pad0_digits: "list_all is_digit s \<Longrightarrow> list_all is_digit (pad0 w s)"
  by (auto simp: pad0_def list_all_iff byte_class)

lemma length_pad0: "length (pad0 w s) = max w (length s)"
  by (simp add: pad0_def)

lemma parse_uint_overflow:
  assumes "list_all is_digit s" "m < read_digits s"
  shows "parse_uint m s = None"
proof (cases s)
  case (Cons c s')
  then have "c \<noteq> CHR ''+''" using assms(1) by (auto simp: byte_class)
  then show ?thesis using Cons assms(2) by (auto simp: parse_uint_def Let_def)
qed (simp add: parse_uint_def)

lemma parse_uint_digits:
  assumes "s \<noteq> []" "list_all is_digit s" "read_digits s \<le> m"
  shows "parse_uint m s = Some (read_digits s)"
proof -
  have "hd s \<noteq> CHR ''+''" using assms(1,2) by (cases s) (auto simp: byte_class)
  then show ?thesis using assms by (cases s) (auto simp: parse_uint_def Let_def)
qed

lemma parse_show_nat: "n \<le> m \<Longrightarrow> parse_uint m (show_nat n) = Some n"
  by (simp add: parse_uint_digits show_nat_digits)

lemma parse_pad0_show: "n \<le> m \<Longrightarrow> parse_uint m (pad0 w (show_nat n)) = Some n"
proof -
  assume "n \<le> m"
  moreover have "pad0 w (show_nat n) \<noteq> []" by (simp add: pad0_def)
  ultimately show ?thesis by (simp add: parse_uint_digits pad0_digits show_nat_digits)
qed

lemma parse_uint_le: "parse_uint m s = Some n \<Longrightarrow> n \<le> m"
  by (auto simp: parse_uint_def Let_def split: if_splits list.splits)

end
