(* ===== verification/Names.thy ===== *)
theory Names
  imports Rust_Strings
begin

text \<open>
  The validated names of the protocol (\<^verbatim>\<open>crates/gitim-core/src/types\<close> and \<^verbatim>\<open>flow/types.rs\<close>): handlers,
  channel names, project slugs, flow slugs, cron names and labels, DM file names, and the
  repository paths built from them.  The locales \<open>path_component\<close> and \<open>kebab_name\<close> state what every
  client of a validated name relies on; each validator is an interpretation.
\<close>

subsection \<open>Handlers (types/handler.rs)\<close>

datatype handler_error =
    HandlerEmpty
  | HandlerTooLong
  | HandlerInvalidChar string
  | HandlerHyphenBoundary
  | HandlerConsecutiveHyphens
  | HandlerReserved

datatype handler = Handler (as_str: string)

definition kebab_char :: "char \<Rightarrow> bool" where
  "kebab_char c \<longleftrightarrow> is_lower c \<or> is_digit c \<or> c = CHR ''-''"

definition handler_new :: "string \<Rightarrow> handler_error + handler" where
  "handler_new s =
     (if s = [] then Inl HandlerEmpty
      else if length s > 39 then Inl HandlerTooLong
      else if s = ''system'' then Inl HandlerReserved
      else case bad_char kebab_char s of
        Some ch \<Rightarrow> Inl (HandlerInvalidChar ch)
      | None \<Rightarrow>
          if starts_with ''-'' s \<or> ends_with ''-'' s then Inl HandlerHyphenBoundary
          else if contains_str ''--'' s then Inl HandlerConsecutiveHyphens
          else Inr (Handler s))"

definition handler_system :: handler where
  "handler_system = Handler ''system''"

text \<open>\<^verbatim>\<open>Display for HandlerError\<close>, embedded in the messages of later checks.\<close>

fun show_handler_error :: "handler_error \<Rightarrow> string" where
  "show_handler_error HandlerEmpty = ''handler is empty''"
| "show_handler_error HandlerTooLong = ''handler exceeds 39 characters''"
| "show_handler_error (HandlerInvalidChar ch) = ''handler contains invalid character: '' @ ch"
| "show_handler_error HandlerHyphenBoundary = ''handler must not start or end with hyphen''"
| "show_handler_error HandlerConsecutiveHyphens = ''handler must not contain consecutive hyphens''"
| "show_handler_error HandlerReserved = ''handler 'system' is reserved''"

subsection \<open>Channel names (types/channel.rs)\<close>

datatype channel_name_error =
    ChannelEmpty
  | ChannelTooLong
  | ChannelInvalidChar string
  | ChannelHyphenBoundary
  | ChannelConsecutiveHyphens

datatype channel_name = ChannelName (channel_str: string)

definition channel_name_new :: "string \<Rightarrow> channel_name_error + channel_name" where
  "channel_name_new s =
     (if s = [] then Inl ChannelEmpty
      else if length s > 32 then Inl ChannelTooLong
      else case bad_char kebab_char s of
        Some ch \<Rightarrow> Inl (ChannelInvalidChar ch)
      | None \<Rightarrow>
          if starts_with ''-'' s \<or> ends_with ''-'' s then Inl ChannelHyphenBoundary
          else if contains_str ''--'' s then Inl ChannelConsecutiveHyphens
          else Inr (ChannelName s))"

fun show_channel_name_error :: "channel_name_error \<Rightarrow> string" where
  "show_channel_name_error ChannelEmpty = ''channel name is empty''"
| "show_channel_name_error ChannelTooLong = ''channel name exceeds 32 characters''"
| "show_channel_name_error (ChannelInvalidChar ch) =
     ''channel name contains invalid character: '' @ ch"
| "show_channel_name_error ChannelHyphenBoundary =
     ''channel name must not start or end with hyphen''"
| "show_channel_name_error ChannelConsecutiveHyphens =
     ''channel name must not contain consecutive hyphens''"

subsection \<open>Project slugs (types/project.rs)\<close>

datatype project_slug_error =
    ProjectEmpty
  | ProjectTooLong
  | ProjectInvalidChar string
  | ProjectHyphenBoundary
  | ProjectConsecutiveHyphens
  | ProjectReserved string

datatype project_slug = ProjectSlug string

definition reserved_project_slugs :: "string list" where
  "reserved_project_slugs =
     [''archive'', ''channels'', ''projects'', ''users'', ''dms'', ''cards'', ''flows'', ''system'']"

definition project_slug_new :: "string \<Rightarrow> project_slug_error + project_slug" where
  "project_slug_new s =
     (if s = [] then Inl ProjectEmpty
      else if length s > 32 then Inl ProjectTooLong
      else case bad_char kebab_char s of
        Some ch \<Rightarrow> Inl (ProjectInvalidChar ch)
      | None \<Rightarrow>
          if starts_with ''-'' s \<or> ends_with ''-'' s then Inl ProjectHyphenBoundary
          else if contains_str ''--'' s then Inl ProjectConsecutiveHyphens
          else if s \<in> set reserved_project_slugs then Inl (ProjectReserved s)
          else Inr (ProjectSlug s))"

subsection \<open>Flow slugs (flow/types.rs)\<close>

datatype flow_slug_error =
    FlowEmpty
  | FlowTooLong
  | FlowInvalidChar string
  | FlowHyphenBoundary
  | FlowConsecutiveHyphens

datatype flow_slug = FlowSlug (flow_slug_str: string)

definition flow_slug_new :: "string \<Rightarrow> flow_slug_error + flow_slug" where
  "flow_slug_new s =
     (if s = [] then Inl FlowEmpty
      else if length s > 39 then Inl FlowTooLong
      else case bad_char kebab_char s of
        Some ch \<Rightarrow> Inl (FlowInvalidChar ch)
      | None \<Rightarrow>
          if starts_with ''-'' s \<or> ends_with ''-'' s then Inl FlowHyphenBoundary
          else if contains_str ''--'' s then Inl FlowConsecutiveHyphens
          else Inr (FlowSlug s))"

subsection \<open>Cron names (types/cron.rs)\<close>

datatype cron_name_error =
    CronEmpty
  | CronTooLong nat
  | CronDotPrefix string
  | CronReserved string
  | CronBadFirstChar string
  | CronBadChar string string

definition reserved_cron_names :: "string list" where
  "reserved_cron_names = [''archive'', ''crons'']"

definition validate_cron_name :: "string \<Rightarrow> cron_name_error + unit" where
  "validate_cron_name name =
     (if length name > 63 then Inl (CronTooLong (length name))
      else if starts_with ''.'' name then Inl (CronDotPrefix name)
      else if name \<in> set reserved_cron_names then Inl (CronReserved name)
      else case chars name of
        [] \<Rightarrow> Inl CronEmpty
      | first # _ \<Rightarrow>
          if \<not> ascii_in (\<lambda>c. is_lower c \<or> is_digit c) first then Inl (CronBadFirstChar name)
          else case bad_char kebab_char name of
            Some ch \<Rightarrow> Inl (CronBadChar name ch)
          | None \<Rightarrow> Inr ())"

subsection \<open>Labels (types/labels.rs)\<close>

datatype label_error =
    LengthOutOfRange nat nat
  | LabelInvalidChar string
  | LabelTooMany nat nat
  | LabelDuplicate string

definition max_label_len :: nat where "max_label_len = 32"
definition card_max_labels :: nat where "card_max_labels = 10"
definition board_max_labels :: nat where "board_max_labels = 20"
definition user_max_labels :: nat where "user_max_labels = 20"
definition flow_node_max_labels :: nat where "flow_node_max_labels = 10"

definition label_char :: "char \<Rightarrow> bool" where
  "label_char c \<longleftrightarrow> is_lower c \<or> is_digit c \<or> c = CHR ''-'' \<or> c = CHR ''_''"

definition validate_label :: "string \<Rightarrow> label_error + unit" where
  "validate_label label =
     (if label = [] \<or> length label > max_label_len
      then Inl (LengthOutOfRange (length label) max_label_len)
      else case bad_char label_char label of
        Some ch \<Rightarrow> Inl (LabelInvalidChar ch)
      | None \<Rightarrow> Inr ())"

text \<open>The loop of \<^verbatim>\<open>validate_labels\<close>; \<open>seen\<close> is the set of labels already inserted.\<close>

fun validate_labels_loop :: "string list \<Rightarrow> string list \<Rightarrow> label_error + unit" where
  "validate_labels_loop seen [] = Inr ()"
| "validate_labels_loop seen (l # ls) =
     andThen (validate_label l)
       (\<lambda>_. if l \<in> set seen then Inl (LabelDuplicate l) else validate_labels_loop (l # seen) ls)"

definition validate_labels :: "string list \<Rightarrow> nat \<Rightarrow> label_error + unit" where
  "validate_labels labels max_count =
     (if length labels > max_count then Inl (LabelTooMany (length labels) max_count)
      else validate_labels_loop [] labels)"

subsection \<open>Compact timestamps\<close>

text \<open>The shape \<^verbatim>\<open>YYYYMMDDTHHmmssZ\<close>, as the byte checks of \<^verbatim>\<open>types/card.rs\<close> and \<^verbatim>\<open>types/board.rs\<close> read it.\<close>

definition compact_timestamp :: "string \<Rightarrow> bool" where
  "compact_timestamp ts \<longleftrightarrow>
     length ts = 16 \<and> ts ! 8 = CHR ''T'' \<and> ts ! 15 = CHR ''Z''
     \<and> list_all is_digit (take 8 ts) \<and> list_all is_digit (take 6 (drop 9 ts))"

subsection \<open>DM file names (dm.rs)\<close>

definition dm_filename :: "handler \<Rightarrow> handler \<Rightarrow> string" where
  "dm_filename a b =
     (let (first, second) = (if as_str a \<le> as_str b then (as_str a, as_str b)
                             else (as_str b, as_str a))
      in first @ ''--'' @ second)"

definition parse_dm_filename :: "string \<Rightarrow> (string \<times> string) option" where
  "parse_dm_filename stem =
     (case find_str ''--'' stem of
        None \<Rightarrow> None
      | Some idx \<Rightarrow>
          (let first = take idx stem; second = drop (idx + 2) stem
           in if first = [] \<or> second = [] then None else Some (first, second)))"

subsection \<open>Repository paths\<close>

text \<open>\<^verbatim>\<open>PathBuf::join\<close>: an absolute argument replaces the path; otherwise one separator is inserted
  unless the path is empty or already ends with one.\<close>

definition path_join :: "string \<Rightarrow> string \<Rightarrow> string" where
  "path_join p q =
     (if starts_with ''/'' q then q
      else if p = [] \<or> ends_with ''/'' p then p @ q
      else p @ ''/'' @ q)"

definition flow_path :: "flow_slug \<Rightarrow> string" where
  "flow_path slug = path_join (path_join ''flows'' (flow_slug_str slug)) ''index.md''"

subsection \<open>What a validated name promises\<close>

definition kebab_wf :: "nat \<Rightarrow> string \<Rightarrow> bool" where
  "kebab_wf n s \<longleftrightarrow> s \<noteq> [] \<and> length s \<le> n \<and> list_all kebab_char s
     \<and> hd s \<noteq> CHR ''-'' \<and> last s \<noteq> CHR ''-'' \<and> \<not> contains_str ''--'' s"

lemma kebab_not_cont: "kebab_char c \<Longrightarrow> \<not> is_cont c"
  by (auto simp: kebab_char_def byte_class)

lemma label_not_cont: "label_char c \<Longrightarrow> \<not> is_cont c"
  by (auto simp: label_char_def byte_class)

lemmas bad_kebab = bad_char_ascii [of kebab_char, OF kebab_not_cont]
lemmas bad_label = bad_char_ascii [of label_char, OF label_not_cont]

lemma bad_kebab_Some: "bad_char kebab_char s = Some ch \<Longrightarrow> \<not> list_all kebab_char s"
  using bad_kebab [of s] by auto

lemma bad_label_Some: "bad_char label_char s = Some ch \<Longrightarrow> \<not> list_all label_char s"
  using bad_label [of s] by auto

lemma starts_with_hd: "starts_with [c] s \<longleftrightarrow> s \<noteq> [] \<and> hd s = c"
  by (cases s) (auto simp: starts_with_iff)

lemma ends_with_last: "ends_with [c] s \<longleftrightarrow> s \<noteq> [] \<and> last s = c"
  by (metis append_butlast_last_id append_is_Nil_conv ends_with_iff last_snoc not_Cons_self2)

lemma handler_new_Inr: "handler_new s = Inr h \<longleftrightarrow> h = Handler s \<and> kebab_wf 39 s \<and> s \<noteq> ''system''"
  by (auto simp: handler_new_def kebab_wf_def bad_kebab starts_with_hd ends_with_last
      dest: bad_kebab_Some split: option.splits if_splits)

lemma channel_name_new_Inr: "channel_name_new s = Inr h \<longleftrightarrow> h = ChannelName s \<and> kebab_wf 32 s"
  by (auto simp: channel_name_new_def kebab_wf_def bad_kebab starts_with_hd ends_with_last
      dest: bad_kebab_Some split: option.splits if_splits)

lemma project_slug_new_Inr:
  "project_slug_new s = Inr h \<longleftrightarrow>
     h = ProjectSlug s \<and> kebab_wf 32 s \<and> s \<notin> set reserved_project_slugs"
  by (auto simp: project_slug_new_def kebab_wf_def bad_kebab starts_with_hd ends_with_last
      dest: bad_kebab_Some split: option.splits if_splits)

lemma flow_slug_new_Inr: "flow_slug_new s = Inr h \<longleftrightarrow> h = FlowSlug s \<and> kebab_wf 39 s"
  by (auto simp: flow_slug_new_def kebab_wf_def bad_kebab starts_with_hd ends_with_last
      dest: bad_kebab_Some split: option.splits if_splits)

lemma validate_label_Inr:
  "validate_label s = Inr u \<longleftrightarrow> s \<noteq> [] \<and> length s \<le> 32 \<and> list_all label_char s"
  by (auto simp: validate_label_def max_label_len_def bad_label
      dest: bad_label_Some split: option.splits if_splits)

lemma validate_labels_loop_Inr:
  "validate_labels_loop seen ls = Inr u \<longleftrightarrow>
     (\<forall>l \<in> set ls. validate_label l = Inr ()) \<and> distinct ls \<and> set ls \<inter> set seen = {}"
  by (induction ls arbitrary: seen) auto

lemma validate_labels_Inr:
  "validate_labels ls n = Inr u \<longleftrightarrow>
     length ls \<le> n \<and> (\<forall>l \<in> set ls. validate_label l = Inr ()) \<and> distinct ls"
  by (auto simp: validate_labels_def validate_labels_loop_Inr)

lemma validate_cron_name_Inr:
  "validate_cron_name s = Inr u \<longleftrightarrow>
     s \<noteq> [] \<and> length s \<le> 63 \<and> list_all kebab_char s \<and> hd s \<noteq> CHR ''-''
     \<and> s \<notin> set reserved_cron_names"
proof (cases s)
  case Nil
  then show ?thesis by (simp add: validate_cron_name_def starts_with_def reserved_cron_names_def)
next
  case (Cons c cs)
  obtain g gs where g: "chars s = (c # g) # gs" using chars_ex Cons by blast
  have single: "list_all kebab_char s \<Longrightarrow> g = []"
    using g chars_ascii [of s] kebab_not_cont Cons by (auto simp: list_all_iff)
  have dot: "list_all kebab_char s \<Longrightarrow> c \<noteq> CHR ''.''"
    using Cons by (auto simp: kebab_char_def byte_class)
  show ?thesis
  proof (cases "list_all kebab_char s")
    case True
    then have "bad_char kebab_char s = None" by (simp add: bad_kebab)
    moreover have "kebab_char c" using True Cons by simp
    ultimately show ?thesis
      using Cons g single True dot
      by (auto simp: validate_cron_name_def starts_with_hd ascii_in_def kebab_char_def byte_class)
  next
    case False
    then obtain ch where "bad_char kebab_char s = Some ch" using bad_kebab by fastforce
    then show ?thesis using False g by (auto simp: validate_cron_name_def)
  qed
qed

text \<open>A \<open>path_component\<close> is a predicate on names whose accepted names are single, relative, visible
  components of a path.\<close>

locale path_component =
  fixes accepts :: "string \<Rightarrow> bool" and max_len :: nat
  assumes nonempty: "accepts s \<Longrightarrow> s \<noteq> []"
    and bounded: "accepts s \<Longrightarrow> length s \<le> max_len"
    and charset: "accepts s \<Longrightarrow> list_all label_char s"
begin

lemma no_slash: "accepts s \<Longrightarrow> CHR ''/'' \<notin> set s"
  using charset [of s] by (auto simp: list_all_iff label_char_def byte_class)

lemma no_dot: "accepts s \<Longrightarrow> CHR ''.'' \<notin> set s"
  using charset [of s] by (auto simp: list_all_iff label_char_def byte_class)

lemma join_extends:
  "accepts s \<Longrightarrow> p \<noteq> [] \<Longrightarrow> last p \<noteq> CHR ''/'' \<Longrightarrow> path_join p s = p @ ''/'' @ s"
  using no_slash [of s] nonempty [of s]
  by (cases s) (auto simp: path_join_def starts_with_hd ends_with_last)

lemma file_path:
  assumes "accepts s" "d \<noteq> []" "last d \<noteq> CHR ''/''" "f \<noteq> []" "hd f \<noteq> CHR ''/''"
  shows "path_join (path_join d s) f = d @ ''/'' @ s @ ''/'' @ f"
proof -
  have "last s \<noteq> CHR ''/''" using assms(1) nonempty no_slash last_in_set by metis
  then show ?thesis
    using join_extends [OF assms(1-3)] assms nonempty [of s]
    by (cases f) (auto simp: path_join_def starts_with_hd ends_with_last)
qed

lemma one_component:
  assumes "accepts s" "d \<noteq> []" "CHR ''/'' \<notin> set d" "f \<noteq> []" "CHR ''/'' \<notin> set f"
  shows "split_on CHR ''/'' (path_join (path_join d s) f) = [d, s, f]"
proof -
  have "last d \<noteq> CHR ''/''" "hd f \<noteq> CHR ''/''" using assms(2-5) last_in_set hd_in_set by metis+
  then have "path_join (path_join d s) f = d @ ''/'' @ s @ ''/'' @ f" using file_path assms by blast
  then show ?thesis
    using assms no_slash [of s] by (simp add: split_on_append split_on_notin)
qed

end

text \<open>A \<open>kebab_name\<close> moreover never contains the DM separator, at its ends or inside.\<close>

locale kebab_name =
  fixes accepts :: "string \<Rightarrow> bool" and max_len :: nat
  assumes wf: "accepts s \<Longrightarrow> kebab_wf max_len s"
begin

lemma separator_first:
  assumes "accepts a"
  shows "find_str ''--'' (a @ ''--'' @ b) = Some (length a)"
proof (rule find_strI)
  show "prefix ''--'' (drop (length a) (a @ ''--'' @ b))" by simp
  show "length a \<le> length (a @ ''--'' @ b)" by simp
  fix j assume j: "j < length a"
  show "\<not> prefix ''--'' (drop j (a @ ''--'' @ b))"
  proof
    assume p: "prefix ''--'' (drop j (a @ ''--'' @ b))"
    have wfa: "kebab_wf max_len a" using assms by (rule wf)
    obtain x xs where x: "drop j a = x # xs" using j by (cases "drop j a") auto
    then have xeq: "x = CHR ''-''" using p j by simp
    show False
    proof (cases xs)
      case Nil
      then have "last a = x" using x j by (metis last_drop last_ConsL)
      then show False using wfa xeq by (simp add: kebab_wf_def)
    next
      case (Cons y ys)
      then have "y = CHR ''-''" using p x j by auto
      then have "a = take j a @ ''--'' @ ys" using x xeq Cons by (metis append_Cons append_Nil append_take_drop_id)
      then have "contains_str ''--'' a" unfolding contains_str_iff by blast
      then show False using wfa by (simp add: kebab_wf_def)
    qed
  qed
qed

end

sublocale kebab_name \<subseteq> path_component accepts max_len
proof
  fix s assume "accepts s"
  then have "kebab_wf max_len s" by (rule wf)
  then show "s \<noteq> []" "length s \<le> max_len" "list_all label_char s"
    by (auto simp: kebab_wf_def list_all_iff kebab_char_def label_char_def)
qed

interpretation handler_name: kebab_name "\<lambda>s. is_ok (handler_new s)" 39
  by unfold_locales (auto simp: is_ok_iff handler_new_Inr)

interpretation channel: kebab_name "\<lambda>s. is_ok (channel_name_new s)" 32
  by unfold_locales (auto simp: is_ok_iff channel_name_new_Inr)

interpretation project: kebab_name "\<lambda>s. is_ok (project_slug_new s)" 32
  by unfold_locales (auto simp: is_ok_iff project_slug_new_Inr)

interpretation flow: kebab_name "\<lambda>s. is_ok (flow_slug_new s)" 39
  by unfold_locales (auto simp: is_ok_iff flow_slug_new_Inr)

interpretation cron: path_component "\<lambda>s. is_ok (validate_cron_name s)" 63
  by unfold_locales
    (auto simp: is_ok_iff validate_cron_name_Inr list_all_iff kebab_char_def label_char_def)

interpretation label: path_component "\<lambda>s. is_ok (validate_label s)" 32
  by unfold_locales (auto simp: is_ok_iff validate_label_Inr)

end
