(* ===== verification/External.thy ===== *)
theory External
  imports Names
begin

text \<open>
  Code outside the repository is one record, \<open>ext\<close>, an argument of every definition that reaches
  it: the JSON reader and printer (\<^verbatim>\<open>serde_json\<close>), percent encoding (\<^verbatim>\<open>percent-encoding\<close>), and the two
  Unicode tables consulted for non-ASCII characters (\<open>is_nd\<close> for the class \<^verbatim>\<open>\d\<close> of the regular
  expression library, \<open>is_alnum_u\<close> for \<^verbatim>\<open>char::is_alphanumeric\<close>).  What a property needs to know of
  them is a hypothesis of that property; \<open>percent_codec\<close> is the documented contract of percent
  encoding, and \<open>ref_encode\<close>, \<open>ref_decode\<close> show that it can be met.
\<close>

datatype json =
    JNull
  | JBool bool
  | JNumber string
  | JString string
  | JArray "json list"
  | JObject "(string \<times> json) list"

definition is_object :: "json \<Rightarrow> bool" where
  "is_object j = (case j of JObject _ \<Rightarrow> True | _ \<Rightarrow> False)"

record ext =
  json_from_str :: "string \<Rightarrow> json option"
  json_to_string :: "json \<Rightarrow> string"
  pct_encode :: "(char \<Rightarrow> bool) \<Rightarrow> string \<Rightarrow> string"
  pct_decode :: "string \<Rightarrow> string"
  is_nd :: "string \<Rightarrow> bool"
  is_alnum_u :: "string \<Rightarrow> bool"

subsection \<open>UTF-8\<close>

text \<open>\<^verbatim>\<open>str::from_utf8\<close> accepts exactly the well-formed byte sequences of the Unicode standard.\<close>

definition in_range :: "nat \<Rightarrow> nat \<Rightarrow> char \<Rightarrow> bool" where
  "in_range lo hi c \<longleftrightarrow> lo \<le> byte c \<and> byte c \<le> hi"

definition utf8_char :: "string \<Rightarrow> bool" where
  "utf8_char ch =
     (case ch of
        [a] \<Rightarrow> is_ascii a
      | [a, b] \<Rightarrow> in_range 194 223 a \<and> is_cont b
      | [a, b, c] \<Rightarrow>
          (byte a = 224 \<and> in_range 160 191 b \<or> in_range 225 236 a \<and> is_cont b
           \<or> byte a = 237 \<and> in_range 128 159 b \<or> in_range 238 239 a \<and> is_cont b) \<and> is_cont c
      | [a, b, c, d] \<Rightarrow>
          (byte a = 240 \<and> in_range 144 191 b \<or> in_range 241 243 a \<and> is_cont b
           \<or> byte a = 244 \<and> in_range 128 143 b) \<and> is_cont c \<and> is_cont d
      | _ \<Rightarrow> False)"

definition utf8_valid :: "string \<Rightarrow> bool" where
  "utf8_valid s = list_all utf8_char (chars s)"

text \<open>\<^verbatim>\<open>char::is_control\<close>: the general category Cc.\<close>

definition is_control :: "string \<Rightarrow> bool" where
  "is_control ch =
     (case ch of
        [a] \<Rightarrow> byte a < 32 \<or> byte a = 127
      | [a, b] \<Rightarrow> byte a = 194 \<and> in_range 128 159 b
      | _ \<Rightarrow> False)"

lemma utf8_valid_ascii: "list_all is_ascii s \<Longrightarrow> utf8_valid s"
proof -
  assume a: "list_all is_ascii s"
  then have "chars s = map (\<lambda>c. [c]) s"
    by (intro chars_ascii) (auto simp: list_all_iff byte_class)
  with a show ?thesis by (simp add: utf8_valid_def list_all_iff utf8_char_def)
qed

subsection \<open>Percent encoding\<close>

definition upper_hex :: "nat \<Rightarrow> char" where
  "upper_hex d = (if d < 10 then char_of (48 + d) else char_of (55 + d))"

definition hex_val :: "char \<Rightarrow> nat" where
  "hex_val c = (if is_digit c then byte c - 48
     else if byte c < 97 then byte c - 55 else byte c - 87)"

text \<open>Every percent sign is followed by two hexadecimal digits.\<close>

fun pct_well_formed :: "string \<Rightarrow> bool" where
  "pct_well_formed [] = True"
| "pct_well_formed (c # s) =
     (if c = CHR ''%''
      then (case s of a # b # r \<Rightarrow> is_hexdigit a \<and> is_hexdigit b \<and> pct_well_formed r | _ \<Rightarrow> False)
      else pct_well_formed s)"

text \<open>The documented behaviour of encoding with an ASCII set \<open>S\<close> that contains the percent sign:
  decoding inverts it, the output is well formed, and it consists of ASCII bytes outside \<open>S\<close>,
  percent signs and hexadecimal digits.\<close>

definition percent_codec :: "((char \<Rightarrow> bool) \<Rightarrow> string \<Rightarrow> string) \<Rightarrow> (string \<Rightarrow> string) \<Rightarrow> bool" where
  "percent_codec enc dec \<longleftrightarrow>
     (\<forall>S s. S (CHR ''%'') \<longrightarrow>
        dec (enc S s) = s \<and> pct_well_formed (enc S s)
        \<and> list_all (\<lambda>c. is_ascii c \<and> \<not> S c \<or> c = CHR ''%'' \<or> is_hexdigit c) (enc S s))"

definition ref_encode :: "(char \<Rightarrow> bool) \<Rightarrow> string \<Rightarrow> string" where
  "ref_encode S s =
     concat (map (\<lambda>c. if is_ascii c \<and> \<not> S c then [c]
                      else [CHR ''%'', upper_hex (byte c div 16), upper_hex (byte c mod 16)]) s)"

fun ref_decode :: "string \<Rightarrow> string" where
  "ref_decode [] = []"
| "ref_decode (c # s) =
     (if c = CHR ''%''
      then (case s of
              a # b # r \<Rightarrow>
                (if is_hexdigit a \<and> is_hexdigit b
                 then char_of (16 * hex_val a + hex_val b) # ref_decode r
                 else c # ref_decode s)
            | _ \<Rightarrow> c # ref_decode s)
      else c # ref_decode s)"

lemma byte_less: "byte c < 256"
  by simp

lemma byte_div16: "byte c div 16 < 16"
  using less_mult_imp_div_less [of "byte c" 16 16] byte_less [of c] by simp

lemma upper_hex_digit: "d < 16 \<Longrightarrow> is_hexdigit (upper_hex d)"
  by (auto simp: upper_hex_def byte_class)

lemma hex_val_upper: "d < 16 \<Longrightarrow> hex_val (upper_hex d) = d"
  by (auto simp: upper_hex_def hex_val_def byte_class)

lemma ref_decode_encode: "S (CHR ''%'') \<Longrightarrow> ref_decode (ref_encode S s) = s"
proof (induction s)
  case (Cons c s)
  have "byte c div 16 < 16" "byte c mod 16 < 16" using byte_div16 by auto
  moreover have "char_of (16 * (byte c div 16) + byte c mod 16) = c" by simp
  ultimately show ?case
    using Cons by (auto simp: ref_encode_def upper_hex_digit hex_val_upper)
qed (simp add: ref_encode_def)

lemma ref_encode_well_formed: "S (CHR ''%'') \<Longrightarrow> pct_well_formed (ref_encode S s)"
proof (induction s)
  case (Cons c s)
  have "byte c div 16 < 16" "byte c mod 16 < 16" using byte_div16 by auto
  then show ?case using Cons by (auto simp: ref_encode_def upper_hex_digit)
qed (simp add: ref_encode_def)

lemma ref_percent_codec: "percent_codec ref_encode ref_decode"
proof -
  have "list_all (\<lambda>c. is_ascii c \<and> \<not> S c \<or> c = CHR ''%'' \<or> is_hexdigit c) (ref_encode S s)" for S s
    by (induction s)
      (auto simp: ref_encode_def upper_hex_digit byte_div16)
  then show ?thesis
    by (simp add: percent_codec_def ref_decode_encode ref_encode_well_formed)
qed

text \<open>An instance of the external functions: the empty object is the only JSON text, and no
  non-ASCII character is a digit or alphanumeric.\<close>

definition ref_ext :: ext where
  "ref_ext = \<lparr>json_from_str = (\<lambda>s. if s = ''{}'' then Some (JObject []) else None),
     json_to_string = (\<lambda>_. ''{}''), pct_encode = ref_encode, pct_decode = ref_decode,
     is_nd = (\<lambda>_. False), is_alnum_u = (\<lambda>_. False)\<rparr>"

end
