(* ===== verification/Asset.thy ===== *)
theory Asset
  imports External
begin

text \<open>
  Asset references (\<^verbatim>\<open>crates/gitim-core/src/types/asset.rs\<close>): the canonical textual reference
  \<^verbatim>\<open><^v1/<runtime>/sha256:<hex>?name=..&type=..&size=..[&width=..&height=..]>\<close>, its validation, its
  printer and its reader.
\<close>

definition asset_ref_version :: nat where "asset_ref_version = 1"
definition max_asset_bytes :: nat where "max_asset_bytes = 50 * 1024 * 1024"
definition max_asset_filename_bytes :: nat where "max_asset_filename_bytes = 255"
definition max_asset_media_type_bytes :: nat where "max_asset_media_type_bytes = 127"
definition max_asset_ref_bytes :: nat where "max_asset_ref_bytes = 1024"

definition asset_component_encode_set :: "char \<Rightarrow> bool" where
  "asset_component_encode_set c \<longleftrightarrow>
     byte c < 32 \<or> byte c = 127
     \<or> c \<in> set '' !\"#$%&'' \<or> c = CHR 0x27 \<or> c \<in> set ''()*+,/:;<=>?@[]^{|}'' \<or> c = CHR 0x5C
     \<or> c = CHR 0x60"

datatype asset_ref_error =
    InvalidFormat
  | UnsupportedVersion
  | InvalidOriginRuntimeId
  | InvalidSha256
  | InvalidPercentEncoding
  | InvalidUtf8
  | InvalidQuery
  | InvalidSize
  | EmptyFilename
  | FilenameTooLong
  | UnsafeFilename
  | EmptyMediaType
  | MediaTypeTooLong
  | InvalidMediaType
  | AssetTooLarge
  | IncompleteDimensions
  | InvalidDimensions
  | ReferenceTooLong
  | NonCanonical

record asset_ref =
  asset_version :: nat
  origin_runtime_id :: string
  sha256 :: string
  asset_name :: string
  media_type :: string
  asset_size :: nat
  asset_width :: "nat option"
  asset_height :: "nat option"

definition asset_to_string :: "ext \<Rightarrow> asset_ref \<Rightarrow> string" where
  "asset_to_string E a =
     ''<^v'' @ show_nat (asset_version a) @ ''/'' @ origin_runtime_id a @ ''/sha256:'' @ sha256 a
     @ ''?name='' @ pct_encode E asset_component_encode_set (asset_name a)
     @ ''&type='' @ pct_encode E asset_component_encode_set (media_type a)
     @ ''&size='' @ show_nat (asset_size a)
     @ (case asset_width a of None \<Rightarrow> [] | Some w \<Rightarrow> ''&width='' @ show_nat w)
     @ (case asset_height a of None \<Rightarrow> [] | Some h \<Rightarrow> ''&height='' @ show_nat h)
     @ ''>''"

definition is_canonical_uuid :: "string \<Rightarrow> bool" where
  "is_canonical_uuid value \<longleftrightarrow>
     length value = 36
     \<and> list_all (\<lambda>(index, b). if index \<in> {8, 13, 18, 23} then b = CHR ''-'' else is_hex_lower b)
          (enumerate 0 value)"

definition validate_filename :: "string \<Rightarrow> asset_ref_error + unit" where
  "validate_filename name =
     (if name = [] then Inl EmptyFilename
      else if length name > max_asset_filename_bytes then Inl FilenameTooLong
      else if list_ex (\<lambda>ch. is_control ch \<or> ch = ''/'' \<or> ch = [CHR 0x5C]) (chars name)
      then Inl UnsafeFilename
      else Inr ())"

definition is_media_type_token_byte :: "char \<Rightarrow> bool" where
  "is_media_type_token_byte b \<longleftrightarrow>
     is_lower b \<or> is_digit b \<or> b \<in> set ''!#$%&*+-.^_|~'' \<or> b = CHR 0x27 \<or> b = CHR 0x60"

definition validate_media_type :: "string \<Rightarrow> asset_ref_error + unit" where
  "validate_media_type mt =
     (if mt = [] then Inl EmptyMediaType
      else if length mt > max_asset_media_type_bytes then Inl MediaTypeTooLong
      else case split_once CHR ''/'' mt of
        None \<Rightarrow> Inl InvalidMediaType
      | Some (type_name, subtype) \<Rightarrow>
          if type_name = [] \<or> subtype = [] \<or> \<not> list_all is_media_type_token_byte type_name
             \<or> \<not> list_all is_media_type_token_byte subtype
          then Inl InvalidMediaType else Inr ())"

definition validate_dimensions :: "nat option \<Rightarrow> nat option \<Rightarrow> asset_ref_error + unit" where
  "validate_dimensions w h =
     (case (w, h) of
        (None, None) \<Rightarrow> Inr ()
      | (Some width, Some height) \<Rightarrow>
          if width > 0 \<and> height > 0 then Inr () else Inl InvalidDimensions
      | _ \<Rightarrow> Inl IncompleteDimensions)"

definition asset_validate :: "ext \<Rightarrow> asset_ref \<Rightarrow> asset_ref_error + unit" where
  "asset_validate E a =
     (if asset_version a \<noteq> asset_ref_version then Inl UnsupportedVersion
      else if \<not> is_canonical_uuid (origin_runtime_id a) then Inl InvalidOriginRuntimeId
      else if length (sha256 a) \<noteq> 64 \<or> \<not> list_all is_hex_lower (sha256 a) then Inl InvalidSha256
      else andThen (validate_filename (asset_name a)) (\<lambda>_.
           andThen (validate_media_type (media_type a)) (\<lambda>_.
           if asset_size a > max_asset_bytes then Inl AssetTooLarge
           else andThen (validate_dimensions (asset_width a) (asset_height a)) (\<lambda>_.
                if length (asset_to_string E a) > max_asset_ref_bytes then Inl ReferenceTooLong
                else Inr ()))))"

definition query_value :: "string \<Rightarrow> string \<Rightarrow> asset_ref_error + string" where
  "query_value field pre = ok_or InvalidQuery (strip_prefix pre field)"

fun validate_percent_encoding :: "string \<Rightarrow> asset_ref_error + unit" where
  "validate_percent_encoding [] = Inr ()"
| "validate_percent_encoding (c # s) =
     (if c = CHR ''%''
      then (case s of
              a # b # r \<Rightarrow>
                (if is_hexdigit a \<and> is_hexdigit b then validate_percent_encoding r
                 else Inl InvalidPercentEncoding)
            | _ \<Rightarrow> Inl InvalidPercentEncoding)
      else validate_percent_encoding s)"

definition decode_component :: "ext \<Rightarrow> string \<Rightarrow> asset_ref_error + string" where
  "decode_component E value =
     andThen (validate_percent_encoding value) (\<lambda>_.
       if utf8_valid (pct_decode E value) then Inr (pct_decode E value) else Inl InvalidUtf8)"

definition parse_asset_path :: "string \<Rightarrow> asset_ref_error + nat \<times> string \<times> string" where
  "parse_asset_path path =
     (case split_on CHR ''/'' path of
        [v, origin, digest] \<Rightarrow>
          andThen (ok_or InvalidFormat (parse_uint u8_max v)) (\<lambda>version.
          andThen (ok_or InvalidFormat (strip_prefix ''sha256:'' digest)) (\<lambda>sha.
          Inr (version, origin, sha)))
      | _ \<Rightarrow> Inl InvalidFormat)"

definition parse_dimensions :: "string list \<Rightarrow> asset_ref_error + nat option \<times> nat option" where
  "parse_dimensions qfields =
     (if length qfields = 5 then
        andThen (query_value (qfields ! 3) ''width='') (\<lambda>ws.
        andThen (ok_or InvalidDimensions (parse_uint u32_max ws)) (\<lambda>w.
        andThen (query_value (qfields ! 4) ''height='') (\<lambda>hs.
        andThen (ok_or InvalidDimensions (parse_uint u32_max hs)) (\<lambda>h.
        Inr (Some w, Some h)))))
      else Inr (None, None))"

definition asset_from_str :: "ext \<Rightarrow> string \<Rightarrow> asset_ref_error + asset_ref" where
  "asset_from_str E raw =
     (if length raw > max_asset_ref_bytes then Inl ReferenceTooLong
      else
        andThen (ok_or InvalidFormat
                  (Option.bind (strip_prefix ''<^v'' raw) (strip_suffix ''>''))) (\<lambda>inner.
        andThen (ok_or InvalidFormat (split_once CHR ''?'' inner)) (\<lambda>(path, query).
        andThen (parse_asset_path path) (\<lambda>(version, origin, sha).
        let qfields = split_on CHR ''&'' query in
        if length qfields \<noteq> 3 \<and> length qfields \<noteq> 5 then Inl InvalidQuery
        else
          andThen (query_value (qfields ! 0) ''name='') (\<lambda>encoded_name.
          andThen (query_value (qfields ! 1) ''type='') (\<lambda>encoded_media_type.
          andThen (query_value (qfields ! 2) ''size='') (\<lambda>ss.
          andThen (ok_or InvalidSize (parse_uint u64_max ss)) (\<lambda>size.
          andThen (parse_dimensions qfields) (\<lambda>(width, height).
          andThen (decode_component E encoded_name) (\<lambda>name.
          andThen (decode_component E encoded_media_type) (\<lambda>mt.
          let parsed = \<lparr>asset_version = version, origin_runtime_id = origin, sha256 = sha,
                        asset_name = name, media_type = mt, asset_size = size,
                        asset_width = width, asset_height = height\<rparr>
          in andThen (asset_validate E parsed) (\<lambda>_.
             if asset_to_string E parsed \<noteq> raw then Inl NonCanonical else Inr parsed))))))))))))"

subsection \<open>Reading back a printed reference\<close>

text \<open>What the field types of the Rust struct guarantee of any value: \<^verbatim>\<open>String\<close> is UTF-8 and the
  dimensions are \<^verbatim>\<open>u32\<close>.\<close>

definition asset_typed :: "asset_ref \<Rightarrow> bool" where
  "asset_typed a \<longleftrightarrow> utf8_valid (asset_name a)
     \<and> (\<forall>w. asset_width a = Some w \<longrightarrow> w \<le> u32_max)
     \<and> (\<forall>h. asset_height a = Some h \<longrightarrow> h \<le> u32_max)"

lemma show_nat_notin: "\<not> is_digit c \<Longrightarrow> c \<notin> set (show_nat n)"
  using show_nat_digits [of n] by (auto simp: list_all_iff)

lemma encode_set_members:
  "asset_component_encode_set (CHR ''%'')" "asset_component_encode_set (CHR ''&'')"
  "asset_component_encode_set (CHR ''?'')" "asset_component_encode_set (CHR ''/'')"
  by (simp_all add: asset_component_encode_set_def)

lemma encoded_notin:
  assumes "percent_codec (pct_encode E) (pct_decode E)" and "c = CHR ''&'' \<or> c = CHR ''?'' \<or> c = CHR ''/''"
  shows "c \<notin> set (pct_encode E asset_component_encode_set s)"
proof
  assume "c \<in> set (pct_encode E asset_component_encode_set s)"
  then have "is_ascii c \<and> \<not> asset_component_encode_set c \<or> c = CHR ''%'' \<or> is_hexdigit c"
    using assms(1) encode_set_members(1) by (auto simp: percent_codec_def list_all_iff)
  then show False using assms(2) encode_set_members by (auto simp: byte_class)
qed

lemma validate_percent_iff: "validate_percent_encoding s = Inr () \<longleftrightarrow> pct_well_formed s"
  by (induction s rule: pct_well_formed.induct) (auto split: list.splits)

lemma decode_encoded:
  assumes "percent_codec (pct_encode E) (pct_decode E)" "utf8_valid s"
  shows "decode_component E (pct_encode E asset_component_encode_set s) = Inr s"
  using assms encode_set_members(1)
  by (simp add: decode_component_def percent_codec_def validate_percent_iff)

lemma uuid_notin: "is_canonical_uuid u \<Longrightarrow> c = CHR ''&'' \<or> c = CHR ''?'' \<or> c = CHR ''/'' \<Longrightarrow> c \<notin> set u"
proof
  assume u: "is_canonical_uuid u" and c: "c = CHR ''&'' \<or> c = CHR ''?'' \<or> c = CHR ''/''" and "c \<in> set u"
  then obtain i where "i < length u" "u ! i = c" by (auto simp: in_set_conv_nth)
  then have "(i, c) \<in> set (enumerate 0 u)" by (auto simp: in_set_enumerate_eq)
  then have "if i \<in> {8, 13, 18, 23} then c = CHR ''-'' else is_hex_lower c"
    using u by (auto simp: is_canonical_uuid_def list_all_iff)
  then show False using c by (auto simp: byte_class split: if_splits)
qed

lemma hex_notin:
  "list_all is_hex_lower s \<Longrightarrow> c = CHR ''&'' \<or> c = CHR ''?'' \<or> c = CHR ''/'' \<Longrightarrow> c \<notin> set s"
  by (auto simp: list_all_iff byte_class)

lemma media_type_utf8: "validate_media_type mt = Inr () \<Longrightarrow> utf8_valid mt"
proof -
  assume "validate_media_type mt = Inr ()"
  then obtain a b where "mt = a @ CHR ''/'' # b" "list_all is_media_type_token_byte a"
      "list_all is_media_type_token_byte b"
    by (auto simp: validate_media_type_def split_once_Some split: if_splits option.splits)
  moreover have "is_media_type_token_byte c \<Longrightarrow> is_ascii c" for c
    by (auto simp: is_media_type_token_byte_def byte_class)
  ultimately show ?thesis
    by (intro utf8_valid_ascii) (auto simp: list_all_iff, simp add: byte_class)
qed

lemma parse_asset_path_print:
  assumes "is_canonical_uuid u" "list_all is_hex_lower h" "v \<le> u8_max"
  shows "parse_asset_path (show_nat v @ CHR ''/'' # u @ CHR ''/'' # ''sha256:'' @ h) = Inr (v, u, h)"
proof -
  have "CHR ''/'' \<notin> set (show_nat v)" by (rule show_nat_notin) (simp add: byte_class)
  moreover have "CHR ''/'' \<notin> set u" using assms(1) uuid_notin by blast
  moreover have "CHR ''/'' \<notin> set (''sha256:'' @ h)" using hex_notin [OF assms(2)] by simp
  ultimately have "split_on CHR ''/'' (show_nat v @ CHR ''/'' # u @ CHR ''/'' # ''sha256:'' @ h)
      = [show_nat v, u, ''sha256:'' @ h]"
    by (simp only: split_on_append split_on_notin simp_thms)
  then show ?thesis using assms(3) by (simp add: parse_asset_path_def parse_show_nat)
qed

definition print_dimensions :: "asset_ref \<Rightarrow> string list" where
  "print_dimensions a =
     (case (asset_width a, asset_height a) of
        (Some w, Some h) \<Rightarrow> [''width='' @ show_nat w, ''height='' @ show_nat h]
      | _ \<Rightarrow> [])"

lemma asset_query_fields:
  assumes codec: "percent_codec (pct_encode E) (pct_decode E)"
    and dims: "validate_dimensions (asset_width a) (asset_height a) = Inr ()"
  shows "split_on CHR ''&''
           (''name='' @ pct_encode E asset_component_encode_set (asset_name a)
            @ ''&type='' @ pct_encode E asset_component_encode_set (media_type a)
            @ ''&size='' @ show_nat (asset_size a)
            @ (case asset_width a of None \<Rightarrow> [] | Some w \<Rightarrow> ''&width='' @ show_nat w)
            @ (case asset_height a of None \<Rightarrow> [] | Some h \<Rightarrow> ''&height='' @ show_nat h))
         = [''name='' @ pct_encode E asset_component_encode_set (asset_name a),
            ''type='' @ pct_encode E asset_component_encode_set (media_type a),
            ''size='' @ show_nat (asset_size a)] @ print_dimensions a"
proof -
  let ?enc = "pct_encode E asset_component_encode_set"
  have n: "CHR ''&'' \<notin> set (''name='' @ ?enc s)" for s using encoded_notin [OF codec] by simp
  have t: "CHR ''&'' \<notin> set (''type='' @ ?enc s)" for s using encoded_notin [OF codec] by simp
  have d: "CHR ''&'' \<notin> set (show_nat k)" for k by (rule show_nat_notin) (simp add: byte_class)
  have s: "CHR ''&'' \<notin> set (''size='' @ show_nat k)"
    "CHR ''&'' \<notin> set (''width='' @ show_nat k)"
    "CHR ''&'' \<notin> set (''height='' @ show_nat k)" for k
    using d by simp_all
  have three: "split_on d (x @ d # y @ d # z) = [x, y, z]"
    if "d \<notin> set x" "d \<notin> set y" "d \<notin> set z" for d :: char and x y z
    using that by (simp add: split_on_append split_on_notin)
  have five: "split_on d (x @ d # y @ d # z @ d # v @ d # w) = [x, y, z, v, w]"
    if "d \<notin> set x" "d \<notin> set y" "d \<notin> set z" "d \<notin> set v" "d \<notin> set w" for d :: char and x y z v w
    using that by (simp add: split_on_append split_on_notin)
  show ?thesis
  proof (cases "asset_width a")
    case None
    then have "asset_height a = None"
      using dims by (cases "asset_height a") (auto simp: validate_dimensions_def)
    then show ?thesis
      using three [OF n [of "asset_name a"] t [of "media_type a"] s(1) [of "asset_size a"]] None
      by (simp add: print_dimensions_def)
  next
    case (Some w)
    then obtain h where "asset_height a = Some h"
      using dims by (cases "asset_height a") (auto simp: validate_dimensions_def)
    then show ?thesis
      using five [OF n [of "asset_name a"] t [of "media_type a"] s(1) [of "asset_size a"]
          s(2) [of w] s(3) [of h]] Some
      by (simp add: print_dimensions_def)
  qed
qed

lemma asset_print_shape:
  "asset_to_string E a =
     ''<^v''
     @ ((show_nat (asset_version a) @ CHR ''/'' # origin_runtime_id a @ CHR ''/'' # ''sha256:'' @ sha256 a)
        @ CHR ''?'' # (''name='' @ pct_encode E asset_component_encode_set (asset_name a)
            @ ''&type='' @ pct_encode E asset_component_encode_set (media_type a)
            @ ''&size='' @ show_nat (asset_size a)
            @ (case asset_width a of None \<Rightarrow> [] | Some w \<Rightarrow> ''&width='' @ show_nat w)
            @ (case asset_height a of None \<Rightarrow> [] | Some h \<Rightarrow> ''&height='' @ show_nat h)))
     @ ''>''"
  by (simp add: asset_to_string_def)

lemma asset_validate_Inr:
  "asset_validate E a = Inr () \<longleftrightarrow>
     asset_version a = 1 \<and> is_canonical_uuid (origin_runtime_id a)
     \<and> length (sha256 a) = 64 \<and> list_all is_hex_lower (sha256 a)
     \<and> validate_filename (asset_name a) = Inr () \<and> validate_media_type (media_type a) = Inr ()
     \<and> asset_size a \<le> max_asset_bytes
     \<and> validate_dimensions (asset_width a) (asset_height a) = Inr ()
     \<and> length (asset_to_string E a) \<le> max_asset_ref_bytes"
  by (auto simp: asset_validate_def asset_ref_version_def)

lemma parse_print_dimensions:
  assumes "validate_dimensions (asset_width a) (asset_height a) = Inr ()" "asset_typed a"
  shows "parse_dimensions ([x, y, z] @ print_dimensions a) = Inr (asset_width a, asset_height a)"
  using assms
  by (cases "asset_width a"; cases "asset_height a")
    (auto simp: validate_dimensions_def parse_dimensions_def print_dimensions_def query_value_def
      asset_typed_def parse_show_nat)

text \<open>C23: Asset references round trip: parsing the canonical string of a valid reference gives the
  reference back, percent encoding of name and media type included.\<close>

theorem asset_ref_roundtrip:
  assumes codec: "percent_codec (pct_encode E) (pct_decode E)"
    and valid: "asset_validate E a = Inr ()" and typed: "asset_typed a"
  shows "asset_from_str E (asset_to_string E a) = Inr a"
proof -
  let ?path = "show_nat (asset_version a) @ CHR ''/'' # origin_runtime_id a @ CHR ''/'' # ''sha256:'' @ sha256 a"
  let ?query = "''name='' @ pct_encode E asset_component_encode_set (asset_name a)
            @ ''&type='' @ pct_encode E asset_component_encode_set (media_type a)
            @ ''&size='' @ show_nat (asset_size a)
            @ (case asset_width a of None \<Rightarrow> [] | Some w \<Rightarrow> ''&width='' @ show_nat w)
            @ (case asset_height a of None \<Rightarrow> [] | Some h \<Rightarrow> ''&height='' @ show_nat h)"
  let ?fields = "[''name='' @ pct_encode E asset_component_encode_set (asset_name a),
            ''type='' @ pct_encode E asset_component_encode_set (media_type a),
            ''size='' @ show_nat (asset_size a)] @ print_dimensions a"
  note v = valid [unfolded asset_validate_Inr]
  have "CHR ''?'' \<notin> set (show_nat (asset_version a))" by (rule show_nat_notin) (simp add: byte_class)
  then have q: "CHR ''?'' \<notin> set ?path" using v uuid_notin hex_notin by simp
  have once: "split_once CHR ''?'' (?path @ CHR ''?'' # ?query) = Some (?path, ?query)"
    unfolding split_once_Some using q by simp
  have inner: "Option.bind (strip_prefix ''<^v'' (asset_to_string E a)) (strip_suffix ''>'')
      = Some (?path @ CHR ''?'' # ?query)"
    unfolding bind_eq_Some_conv strip_prefix_Some strip_suffix_Some asset_print_shape by simp
  have path: "parse_asset_path ?path = Inr (asset_version a, origin_runtime_id a, sha256 a)"
    using v by (intro parse_asset_path_print) auto
  have qfields: "split_on CHR ''&'' ?query = ?fields"
    using codec v by (intro asset_query_fields) auto
  have size: "parse_uint u64_max (show_nat (asset_size a)) = Some (asset_size a)"
    using v by (intro parse_show_nat) (simp add: max_asset_bytes_def)
  have dims: "parse_dimensions ?fields = Inr (asset_width a, asset_height a)"
    using v typed by (intro parse_print_dimensions) auto
  have name: "decode_component E (pct_encode E asset_component_encode_set (asset_name a)) = Inr (asset_name a)"
    using codec typed by (intro decode_encoded) (auto simp: asset_typed_def)
  have mt: "decode_component E (pct_encode E asset_component_encode_set (media_type a)) = Inr (media_type a)"
    using codec v media_type_utf8 by (intro decode_encoded) auto
  have len: "length ?fields = 3 \<or> length ?fields = 5"
    by (auto simp: print_dimensions_def split: option.splits)
  have nths: "query_value (?fields ! 0) ''name='' = Inr (pct_encode E asset_component_encode_set (asset_name a))"
    "query_value (?fields ! 1) ''type='' = Inr (pct_encode E asset_component_encode_set (media_type a))"
    "query_value (?fields ! 2) ''size='' = Inr (show_nat (asset_size a))"
    by (simp_all add: query_value_def)
  have short: "\<not> length (asset_to_string E a) > max_asset_ref_bytes"
    and fine: "\<not> (length ?fields \<noteq> 3 \<and> length ?fields \<noteq> 5)" using v len by auto
  have eta: "\<lparr>asset_version = asset_version a, origin_runtime_id = origin_runtime_id a, sha256 = sha256 a,
      asset_name = asset_name a, media_type = media_type a, asset_size = asset_size a,
      asset_width = asset_width a, asset_height = asset_height a\<rparr> = a" by simp
  show ?thesis
    unfolding asset_from_str_def
    by (simp only: inner ok_or_Some andThen.simps once prod.case path Let_def qfields short fine
        if_False nths size dims name mt eta valid simp_thms)
qed

definition demo_asset :: asset_ref where
  "demo_asset = \<lparr>asset_version = 1, origin_runtime_id = ''01234567-89ab-4def-8123-456789abcdef'',
     sha256 = replicate 64 (CHR ''a''), asset_name = ''a b.png'', media_type = ''image/png'', asset_size = 12,
     asset_width = Some 3, asset_height = Some 4\<rparr>"

theorem asset_ref_roundtrip_witness:
  "asset_from_str ref_ext (asset_to_string ref_ext demo_asset) = Inr demo_asset"
proof -
  have codec: "percent_codec (pct_encode ref_ext) (pct_decode ref_ext)"
    by (simp add: ref_ext_def ref_percent_codec)
  have "is_canonical_uuid (origin_runtime_id demo_asset)" "list_all is_hex_lower (sha256 demo_asset)"
    "length (asset_to_string ref_ext demo_asset) \<le> max_asset_ref_bytes"
    "validate_filename (asset_name demo_asset) = Inr ()" "validate_media_type (media_type demo_asset) = Inr ()"
    by code_simp+
  then have "asset_validate ref_ext demo_asset = Inr ()"
    unfolding asset_validate_Inr
    by (simp add: demo_asset_def asset_ref_version_def validate_dimensions_def max_asset_bytes_def)
  moreover have "asset_typed demo_asset"
    by (simp add: asset_typed_def demo_asset_def) code_simp
  ultimately show ?thesis by (intro asset_ref_roundtrip codec)
qed

end
