(* ===== verification/Thread_Format.thy ===== *)
theory Thread_Format
  imports Asset "HOL-Library.Monad_Syntax"
begin

text \<open>
  The thread file format: entries (\<^verbatim>\<open>types/message.rs\<close>, \<^verbatim>\<open>types/link.rs\<close>), the formatter
  (\<^verbatim>\<open>formatter.rs\<close>), protocol mentions (\<^verbatim>\<open>mention.rs\<close>) and the line grammar of the parser
  (\<^verbatim>\<open>parser.rs\<close>).  Each regular expression of the sources is a deterministic matcher: in all of
  them a repeated class is followed by a literal outside the class, so greedy matching never has
  to backtrack.
\<close>

subsection \<open>Entries (types/message.rs)\<close>

datatype link_kind =
    LinkChannel string
  | LinkMessage string nat
  | LinkCard string string "nat option" "string option"
  | LinkQuickSession string "nat option"
  | LinkUserProfile handler
  | LinkSoftlink string "string option"
  | LinkAsset asset_ref

record link =
  link_kind :: link_kind
  link_raw :: string

record message =
  msg_line_number :: nat
  msg_point_to :: nat
  msg_author :: handler
  msg_timestamp :: string
  msg_body :: string
  msg_mentions :: "handler list"
  msg_links :: "link list"

record channel_event =
  ev_line_number :: nat
  ev_point_to :: nat
  ev_author :: handler
  ev_timestamp :: string
  ev_event_type :: string
  ev_meta :: json

datatype thread_entry = EMessage message | EEvent channel_event

fun entry_line_number :: "thread_entry \<Rightarrow> nat" where
  "entry_line_number (EMessage m) = msg_line_number m"
| "entry_line_number (EEvent e) = ev_line_number e"

fun entry_author :: "thread_entry \<Rightarrow> handler" where
  "entry_author (EMessage m) = msg_author m"
| "entry_author (EEvent e) = ev_author e"

fun entry_timestamp :: "thread_entry \<Rightarrow> string" where
  "entry_timestamp (EMessage m) = msg_timestamp m"
| "entry_timestamp (EEvent e) = ev_timestamp e"

fun entry_point_to :: "thread_entry \<Rightarrow> nat" where
  "entry_point_to (EMessage m) = msg_point_to m"
| "entry_point_to (EEvent e) = ev_point_to e"

record thread_file =
  entries :: "thread_entry list"

definition messages :: "thread_file \<Rightarrow> message list" where
  "messages f = List.map_filter (\<lambda>e. case e of EMessage m \<Rightarrow> Some m | EEvent _ \<Rightarrow> None) (entries f)"

definition events :: "thread_file \<Rightarrow> channel_event list" where
  "events f = List.map_filter (\<lambda>e. case e of EMessage _ \<Rightarrow> None | EEvent ev \<Rightarrow> Some ev) (entries f)"

definition last_line_number :: "thread_file \<Rightarrow> nat" where
  "last_line_number f = (if entries f = [] then 0 else entry_line_number (last (entries f)))"

subsection \<open>Matching digits\<close>

definition digit_ch :: "ext \<Rightarrow> string \<Rightarrow> bool" where
  "digit_ch E ch = (case ch of [c] \<Rightarrow> is_digit c | _ \<Rightarrow> is_nd E ch)"

text \<open>\<^verbatim>\<open>\d{n,}\<close> and \<^verbatim>\<open>\d{n}\<close>: the matched text and the rest.\<close>

definition re_digits_min :: "ext \<Rightarrow> nat \<Rightarrow> string \<Rightarrow> (string \<times> string) option" where
  "re_digits_min E n s =
     (let cs = chars s; ds = takeWhile (digit_ch E) cs
      in if n \<le> length ds then Some (concat ds, concat (dropWhile (digit_ch E) cs)) else None)"

definition re_digits_exact :: "ext \<Rightarrow> nat \<Rightarrow> string \<Rightarrow> (string \<times> string) option" where
  "re_digits_exact E n s =
     (let cs = chars s; ds = take n cs
      in if length ds = n \<and> list_all (digit_ch E) ds
         then Some (concat ds, concat (drop n cs)) else None)"

text \<open>\<^verbatim>\<open>[class]+\<close> for a class of ASCII characters.\<close>

definition re_plus :: "(char \<Rightarrow> bool) \<Rightarrow> string \<Rightarrow> (string \<times> string) option" where
  "re_plus P s = (let w = takeWhile P s in if w = [] then None else Some (w, dropWhile P s))"

subsection \<open>The formatter (formatter.rs)\<close>

text \<open>\<^verbatim>\<open>MSG_PREFIX_RE\<close>: a line that would read as the start of an entry.\<close>

definition msg_prefix_re :: "ext \<Rightarrow> string \<Rightarrow> bool" where
  "msg_prefix_re E line =
     (case Option.bind (strip_prefix ''[L'' line) (re_digits_min E 6) of
        Some (_, rest) \<Rightarrow> starts_with '']'' rest
      | None \<Rightarrow> False)"

definition format_width :: "nat \<Rightarrow> nat" where
  "format_width n = max (length (show_nat n)) 6"

definition format_header :: "nat \<Rightarrow> nat \<Rightarrow> handler \<Rightarrow> string \<Rightarrow> string" where
  "format_header line_number point_to author timestamp =
     (let width = format_width line_number
      in ''[L'' @ pad0 width (show_nat line_number) @ ''][P'' @ pad0 width (show_nat point_to)
         @ ''][@'' @ as_str author @ '']['' @ timestamp @ '']'')"

definition escape_line :: "ext \<Rightarrow> string \<Rightarrow> string" where
  "escape_line E line = (if msg_prefix_re E line then '' '' @ line else line)"

definition format_message :: "ext \<Rightarrow> nat \<Rightarrow> nat \<Rightarrow> handler \<Rightarrow> string \<Rightarrow> string \<Rightarrow> string" where
  "format_message E line_number point_to author timestamp body =
     format_header line_number point_to author timestamp @ '' ''
     @ (case lines body of
          [] \<Rightarrow> [newline]
        | first # rest \<Rightarrow>
            first @ [newline] @ concat (map (\<lambda>l. escape_line E l @ [newline]) rest))"

definition format_event :: "ext \<Rightarrow> nat \<Rightarrow> handler \<Rightarrow> string \<Rightarrow> string \<Rightarrow> json \<Rightarrow> string" where
  "format_event E line_number author timestamp event_type meta =
     format_header line_number 0 author timestamp @ ''[E:'' @ event_type @ ''] ''
     @ json_to_string E meta @ [newline]"

subsection \<open>Mentions (mention.rs)\<close>

text \<open>\<^verbatim>\<open>MENTION_RE\<close> at the head of a string: the captured name and what follows the match.\<close>

definition mention_at :: "string \<Rightarrow> (string \<times> string) option" where
  "mention_at s =
     do { t \<leftarrow> strip_prefix ''<@'' s;
          (raw, rest) \<leftarrow> re_plus kebab_char t;
          rest' \<leftarrow> strip_prefix ''>'' rest;
          if hd raw = CHR ''-'' \<or> last raw = CHR ''-'' then None else Some (raw, rest') }"

lemma re_plus_Some: "re_plus P s = Some (w, r) \<longleftrightarrow> w \<noteq> [] \<and> w = takeWhile P s \<and> r = dropWhile P s"
  by (auto simp: re_plus_def Let_def)

lemma re_plus_append: "re_plus P s = Some (w, r) \<Longrightarrow> s = w @ r"
  by (simp add: re_plus_Some)

lemma mention_at_shape: "mention_at s = Some (raw, rest) \<Longrightarrow> s = ''<@'' @ raw @ ''>'' @ rest"
  by (auto simp: mention_at_def bind_eq_Some_conv split: if_splits dest: re_plus_append)

text \<open>\<^verbatim>\<open>captures_iter\<close>: leftmost, non-overlapping matches.\<close>

function scan_mentions :: "string \<Rightarrow> string list" where
  "scan_mentions [] = []"
| "scan_mentions (c # s) =
     (case mention_at (c # s) of
        Some (raw, rest) \<Rightarrow> raw # scan_mentions rest
      | None \<Rightarrow> scan_mentions s)"
  by pat_completeness auto
termination
proof (relation "measure length")
  fix c s x raw rest
  assume "mention_at (c # s) = Some x" "(raw, rest) = x"
  then have "c # s = ''<@'' @ raw @ ''>'' @ rest" using mention_at_shape by blast
  then have "length (c # s) = length (''<@'' @ raw @ ''>'' @ rest)" by simp
  then show "(rest, c # s) \<in> measure length" by simp
qed simp_all

fun dedup_mentions :: "string list \<Rightarrow> string list \<Rightarrow> handler list" where
  "dedup_mentions seen [] = []"
| "dedup_mentions seen (raw # raws) =
     (if raw \<in> set seen then dedup_mentions seen raws
      else case handler_new raw of
        Inr h \<Rightarrow> h # dedup_mentions (raw # seen) raws
      | Inl _ \<Rightarrow> dedup_mentions seen raws)"

definition extract_mentions :: "string \<Rightarrow> handler list" where
  "extract_mentions body = dedup_mentions [] (scan_mentions body)"

subsection \<open>The line grammar of the parser (parser.rs)\<close>

definition event_char :: "char \<Rightarrow> bool" where
  "event_char c \<longleftrightarrow> is_lower c \<or> is_digit c \<or> c = CHR ''_'' \<or> c = CHR ''-''"

text \<open>The optional group \<^verbatim>\<open>(?:\[E:([a-z][a-z0-9_-]*)\])?\<close>.\<close>

definition re_event :: "string \<Rightarrow> (string \<times> string) option" where
  "re_event s =
     do { t \<leftarrow> strip_prefix ''[E:'' s;
          (name, rest) \<leftarrow> re_plus event_char t;
          rest' \<leftarrow> strip_prefix '']'' rest;
          if is_lower (hd name) then Some (name, rest') else None }"

record caps =
  cap_line :: string
  cap_point :: string
  cap_handler :: string
  cap_time :: string
  cap_event :: "string option"
  cap_body :: string

text \<open>\<^verbatim>\<open>MSG_RE\<close>.\<close>

definition msg_re :: "ext \<Rightarrow> string \<Rightarrow> caps option" where
  "msg_re E line =
     do { s \<leftarrow> strip_prefix ''[L'' line;
          (l, s) \<leftarrow> re_digits_min E 6 s;
          s \<leftarrow> strip_prefix ''][P'' s;
          (p, s) \<leftarrow> re_digits_min E 6 s;
          s \<leftarrow> strip_prefix ''][@'' s;
          (h, s) \<leftarrow> re_plus kebab_char s;
          s \<leftarrow> strip_prefix ''][''  s;
          (d, s) \<leftarrow> re_digits_exact E 8 s;
          s \<leftarrow> strip_prefix ''T'' s;
          (t, s) \<leftarrow> re_digits_exact E 6 s;
          s \<leftarrow> strip_prefix ''Z]'' s;
          (ev, s) \<leftarrow> Some (case re_event s of Some (n, s') \<Rightarrow> (Some n, s') | None \<Rightarrow> (None, s));
          b \<leftarrow> strip_prefix '' '' s;
          if b = [] \<or> newline \<in> set b then None
          else Some \<lparr>cap_line = l, cap_point = p, cap_handler = h, cap_time = d @ ''T'' @ t @ ''Z'',
                     cap_event = ev, cap_body = b\<rparr> }"

subsection \<open>What a mention is\<close>

lemma scan_mentions_sound: "raw \<in> set (scan_mentions s) \<Longrightarrow> contains_str (''<@'' @ raw @ ''>'') s"
proof (induction s rule: scan_mentions.induct)
  case (2 c s)
  show ?case
  proof (cases "mention_at (c # s)")
    case None
    then have "contains_str (''<@'' @ raw @ ''>'') s" using 2 by simp
    then show ?thesis unfolding contains_str_iff by (metis append_Cons)
  next
    case (Some p)
    obtain r rest where p: "p = (r, rest)" by fastforce
    have shape: "c # s = ''<@'' @ r @ ''>'' @ rest" using mention_at_shape Some p by blast
    consider "raw = r" | "raw \<in> set (scan_mentions rest)" using 2(3) Some p by auto
    then show ?thesis
    proof cases
      case 1
      have "c # s = [] @ (''<@'' @ raw @ ''>'') @ rest" using shape 1 by simp
      then show ?thesis unfolding contains_str_iff by blast
    next
      case 2
      then obtain a b where "rest = a @ (''<@'' @ raw @ ''>'') @ b"
        using "2.IH"(2) [OF Some p [symmetric]] unfolding contains_str_iff by blast
      then have "c # s = (''<@'' @ r @ ''>'' @ a) @ (''<@'' @ raw @ ''>'') @ b" using shape by simp
      then show ?thesis unfolding contains_str_iff by blast
    qed
  qed
qed simp

lemma handler_new_Inl: "handler_new s = Inl e \<Longrightarrow> handler_new s \<noteq> Inr h"
  by simp

lemma dedup_mentions_iff:
  "set (dedup_mentions seen raws) = {h. handler_new (as_str h) = Inr h \<and> as_str h \<in> set raws - set seen}"
  by (induction seen raws rule: dedup_mentions.induct)
    (auto dest: handler_new_Inl simp: handler_new_Inr split: sum.splits)

lemma dedup_mentions_distinct: "distinct (dedup_mentions seen raws)"
  by (induction seen raws rule: dedup_mentions.induct)
    (auto simp: dedup_mentions_iff handler_new_Inr split: sum.splits)

text \<open>The mentions of a body are distinct valid handlers, each written as \<^verbatim>\<open><@handler>\<close> in the body;
  and every scanned name that is a valid handler is among them.\<close>

theorem extract_mentions_sound:
  "distinct (extract_mentions body)
   \<and> set (extract_mentions body)
     = {h. handler_new (as_str h) = Inr h \<and> as_str h \<in> set (scan_mentions body)}
   \<and> set (extract_mentions body) \<subseteq> {h. contains_str (''<@'' @ as_str h @ ''>'') body}"
  using scan_mentions_sound
  by (auto simp: extract_mentions_def dedup_mentions_distinct dedup_mentions_iff)

end
