(* ===== verification/Card_Meta.thy ===== *)
theory Card_Meta
  imports Names
begin

text \<open>
  Kanban card metadata (\<^verbatim>\<open>crates/gitim-core/src/types/card.rs\<close>): statuses, card ids and the validation
  every reader and writer of a card file goes through.  The YAML reader and printer are parameters.
\<close>

datatype card_error =
    InvalidStatus string
  | CardIdLengthOutOfRange nat nat
  | InvalidCardIdChar string
  | CardEmptyTitle
  | CardInvalidChannel string
  | CardInvalidHandler string
  | CardInvalidTimestamp string
  | CardLabel label_error

datatype card_status = Todo | Doing | Done

datatype archived_via = ViaChannel | ViaManual

fun card_status_str :: "card_status \<Rightarrow> string" where
  "card_status_str Todo = ''todo''"
| "card_status_str Doing = ''doing''"
| "card_status_str Done = ''done''"

definition card_status_parse :: "string \<Rightarrow> card_error + card_status" where
  "card_status_parse s =
     (if s = ''todo'' then Inr Todo
      else if s = ''doing'' then Inr Doing
      else if s = ''done'' then Inr Done
      else Inl (InvalidStatus s))"

record card_meta =
  card_title :: string
  card_channel :: string
  card_status :: card_status
  card_labels :: "string list"
  card_assignee :: "string option"
  card_created_by :: string
  card_created_at :: string
  card_updated_at :: string
  card_archived_via :: "archived_via option"

definition max_card_id_len :: nat where "max_card_id_len = 20"

definition card_id_char :: "char \<Rightarrow> bool" where
  "card_id_char c \<longleftrightarrow> is_hex_lower c \<or> c = CHR ''-''"

definition validate_card_id :: "string \<Rightarrow> card_error + unit" where
  "validate_card_id card_id =
     (if card_id = [] \<or> length card_id > max_card_id_len
      then Inl (CardIdLengthOutOfRange (length card_id) max_card_id_len)
      else case bad_char card_id_char card_id of
        Some ch \<Rightarrow> Inl (InvalidCardIdChar ch)
      | None \<Rightarrow> Inr ())"

definition card_validate_timestamp :: "string \<Rightarrow> card_error + unit" where
  "card_validate_timestamp ts = fail_if (\<not> compact_timestamp ts) (CardInvalidTimestamp ts)"

definition check_card_handler :: "string \<Rightarrow> card_error + unit" where
  "check_card_handler s =
     discard (map_err (\<lambda>e. CardInvalidHandler (show_handler_error e)) (handler_new s))"

definition validate_card_meta :: "card_meta \<Rightarrow> card_error + unit" where
  "validate_card_meta m =
     run_checks
       [fail_if (trim (card_title m) = []) CardEmptyTitle,
        discard (map_err (\<lambda>e. CardInvalidChannel (show_channel_name_error e))
          (channel_name_new (card_channel m))),
        check_card_handler (card_created_by m),
        (case card_assignee m of None \<Rightarrow> Inr () | Some a \<Rightarrow> check_card_handler a),
        map_err CardLabel (validate_labels (card_labels m) card_max_labels),
        card_validate_timestamp (card_created_at m),
        card_validate_timestamp (card_updated_at m)]"

datatype card_yaml_error = CardYaml | CardInvalid card_error

definition parse_card_meta_yaml ::
  "(string \<Rightarrow> card_meta option) \<Rightarrow> string \<Rightarrow> card_yaml_error + card_meta" where
  "parse_card_meta_yaml from_yaml yaml =
     andThen (ok_or CardYaml (from_yaml yaml)) (\<lambda>m.
     andThen (map_err CardInvalid (validate_card_meta m)) (\<lambda>_. Inr m))"

definition stringify_card_meta_yaml ::
  "(card_meta \<Rightarrow> string option) \<Rightarrow> card_meta \<Rightarrow> card_yaml_error + string" where
  "stringify_card_meta_yaml to_yaml m =
     andThen (map_err CardInvalid (validate_card_meta m)) (\<lambda>_. ok_or CardYaml (to_yaml m))"

lemma card_id_not_cont: "card_id_char c \<Longrightarrow> \<not> is_cont c"
  by (auto simp: card_id_char_def byte_class)

lemmas bad_card_id = bad_char_ascii [of card_id_char, OF card_id_not_cont]

lemma validate_card_id_Inr:
  "validate_card_id s = Inr u \<longleftrightarrow> s \<noteq> [] \<and> length s \<le> 20 \<and> list_all card_id_char s"
proof (cases "bad_char card_id_char s")
  case None
  then show ?thesis using bad_card_id [of s] by (auto simp: validate_card_id_def max_card_id_len_def)
next
  case (Some ch)
  then show ?thesis using bad_card_id [of s] by (auto simp: validate_card_id_def max_card_id_len_def)
qed

interpretation card_id: path_component "\<lambda>s. is_ok (validate_card_id s)" 20
proof
  fix s assume "is_ok (validate_card_id s)"
  then have v: "s \<noteq> [] \<and> length s \<le> 20 \<and> list_all card_id_char s"
    by (auto simp: is_ok_iff validate_card_id_Inr)
  show "s \<noteq> []" "length s \<le> 20" using v by auto
  show "list_all label_char s"
    using v by (auto simp: list_all_iff card_id_char_def label_char_def byte_class)
qed

end
