(* ===== verification/Quick_Session.thy ===== *)
theory Quick_Session
  imports Names
begin

text \<open>
  Quick sessions (\<^verbatim>\<open>crates/gitim-core/src/types/quick_session.rs\<close>): the metadata record, its
  validation, and the transition machine by which a human creator and an agent advance a session.
  Line numbers and the revision are \<^verbatim>\<open>u64\<close> values as natural numbers; the one addition on them is the
  checked increment of the revision.
\<close>

definition quick_session_id_prefix :: string where "quick_session_id_prefix = ''qs-''"
definition quick_session_attempt_id_prefix :: string where
  "quick_session_attempt_id_prefix = ''qa-''"
definition quick_session_title_max_chars :: nat where "quick_session_title_max_chars = 80"
definition quick_session_summary_max_chars :: nat where "quick_session_summary_max_chars = 4000"
definition quick_session_preview_max_chars :: nat where "quick_session_preview_max_chars = 160"
definition opaque_id_chars :: nat where "opaque_id_chars = 26"

datatype quick_session_error =
    InvalidSessionId
  | InvalidAttemptId
  | EmptyTitle
  | TitleTooLong
  | EmptySummary
  | SummaryTooLong
  | UnauthorizedActor
  | InvalidState
  | StaleAttempt
  | StaleInputLine
  | InputLineMismatch
  | TitleRequired
  | InvalidLineNumber
  | EmptyError
  | InvalidMeta string

datatype quick_session_status = NeedsTitle | Running | Active | SessionError | Archived

record quick_session_meta =
  qs_id :: string
  qs_title :: "string option"
  qs_agent_id :: string
  qs_created_by :: string
  qs_status :: quick_session_status
  qs_created_at :: string
  qs_updated_at :: string
  qs_archived_at :: "string option"
  qs_archived_from :: "quick_session_status option"
  qs_summary :: "string option"
  qs_summary_updated_at :: "string option"
  qs_last_message_preview :: string
  qs_error :: "string option"
  qs_processing_input_line :: "nat option"
  qs_processing_started_at :: "string option"
  qs_attempt_id :: "string option"
  qs_last_completed_attempt_id :: "string option"
  qs_last_completed_input_line :: "nat option"
  qs_last_completed_line :: "nat option"
  qs_last_failed_attempt_id :: "string option"
  qs_last_human_request_id :: "string option"
  qs_last_human_line :: "nat option"
  qs_revision :: nat

definition quick_session_new :: "string \<Rightarrow> string \<Rightarrow> string \<Rightarrow> string \<Rightarrow> quick_session_meta" where
  "quick_session_new sid agent_id created_by created_at =
     \<lparr>qs_id = sid, qs_title = None, qs_agent_id = agent_id, qs_created_by = created_by,
      qs_status = NeedsTitle, qs_created_at = created_at, qs_updated_at = created_at,
      qs_archived_at = None, qs_archived_from = None, qs_summary = None,
      qs_summary_updated_at = None, qs_last_message_preview = [], qs_error = None,
      qs_processing_input_line = None, qs_processing_started_at = None, qs_attempt_id = None,
      qs_last_completed_attempt_id = None, qs_last_completed_input_line = None,
      qs_last_completed_line = None, qs_last_failed_attempt_id = None,
      qs_last_human_request_id = None, qs_last_human_line = None, qs_revision = 1\<rparr>"

text \<open>The variants keep the field order of the source.\<close>

datatype quick_session_transition =
    HumanMessage string nat "string option" string string
  | Claim string nat string string
  | SetTitle string string string string
  | SetSummary string string string string
  | AgentReply string nat string nat string string
  | MarkError string string string string
  | Archive string string
  | Unarchive string string

datatype transition_outcome = Applied | Duplicate "nat option"

subsection \<open>Validation\<close>

definition opaque_byte :: "char \<Rightarrow> bool" where
  "opaque_byte b \<longleftrightarrow> is_digit b \<or> 65 \<le> byte b \<and> byte b \<le> 72 \<or> b = CHR ''J'' \<or> b = CHR ''K''
     \<or> b = CHR ''M'' \<or> b = CHR ''N'' \<or> 80 \<le> byte b \<and> byte b \<le> 84 \<or> 86 \<le> byte b \<and> byte b \<le> 90"

definition validate_opaque_id :: "string \<Rightarrow> string \<Rightarrow> bool" where
  "validate_opaque_id ident pre =
     (case strip_prefix pre ident of
        None \<Rightarrow> False
      | Some value \<Rightarrow> length value = opaque_id_chars \<and> list_all opaque_byte value)"

definition validate_quick_session_id :: "string \<Rightarrow> quick_session_error + unit" where
  "validate_quick_session_id sid =
     fail_if (\<not> validate_opaque_id sid quick_session_id_prefix) InvalidSessionId"

definition validate_quick_session_attempt_id :: "string \<Rightarrow> quick_session_error + unit" where
  "validate_quick_session_attempt_id aid =
     fail_if (\<not> validate_opaque_id aid quick_session_attempt_id_prefix) InvalidAttemptId"

definition validate_text_limit ::
  "string \<Rightarrow> nat \<Rightarrow> quick_session_error \<Rightarrow> quick_session_error \<Rightarrow> quick_session_error + unit" where
  "validate_text_limit value limit empty_err too_long =
     (if trim value = [] then Inl empty_err
      else if char_count value > limit then Inl too_long
      else Inr ())"

definition validate_quick_session_title :: "string \<Rightarrow> quick_session_error + unit" where
  "validate_quick_session_title title =
     validate_text_limit title quick_session_title_max_chars EmptyTitle TitleTooLong"

definition validate_quick_session_summary :: "string \<Rightarrow> quick_session_error + unit" where
  "validate_quick_session_summary summary =
     validate_text_limit summary quick_session_summary_max_chars EmptySummary SummaryTooLong"

definition truncate_quick_session_preview :: "string \<Rightarrow> string" where
  "truncate_quick_session_preview preview =
     concat (take quick_session_preview_max_chars (chars preview))"

definition require_meta :: "bool \<Rightarrow> string \<Rightarrow> quick_session_error + unit" where
  "require_meta ok message = fail_if (\<not> ok) (InvalidMeta message)"

text \<open>\<^verbatim>\<open>Option::is_none_or\<close>.\<close>

definition is_none_or :: "'a option \<Rightarrow> ('a \<Rightarrow> bool) \<Rightarrow> bool" where
  "is_none_or x P = (case x of None \<Rightarrow> True | Some a \<Rightarrow> P a)"

definition check_some :: "('a \<Rightarrow> 'e + unit) \<Rightarrow> 'a option \<Rightarrow> 'e + unit" where
  "check_some f x = (case x of None \<Rightarrow> Inr () | Some a \<Rightarrow> f a)"

definition validate_summary_pair :: "quick_session_meta \<Rightarrow> quick_session_error + unit" where
  "validate_summary_pair m =
     (case (qs_summary m, qs_summary_updated_at m) of
        (None, None) \<Rightarrow> Inr ()
      | (Some summary, Some _) \<Rightarrow> validate_quick_session_summary summary
      | _ \<Rightarrow> Inl (InvalidMeta ''summary and summary_updated_at must be set together''))"

definition validate_claim :: "quick_session_meta \<Rightarrow> quick_session_error + unit" where
  "validate_claim m =
     (let has_complete_claim = qs_processing_input_line m \<noteq> None
            \<and> qs_processing_started_at m \<noteq> None \<and> qs_attempt_id m \<noteq> None;
          has_any_claim = qs_processing_input_line m \<noteq> None
            \<or> qs_processing_started_at m \<noteq> None \<or> qs_attempt_id m \<noteq> None
      in if qs_status m = Running then
           run_checks
             [require_meta (has_complete_claim \<and> qs_processing_input_line m \<noteq> Some 0)
                ''running status requires a complete claim'',
              check_some validate_quick_session_attempt_id (qs_attempt_id m)]
         else require_meta (\<not> has_any_claim) ''only running status may retain a claim'')"

definition validate_archive :: "quick_session_meta \<Rightarrow> quick_session_error + unit" where
  "validate_archive m =
     (if qs_status m = Archived then
        run_checks
          [require_meta (qs_archived_at m \<noteq> None) ''archived status requires archived_at'',
           (case (qs_archived_from m, qs_title m \<noteq> None) of
              (Some Active, True) \<Rightarrow> Inr ()
            | (Some NeedsTitle, False) \<Rightarrow> Inr ()
            | (Some SessionError, _) \<Rightarrow> Inr ()
            | (None, _) \<Rightarrow> Inl (InvalidMeta ''archived status requires archived_from'')
            | _ \<Rightarrow> Inl (InvalidMeta ''archived_from does not match the stable title state''))]
      else require_meta (qs_archived_at m = None \<and> qs_archived_from m = None)
             ''active metadata cannot retain archive fields'')"

definition validate_title_state :: "quick_session_meta \<Rightarrow> quick_session_error + unit" where
  "validate_title_state m =
     (if qs_status m = NeedsTitle \<and> qs_title m \<noteq> None
      then Inl (InvalidMeta ''needs_title status cannot have a title'')
      else if qs_status m = Active \<and> qs_title m = None
      then Inl (InvalidMeta ''active status requires a title'')
      else Inr ())"

definition requires_error :: "quick_session_meta \<Rightarrow> bool" where
  "requires_error m \<longleftrightarrow> qs_status m = SessionError
     \<or> qs_status m = Archived \<and> qs_archived_from m = Some SessionError"

definition validate_error_state :: "quick_session_meta \<Rightarrow> quick_session_error + unit" where
  "validate_error_state m =
     run_checks
       [require_meta (is_none_or (qs_error m) (\<lambda>e. trim e \<noteq> [])) ''error message cannot be empty'',
        require_meta (\<not> (requires_error m \<and> qs_error m = None))
          ''error state requires an error message'',
        require_meta (\<not> (qs_status m = Running \<and> qs_error m \<noteq> None))
          ''running status cannot retain error diagnostics'',
        require_meta (\<not> (qs_error m \<noteq> None \<and> \<not> requires_error m \<and> qs_last_failed_attempt_id m = None))
          ''actionable error diagnostics require a failed attempt id'']"

definition validate_completion :: "quick_session_meta \<Rightarrow> quick_session_error + unit" where
  "validate_completion m =
     (let completed_count = of_bool (qs_last_completed_attempt_id m \<noteq> None)
            + of_bool (qs_last_completed_input_line m \<noteq> None)
            + of_bool (qs_last_completed_line m \<noteq> None) :: nat
      in andThen
        (require_meta (\<not> (completed_count \<noteq> 0 \<and> completed_count \<noteq> 3))
           ''completion fields must be set together'')
        (\<lambda>_. case (qs_last_completed_attempt_id m, qs_last_completed_input_line m,
                   qs_last_completed_line m) of
           (Some attempt_id, Some input_line, Some output_line) \<Rightarrow>
             run_checks
               [validate_quick_session_attempt_id attempt_id,
                require_meta (\<not> (input_line = 0 \<or> output_line \<le> input_line))
                  ''completion line numbers are invalid'',
                require_meta (\<not> is_none_or (qs_last_human_line m) (\<lambda>h. input_line > h))
                  ''completed input must be a known human line'']
         | _ \<Rightarrow> Inr ()))"

definition validate_human_lines :: "quick_session_meta \<Rightarrow> quick_session_error + unit" where
  "validate_human_lines m =
     run_checks
       [require_meta (qs_last_human_line m \<noteq> Some 0) ''last_human_line must be positive'',
        require_meta (\<not> (qs_last_human_request_id m \<noteq> None \<and> qs_last_human_line m = None))
          ''human request id requires a line number'',
        require_meta
          (is_none_or (qs_processing_input_line m)
             (\<lambda>i. \<not> is_none_or (qs_last_human_line m) (\<lambda>h. i > h)))
          ''processing input must be a known human line'']"

definition validate_failed_attempt :: "quick_session_meta \<Rightarrow> quick_session_error + unit" where
  "validate_failed_attempt m =
     check_some (\<lambda>attempt_id.
        run_checks
          [validate_quick_session_attempt_id attempt_id,
           require_meta (\<not> (qs_error m = None \<or> qs_status m = Running))
             ''failed attempt id requires retained error diagnostics''])
       (qs_last_failed_attempt_id m)"

definition validate_quick_session_meta :: "quick_session_meta \<Rightarrow> quick_session_error + unit" where
  "validate_quick_session_meta m =
     run_checks
       [validate_quick_session_id (qs_id m),
        discard (map_err (\<lambda>e. InvalidMeta (''invalid agent_id: '' @ show_handler_error e))
          (handler_new (qs_agent_id m))),
        discard (map_err (\<lambda>e. InvalidMeta (''invalid created_by: '' @ show_handler_error e))
          (handler_new (qs_created_by m))),
        require_meta (qs_revision m \<noteq> 0) ''revision must be positive'',
        check_some validate_quick_session_title (qs_title m),
        require_meta (\<not> char_count (qs_last_message_preview m) > quick_session_preview_max_chars)
          ''last_message_preview exceeds its limit'',
        validate_summary_pair m,
        validate_claim m,
        validate_archive m,
        validate_title_state m,
        validate_error_state m,
        validate_completion m,
        validate_human_lines m,
        validate_failed_attempt m]"

subsection \<open>Transitions\<close>

definition require_creator :: "quick_session_meta \<Rightarrow> string \<Rightarrow> quick_session_error + unit" where
  "require_creator m actor = fail_if (actor \<noteq> qs_created_by m) UnauthorizedActor"

definition require_agent :: "quick_session_meta \<Rightarrow> string \<Rightarrow> quick_session_error + unit" where
  "require_agent m actor = fail_if (actor \<noteq> qs_agent_id m) UnauthorizedActor"

definition require_attempt :: "quick_session_meta \<Rightarrow> string \<Rightarrow> quick_session_error + unit" where
  "require_attempt m attempt_id =
     andThen (validate_quick_session_attempt_id attempt_id) (\<lambda>_.
       if qs_status m \<noteq> Running then Inl InvalidState
       else if qs_attempt_id m = Some attempt_id then Inr ()
       else Inl StaleAttempt)"

definition title_derived_status :: "quick_session_meta \<Rightarrow> quick_session_status" where
  "title_derived_status m = (if qs_title m \<noteq> None then Active else NeedsTitle)"

definition clear_claim :: "quick_session_meta \<Rightarrow> quick_session_meta" where
  "clear_claim m =
     m\<lparr>qs_processing_input_line := None, qs_processing_started_at := None, qs_attempt_id := None\<rparr>"

definition finish :: "quick_session_meta \<Rightarrow> string \<Rightarrow> quick_session_error + quick_session_meta" where
  "finish m now =
     (if qs_revision m + 1 > u64_max then Inl (InvalidMeta ''revision overflow'')
      else Inr (m\<lparr>qs_updated_at := now, qs_revision := qs_revision m + 1\<rparr>))"

definition applied ::
  "quick_session_error + quick_session_meta \<Rightarrow>
   quick_session_error + transition_outcome \<times> quick_session_meta" where
  "applied r = andThen r (\<lambda>m. Inr (Applied, m))"

definition human_message ::
  "quick_session_meta \<Rightarrow> string \<Rightarrow> nat \<Rightarrow> string option \<Rightarrow> string \<Rightarrow> string \<Rightarrow>
   quick_session_error + transition_outcome \<times> quick_session_meta" where
  "human_message m actor line_number request_id preview now =
     andThen (require_creator m actor) (\<lambda>_.
       if request_id \<noteq> None \<and> qs_last_human_request_id m = request_id
       then Inr (Duplicate (qs_last_human_line m), m)
       else if qs_status m = Archived then Inl InvalidState
       else if line_number = 0 then Inl InvalidLineNumber
       else if \<not> is_none_or (qs_last_human_line m) (\<lambda>h. line_number > h) then Inl StaleInputLine
       else
         let m1 = (if qs_status m = SessionError
                   then m\<lparr>qs_status := title_derived_status m, qs_error := None,
                          qs_last_failed_attempt_id := None\<rparr>
                   else m)
         in applied (finish
              (m1\<lparr>qs_last_human_request_id := request_id, qs_last_human_line := Some line_number,
                  qs_last_message_preview := truncate_quick_session_preview preview\<rparr>) now))"

definition claim ::
  "quick_session_meta \<Rightarrow> string \<Rightarrow> nat \<Rightarrow> string \<Rightarrow> string \<Rightarrow>
   quick_session_error + transition_outcome \<times> quick_session_meta" where
  "claim m actor input_line attempt_id now =
     andThen (require_agent m actor) (\<lambda>_.
     andThen (validate_quick_session_attempt_id attempt_id) (\<lambda>_.
       if qs_status m = Running \<and> qs_processing_input_line m = Some input_line
          \<and> qs_attempt_id m = Some attempt_id
       then Inr (Duplicate None, m)
       else if \<not> (qs_status m = NeedsTitle \<or> qs_status m = Active) then Inl InvalidState
       else if qs_last_human_line m \<noteq> Some input_line then Inl InputLineMismatch
       else if input_line = 0
            \<or> \<not> is_none_or (qs_last_completed_input_line m) (\<lambda>l. input_line > l)
       then Inl StaleInputLine
       else applied (finish
              (m\<lparr>qs_status := Running, qs_processing_input_line := Some input_line,
                 qs_processing_started_at := Some now, qs_attempt_id := Some attempt_id,
                 qs_error := None, qs_last_failed_attempt_id := None\<rparr>) now)))"

definition set_title ::
  "quick_session_meta \<Rightarrow> string \<Rightarrow> string \<Rightarrow> string \<Rightarrow> string \<Rightarrow>
   quick_session_error + transition_outcome \<times> quick_session_meta" where
  "set_title m actor attempt_id raw_title now =
     andThen (require_agent m actor) (\<lambda>_.
     andThen (require_attempt m attempt_id) (\<lambda>_.
       let title = trim raw_title in
       andThen (validate_quick_session_title title) (\<lambda>_.
         if qs_title m = Some title then Inr (Duplicate None, m)
         else applied (finish (m\<lparr>qs_title := Some title\<rparr>) now))))"

definition set_summary ::
  "quick_session_meta \<Rightarrow> string \<Rightarrow> string \<Rightarrow> string \<Rightarrow> string \<Rightarrow>
   quick_session_error + transition_outcome \<times> quick_session_meta" where
  "set_summary m actor attempt_id raw_summary now =
     andThen (require_agent m actor) (\<lambda>_.
     andThen (require_attempt m attempt_id) (\<lambda>_.
       let summary = trim raw_summary in
       andThen (validate_quick_session_summary summary) (\<lambda>_.
         if qs_summary m = Some summary then Inr (Duplicate None, m)
         else applied (finish
                (m\<lparr>qs_summary := Some summary, qs_summary_updated_at := Some now\<rparr>) now))))"

definition agent_reply ::
  "quick_session_meta \<Rightarrow> string \<Rightarrow> nat \<Rightarrow> string \<Rightarrow> nat \<Rightarrow> string \<Rightarrow> string \<Rightarrow>
   quick_session_error + transition_outcome \<times> quick_session_meta" where
  "agent_reply m actor input_line attempt_id output_line preview now =
     andThen (require_agent m actor) (\<lambda>_.
     andThen (validate_quick_session_attempt_id attempt_id) (\<lambda>_.
       if qs_last_completed_attempt_id m = Some attempt_id
       then Inr (Duplicate (qs_last_completed_line m), m)
       else andThen (require_attempt m attempt_id) (\<lambda>_.
         if qs_processing_input_line m \<noteq> Some input_line then Inl InputLineMismatch
         else if qs_title m = None then Inl TitleRequired
         else if output_line \<le> input_line then Inl InvalidLineNumber
         else applied (finish (clear_claim
                (m\<lparr>qs_status := Active, qs_last_completed_attempt_id := Some attempt_id,
                   qs_last_completed_input_line := Some input_line,
                   qs_last_completed_line := Some output_line,
                   qs_last_message_preview := truncate_quick_session_preview preview,
                   qs_error := None, qs_last_failed_attempt_id := None\<rparr>)) now))))"

definition mark_error ::
  "quick_session_meta \<Rightarrow> string \<Rightarrow> string \<Rightarrow> string \<Rightarrow> string \<Rightarrow>
   quick_session_error + transition_outcome \<times> quick_session_meta" where
  "mark_error m actor attempt_id raw_error now =
     andThen (require_agent m actor) (\<lambda>_.
     andThen (validate_quick_session_attempt_id attempt_id) (\<lambda>_.
       if qs_last_failed_attempt_id m = Some attempt_id then Inr (Duplicate None, m)
       else andThen (require_attempt m attempt_id) (\<lambda>_.
         let err = trim raw_error in
         if err = [] then Inl EmptyError
         else andThen (ok_or InvalidState (qs_processing_input_line m)) (\<lambda>claimed_input_line.
           let has_queued_input = \<not> is_none_or (qs_last_human_line m) (\<lambda>h. \<not> h > claimed_input_line)
           in applied (finish (clear_claim
                (m\<lparr>qs_status := (if has_queued_input then title_derived_status m else SessionError),
                   qs_error := Some err, qs_last_failed_attempt_id := Some attempt_id\<rparr>)) now)))))"

definition archive_session ::
  "quick_session_meta \<Rightarrow> string \<Rightarrow> string \<Rightarrow>
   quick_session_error + transition_outcome \<times> quick_session_meta" where
  "archive_session m actor now =
     andThen (require_creator m actor) (\<lambda>_.
       if qs_status m = Archived then Inl InvalidState
       else applied (finish (clear_claim
              (m\<lparr>qs_archived_from :=
                   Some (if qs_status m = Running then title_derived_status m else qs_status m),
                 qs_status := Archived, qs_archived_at := Some now\<rparr>)) now))"

definition unarchive_session ::
  "quick_session_meta \<Rightarrow> string \<Rightarrow> string \<Rightarrow>
   quick_session_error + transition_outcome \<times> quick_session_meta" where
  "unarchive_session m actor now =
     andThen (require_creator m actor) (\<lambda>_.
       if qs_status m \<noteq> Archived then Inl InvalidState
       else
         let status = (case qs_archived_from m of Some s \<Rightarrow> s | None \<Rightarrow> title_derived_status m);
             m1 = m\<lparr>qs_status := status\<rparr>;
             m2 = (if status \<noteq> SessionError
                   then m1\<lparr>qs_error := None, qs_last_failed_attempt_id := None\<rparr> else m1)
         in applied (finish (clear_claim
              (m2\<lparr>qs_archived_at := None, qs_archived_from := None\<rparr>)) now))"

fun apply_transition ::
  "quick_session_meta \<Rightarrow> quick_session_transition \<Rightarrow>
   quick_session_error + transition_outcome \<times> quick_session_meta" where
  "apply_transition m (HumanMessage actor line_number request_id preview now) =
     human_message m actor line_number request_id preview now"
| "apply_transition m (Claim actor input_line attempt_id now) = claim m actor input_line attempt_id now"
| "apply_transition m (SetTitle actor attempt_id title now) = set_title m actor attempt_id title now"
| "apply_transition m (SetSummary actor attempt_id summary now) =
     set_summary m actor attempt_id summary now"
| "apply_transition m (AgentReply actor input_line attempt_id output_line preview now) =
     agent_reply m actor input_line attempt_id output_line preview now"
| "apply_transition m (MarkError actor attempt_id err now) = mark_error m actor attempt_id err now"
| "apply_transition m (Archive actor now) = archive_session m actor now"
| "apply_transition m (Unarchive actor now) = unarchive_session m actor now"

text \<open>The public operation works on a copy and stores it only when the transition was applied and the
  result validates.\<close>

definition apply_quick_session_transition ::
  "quick_session_meta \<Rightarrow> quick_session_transition \<Rightarrow>
   quick_session_error + transition_outcome \<times> quick_session_meta" where
  "apply_quick_session_transition m t =
     andThen (validate_quick_session_meta m) (\<lambda>_.
     andThen (apply_transition m t) (\<lambda>(outcome, next).
       if outcome = Applied
       then andThen (validate_quick_session_meta next) (\<lambda>_. Inr (outcome, next))
       else Inr (outcome, m)))"

subsection \<open>Validity is an invariant of the machine\<close>

abbreviation qs_valid :: "quick_session_meta \<Rightarrow> bool" where
  "qs_valid m \<equiv> validate_quick_session_meta m = Inr ()"

lemma require_meta_Inr [simp]: "require_meta b s = Inr u \<longleftrightarrow> b"
  by (simp add: require_meta_def)

lemma check_some_Inr [simp]: "check_some f x = Inr () \<longleftrightarrow> (\<forall>a. x = Some a \<longrightarrow> f a = Inr ())"
  by (cases x) (auto simp: check_some_def)

lemma is_none_or_simps [simp]: "is_none_or None P" "is_none_or (Some a) P = P a"
  by (simp_all add: is_none_or_def)

lemma qs_valid_iff:
  "qs_valid m \<longleftrightarrow>
     validate_quick_session_id (qs_id m) = Inr ()
     \<and> is_ok (handler_new (qs_agent_id m)) \<and> is_ok (handler_new (qs_created_by m))
     \<and> qs_revision m \<noteq> 0
     \<and> (\<forall>t. qs_title m = Some t \<longrightarrow> validate_quick_session_title t = Inr ())
     \<and> char_count (qs_last_message_preview m) \<le> quick_session_preview_max_chars
     \<and> validate_summary_pair m = Inr () \<and> validate_claim m = Inr () \<and> validate_archive m = Inr ()
     \<and> validate_title_state m = Inr () \<and> validate_error_state m = Inr ()
     \<and> validate_completion m = Inr () \<and> validate_human_lines m = Inr ()
     \<and> validate_failed_attempt m = Inr ()"
  by (auto simp: validate_quick_session_meta_def run_checks_Inr is_ok_iff)

lemma preview_short: "char_count (truncate_quick_session_preview p) \<le> quick_session_preview_max_chars"
  by (simp add: truncate_quick_session_preview_def char_count_def chars_take)

lemma validate_claim_Inr:
  "validate_claim m = Inr () \<longleftrightarrow>
     (if qs_status m = Running
      then \<exists>i s a. qs_processing_input_line m = Some i \<and> i \<noteq> 0 \<and> qs_processing_started_at m = Some s
        \<and> qs_attempt_id m = Some a \<and> validate_quick_session_attempt_id a = Inr ()
      else qs_processing_input_line m = None \<and> qs_processing_started_at m = None
        \<and> qs_attempt_id m = None)"
  by (auto simp: validate_claim_def Let_def)

lemma validate_archive_Inr:
  "validate_archive m = Inr () \<longleftrightarrow>
     (if qs_status m = Archived
      then qs_archived_at m \<noteq> None
        \<and> (qs_archived_from m = Some Active \<and> qs_title m \<noteq> None
           \<or> qs_archived_from m = Some NeedsTitle \<and> qs_title m = None
           \<or> qs_archived_from m = Some SessionError)
      else qs_archived_at m = None \<and> qs_archived_from m = None)"
  by (auto simp: validate_archive_def split: option.splits quick_session_status.splits bool.splits)

lemma validate_title_state_Inr:
  "validate_title_state m = Inr () \<longleftrightarrow>
     (qs_status m = NeedsTitle \<longrightarrow> qs_title m = None) \<and> (qs_status m = Active \<longrightarrow> qs_title m \<noteq> None)"
  by (auto simp: validate_title_state_def)

lemma validate_error_state_Inr:
  "validate_error_state m = Inr () \<longleftrightarrow>
     (\<forall>e. qs_error m = Some e \<longrightarrow> trim e \<noteq> [])
     \<and> (requires_error m \<longrightarrow> qs_error m \<noteq> None) \<and> (qs_status m = Running \<longrightarrow> qs_error m = None)
     \<and> (qs_error m \<noteq> None \<longrightarrow> requires_error m \<or> qs_last_failed_attempt_id m \<noteq> None)"
  by (cases "qs_error m") (auto simp: validate_error_state_def run_checks_Inr)

lemma validate_completion_Inr:
  "validate_completion m = Inr () \<longleftrightarrow>
     qs_last_completed_attempt_id m = None \<and> qs_last_completed_input_line m = None
       \<and> qs_last_completed_line m = None
     \<or> (\<exists>a i out h. qs_last_completed_attempt_id m = Some a \<and> qs_last_completed_input_line m = Some i
          \<and> qs_last_completed_line m = Some out \<and> validate_quick_session_attempt_id a = Inr ()
          \<and> i \<noteq> 0 \<and> i < out \<and> qs_last_human_line m = Some h \<and> i \<le> h)"
  by (cases "qs_last_completed_attempt_id m"; cases "qs_last_completed_input_line m";
      cases "qs_last_completed_line m"; cases "qs_last_human_line m")
    (auto simp: validate_completion_def Let_def)

lemma validate_human_lines_Inr:
  "validate_human_lines m = Inr () \<longleftrightarrow>
     qs_last_human_line m \<noteq> Some 0 \<and> (qs_last_human_request_id m \<noteq> None \<longrightarrow> qs_last_human_line m \<noteq> None)
     \<and> (\<forall>i. qs_processing_input_line m = Some i \<longrightarrow> (\<exists>h. qs_last_human_line m = Some h \<and> i \<le> h))"
  by (cases "qs_processing_input_line m"; cases "qs_last_human_line m")
    (auto simp: validate_human_lines_def)

lemma validate_failed_attempt_Inr:
  "validate_failed_attempt m = Inr () \<longleftrightarrow>
     (\<forall>a. qs_last_failed_attempt_id m = Some a \<longrightarrow>
        validate_quick_session_attempt_id a = Inr () \<and> qs_error m \<noteq> None \<and> qs_status m \<noteq> Running)"
  by (auto simp: validate_failed_attempt_def)

lemma validate_summary_pair_Inr:
  "validate_summary_pair m = Inr () \<longleftrightarrow>
     qs_summary m = None \<and> qs_summary_updated_at m = None
     \<or> (\<exists>s t. qs_summary m = Some s \<and> qs_summary_updated_at m = Some t
          \<and> validate_quick_session_summary s = Inr ())"
  by (auto simp: validate_summary_pair_def split: option.splits)

lemmas qs_parts = qs_valid_iff validate_claim_Inr validate_archive_Inr validate_title_state_Inr
  validate_error_state_Inr validate_completion_Inr validate_human_lines_Inr
  validate_failed_attempt_Inr validate_summary_pair_Inr requires_error_def

lemma finish_Inr:
  "finish m now = Inr m' \<longleftrightarrow>
     qs_revision m < u64_max \<and> m' = m\<lparr>qs_updated_at := now, qs_revision := qs_revision m + 1\<rparr>"
  by (auto simp: finish_def)

lemma applied_Inr: "applied r = Inr (out, m) \<longleftrightarrow> out = Applied \<and> r = Inr m"
  by (auto simp: applied_def)

lemmas qs_steps = applied_Inr finish_Inr require_creator_def require_agent_def require_attempt_def
  clear_claim_def title_derived_status_def Let_def

lemma human_message_valid:
  "qs_valid m \<Longrightarrow> human_message m actor ln rid pv now = Inr (Applied, m') \<Longrightarrow> qs_valid m'"
  by (cases "qs_last_human_line m"; cases "qs_status m = SessionError")
    (auto simp: human_message_def qs_parts qs_steps preview_short split: if_splits)

lemma claim_valid:
  "qs_valid m \<Longrightarrow> claim m actor i a now = Inr (Applied, m') \<Longrightarrow> qs_valid m'"
  by (auto simp: claim_def qs_parts qs_steps split: if_splits)

lemma set_title_valid:
  "qs_valid m \<Longrightarrow> set_title m actor a t now = Inr (Applied, m') \<Longrightarrow> qs_valid m'"
  by (auto simp: set_title_def qs_parts qs_steps split: if_splits)

lemma set_summary_valid:
  "qs_valid m \<Longrightarrow> set_summary m actor a t now = Inr (Applied, m') \<Longrightarrow> qs_valid m'"
  by (auto simp: set_summary_def qs_parts qs_steps split: if_splits)

lemma agent_reply_valid:
  "qs_valid m \<Longrightarrow> agent_reply m actor i a out pv now = Inr (Applied, m') \<Longrightarrow> qs_valid m'"
  by (auto simp: agent_reply_def qs_parts qs_steps preview_short split: if_splits)

lemma mark_error_valid:
  "qs_valid m \<Longrightarrow> mark_error m actor a e now = Inr (Applied, m') \<Longrightarrow> qs_valid m'"
  by (auto simp: mark_error_def qs_parts qs_steps split: if_splits)

lemma archive_session_valid:
  "qs_valid m \<Longrightarrow> archive_session m actor now = Inr (Applied, m') \<Longrightarrow> qs_valid m'"
  by (cases "qs_status m") (auto simp: archive_session_def qs_parts qs_steps split: if_splits)

lemma unarchive_session_valid:
  "qs_valid m \<Longrightarrow> unarchive_session m actor now = Inr (Applied, m') \<Longrightarrow> qs_valid m'"
proof -
  assume valid: "qs_valid m" and step: "unarchive_session m actor now = Inr (Applied, m')"
  have arch: "qs_status m = Archived" using step by (auto simp: unarchive_session_def split: if_splits)
  then consider (active) "qs_archived_from m = Some Active" | (needs) "qs_archived_from m = Some NeedsTitle"
    | (error) "qs_archived_from m = Some SessionError"
    using valid by (auto simp: qs_valid_iff validate_archive_Inr)
  then show ?thesis
  proof cases
    case active
    with arch valid step show ?thesis by (auto simp: unarchive_session_def qs_parts qs_steps)
  next
    case needs
    with arch valid step show ?thesis by (auto simp: unarchive_session_def qs_parts qs_steps)
  next
    case error
    with arch valid step show ?thesis by (auto simp: unarchive_session_def qs_parts qs_steps)
  qed
qed

lemmas transition_valid = human_message_valid claim_valid set_title_valid set_summary_valid
  agent_reply_valid mark_error_valid archive_session_valid unarchive_session_valid

lemma apply_transition_valid:
  "qs_valid m \<Longrightarrow> apply_transition m t = Inr (Applied, m') \<Longrightarrow> qs_valid m'"
  by (cases t) (simp_all, (blast intro: transition_valid)+)

subsection \<open>Properties of the public operation\<close>

fun transition_actor :: "quick_session_transition \<Rightarrow> string" where
  "transition_actor (HumanMessage actor _ _ _ _) = actor"
| "transition_actor (Claim actor _ _ _) = actor"
| "transition_actor (SetTitle actor _ _ _) = actor"
| "transition_actor (SetSummary actor _ _ _) = actor"
| "transition_actor (AgentReply actor _ _ _ _ _) = actor"
| "transition_actor (MarkError actor _ _ _) = actor"
| "transition_actor (Archive actor _) = actor"
| "transition_actor (Unarchive actor _) = actor"

text \<open>Who a transition belongs to.\<close>

fun by_creator :: "quick_session_transition \<Rightarrow> bool" where
  "by_creator (HumanMessage _ _ _ _ _) = True"
| "by_creator (Archive _ _) = True"
| "by_creator (Unarchive _ _) = True"
| "by_creator _ = False"

text \<open>The transitions that carry an idempotency key, and the line a retry reports.\<close>

fun retry_line :: "quick_session_transition \<Rightarrow> nat option option" where
  "retry_line (HumanMessage _ line_number (Some _) _ _) = Some (Some line_number)"
| "retry_line (HumanMessage _ _ None _ _) = None"
| "retry_line (Claim _ _ _ _) = Some None"
| "retry_line (SetTitle _ _ _ _) = Some None"
| "retry_line (SetSummary _ _ _ _) = Some None"
| "retry_line (AgentReply _ _ _ output_line _ _) = Some (Some output_line)"
| "retry_line (MarkError _ _ _ _) = Some None"
| "retry_line (Archive _ _) = None"
| "retry_line (Unarchive _ _) = None"

lemma apply_transition_duplicate:
  "apply_transition m t = Inr (Duplicate ln, m') \<Longrightarrow> m' = m"
  by (cases t)
    (auto simp: human_message_def claim_def set_title_def set_summary_def agent_reply_def
      mark_error_def archive_session_def unarchive_session_def applied_Inr Let_def split: if_splits)

lemma apply_qs_unfold:
  "qs_valid m \<Longrightarrow> apply_quick_session_transition m t = apply_transition m t"
proof -
  assume valid: "qs_valid m"
  show ?thesis
  proof (cases "apply_transition m t")
    case (Inl e)
    with valid show ?thesis by (simp add: apply_quick_session_transition_def)
  next
    case (Inr p)
    obtain out m' where p: "p = (out, m')" by (cases p)
    show ?thesis
    proof (cases out)
      case Applied
      with Inr p valid have "qs_valid m'" by (blast intro: apply_transition_valid)
      with Inr p Applied valid show ?thesis by (simp add: apply_quick_session_transition_def)
    next
      case (Duplicate ln)
      with Inr p have "m' = m" by (blast intro: apply_transition_duplicate)
      with Inr p Duplicate valid show ?thesis by (simp add: apply_quick_session_transition_def)
    qed
  qed
qed

lemma apply_qs_valid:
  "apply_quick_session_transition m t = Inr (out, m') \<Longrightarrow>
     qs_valid m \<and> apply_transition m t = Inr (out, m') \<and> qs_valid m'"
proof -
  assume a: "apply_quick_session_transition m t = Inr (out, m')"
  then have valid: "qs_valid m" by (auto simp: apply_quick_session_transition_def)
  with a have t: "apply_transition m t = Inr (out, m')" by (simp add: apply_qs_unfold)
  have "qs_valid m'"
  proof (cases out)
    case Applied
    with valid t show ?thesis by (blast intro: apply_transition_valid)
  next
    case (Duplicate ln)
    with t have "m' = m" by (blast intro: apply_transition_duplicate)
    with valid show ?thesis by simp
  qed
  with valid t show ?thesis by simp
qed

definition demo_session :: quick_session_meta where
  "demo_session =
     (quick_session_new ''qs-0123456789ABCDEFGHJKMNPQRS'' ''bot'' ''ann'' ''20260101T000000Z'')
       \<lparr>qs_last_human_line := Some 1\<rparr>"

definition demo_attempt :: string where
  "demo_attempt = ''qa-0123456789ABCDEFGHJKMNPQRS''"

lemma demo_session_valid: "qs_valid demo_session"
  by code_simp

lemma demo_attempt_valid: "validate_quick_session_attempt_id demo_attempt = Inr ()"
  by code_simp

text \<open>C19: Re-validation after a transition never fires: on valid metadata the public operation is exactly
  the transition function (every error it returns is the transition's own), and every result it
  returns is valid again.\<close>

theorem quick_session_transition_closed:
  assumes "validate_quick_session_meta m = Inr ()"
  shows "apply_quick_session_transition m t = apply_transition m t
    \<and> (\<forall>out m'. apply_transition m t = Inr (out, m') \<longrightarrow> validate_quick_session_meta m' = Inr ())"
  using assms apply_qs_unfold apply_qs_valid by metis

theorem quick_session_transition_closed_witness:
  "validate_quick_session_meta demo_session = Inr ()
   \<and> apply_quick_session_transition demo_session (Claim ''bot'' 1 demo_attempt ''20260101T000001Z'')
     = apply_transition demo_session (Claim ''bot'' 1 demo_attempt ''20260101T000001Z'')"
  using quick_session_transition_closed [OF demo_session_valid] demo_session_valid by blast

text \<open>A transition that is applied was requested by the party it belongs to (the creator for human
  messages, archiving and unarchiving, the agent for everything else), increments the revision by
  exactly one without overflow, and leaves identity, participants and creation time unchanged.\<close>

theorem quick_session_applied_frame:
  assumes "apply_quick_session_transition m t = Inr (Applied, m')"
  shows "transition_actor t = (if by_creator t then qs_created_by m else qs_agent_id m)
    \<and> qs_revision m' = qs_revision m + 1 \<and> qs_revision m' \<le> u64_max
    \<and> qs_id m' = qs_id m \<and> qs_agent_id m' = qs_agent_id m \<and> qs_created_by m' = qs_created_by m
    \<and> qs_created_at m' = qs_created_at m"
proof -
  have "apply_transition m t = Inr (Applied, m')" using assms apply_qs_valid by blast
  then show ?thesis
    by (cases t)
      (auto simp: human_message_def claim_def set_title_def set_summary_def agent_reply_def
        mark_error_def archive_session_def unarchive_session_def qs_steps split: if_splits)
qed

lemma demo_claim:
  "apply_quick_session_transition demo_session (Claim ''bot'' 1 demo_attempt ''20260101T000001Z'')
   = Inr (Applied, demo_session
       \<lparr>qs_status := Running, qs_processing_input_line := Some 1,
        qs_processing_started_at := Some ''20260101T000001Z'', qs_attempt_id := Some demo_attempt,
        qs_updated_at := ''20260101T000001Z'', qs_revision := 2\<rparr>)"
  unfolding apply_qs_unfold [OF demo_session_valid]
  by (simp add: claim_def qs_steps demo_attempt_valid applied_def finish_def fail_if_def)
    (simp add: demo_session_def quick_session_new_def)

theorem quick_session_applied_frame_witness:
  "\<exists>m'. apply_quick_session_transition demo_session (Claim ''bot'' 1 demo_attempt ''20260101T000001Z'')
          = Inr (Applied, m') \<and> qs_revision m' = 2"
  using quick_session_applied_frame [OF demo_claim] demo_claim by (auto simp: demo_session_def)

lemma retry_duplicate:
  assumes "qs_valid m" "apply_transition m t = Inr (Applied, m')" "retry_line t = Some ln"
  shows "apply_transition m' t = Inr (Duplicate ln, m')"
proof (cases t)
  case (HumanMessage actor line rid pv now)
  have "qs_created_by m' = actor \<and> qs_last_human_request_id m' = rid \<and> qs_last_human_line m' = Some line"
    using assms(2) HumanMessage by (auto simp: human_message_def qs_steps split: if_splits)
  with assms(3) HumanMessage show ?thesis
    by (cases rid) (simp_all add: human_message_def require_creator_def fail_if_def)
next
  case (Claim actor i a now)
  with assms show ?thesis by (auto simp: claim_def qs_steps split: if_splits)
next
  case (SetTitle actor a title now)
  with assms show ?thesis by (auto simp: set_title_def qs_steps split: if_splits)
next
  case (SetSummary actor a summary now)
  with assms show ?thesis by (auto simp: set_summary_def qs_steps split: if_splits)
next
  case (AgentReply actor i a out pv now)
  with assms show ?thesis by (auto simp: agent_reply_def qs_steps split: if_splits)
next
  case (MarkError actor a err now)
  with assms show ?thesis by (auto simp: mark_error_def qs_steps split: if_splits)
qed (use assms in simp_all)

text \<open>Exactly-once retries: a human message with a request id, a claim, a title, a summary, a reply or
  a failure report that was applied is answered, when the same request is sent again, with
  \<^const>\<open>Duplicate\<close> and the line recorded the first time, and the metadata stays as it was.\<close>

theorem quick_session_retry_duplicate:
  assumes "apply_quick_session_transition m t = Inr (Applied, m')" "retry_line t = Some ln"
  shows "apply_quick_session_transition m' t = Inr (Duplicate ln, m')"
proof -
  have a: "qs_valid m" "apply_transition m t = Inr (Applied, m')" "qs_valid m'"
    using assms(1) apply_qs_valid by blast+
  then have "apply_transition m' t = Inr (Duplicate ln, m')" using assms(2) by (blast intro: retry_duplicate)
  with a(3) show ?thesis by (simp add: apply_qs_unfold)
qed

theorem quick_session_retry_duplicate_witness:
  "\<exists>m'. apply_quick_session_transition demo_session (Claim ''bot'' 1 demo_attempt ''20260101T000001Z'')
          = Inr (Applied, m')
     \<and> apply_quick_session_transition m' (Claim ''bot'' 1 demo_attempt ''20260101T000001Z'')
          = Inr (Duplicate None, m')"
  using quick_session_retry_duplicate [OF demo_claim, of None] demo_claim by simp

subsection \<open>Reachable sessions\<close>

inductive qs_reachable :: "quick_session_meta \<Rightarrow> bool" where
  created: "qs_valid (quick_session_new sid agent creator now) \<Longrightarrow>
     qs_reachable (quick_session_new sid agent creator now)"
| stepped: "qs_reachable m \<Longrightarrow> apply_quick_session_transition m t = Inr (out, m') \<Longrightarrow> qs_reachable m'"

text \<open>The claimed input is always newer than the last completed one.  Validation does not check this;
  it is kept by the machine.\<close>

definition claim_fresh :: "quick_session_meta \<Rightarrow> bool" where
  "claim_fresh m \<longleftrightarrow>
     (\<forall>i c. qs_processing_input_line m = Some i \<longrightarrow> qs_last_completed_input_line m = Some c \<longrightarrow> c < i)"

lemma claim_fresh_step:
  "claim_fresh m \<Longrightarrow> apply_transition m t = Inr (out, m') \<Longrightarrow> claim_fresh m'"
  by (cases t)
    (auto simp: claim_fresh_def human_message_def claim_def set_title_def set_summary_def
      agent_reply_def mark_error_def archive_session_def unarchive_session_def qs_steps
      split: if_splits)

lemma qs_reachable_fresh: "qs_reachable m \<Longrightarrow> qs_valid m \<and> claim_fresh m"
proof (induction rule: qs_reachable.induct)
  case (created sid agent creator now)
  then show ?case by (simp add: claim_fresh_def quick_session_new_def)
next
  case (stepped m t out m')
  then show ?case using apply_qs_valid claim_fresh_step by blast
qed

text \<open>C20: No input is answered twice: in every reachable session an applied reply answers the claimed
  human line, that line is strictly newer than every line completed before, it is a line a human
  has written, and the reply's own line comes after it.\<close>

theorem quick_session_reply_once:
  assumes "qs_reachable m"
    and "apply_quick_session_transition m (AgentReply actor i a output pv now) = Inr (Applied, m')"
  shows "qs_processing_input_line m = Some i \<and> qs_attempt_id m = Some a
    \<and> (\<forall>c. qs_last_completed_input_line m = Some c \<longrightarrow> c < i)
    \<and> (\<exists>h. qs_last_human_line m = Some h \<and> i \<le> h) \<and> i < output
    \<and> qs_last_completed_input_line m' = Some i \<and> qs_last_completed_line m' = Some output"
proof -
  have inv: "qs_valid m" "claim_fresh m" using assms(1) qs_reachable_fresh by blast+
  have "apply_transition m (AgentReply actor i a output pv now) = Inr (Applied, m')"
    using assms(2) apply_qs_valid by blast
  with inv show ?thesis
    by (auto simp: agent_reply_def qs_steps claim_fresh_def qs_valid_iff validate_human_lines_Inr
        split: if_splits)
qed

definition demo_new :: quick_session_meta where
  "demo_new = quick_session_new ''qs-0123456789ABCDEFGHJKMNPQRS'' ''bot'' ''ann'' ''20260101T000000Z''"

definition demo_asked :: quick_session_meta where
  "demo_asked = demo_new\<lparr>qs_last_human_line := Some 1, qs_last_message_preview := ''hi'',
     qs_updated_at := ''t1'', qs_revision := 2\<rparr>"

definition demo_claimed :: quick_session_meta where
  "demo_claimed = demo_asked\<lparr>qs_status := Running, qs_processing_input_line := Some 1,
     qs_processing_started_at := Some ''t2'', qs_attempt_id := Some demo_attempt,
     qs_updated_at := ''t2'', qs_revision := 3\<rparr>"

definition demo_titled :: quick_session_meta where
  "demo_titled = demo_claimed\<lparr>qs_title := Some ''Hello'', qs_updated_at := ''t3'', qs_revision := 4\<rparr>"

definition demo_replied :: quick_session_meta where
  "demo_replied = demo_titled\<lparr>qs_status := Active, qs_last_completed_attempt_id := Some demo_attempt,
     qs_last_completed_input_line := Some 1, qs_last_completed_line := Some 2,
     qs_last_message_preview := ''yo'', qs_processing_input_line := None,
     qs_processing_started_at := None, qs_attempt_id := None,
     qs_updated_at := ''t4'', qs_revision := 5\<rparr>"

lemma demo_steps_valid:
  "qs_valid demo_new" "qs_valid demo_asked" "qs_valid demo_claimed" "qs_valid demo_titled"
  by code_simp+

lemmas demo_defs = demo_replied_def demo_titled_def demo_claimed_def demo_asked_def demo_new_def
  quick_session_new_def

lemma demo_texts:
  "truncate_quick_session_preview ''hi'' = ''hi''" "truncate_quick_session_preview ''yo'' = ''yo''"
  "trim ''Hello'' = ''Hello''" "validate_quick_session_title ''Hello'' = Inr ()"
  by code_simp+

lemma demo_steps:
  "apply_quick_session_transition demo_new (HumanMessage ''ann'' 1 None ''hi'' ''t1'') = Inr (Applied, demo_asked)"
  "apply_quick_session_transition demo_asked (Claim ''bot'' 1 demo_attempt ''t2'') = Inr (Applied, demo_claimed)"
  "apply_quick_session_transition demo_claimed (SetTitle ''bot'' demo_attempt ''Hello'' ''t3'')
     = Inr (Applied, demo_titled)"
  "apply_quick_session_transition demo_titled (AgentReply ''bot'' 1 demo_attempt 2 ''yo'' ''t4'')
     = Inr (Applied, demo_replied)"
  unfolding demo_steps_valid [THEN apply_qs_unfold]
  by (simp_all add: human_message_def claim_def set_title_def agent_reply_def require_creator_def
      require_agent_def require_attempt_def fail_if_def applied_def finish_def clear_claim_def
      demo_attempt_valid demo_texts demo_defs)

lemma demo_titled_reachable: "qs_reachable demo_titled"
proof -
  have "qs_reachable demo_new"
    unfolding demo_new_def by (rule qs_reachable.created) (use demo_steps_valid(1) in \<open>simp add: demo_new_def\<close>)
  then show ?thesis using demo_steps(1-3) by (blast intro: qs_reachable.stepped)
qed

theorem quick_session_reply_once_witness:
  "qs_reachable demo_titled \<and> qs_processing_input_line demo_titled = Some 1
   \<and> qs_last_completed_input_line demo_replied = Some 1"
  using quick_session_reply_once [OF demo_titled_reachable demo_steps(4)] demo_titled_reachable by blast

text \<open>C21: An idle session with an unanswered human line can always be served: the agent's claim, a title
  and the reply are all accepted in this order, and the session ends active with that line
  completed.\<close>

theorem quick_session_can_be_served:
  assumes valid: "validate_quick_session_meta m = Inr ()"
    and idle: "qs_status m = NeedsTitle \<or> qs_status m = Active"
    and human: "qs_last_human_line m = Some i"
    and fresh: "is_none_or (qs_last_completed_input_line m) (\<lambda>c. c < i)"
    and attempt: "validate_quick_session_attempt_id a = Inr ()"
      "qs_last_completed_attempt_id m \<noteq> Some a"
    and title: "validate_quick_session_title (trim title) = Inr ()" "qs_title m \<noteq> Some (trim title)"
    and room: "qs_revision m + 3 \<le> u64_max" and line: "i < output"
  shows "\<exists>m1 m2 m3.
      apply_quick_session_transition m (Claim (qs_agent_id m) i a t1) = Inr (Applied, m1)
    \<and> apply_quick_session_transition m1 (SetTitle (qs_agent_id m) a title t2) = Inr (Applied, m2)
    \<and> apply_quick_session_transition m2 (AgentReply (qs_agent_id m) i a output pv t3) = Inr (Applied, m3)
    \<and> qs_status m3 = Active \<and> qs_last_completed_input_line m3 = Some i
    \<and> qs_last_completed_line m3 = Some output \<and> qs_attempt_id m3 = None"
proof -
  have i0: "i \<noteq> 0" using valid human by (auto simp: qs_valid_iff validate_human_lines_Inr)
  let ?m1 = "m\<lparr>qs_status := Running, qs_processing_input_line := Some i,
      qs_processing_started_at := Some t1, qs_attempt_id := Some a, qs_error := None,
      qs_last_failed_attempt_id := None, qs_updated_at := t1, qs_revision := qs_revision m + 1\<rparr>"
  have s1: "apply_transition m (Claim (qs_agent_id m) i a t1) = Inr (Applied, ?m1)"
    using idle human fresh attempt room i0
    by (cases "qs_last_completed_input_line m")
      (auto simp: claim_def qs_steps)
  then have v1: "qs_valid ?m1" using valid apply_transition_valid by blast
  let ?m2 = "?m1\<lparr>qs_title := Some (trim title), qs_updated_at := t2, qs_revision := qs_revision m + 2\<rparr>"
  have s2: "apply_transition ?m1 (SetTitle (qs_agent_id m) a title t2) = Inr (Applied, ?m2)"
    using attempt title room by (auto simp: set_title_def qs_steps)
  then have v2: "qs_valid ?m2" using v1 apply_transition_valid by blast
  obtain m3 where s3: "apply_transition ?m2 (AgentReply (qs_agent_id m) i a output pv t3) = Inr (Applied, m3)"
    and m3: "qs_status m3 = Active" "qs_last_completed_input_line m3 = Some i"
      "qs_last_completed_line m3 = Some output" "qs_attempt_id m3 = None"
    using attempt room line by (auto simp: agent_reply_def qs_steps)
  show ?thesis
    using s1 s2 s3 m3 valid v1 v2 by (auto simp: apply_qs_unfold)
qed

theorem quick_session_can_be_served_witness:
  "\<exists>m1 m2 m3.
      apply_quick_session_transition demo_session (Claim ''bot'' 1 demo_attempt ''t1'') = Inr (Applied, m1)
    \<and> apply_quick_session_transition m1 (SetTitle ''bot'' demo_attempt ''Hello'' ''t2'') = Inr (Applied, m2)
    \<and> apply_quick_session_transition m2 (AgentReply ''bot'' 1 demo_attempt 2 ''yo'' ''t3'') = Inr (Applied, m3)
    \<and> qs_status m3 = Active"
proof -
  show ?thesis
    using demo_attempt_valid demo_texts
      quick_session_can_be_served [OF demo_session_valid, of 1 demo_attempt "''Hello''" 2 "''t1''" "''t2''" "''yo''" "''t3''"]
    by (simp add: demo_session_def quick_session_new_def) blast
qed

end
