(* ===== verification/Links.thy ===== *)
theory Links
  imports Thread_Format Card_Meta Quick_Session
begin

text \<open>
  Protocol links in message bodies (\<^verbatim>\<open>crates/gitim-core/src/link.rs\<close> and the channel name check of
  \<^verbatim>\<open>validator/mod.rs\<close>): channels, messages, cards, quick sessions, user profiles, soft links and assets.
  A match carries its byte offset, because the two scans of the body are merged by offset.
\<close>

definition validate_channel_name :: "string \<Rightarrow> string + unit" where
  "validate_channel_name name =
     discard (map_err (\<lambda>e. case e of
         ChannelEmpty \<Rightarrow> ''must be 1-32 characters''
       | ChannelTooLong \<Rightarrow> ''must be 1-32 characters''
       | ChannelInvalidChar _ \<Rightarrow> ''invalid characters''
       | ChannelHyphenBoundary \<Rightarrow> ''must not start or end with hyphen''
       | ChannelConsecutiveHyphens \<Rightarrow> ''must not contain consecutive hyphens'')
       (channel_name_new name))"

definition split_label :: "string \<Rightarrow> string \<times> string option" where
  "split_label content =
     (case split_once CHR ''|'' content of
        Some (a, b) \<Rightarrow> (a, Some b)
      | None \<Rightarrow> (content, None))"

text \<open>The trailing \<^verbatim>\<open>:L\d{6,}\<close> of a reference: the text before it and the digits.  The digits are the
  longest run of digits at the end, since the character before them must be \<^verbatim>\<open>L\<close>.\<close>

definition re_line_suffix :: "ext \<Rightarrow> string \<Rightarrow> (string \<times> string) option" where
  "re_line_suffix E s =
     (let cs = rev (chars s); ds = takeWhile (digit_ch E) cs; r = dropWhile (digit_ch E) cs
      in if 6 \<le> length ds
         then map_option (\<lambda>p. (p, concat (rev ds))) (strip_suffix '':L'' (concat (rev r)))
         else None)"

text \<open>\<^verbatim>\<open>MSG_LINK_RE\<close> (\<^verbatim>\<open>^(.+):L(\d{6,})$\<close>) and \<^verbatim>\<open>CARD_LINE_RE\<close> (\<^verbatim>\<open>^([^:]+):L(\d{6,})$\<close>).\<close>

definition msg_link_re :: "ext \<Rightarrow> string \<Rightarrow> (string \<times> string) option" where
  "msg_link_re E s =
     (case re_line_suffix E s of
        Some (p, d) \<Rightarrow> if p = [] \<or> newline \<in> set p then None else Some (p, d)
      | None \<Rightarrow> None)"

definition card_line_re :: "ext \<Rightarrow> string \<Rightarrow> (string \<times> string) option" where
  "card_line_re E s =
     (case re_line_suffix E s of
        Some (p, d) \<Rightarrow> if p = [] \<or> CHR '':'' \<in> set p then None else Some (p, d)
      | None \<Rightarrow> None)"

definition parse_card_link :: "ext \<Rightarrow> string \<Rightarrow> string option \<Rightarrow> link_kind option" where
  "parse_card_link E target label =
     do { (channel, card_target) \<leftarrow> split_once CHR ''/'' target;
          if CHR ''/'' \<in> set card_target \<or> \<not> is_ok (validate_channel_name channel) then None
          else do {
            (card_id, line_number) \<leftarrow>
              (case card_line_re E card_target of
                 Some (c, d) \<Rightarrow> map_option (\<lambda>n. (c, Some n)) (parse_uint u64_max d)
               | None \<Rightarrow> Some (card_target, None));
            if is_ok (validate_card_id card_id)
            then Some (LinkCard channel card_id line_number label) else None } }"

definition parse_channel_or_message :: "ext \<Rightarrow> string \<Rightarrow> link_kind option" where
  "parse_channel_or_message E content =
     (let (target, label) = split_label content
      in if CHR ''/'' \<in> set target then parse_card_link E target label
         else if label \<noteq> None then None
         else case msg_link_re E target of
           Some (channel, d) \<Rightarrow>
             do { line_number \<leftarrow> parse_uint u64_max d;
                  if is_ok (validate_channel_name channel)
                  then Some (LinkMessage channel line_number) else None }
         | None \<Rightarrow>
             if is_ok (validate_channel_name target) then Some (LinkChannel target) else None)"

definition parse_user_profile :: "string \<Rightarrow> link_kind option" where
  "parse_user_profile content =
     (case handler_new content of Inr h \<Rightarrow> Some (LinkUserProfile h) | Inl _ \<Rightarrow> None)"

definition parse_softlink :: "string \<Rightarrow> link_kind option" where
  "parse_softlink content =
     (case split_once CHR ''|'' content of
        Some (url, title) \<Rightarrow> if url = [] then None else Some (LinkSoftlink url (Some title))
      | None \<Rightarrow> Some (LinkSoftlink content None))"

definition parse_asset :: "ext \<Rightarrow> string \<Rightarrow> link_kind option" where
  "parse_asset E raw =
     (case asset_from_str E raw of Inr a \<Rightarrow> Some (LinkAsset a) | Inl _ \<Rightarrow> None)"

subsection \<open>Scanning the body\<close>

text \<open>\<^verbatim>\<open>LINK_RE\<close> at the head of a string: the prefix character (\<^verbatim>\<open>^\<close> for the asset alternative), the
  content, and what follows the match.\<close>

definition link_at :: "string \<Rightarrow> (char \<times> string \<times> string) option" where
  "link_at s =
     (case s of
        lt # p # t \<Rightarrow>
          if lt = CHR ''<'' \<and> p \<in> set ''#~!'' then
            do { (content, rest) \<leftarrow> re_plus (\<lambda>c. c \<noteq> CHR ''>'' \<and> c \<noteq> newline) t;
                 rest' \<leftarrow> strip_prefix ''>'' rest;
                 Some (p, content, rest') }
          else if lt = CHR ''<'' \<and> p = CHR ''^'' then
            do { (content, rest) \<leftarrow> re_plus (\<lambda>c. c \<noteq> CHR ''<'' \<and> c \<noteq> CHR ''>'' \<and> c \<noteq> newline) t;
                 rest' \<leftarrow> strip_prefix ''>'' rest;
                 Some (p, content, rest') }
          else None
      | _ \<Rightarrow> None)"

lemma link_at_shape:
  "link_at s = Some (p, content, rest) \<Longrightarrow> s = [CHR ''<'', p] @ content @ ''>'' @ rest"
  by (auto simp: link_at_def bind_eq_Some_conv split: list.splits if_splits dest: re_plus_append)

definition link_kind_of :: "ext \<Rightarrow> char \<Rightarrow> string \<Rightarrow> link_kind option" where
  "link_kind_of E p content =
     (if p = CHR ''#'' then parse_channel_or_message E content
      else if p = CHR ''~'' then parse_user_profile content
      else if p = CHR ''!'' then parse_softlink content
      else parse_asset E (''<^'' @ content @ ''>''))"

function scan_links :: "ext \<Rightarrow> nat \<Rightarrow> string \<Rightarrow> (nat \<times> link) list" where
  "scan_links E pos [] = []"
| "scan_links E pos (c # s) =
     (case link_at (c # s) of
        Some (p, content, rest) \<Rightarrow>
          (let tail = scan_links E (pos + length content + 3) rest
           in case link_kind_of E p content of
                Some k \<Rightarrow>
                  (pos, \<lparr>link_kind = k, link_raw = [CHR ''<'', p] @ content @ ''>''\<rparr>) # tail
              | None \<Rightarrow> tail)
      | None \<Rightarrow> scan_links E (pos + 1) s)"
  by pat_completeness auto
termination
proof (relation "measure (\<lambda>(E, pos, s). length s)")
  fix E :: ext and pos c s x p y content rest
  assume "link_at (c # s) = Some x" "(p, y) = x" "(content, rest) = y"
  then have "c # s = [CHR ''<'', p] @ content @ ''>'' @ rest" using link_at_shape by blast
  then have "length (c # s) = length ([CHR ''<'', p] @ content @ ''>'' @ rest)" by simp
  then show "((E, pos + length content + 3, rest), E, pos, c # s) \<in> measure (\<lambda>(E, pos, s). length s)"
    by simp
qed simp_all

text \<open>\<^verbatim>\<open>QUICK_SESSION_LINK_RE\<close> at the head of a string: session id, optional line digits, rest.\<close>

definition session_at :: "string \<Rightarrow> (string \<times> string option \<times> string) option" where
  "session_at s =
     do { t \<leftarrow> strip_prefix ''session:'' s;
          u \<leftarrow> strip_prefix ''qs-'' t;
          if length (take 26 u) = 26 \<and> list_all opaque_byte (take 26 u) then
            let v = drop 26 u; sid = ''qs-'' @ take 26 u
            in case strip_prefix '':L'' v of
                 Some w \<Rightarrow>
                   (let d = takeWhile is_digit w
                    in if 6 \<le> length d then Some (sid, Some d, dropWhile is_digit w)
                       else Some (sid, None, v))
               | None \<Rightarrow> Some (sid, None, v)
          else None }"

definition session_raw :: "string \<Rightarrow> string option \<Rightarrow> string" where
  "session_raw sid line = ''session:'' @ sid @ (case line of None \<Rightarrow> [] | Some d \<Rightarrow> '':L'' @ d)"

lemma session_at_shape:
  "session_at s = Some (sid, line, rest) \<Longrightarrow> s = session_raw sid line @ rest"
  by (auto simp: session_at_def session_raw_def bind_eq_Some_conv Let_def
      split: if_splits option.splits) (metis append_take_drop_id)

definition invalid_boundary :: "ext \<Rightarrow> string \<Rightarrow> bool" where
  "invalid_boundary E ch =
     (case ch of
        [c] \<Rightarrow> is_lower c \<or> is_digit c \<or> 65 \<le> byte c \<and> byte c \<le> 90
               \<or> c \<in> set ''_-/'' \<or> c = CHR 0x5C
      | _ \<Rightarrow> is_alnum_u E ch)"

definition valid_quick_session_ref_boundaries :: "ext \<Rightarrow> string \<Rightarrow> string \<Rightarrow> bool" where
  "valid_quick_session_ref_boundaries E before after \<longleftrightarrow>
     \<not> (before \<noteq> [] \<and> invalid_boundary E (last (chars before)))
     \<and> \<not> (after \<noteq> [] \<and> invalid_boundary E (hd (chars after)))
     \<and> \<not> starts_with '':L'' after"

definition session_link :: "ext \<Rightarrow> string \<Rightarrow> string \<Rightarrow> string option \<Rightarrow> string \<Rightarrow> link option" where
  "session_link E before sid line rest =
     (if \<not> valid_quick_session_ref_boundaries E before rest then None
      else if \<not> is_ok (validate_quick_session_id sid) then None
      else case line of
        None \<Rightarrow> Some \<lparr>link_kind = LinkQuickSession sid None, link_raw = session_raw sid line\<rparr>
      | Some d \<Rightarrow>
          map_option (\<lambda>n. \<lparr>link_kind = LinkQuickSession sid (Some n), link_raw = session_raw sid line\<rparr>)
            (parse_uint u64_max d))"

text \<open>\<open>before\<close> is the body up to the current position.\<close>

function scan_sessions :: "ext \<Rightarrow> string \<Rightarrow> string \<Rightarrow> (nat \<times> link) list" where
  "scan_sessions E before [] = []"
| "scan_sessions E before (c # s) =
     (case session_at (c # s) of
        Some (sid, line, rest) \<Rightarrow>
          (let tail = scan_sessions E (before @ session_raw sid line) rest
           in case session_link E before sid line rest of
                Some l \<Rightarrow> (length before, l) # tail
              | None \<Rightarrow> tail)
      | None \<Rightarrow> scan_sessions E (before @ [c]) s)"
  by pat_completeness auto
termination
proof (relation "measure (\<lambda>(E, before, s). length s)")
  fix E :: ext and before c s x sid y line rest
  assume "session_at (c # s) = Some x" "(sid, y) = x" "(line, rest) = y"
  then have "c # s = session_raw sid line @ rest" using session_at_shape by blast
  then have "length (c # s) = length (session_raw sid line) + length rest"
    by (metis length_append)
  moreover have "0 < length (session_raw sid line)" by (simp add: session_raw_def)
  ultimately show "((E, before @ session_raw sid line, rest), E, before, c # s)
      \<in> measure (\<lambda>(E, before, s). length s)" by simp
qed simp_all

text \<open>\<^verbatim>\<open>sort_by_key\<close> is a stable sort.\<close>

definition extract_links :: "ext \<Rightarrow> string \<Rightarrow> link list" where
  "extract_links E body =
     map snd (sort_key fst (scan_links E 0 body @ scan_sessions E [] body))"

end
