(* ===== verification/Thread_Parser.thy ===== *)
theory Thread_Parser
  imports Links
begin

text \<open>
  Reading a thread file (\<^verbatim>\<open>crates/gitim-core/src/parser.rs\<close>).  The loop over the lines is \<open>parse_lines\<close>
  over \<open>parse_step\<close>; its state is the entries pushed so far, the body being collected, and whether no
  entry has been seen.  \<open>ParsePanic\<close> is the panic of \<^verbatim>\<open>preconditions::parse_u64\<close> on a digit run that is
  no \<^verbatim>\<open>u64\<close>.  The main results: what the formatter writes is read back, and concatenating files
  concatenates their entries.
\<close>

datatype parse_error =
    FirstLineNotMessage nat
  | InvalidHandler nat handler_error
  | ParsePanic

fun finalize_last :: "ext \<Rightarrow> string \<Rightarrow> thread_entry \<Rightarrow> thread_entry" where
  "finalize_last E body (EMessage m) =
     EMessage (m\<lparr>msg_body := body, msg_mentions := extract_mentions body,
                msg_links := extract_links E body\<rparr>)"
| "finalize_last E body (EEvent e) =
     EEvent (e\<lparr>ev_meta := (case json_from_str E body of Some j \<Rightarrow> j | None \<Rightarrow> JNull)\<rparr>)"

definition finalize_entry :: "ext \<Rightarrow> thread_entry list \<Rightarrow> string option \<Rightarrow> thread_entry list" where
  "finalize_entry E es body =
     (case body of
        Some b \<Rightarrow> if es = [] then es else butlast es @ [finalize_last E b (last es)]
      | None \<Rightarrow> es)"

definition parse_author :: "nat \<Rightarrow> string \<Rightarrow> parse_error + handler" where
  "parse_author idx raw =
     (if raw = ''system'' then Inr handler_system
      else map_err (InvalidHandler (idx + 1)) (handler_new raw))"

definition blank_entry :: "nat \<Rightarrow> nat \<Rightarrow> handler \<Rightarrow> string \<Rightarrow> string option \<Rightarrow> thread_entry" where
  "blank_entry line_number point_to author timestamp event_type =
     (case event_type of
        Some et \<Rightarrow> EEvent \<lparr>ev_line_number = line_number, ev_point_to = point_to, ev_author = author,
                     ev_timestamp = timestamp, ev_event_type = et, ev_meta = JNull\<rparr>
      | None \<Rightarrow> EMessage \<lparr>msg_line_number = line_number, msg_point_to = point_to,
                   msg_author = author, msg_timestamp = timestamp, msg_body = [],
                   msg_mentions = [], msg_links = []\<rparr>)"

type_synonym parse_state = "thread_entry list \<times> string option \<times> bool"

definition parse_u64 :: "string \<Rightarrow> parse_error + nat" where
  "parse_u64 s = ok_or ParsePanic (parse_uint u64_max s)"

definition unescape_line :: "string \<Rightarrow> string" where
  "unescape_line line = (if starts_with '' [L'' line then tl line else line)"

fun parse_step :: "ext \<Rightarrow> nat \<Rightarrow> string \<Rightarrow> parse_state \<Rightarrow> parse_error + parse_state" where
  "parse_step E idx line (es, current_body, first_content_line) =
     (case msg_re E line of
        Some c \<Rightarrow>
          (let es1 = finalize_entry E es current_body in
           andThen (parse_u64 (cap_line c)) (\<lambda>line_number.
           andThen (parse_u64 (cap_point c)) (\<lambda>point_to.
           andThen (parse_author idx (cap_handler c)) (\<lambda>author.
             Inr (es1 @ [blank_entry line_number point_to author (cap_time c) (cap_event c)],
                  Some (cap_body c), False)))))
      | None \<Rightarrow>
          if first_content_line then Inl (FirstLineNotMessage (idx + 1))
          else Inr (es, map_option (\<lambda>b. b @ [newline] @ unescape_line line) current_body, False))"

fun parse_lines :: "ext \<Rightarrow> nat \<Rightarrow> string list \<Rightarrow> parse_state \<Rightarrow> parse_error + parse_state" where
  "parse_lines E idx [] st = Inr st"
| "parse_lines E idx (l # ls) st = andThen (parse_step E idx l st) (parse_lines E (idx + 1) ls)"

definition parse_thread :: "ext \<Rightarrow> string \<Rightarrow> parse_error + thread_file" where
  "parse_thread E input0 =
     (let input = replace_crlf input0
      in if input = [] then Inr \<lparr>entries = []\<rparr>
         else andThen (parse_lines E 0 (lines input) ([], None, True))
                (\<lambda>(es, body, _). Inr \<lparr>entries = finalize_entry E es body\<rparr>))"

subsection \<open>Digit runs\<close>

lemma digit_ch_single [simp]: "digit_ch E [c] = is_digit c"
  by (simp add: digit_ch_def)

lemma digit_not_cont: "is_digit c \<Longrightarrow> \<not> is_cont c"
  by (auto simp: byte_class)

lemma chars_digits_append:
  assumes "list_all is_digit d" "r \<noteq> []" "\<not> is_cont (hd r)"
  shows "chars (d @ r) = map (\<lambda>c. [c]) d @ chars r"
proof -
  have "chars d = map (\<lambda>c. [c]) d"
    using assms(1) by (intro chars_ascii) (auto simp: list_all_iff digit_not_cont)
  then show ?thesis using chars_append [OF assms(2,3), of d] by simp
qed

lemma takeWhile_digit_map: "takeWhile (digit_ch E) (map (\<lambda>c. [c]) d) = map (\<lambda>c. [c]) (takeWhile is_digit d)"
  by (induction d) auto

lemma concat_single: "concat (map (\<lambda>c. [c]) d) = d"
  by (induction d) auto

lemma re_digits_min_run:
  assumes "list_all is_digit d" "n \<le> length d" "is_ascii c" "\<not> is_digit c" "r \<noteq> []" "\<not> is_cont (hd r)"
  shows "re_digits_min E n (d @ c # r) = Some (d, c # r)"
proof -
  have nc: "\<not> is_cont c" using assms(3) by (auto simp: byte_class)
  have c: "chars (c # r) = [c] # chars r" using chars_append [OF assms(5,6), of "[c]"] by simp
  have cs: "chars (d @ c # r) = map (\<lambda>c. [c]) d @ [c] # chars r"
    using chars_digits_append [OF assms(1), of "c # r"] nc c by simp
  have all: "x \<in> set (map (\<lambda>c. [c]) d) \<Longrightarrow> digit_ch E x" for x
    using assms(1) by (auto simp: list_all_iff)
  have tw: "takeWhile (digit_ch E) (chars (d @ c # r)) = map (\<lambda>c. [c]) d"
    unfolding cs using assms(4) all by (subst takeWhile_append2) auto
  have dw: "dropWhile (digit_ch E) (chars (d @ c # r)) = [c] # chars r"
    unfolding cs using assms(4) all by (subst dropWhile_append2) auto
  show ?thesis
    unfolding re_digits_min_def Let_def tw dw using assms(2) by (simp add: concat_single)
qed

lemma re_digits_exact_run:
  assumes "list_all is_digit d" "r \<noteq> []" "\<not> is_cont (hd r)"
  shows "re_digits_exact E (length d) (d @ r) = Some (d, r)"
proof -
  have "list_all (digit_ch E) (map (\<lambda>c. [c]) d)" using assms(1) by (auto simp: list_all_iff)
  then show ?thesis
    using chars_digits_append [OF assms] by (simp add: re_digits_exact_def Let_def concat_single)
qed

lemma re_plus_run: "list_all P w \<Longrightarrow> w \<noteq> [] \<Longrightarrow> \<not> P c \<Longrightarrow> re_plus P (w @ c # r) = Some (w, c # r)"
  by (simp add: re_plus_def list_all_iff takeWhile_append2 dropWhile_append2)

subsection \<open>A formatted header is recognised\<close>

text \<open>What an author of an entry can be: a validated handler or the reserved one.\<close>

definition entry_handler :: "handler \<Rightarrow> bool" where
  "entry_handler h \<longleftrightarrow> h = handler_system \<or> handler_new (as_str h) = Inr h"

lemma entry_handler_kebab: "entry_handler h \<Longrightarrow> as_str h \<noteq> [] \<and> list_all kebab_char (as_str h)"
  by (auto simp: entry_handler_def handler_system_def handler_new_Inr kebab_wf_def kebab_char_def
      byte_class)

lemma parse_author_handler: "entry_handler h \<Longrightarrow> parse_author idx (as_str h) = Inr h"
  by (auto simp: entry_handler_def parse_author_def handler_new_Inr handler_system_def)

lemma compact_timestamp_split:
  assumes "compact_timestamp ts"
  obtains d t where "ts = d @ ''T'' @ t @ ''Z''" "length d = 8" "length t = 6"
    "list_all is_digit d" "list_all is_digit t"
proof
  have len: "length ts = 16" and T: "ts ! 8 = CHR ''T''" and Z: "ts ! 15 = CHR ''Z''"
    and dig: "list_all is_digit (take 8 ts)" "list_all is_digit (take 6 (drop 9 ts))"
    using assms by (auto simp: compact_timestamp_def)
  have "ts = take 8 ts @ ts ! 8 # drop 9 ts" using len id_take_nth_drop [of 8 ts] by simp
  moreover have "drop 9 ts = take 6 (drop 9 ts) @ [ts ! 15]"
    using len by (intro nth_equalityI) (auto simp: nth_append less_Suc_eq numeral_eq_Suc)
  ultimately show "ts = take 8 ts @ ''T'' @ take 6 (drop 9 ts) @ ''Z''" using T Z by simp
  show "length (take 8 ts) = 8" "length (take 6 (drop 9 ts)) = 6" using len by simp_all
  show "list_all is_digit (take 8 ts)" "list_all is_digit (take 6 (drop 9 ts))" using dig by auto
qed

lemma pad_digits: "list_all is_digit (pad0 w (show_nat n))"
  by (simp add: pad0_digits show_nat_digits)

lemma msg_re_header_gen:
  assumes a: "as_str h \<noteq> []" "list_all kebab_char (as_str h)" and ts: "compact_timestamp ts"
    and ev: "(case re_event tail of Some (n, s') \<Rightarrow> (Some n, s') | None \<Rightarrow> (None, tail)) = (e, '' '' @ b)"
  shows "msg_re E (format_header ln pt h ts @ tail) =
    (if b = [] \<or> newline \<in> set b then None else Some \<lparr>cap_line = pad0 (format_width ln) (show_nat ln), cap_point = pad0 (format_width ln) (show_nat pt),
          cap_handler = as_str h, cap_time = ts, cap_event = e, cap_body = b\<rparr>)"
proof -
  obtain d t where dt: "ts = d @ ''T'' @ t @ ''Z''" "length d = 8" "length t = 6"
    "list_all is_digit d" "list_all is_digit t" using ts by (rule compact_timestamp_split)
  let ?l = "pad0 (format_width ln) (show_nat ln)" and ?p = "pad0 (format_width ln) (show_nat pt)"
  have w: "6 \<le> length (pad0 (format_width ln) (show_nat n))" for n
    by (simp add: length_pad0 format_width_def)
  let ?s3 = "d @ ''T'' @ t @ ''Z]'' @ tail"
  let ?s2 = "as_str h @ '']['' @ ?s3"
  let ?s1 = "?p @ ''][@'' @ ?s2"
  have hdr: "format_header ln pt h ts @ tail = ''[L'' @ ?l @ ''][P'' @ ?s1"
    by (simp add: format_header_def Let_def dt(1))
  have L: "re_digits_min E 6 (?l @ ''][P'' @ ?s1) = Some (?l, ''][P'' @ ?s1)"
    using re_digits_min_run [of ?l 6 "CHR '']''" "''[P'' @ ?s1" E] pad_digits w by (simp add: byte_class)
  have P: "re_digits_min E 6 ?s1 = Some (?p, ''][@'' @ ?s2)"
    using re_digits_min_run [of ?p 6 "CHR '']''" "''[@'' @ ?s2" E] pad_digits w by (simp add: byte_class)
  have H: "re_plus kebab_char ?s2 = Some (as_str h, '']['' @ ?s3)"
    using re_plus_run [of kebab_char "as_str h" "CHR '']''" "''['' @ ?s3"] a
    by (simp add: kebab_char_def byte_class)
  have D: "re_digits_exact E 8 ?s3 = Some (d, ''T'' @ t @ ''Z]'' @ tail)"
    using re_digits_exact_run [OF dt(4), of "''T'' @ t @ ''Z]'' @ tail" E] dt(2) by (simp add: byte_class)
  have T: "re_digits_exact E 6 (t @ ''Z]'' @ tail) = Some (t, ''Z]'' @ tail)"
    using re_digits_exact_run [OF dt(5), of "''Z]'' @ tail" E] dt(3) by (simp add: byte_class)
  have lit: "strip_prefix p (p @ s) = Some s" for p s by simp
  show ?thesis
    unfolding msg_re_def hdr
    by (simp only: lit bind.bind_lunit prod.case L P H D T ev)
      (simp add: dt(1))
qed

lemma msg_re_header:
  assumes "as_str h \<noteq> []" "list_all kebab_char (as_str h)" "compact_timestamp ts"
    "(case re_event tail of Some (n, s') \<Rightarrow> (Some n, s') | None \<Rightarrow> (None, tail)) = (e, '' '' @ b)"
    "b \<noteq> []" "newline \<notin> set b"
  shows "msg_re E (format_header ln pt h ts @ tail) =
    Some \<lparr>cap_line = pad0 (format_width ln) (show_nat ln), cap_point = pad0 (format_width ln) (show_nat pt),
          cap_handler = as_str h, cap_time = ts, cap_event = e, cap_body = b\<rparr>"
  using assms(5,6) unfolding msg_re_header_gen [OF assms(1-4)] by simp

subsection \<open>Continuation lines\<close>

lemma msg_re_prefix: "msg_re E l = Some c \<Longrightarrow> msg_prefix_re E l"
  by (auto simp: msg_re_def msg_prefix_re_def bind_eq_Some_conv starts_with_iff)

lemma msg_prefix_re_L: "msg_prefix_re E l \<Longrightarrow> \<exists>t. l = ''[L'' @ t"
  by (auto simp: msg_prefix_re_def bind_eq_Some_conv split: option.splits)

lemma escape_not_entry [simp]: "msg_re E (escape_line E l) = None"
proof (cases "msg_prefix_re E l")
  case True
  then have "escape_line E l = '' '' @ l" by (simp add: escape_line_def)
  then show ?thesis by (simp add: msg_re_def)
next
  case False
  then show ?thesis using msg_re_prefix [of E l] by (cases "msg_re E l") (auto simp: escape_line_def)
qed

text \<open>What reading gives back of a written continuation line: a line that starts like an escaped
  one, but that the formatter did not escape, loses its first space.\<close>

definition read_line :: "ext \<Rightarrow> string \<Rightarrow> string" where
  "read_line E l = (if msg_prefix_re E l then l else unescape_line l)"

lemma unescape_escape [simp]: "unescape_line (escape_line E l) = read_line E l"
  using msg_prefix_re_L [of E l]
  by (auto simp: escape_line_def read_line_def unescape_line_def starts_with_iff)

lemma read_line_id: "\<not> starts_with '' [L'' l \<Longrightarrow> read_line E l = l"
  by (simp add: read_line_def unescape_line_def)

lemma parse_continuations:
  "parse_lines E idx (map (escape_line E) ls @ rest) (es, Some b, False) =
   parse_lines E (idx + length ls) rest
     (es, Some (b @ concat (map (\<lambda>l. newline # read_line E l) ls)), False)"
  by (induction ls arbitrary: idx b) auto

definition read_body :: "ext \<Rightarrow> string \<Rightarrow> string" where
  "read_body E body =
     (case lines body of [] \<Rightarrow> []
      | first # rest \<Rightarrow> first @ concat (map (\<lambda>l. newline # read_line E l) rest))"

subsection \<open>Well-formed entries and what they read back as\<close>

fun format_entry :: "ext \<Rightarrow> thread_entry \<Rightarrow> string" where
  "format_entry E (EMessage m) =
     format_message E (msg_line_number m) (msg_point_to m) (msg_author m) (msg_timestamp m) (msg_body m)"
| "format_entry E (EEvent e) =
     format_event E (ev_line_number e) (ev_author e) (ev_timestamp e) (ev_event_type e) (ev_meta e)"

definition event_name :: "string \<Rightarrow> bool" where
  "event_name s \<longleftrightarrow> s \<noteq> [] \<and> is_lower (hd s) \<and> list_all event_char s"

definition one_line :: "string \<Rightarrow> bool" where
  "one_line s \<longleftrightarrow> s \<noteq> [] \<and> newline \<notin> set s \<and> carriage \<notin> set s"

fun entry_wf :: "ext \<Rightarrow> thread_entry \<Rightarrow> bool" where
  "entry_wf E (EMessage m) \<longleftrightarrow>
     msg_line_number m \<le> u64_max \<and> msg_point_to m \<le> u64_max \<and> entry_handler (msg_author m)
     \<and> compact_timestamp (msg_timestamp m) \<and> carriage \<notin> set (msg_body m)
     \<and> msg_body m \<noteq> [] \<and> hd (msg_body m) \<noteq> newline"
| "entry_wf E (EEvent e) \<longleftrightarrow>
     ev_line_number e \<le> u64_max \<and> ev_point_to e = 0 \<and> entry_handler (ev_author e)
     \<and> compact_timestamp (ev_timestamp e) \<and> event_name (ev_event_type e)
     \<and> one_line (json_to_string E (ev_meta e))
     \<and> json_from_str E (json_to_string E (ev_meta e)) = Some (ev_meta e)"

fun read_entry :: "ext \<Rightarrow> thread_entry \<Rightarrow> thread_entry" where
  "read_entry E (EMessage m) =
     (let b = read_body E (msg_body m)
      in EMessage (m\<lparr>msg_body := b, msg_mentions := extract_mentions b, msg_links := extract_links E b\<rparr>))"
| "read_entry E (EEvent e) = EEvent e"

text \<open>The lines an entry is written as: its header line, and its continuation lines.\<close>

fun entry_tail :: "ext \<Rightarrow> thread_entry \<Rightarrow> string list" where
  "entry_tail E (EMessage m) = map (escape_line E) (tl (lines (msg_body m)))"
| "entry_tail E (EEvent e) = []"

fun entry_head :: "ext \<Rightarrow> thread_entry \<Rightarrow> string" where
  "entry_head E (EMessage m) =
     format_header (msg_line_number m) (msg_point_to m) (msg_author m) (msg_timestamp m)
     @ '' '' @ hd (lines (msg_body m))"
| "entry_head E (EEvent e) =
     format_header (ev_line_number e) 0 (ev_author e) (ev_timestamp e)
     @ ''[E:'' @ ev_event_type e @ ''] '' @ json_to_string E (ev_meta e)"

lemma format_entry_lines:
  "entry_wf E e \<Longrightarrow> format_entry E e = concat (map (\<lambda>l. l @ [newline]) (entry_head E e # entry_tail E e))"
  by (cases e) (auto simp: format_message_def format_event_def comp_def split: list.splits)

lemma lines_clean:
  assumes "carriage \<notin> set s" "l \<in> set (lines s)"
  shows "newline \<notin> set l \<and> carriage \<notin> set l"
  using assms
proof (induction s rule: length_induct)
  case (1 s)
  show ?case
  proof (cases "newline \<in> set s")
    case True
    then obtain u v where uv: "s = u @ newline # v" "newline \<notin> set u" using split_list_first by metis
    have u: "u = [] \<or> last u \<noteq> carriage" using 1(2) uv(1) by (metis Un_iff last_in_set set_append)
    have "l = u \<or> l \<in> set (lines v)" using 1(3) lines_line [OF uv(2) u] by (simp add: uv(1))
    moreover have "length v < length s" "carriage \<notin> set v" using uv(1) 1(2) by auto
    ultimately show ?thesis using 1(1,2) uv by auto
  next
    case False
    then show ?thesis using 1(2,3) lines_last [of s] by (cases "s = []") auto
  qed
qed

lemma digits_clean: "list_all is_digit s \<Longrightarrow> newline \<notin> set s \<and> carriage \<notin> set s"
  by (auto simp: list_all_iff byte_class)

lemma kebab_clean: "list_all kebab_char s \<Longrightarrow> newline \<notin> set s \<and> carriage \<notin> set s"
  by (auto simp: list_all_iff kebab_char_def byte_class)

lemma event_clean: "list_all event_char s \<Longrightarrow> newline \<notin> set s \<and> carriage \<notin> set s"
  by (auto simp: list_all_iff event_char_def byte_class)

lemma format_header_clean:
  assumes "list_all kebab_char (as_str h)" "compact_timestamp ts"
  shows "newline \<notin> set (format_header ln pt h ts) \<and> carriage \<notin> set (format_header ln pt h ts)"
proof -
  obtain d t where dt: "ts = d @ ''T'' @ t @ ''Z''" "list_all is_digit d" "list_all is_digit t"
    using assms(2) by (rule compact_timestamp_split)
  then have "newline \<notin> set ts \<and> carriage \<notin> set ts"
    using digits_clean [of d] digits_clean [of t] by simp
  then show ?thesis
    using kebab_clean [OF assms(1)] digits_clean [OF pad_digits [of "format_width ln" ln]]
      digits_clean [OF pad_digits [of "format_width ln" pt]]
    by (simp add: format_header_def Let_def)
qed

lemma escape_clean: "newline \<notin> set l \<and> carriage \<notin> set l \<Longrightarrow>
  newline \<notin> set (escape_line E l) \<and> carriage \<notin> set (escape_line E l)"
  by (simp add: escape_line_def)

lemma entry_lines_clean:
  assumes "entry_wf E e" "l \<in> set (entry_head E e # entry_tail E e)"
  shows "newline \<notin> set l \<and> carriage \<notin> set l"
proof (cases e)
  case (EMessage m)
  have k: "list_all kebab_char (as_str (msg_author m))" using assms(1) entry_handler_kebab EMessage by auto
  have b: "lines (msg_body m) \<noteq> []" "carriage \<notin> set (msg_body m)" using assms(1) EMessage by auto
  note c = lines_clean [OF b(2)]
  from assms(2) EMessage consider "l = entry_head E e" | l' where "l = escape_line E l'" "l' \<in> set (lines (msg_body m))"
    using list.set_sel(2) [OF b(1)] by auto
  then show ?thesis
  proof cases
    case 1
    then show ?thesis
      using c [of "hd (lines (msg_body m))"] b format_header_clean [OF k] assms(1) EMessage
      by simp
  next
    case 2
    then show ?thesis using c escape_clean by blast
  qed
next
  case (EEvent ev)
  have k: "list_all kebab_char (as_str (ev_author ev))" using assms(1) entry_handler_kebab EEvent by auto
  have "list_all event_char (ev_event_type ev)" using assms(1) EEvent by (simp add: event_name_def)
  then show ?thesis
    using assms EEvent format_header_clean [OF k, of "ev_timestamp ev"] event_clean [of "ev_event_type ev"]
    by (simp add: one_line_def)
qed

lemma lines_formatted:
  "list_all (entry_wf E) es \<Longrightarrow>
   lines (concat (map (format_entry E) es)) = concat (map (\<lambda>e. entry_head E e # entry_tail E e) es)"
proof (induction es)
  case (Cons e es)
  have wf: "entry_wf E e" using Cons.prems by simp
  show ?case
    using Cons lines_unlines [of "entry_head E e # entry_tail E e" "concat (map (format_entry E) es)"]
      entry_lines_clean [OF wf] format_entry_lines [OF wf] by auto
qed simp

subsection \<open>Reading what was written\<close>

lemma parse_u64_pad: "n \<le> u64_max \<Longrightarrow> parse_u64 (pad0 w (show_nat n)) = Inr n"
  by (simp add: parse_u64_def parse_pad0_show)

lemma re_event_name:
  "event_name n \<Longrightarrow> re_event (''[E:'' @ n @ ''] '' @ s) = Some (n, '' '' @ s)"
  using re_plus_run [of event_char n "CHR '']''" "'' '' @ s"]
  by (simp add: re_event_def event_name_def event_char_def byte_class)

lemma lines_hd:
  assumes "carriage \<notin> set s" "s \<noteq> []" "hd s \<noteq> newline"
  shows "hd (lines s) \<noteq> []"
proof (cases "newline \<in> set s")
  case True
  then obtain u v where uv: "s = u @ newline # v" "newline \<notin> set u" using split_list_first by metis
  have "u \<noteq> []" using uv(1) assms(3) by auto
  moreover have "u = [] \<or> last u \<noteq> carriage" using assms(1) uv(1) by (metis Un_iff last_in_set set_append)
  ultimately show ?thesis using lines_line [OF uv(2)] uv(1) by auto
next
  case False
  then show ?thesis using assms(2) lines_last by simp
qed

fun pushed_entry :: "thread_entry \<Rightarrow> thread_entry" where
  "pushed_entry (EMessage m) =
     blank_entry (msg_line_number m) (msg_point_to m) (msg_author m) (msg_timestamp m) None"
| "pushed_entry (EEvent e) =
     blank_entry (ev_line_number e) 0 (ev_author e) (ev_timestamp e) (Some (ev_event_type e))"

fun head_body :: "ext \<Rightarrow> thread_entry \<Rightarrow> string" where
  "head_body E (EMessage m) = hd (lines (msg_body m))"
| "head_body E (EEvent e) = json_to_string E (ev_meta e)"

fun full_body :: "ext \<Rightarrow> thread_entry \<Rightarrow> string" where
  "full_body E (EMessage m) = read_body E (msg_body m)"
| "full_body E (EEvent e) = json_to_string E (ev_meta e)"

lemma parse_head:
  assumes "entry_wf E e"
  shows "parse_step E idx (entry_head E e) (es, body, f) =
    Inr (finalize_entry E es body @ [pushed_entry e], Some (head_body E e), False)"
proof (cases e)
  case (EMessage m)
  let ?b = "hd (lines (msg_body m))"
  have wf: "msg_line_number m \<le> u64_max" "msg_point_to m \<le> u64_max" "entry_handler (msg_author m)"
    "compact_timestamp (msg_timestamp m)" "carriage \<notin> set (msg_body m)" "msg_body m \<noteq> []"
    "hd (msg_body m) \<noteq> newline" using assms EMessage by auto
  have "?b \<in> set (lines (msg_body m))" using wf(6) by simp
  then have b: "?b \<noteq> []" "newline \<notin> set ?b" using lines_hd lines_clean wf(5-7) by auto
  have "re_event ('' '' @ ?b) = None" by (simp add: re_event_def)
  then show ?thesis
    using EMessage entry_handler_kebab [OF wf(3)] parse_u64_pad wf(1,2) parse_author_handler [OF wf(3), of idx]
      msg_re_header [OF _ _ wf(4) _ b, of "msg_author m" "'' '' @ ?b" None E "msg_line_number m" "msg_point_to m"]
    by simp
next
  case (EEvent ev)
  let ?b = "json_to_string E (ev_meta ev)"
  have wf: "ev_line_number ev \<le> u64_max" "entry_handler (ev_author ev)"
    "compact_timestamp (ev_timestamp ev)" "event_name (ev_event_type ev)"
    "?b \<noteq> []" "newline \<notin> set ?b" using assms EEvent by (auto simp: one_line_def)
  show ?thesis
    using EEvent entry_handler_kebab [OF wf(2)] parse_u64_pad wf(1) parse_author_handler [OF wf(2), of idx]
      re_event_name [OF wf(4), of ?b]
      msg_re_header [OF _ _ wf(3) _ wf(5,6), of "ev_author ev" "''[E:'' @ ev_event_type ev @ ''] '' @ ?b"
        "Some (ev_event_type ev)" E "ev_line_number ev" 0]
      by simp
qed

lemma parse_tail:
  assumes "entry_wf E e"
  shows "parse_lines E idx (entry_tail E e @ rest) (es, Some (head_body E e), False) =
    parse_lines E (idx + length (entry_tail E e)) rest (es, Some (full_body E e), False)"
proof (cases e)
  case (EMessage m)
  then have "lines (msg_body m) \<noteq> []" using assms by simp
  then show ?thesis using EMessage by (cases "lines (msg_body m)") (auto simp: parse_continuations read_body_def)
qed simp

lemma finalize_pushed: "entry_wf E e \<Longrightarrow> finalize_last E (full_body E e) (pushed_entry e) = read_entry E e"
  by (cases e) (auto simp: blank_entry_def Let_def)

lemma parse_formatted_lines:
  assumes "list_all (entry_wf E) es"
  shows "\<exists>es1 b1 f1. parse_lines E idx (concat (map (\<lambda>e. entry_head E e # entry_tail E e) es)) (es0, body, f)
     = Inr (es1, b1, f1) \<and> finalize_entry E es1 b1 = finalize_entry E es0 body @ map (read_entry E) es"
  using assms
proof (induction es arbitrary: idx es0 body f)
  case (Cons e es)
  let ?es0 = "finalize_entry E es0 body @ [pushed_entry e]"
  have wf: "entry_wf E e" "list_all (entry_wf E) es" using Cons.prems by auto
  have fin: "finalize_entry E ?es0 (Some (full_body E e)) = finalize_entry E es0 body @ [read_entry E e]"
    using finalize_pushed [OF wf(1)] by (simp add: finalize_entry_def)
  show ?case
    using Cons.IH [OF wf(2), of "idx + 1 + length (entry_tail E e)" ?es0 "Some (full_body E e)" False]
    unfolding fin by (simp add: parse_head [OF wf(1)] parse_tail [OF wf(1)] del: parse_step.simps)
qed simp

lemma parse_thread_formatted:
  assumes "list_all (entry_wf E) es"
  shows "parse_thread E (concat (map (format_entry E) es)) = Inr \<lparr>entries = map (read_entry E) es\<rparr>"
proof -
  let ?s = "concat (map (format_entry E) es)"
  have "carriage \<notin> set (format_entry E e)" if "e \<in> set es" for e
    using that assms entry_lines_clean [of E e] format_entry_lines [of E e] by (auto simp: list_all_iff)
  then have cr: "replace_crlf ?s = ?s" by (intro replace_crlf_id) auto
  have "format_entry E e \<noteq> []" if "e \<in> set es" for e
    using that assms format_entry_lines [of E e] by (auto simp: list_all_iff)
  then have ne: "?s = [] \<longleftrightarrow> es = []" by (cases es) auto
  show ?thesis
    using parse_formatted_lines [OF assms, of 0 "[]" None True] ne
    by (auto simp: parse_thread_def cr lines_formatted [OF assms, symmetric] finalize_entry_def
        simp del: parse_lines.simps)
qed

subsection \<open>Concatenating files\<close>

lemma parse_lines_append:
  "parse_lines E idx (xs @ ys) st = andThen (parse_lines E idx xs st) (parse_lines E (idx + length xs) ys)"
proof (induction xs arbitrary: idx st)
  case (Cons x xs)
  then show ?case by (cases "parse_step E idx x st") auto
qed simp

lemma finalize_frame: "es \<noteq> [] \<Longrightarrow> finalize_entry E (pre @ es) b = pre @ finalize_entry E es b"
  by (auto simp: finalize_entry_def butlast_append split: option.splits)

lemma finalize_nonempty [simp]: "finalize_entry E es b = [] \<longleftrightarrow> es = []"
  by (auto simp: finalize_entry_def split: option.splits)

lemma parse_author_index: "parse_author i raw = Inr h \<Longrightarrow> parse_author j raw = Inr h"
  by (auto simp: parse_author_def split: if_splits)

lemma parse_step_frame:
  assumes "parse_step E i l (es, b, False) = Inr (es', b', f')" "es \<noteq> []"
  shows "parse_step E j l (pre @ es, b, False) = Inr (pre @ es', b', f') \<and> es' \<noteq> [] \<and> \<not> f'"
  using assms by (auto simp: finalize_frame Let_def split: option.splits dest: parse_author_index)

lemma parse_lines_frame:
  assumes "parse_lines E i ls (es, b, False) = Inr (es', b', f')" "es \<noteq> []"
  shows "parse_lines E j ls (pre @ es, b, False) = Inr (pre @ es', b', f') \<and> es' \<noteq> []"
  using assms
proof (induction ls arbitrary: i j es b)
  case (Cons l ls)
  then obtain es1 b1 f1 where s: "parse_step E i l (es, b, False) = Inr (es1, b1, f1)"
    "parse_lines E (i + 1) ls (es1, b1, f1) = Inr (es', b', f')"
    by (auto simp del: parse_step.simps)
  note step = parse_step_frame [OF s(1) Cons.prems(2), of j pre]
  then have "parse_lines E (j + 1) ls (pre @ es1, b1, False) = Inr (pre @ es', b', f') \<and> es' \<noteq> []"
    using Cons.IH [of "i + 1" es1 b1 "j + 1"] s(2) by auto
  then show ?case using step by (auto simp del: parse_step.simps)
qed simp

text \<open>The first line of a file is an entry line, and reading it forgets nothing of what stands
  before it.\<close>

lemma parse_first_frame:
  assumes "parse_lines E i ls ([], None, True) = Inr (es', b', f')" "ls \<noteq> []"
  shows "parse_lines E j ls (pre, body, f) = Inr (finalize_entry E pre body @ es', b', f') \<and> es' \<noteq> []"
proof -
  obtain l rest where ls: "ls = l # rest" using assms(2) by (cases ls) auto
  then obtain es1 b1 f1 where s: "parse_step E i l ([], None, True) = Inr (es1, b1, f1)"
    "parse_lines E (i + 1) rest (es1, b1, f1) = Inr (es', b', f')"
    using assms(1) by (auto simp del: parse_step.simps)
  then have step: "parse_step E j l (pre, body, f) = Inr (finalize_entry E pre body @ es1, b1, False)
    \<and> es1 \<noteq> [] \<and> \<not> f1"
    by (auto simp: finalize_entry_def Let_def split: option.splits if_splits dest: parse_author_index)
  then show ?thesis
    using s(2) parse_lines_frame [of E "i + 1" rest es1 b1 es' b' f' "j + 1" "finalize_entry E pre body"]
    by (auto simp: ls simp del: parse_step.simps)
qed

lemma parse_thread_append:
  assumes a: "parse_thread E a = Inr fa" and b: "parse_thread E b = Inr fb"
    and nl: "a = [] \<or> last a = newline"
  shows "parse_thread E (a @ b) = Inr \<lparr>entries = entries fa @ entries fb\<rparr>"
proof (cases "a = [] \<or> b = []")
  case True
  then show ?thesis using a b by (auto simp: parse_thread_def split: if_splits)
next
  case False
  let ?a = "replace_crlf a" and ?b = "replace_crlf b"
  have ab: "replace_crlf (a @ b) = ?a @ ?b" using False nl by (intro replace_crlf_append) auto
  have la: "lines (?a @ ?b) = lines ?a @ lines ?b"
    using False nl replace_crlf_last [of a] by (intro lines_append) auto
  obtain ea ba ua where pa: "parse_lines E 0 (lines ?a) ([], None, True) = Inr (ea, ba, ua)"
    "entries fa = finalize_entry E ea ba" using a False by (auto simp: parse_thread_def)
  obtain eb bb ub where pb: "parse_lines E 0 (lines ?b) ([], None, True) = Inr (eb, bb, ub)"
    "entries fb = finalize_entry E eb bb" using b False by (auto simp: parse_thread_def)
  have "parse_lines E (length (lines ?a)) (lines ?b) (ea, ba, ua)
      = Inr (finalize_entry E ea ba @ eb, bb, ub) \<and> eb \<noteq> []"
    using parse_first_frame [OF pb(1)] False by simp
  then show ?thesis
    using False pa pb by (simp add: parse_thread_def ab la parse_lines_append finalize_frame)
qed

subsection \<open>The head of a formatted message\<close>

text \<open>Whatever the body (carriage returns included), text that the formatter wrote and the parser accepts begins
  with a message that has the line number, the reference and the author it was given.\<close>

lemma split_inclusive_piece: "l \<in> set (split_inclusive s) \<Longrightarrow> \<exists>a. newline \<notin> set a \<and> (l = a \<or> l = a @ [newline])"
proof (induction s arbitrary: l rule: length_induct)
  case (1 s)
  show ?case
  proof (cases "newline \<in> set s")
    case True
    then obtain a r where s: "s = a @ newline # r" "newline \<notin> set a" by (auto dest: split_list_first)
    then have "l = a @ [newline] \<or> l \<in> set (split_inclusive r)" "length r < length s"
      using 1(2) by (auto simp: split_inclusive_line)
    then show ?thesis using 1(1) s(2) by blast
  next
    case False
    then show ?thesis using 1(2) split_inclusive_last [of s] by (cases "s = []") auto
  qed
qed

lemma lines_map_clean: "newline \<notin> set a \<Longrightarrow> newline \<notin> set (lines_map a) \<and> newline \<notin> set (lines_map (a @ [newline]))"
  by (auto simp: lines_map_def split: option.splits)

lemma lines_no_newline: "l \<in> set (lines s) \<Longrightarrow> newline \<notin> set l"
  using split_inclusive_piece lines_map_clean by (fastforce simp: lines_def)

lemma replace_crlf_line:
  "newline \<notin> set a \<Longrightarrow> \<exists>a'. newline \<notin> set a' \<and> replace_crlf (a @ newline # r) = a' @ newline # replace_crlf r"
proof (induction a)
  case Nil
  then show ?case using replace_crlf_Cons [of newline r] by (intro exI [of _ "[]"]) simp
next
  case (Cons c a)
  then obtain a' where a': "newline \<notin> set a'" "replace_crlf (a @ newline # r) = a' @ newline # replace_crlf r" by auto
  show ?case
  proof (cases "c = carriage \<and> a = []")
    case True
    then show ?thesis by (intro exI [of _ "[]"]) simp
  next
    case False
    then have "replace_crlf ((c # a) @ newline # r) = c # replace_crlf (a @ newline # r)"
      using Cons.prems by (cases a) auto
    then show ?thesis using a' Cons.prems by (intro exI [of _ "c # a'"]) simp
  qed
qed

lemma lines_strip:
  assumes "newline \<notin> set P" "newline \<notin> set a" "P \<noteq> []" "last P \<noteq> carriage"
  shows "\<exists>a'. newline \<notin> set a' \<and> lines (P @ a @ newline # r) = (P @ a') # lines r"
proof (cases "a \<noteq> [] \<and> last a = carriage")
  case True
  then obtain b where b: "a = b @ [carriage]" by (metis append_butlast_last_id)
  have "strip_suffix [newline] (P @ a @ [newline]) = Some (P @ a)" using strip_suffix_Some by fastforce
  moreover have "strip_suffix [carriage] (P @ a) = Some (P @ b)" using b strip_suffix_Some by fastforce
  ultimately have "lines_map (P @ a @ [newline]) = P @ b" by (simp add: lines_map_def del: strip_suffix_Some)
  then show ?thesis
    using assms b split_inclusive_line [of "P @ a" r] by (intro exI [of _ b]) (simp add: lines_def)
next
  case False
  then show ?thesis using assms lines_line [of "P @ a" r] by (intro exI [of _ a]) (auto simp: last_append)
qed

fun head_is :: "nat \<Rightarrow> nat \<Rightarrow> handler \<Rightarrow> thread_entry \<Rightarrow> bool" where
  "head_is n pt h (EMessage m) \<longleftrightarrow> msg_line_number m = n \<and> msg_point_to m = pt \<and> msg_author m = h"
| "head_is n pt h (EEvent _) \<longleftrightarrow> False"

lemma finalize_head:
  "es \<noteq> [] \<Longrightarrow> head_is n pt h (hd es) \<Longrightarrow> head_is n pt h (hd (finalize_entry E es b))"
  by (cases "hd es"; cases es) (auto simp: finalize_entry_def split: option.splits)

lemma parse_lines_head:
  "parse_lines E i ls (es, b, f) = Inr (es', b', f') \<Longrightarrow> es \<noteq> [] \<Longrightarrow> head_is n pt h (hd es) \<Longrightarrow>
   es' \<noteq> [] \<and> head_is n pt h (hd es')"
proof (induction ls arbitrary: i es b f)
  case (Cons l ls)
  then obtain es1 b1 f1 where s: "parse_step E i l (es, b, f) = Inr (es1, b1, f1)"
    "parse_lines E (i + 1) ls (es1, b1, f1) = Inr (es', b', f')"
    by (auto simp del: parse_step.simps)
  have "es1 \<noteq> [] \<and> head_is n pt h (hd es1)"
    using s(1) Cons.prems(2,3) finalize_head [of es n pt h E b]
    by (auto simp: Let_def split: option.splits if_splits)
  then show ?case using Cons.IH [OF s(2)] by blast
qed simp

lemma parse_format_head:
  assumes p: "parse_thread E (format_message E n pt h ts body) = Inr f"
    and wf: "n \<le> u64_max" "pt \<le> u64_max" "entry_handler h" "compact_timestamp ts"
  shows "entries f \<noteq> [] \<and> head_is n pt h (hd (entries f))"
proof -
  let ?P = "format_header n pt h ts @ '' ''"
  note k = entry_handler_kebab [OF wf(3)]
  have P: "newline \<notin> set ?P" "carriage \<notin> set ?P" using format_header_clean [of h ts n pt] k wf(4) by auto
  obtain first rest where t: "format_message E n pt h ts body = ?P @ first @ newline # rest" "newline \<notin> set first"
    using lines_no_newline [of _ body]
    by (cases "lines body") (fastforce simp: format_message_def)+
  obtain a where a: "newline \<notin> set a" "replace_crlf (first @ newline # rest) = a @ newline # replace_crlf rest"
    using replace_crlf_line [OF t(2)] by blast
  have "last ?P \<noteq> carriage" by simp
  then have r: "replace_crlf (format_message E n pt h ts body) = ?P @ a @ newline # replace_crlf rest"
    using replace_crlf_append [of ?P "first @ newline # rest"] replace_crlf_id [OF P(2)] a(2) t(1) by simp
  obtain b where b: "newline \<notin> set b" "lines (replace_crlf (format_message E n pt h ts body)) = (?P @ b) # lines (replace_crlf rest)"
    using lines_strip [OF P(1) a(1)] unfolding r by auto
  have re: "msg_re E (?P @ b) = (if b = [] then None else Some \<lparr>cap_line = pad0 (format_width n) (show_nat n),
       cap_point = pad0 (format_width n) (show_nat pt), cap_handler = as_str h, cap_time = ts, cap_event = None, cap_body = b\<rparr>)"
    using msg_re_header_gen [of h ts "'' '' @ b" None b E n pt] k wf(4) b(1) by (simp add: re_event_def)
  obtain es bd fl where pl: "parse_lines E 0 ((?P @ b) # lines (replace_crlf rest)) ([], None, True) = Inr (es, bd, fl)"
      "entries f = finalize_entry E es bd"
    using p t(1) unfolding parse_thread_def b(2) Let_def by (auto simp del: parse_lines.simps)
  obtain es1 b1 f1 where s1: "parse_step E 0 (?P @ b) ([], None, True) = Inr (es1, b1, f1)"
      "parse_lines E 1 (lines (replace_crlf rest)) (es1, b1, f1) = Inr (es, bd, fl)"
    using pl(1) by (auto simp del: parse_step.simps)
  have "es1 \<noteq> [] \<and> head_is n pt h (hd es1)"
    using s1(1) re parse_u64_pad wf(1,2) parse_author_handler [OF wf(3), of 0]
    by (auto simp: blank_entry_def finalize_entry_def split: if_splits)
  then show ?thesis using parse_lines_head [OF s1(2)] finalize_head pl(2) by auto
qed
subsection \<open>Main results\<close>

text \<open>C1: Reading is a homomorphism: when one thread file ends with a newline (or is empty) and both
  files parse, the concatenation parses, to the entries of the first followed by the entries of
  the second.  An append never changes how the earlier entries read.\<close>

theorem parse_thread_concat:
  assumes "parse_thread E a = Inr fa" "parse_thread E b = Inr fb" "a = [] \<or> last a = newline"
  shows "parse_thread E (a @ b) = Inr \<lparr>entries = entries fa @ entries fb\<rparr>"
  using assms by (rule parse_thread_append)

text \<open>An entry that reads back as itself: no continuation line begins like an escaped one, the body
  has no final newline, and the derived fields are those the parser derives.\<close>

fun entry_exact :: "ext \<Rightarrow> thread_entry \<Rightarrow> bool" where
  "entry_exact E (EMessage m) \<longleftrightarrow>
     last (msg_body m) \<noteq> newline \<and> list_all (\<lambda>l. \<not> starts_with '' [L'' l) (tl (lines (msg_body m)))
     \<and> msg_mentions m = extract_mentions (msg_body m) \<and> msg_links m = extract_links E (msg_body m)"
| "entry_exact E (EEvent e) \<longleftrightarrow> True"

lemma lines_join:
  assumes "carriage \<notin> set s" "s \<noteq> []" "last s \<noteq> newline"
  shows "hd (lines s) @ concat (map (\<lambda>l. newline # l) (tl (lines s))) = s"
  using assms
proof (induction s rule: length_induct)
  case (1 s)
  show ?case
  proof (cases "newline \<in> set s")
    case True
    then obtain u v where uv: "s = u @ newline # v" "newline \<notin> set u" using split_list_first by metis
    have u: "u = [] \<or> last u \<noteq> carriage" using 1(2) uv(1) by (metis Un_iff last_in_set set_append)
    have v: "v \<noteq> []" "last v \<noteq> newline" "carriage \<notin> set v" "length v < length s" using 1(2,4) uv(1) by (auto split: if_splits)
    have "hd (lines v) @ concat (map (\<lambda>l. newline # l) (tl (lines v))) = v" using 1(1) v by blast
    then have "concat (map (\<lambda>l. newline # l) (lines v)) = newline # v"
      using v(1) by (cases "lines v") auto
    then show ?thesis using lines_line [OF uv(2) u] by (simp add: uv(1))
  qed (use 1 lines_last in simp)
qed

lemma read_body_exact:
  assumes "carriage \<notin> set s" "s \<noteq> []" "last s \<noteq> newline"
    "list_all (\<lambda>l. \<not> starts_with '' [L'' l) (tl (lines s))"
  shows "read_body E s = s"
proof -
  have eq: "concat (map (\<lambda>l. newline # read_line E l) (tl (lines s))) = concat (map (\<lambda>l. newline # l) (tl (lines s)))"
    using assms(4) by (intro arg_cong [where f = concat] map_cong) (auto simp: list_all_iff read_line_id)
  have "read_body E s = hd (lines s) @ concat (map (\<lambda>l. newline # read_line E l) (tl (lines s)))"
    using assms(2) by (cases "lines s") (simp_all add: read_body_def)
  then show ?thesis unfolding eq using lines_join [OF assms(1-3)] by simp
qed

lemma read_entry_exact: "entry_wf E e \<Longrightarrow> entry_exact E e \<Longrightarrow> read_entry E e = e"
  by (cases e) (auto simp: Let_def read_body_exact)


text \<open>C3: No body can forge an entry: whatever lines a message body contains (lines that look like
  entry headers included), the written messages read back as exactly as many entries, with their own
  line numbers, references, authors and timestamps.\<close>

theorem thread_no_forged_entries:
  assumes "list_all (entry_wf E) es"
  shows "\<exists>f. parse_thread E (concat (map (format_entry E) es)) = Inr f
    \<and> map (\<lambda>e. (entry_line_number e, entry_point_to e, entry_author e, entry_timestamp e)) (entries f)
      = map (\<lambda>e. (entry_line_number e, entry_point_to e, entry_author e, entry_timestamp e)) es"
proof -
  have "entry_line_number (read_entry E e) = entry_line_number e \<and> entry_point_to (read_entry E e) = entry_point_to e
    \<and> entry_author (read_entry E e) = entry_author e \<and> entry_timestamp (read_entry E e) = entry_timestamp e" for e
    by (cases e) (auto simp: Let_def)
  then show ?thesis using parse_thread_formatted [OF assms] by simp
qed

subsection \<open>Concrete files\<close>

definition demo_entries :: "thread_entry list" where
  "demo_entries =
    [EMessage \<lparr>msg_line_number = 1, msg_point_to = 0, msg_author = Handler ''alice'',
       msg_timestamp = ''20260101T000000Z'', msg_body = ''hi'' @ [newline] @ ''[L000009] x'',
       msg_mentions = [], msg_links = []\<rparr>,
     EEvent \<lparr>ev_line_number = 2, ev_point_to = 0, ev_author = handler_system,
       ev_timestamp = ''20260101T000001Z'', ev_event_type = ''join'', ev_meta = JObject []\<rparr>]"

lemma demo_entries_wf: "list_all (entry_wf ref_ext) demo_entries"
  by (simp add: demo_entries_def entry_handler_def handler_system_def handler_new_Inr
      kebab_wf_def kebab_char_def compact_timestamp_def event_name_def event_char_def one_line_def
      ref_ext_def byte_class) code_simp

lemma demo_entries_exact: "list_all (entry_exact ref_ext) demo_entries"
  by code_simp

theorem parse_thread_concat_witness:
  "\<exists>f. parse_thread ref_ext (concat (map (format_entry ref_ext) demo_entries)
         @ concat (map (format_entry ref_ext) demo_entries)) = Inr f \<and> length (entries f) = 4"
proof -
  let ?s = "concat (map (format_entry ref_ext) demo_entries)"
  have "last ?s = newline" by code_simp
  then show ?thesis
    using parse_thread_concat [OF parse_thread_formatted parse_thread_formatted, OF demo_entries_wf demo_entries_wf]
    by (simp add: demo_entries_def)
qed


theorem thread_no_forged_entries_witness:
  "\<exists>f. parse_thread ref_ext (concat (map (format_entry ref_ext) demo_entries)) = Inr f
     \<and> map (\<lambda>e. (entry_line_number e, entry_point_to e, entry_author e, entry_timestamp e)) (entries f)
       = [(1, 0, Handler ''alice'', ''20260101T000000Z''), (2, 0, handler_system, ''20260101T000001Z'')]"
  using thread_no_forged_entries [OF demo_entries_wf] by (simp add: demo_entries_def)

subsection \<open>Where reading fails\<close>

text \<open>C24: A header whose line number does not fit a \<^verbatim>\<open>u64\<close> makes the parser panic: the line matches the
  entry grammar, and the number is then converted with no error path.\<close>

theorem parse_thread_overflow_panics:
  assumes "u64_max < n" "entry_handler h" "compact_timestamp ts" "one_line b" "pt \<le> u64_max"
  shows "parse_thread E (format_header n pt h ts @ '' '' @ b) = Inl ParsePanic"
proof -
  let ?l = "format_header n pt h ts @ '' '' @ b"
  have k: "as_str h \<noteq> []" "list_all kebab_char (as_str h)" using entry_handler_kebab [OF assms(2)] by auto
  have clean: "newline \<notin> set ?l" "carriage \<notin> set ?l"
    using format_header_clean [OF k(2) assms(3)] assms(4) by (auto simp: one_line_def)
  have re: "msg_re E ?l = Some \<lparr>cap_line = pad0 (format_width n) (show_nat n),
    cap_point = pad0 (format_width n) (show_nat pt), cap_handler = as_str h, cap_time = ts,
    cap_event = None, cap_body = b\<rparr>"
    using assms(4) by (intro msg_re_header [OF k assms(3)]) (auto simp: re_event_def one_line_def)
  have "parse_u64 (pad0 (format_width n) (show_nat n)) = Inl ParsePanic"
    using assms(1) parse_uint_overflow [OF pad_digits] by (simp add: parse_u64_def)
  then show ?thesis
    using clean re by (simp add: parse_thread_def replace_crlf_id lines_last)
qed

theorem parse_thread_overflow_panics_witness:
  "parse_thread ref_ext (format_header 18446744073709551616 0 (Handler ''a'') ''20260101T000000Z'' @ '' x'')
   = Inl ParsePanic"
proof -
  have "entry_handler (Handler ''a'')" "compact_timestamp ''20260101T000000Z''" "one_line ''x''" by code_simp+
  then show ?thesis
    using parse_thread_overflow_panics [of 18446744073709551616 "Handler ''a''" "''20260101T000000Z''" "''x''" 0 ref_ext]
    by simp
qed

subsection \<open>Appending to a thread (thread\_io.rs)\<close>

text \<open>\<^verbatim>\<open>append_message_to_thread\<close> on the content of the file (empty when there is none): the line number
  given and the new content of the file.\<close>

definition append_message_to_thread ::
  "ext \<Rightarrow> string \<Rightarrow> handler \<Rightarrow> string \<Rightarrow> string \<Rightarrow> nat option \<Rightarrow> parse_error + nat \<times> string" where
  "append_message_to_thread E existing author now body reply_to =
     andThen (parse_thread E existing) (\<lambda>f.
       let next_line = u64_add (last_line_number f) 1;
           point_to = (case reply_to of Some p \<Rightarrow> p | None \<Rightarrow> 0)
       in Inr (next_line, existing @ format_message E next_line point_to author now body))"

text \<open>\<^verbatim>\<open>read_thread_entries\<close>, the selection of entries: after \<open>since\<close>, then the first \<open>limit\<close> of them
  (the last \<open>limit\<close> when there is no \<open>since\<close>).\<close>

definition read_thread_entries ::
  "ext \<Rightarrow> string \<Rightarrow> nat option \<Rightarrow> nat option \<Rightarrow> parse_error + thread_entry list" where
  "read_thread_entries E content limit since =
     andThen (parse_thread E content) (\<lambda>f.
       let es = (case since of Some n \<Rightarrow> filter (\<lambda>e. n < entry_line_number e) (entries f) | None \<Rightarrow> entries f)
       in Inr (case limit of
                 None \<Rightarrow> es
               | Some lim \<Rightarrow> if since \<noteq> None then take lim es else drop (length es - lim) es))"

text \<open>An appended message is what is read next: on a file that parses, appending a message with a
  non-empty first line, reading everything after the previous last line returns exactly that
  message, with the line number the append reported.\<close>

theorem append_then_read:
  assumes f: "parse_thread E existing = Inr f" and nl: "existing = [] \<or> last existing = newline"
    and asc: "\<forall>e \<in> set (entries f). entry_line_number e \<le> last_line_number f" "last_line_number f < u64_max"
    and wf: "entry_handler author" "compact_timestamp now" "carriage \<notin> set body" "body \<noteq> []"
      "hd body \<noteq> newline" "(case reply_to of Some p \<Rightarrow> p \<le> u64_max | None \<Rightarrow> True)"
  shows "\<exists>content m. append_message_to_thread E existing author now body reply_to
      = Inr (last_line_number f + 1, content)
    \<and> read_thread_entries E content None (Some (last_line_number f)) = Inr [EMessage m]
    \<and> msg_line_number m = last_line_number f + 1 \<and> msg_author m = author \<and> msg_body m = read_body E body"
proof -
  let ?n = "last_line_number f + 1" and ?p = "case reply_to of Some p \<Rightarrow> p | None \<Rightarrow> 0"
  let ?m = "\<lparr>msg_line_number = ?n, msg_point_to = ?p, msg_author = author, msg_timestamp = now,
    msg_body = body, msg_mentions = [], msg_links = []\<rparr>"
  let ?c = "existing @ format_entry E (EMessage ?m)"
  have n: "u64_add (last_line_number f) 1 = ?n" using asc(2) by (intro u64_add_exact) simp
  have "list_all (entry_wf E) [EMessage ?m]" using wf asc(2) by (auto split: option.splits)
  then have "parse_thread E (existing @ concat (map (format_entry E) [EMessage ?m]))
    = Inr \<lparr>entries = entries f @ map (read_entry E) [EMessage ?m]\<rparr>"
    using parse_thread_append [OF f _ nl] parse_thread_formatted by fastforce
  then have p: "parse_thread E ?c = Inr \<lparr>entries = entries f @ [read_entry E (EMessage ?m)]\<rparr>" by simp
  have "filter (\<lambda>e. last_line_number f < entry_line_number e) (entries f) = []"
    using asc(1) by (auto simp: filter_empty_conv)
  then have "read_thread_entries E ?c None (Some (last_line_number f)) = Inr [read_entry E (EMessage ?m)]"
    unfolding read_thread_entries_def p by (simp add: Let_def)
  moreover have "append_message_to_thread E existing author now body reply_to = Inr (?n, ?c)"
    using n by (simp add: append_message_to_thread_def f Let_def)
  ultimately show ?thesis by (auto simp: Let_def)
qed

theorem append_then_read_witness:
  "\<exists>content m. append_message_to_thread ref_ext (concat (map (format_entry ref_ext) demo_entries))
        (Handler ''bob'') ''20260102T000000Z'' ''hello'' (Some 1) = Inr (3, content)
     \<and> read_thread_entries ref_ext content None (Some 2) = Inr [EMessage m]
     \<and> msg_line_number m = 3"
proof -
  let ?s = "concat (map (format_entry ref_ext) demo_entries)"
  let ?f = "\<lparr>entries = map (read_entry ref_ext) demo_entries\<rparr>"
  have f: "parse_thread ref_ext ?s = Inr ?f" by (rule parse_thread_formatted [OF demo_entries_wf])
  have nl: "?s = [] \<or> last ?s = newline" by code_simp
  have n: "last_line_number ?f = 2" by (simp add: last_line_number_def demo_entries_def)
  have "entry_handler (Handler ''bob'')" "compact_timestamp ''20260102T000000Z''" by code_simp+
  then show ?thesis
    using append_then_read [OF f nl, of "Handler ''bob''" "''20260102T000000Z''" "''hello''" "Some 1"]
    by (simp add: n) (auto simp: demo_entries_def Let_def)
qed

lemma unparsable_thread:
  assumes "parse_thread E content = Inl err"
  shows "append_message_to_thread E content author now body reply_to = Inl err"
    and "read_thread_entries E content limit since = Inl err"
  using assms by (simp_all add: append_message_to_thread_def read_thread_entries_def)

lemma parse_bad_first:
  "msg_re E l = None \<Longrightarrow> lines s = l # ls \<Longrightarrow> carriage \<notin> set s \<Longrightarrow>
   parse_thread E s = Inl (FirstLineNotMessage 1)"
  by (cases "s = []") (simp_all add: parse_thread_def replace_crlf_id)

text \<open>C22: A card message whose body is empty or begins with a newline breaks an empty discussion: the
  append reports success, but the file it wrote no longer parses, so every later append to that
  thread and every read of it fails.\<close>

theorem append_blank_body_breaks_thread:
  assumes "entry_handler author" "compact_timestamp now" "body = [] \<or> hd body = newline" "carriage \<notin> set body"
  shows "\<exists>content. append_message_to_thread E [] author now body reply_to = Inr (1, content)
    \<and> parse_thread E content = Inl (FirstLineNotMessage 1)
    \<and> append_message_to_thread E content author' now' body' reply_to' = Inl (FirstLineNotMessage 1)
    \<and> read_thread_entries E content limit since = Inl (FirstLineNotMessage 1)"
proof -
  let ?p = "case reply_to of Some p \<Rightarrow> p | None \<Rightarrow> 0"
  let ?h = "format_header 1 ?p author now @ '' ''"
  let ?c = "format_message E 1 ?p author now body"
  have k: "as_str author \<noteq> []" "list_all kebab_char (as_str author)"
    using entry_handler_kebab [OF assms(1)] by auto
  have h: "newline \<notin> set ?h" "carriage \<notin> set ?h" using format_header_clean [OF k(2) assms(2)] by auto
  have "lines body = [] \<or> (\<exists>ls. lines body = [] # ls)"
    using assms(3) lines_line [of "[]" "tl body"] by (cases body) auto
  then obtain t where c: "?c = ?h @ newline # t" by (auto simp: format_message_def)
  have body_cr: "carriage \<notin> set l" if "l \<in> set (lines body)" for l using lines_clean assms(4) that by blast
  have cr: "carriage \<notin> set ?c"
    using h(2) body_cr by (auto simp: format_message_def escape_line_def split: list.splits)
  have "msg_re E ?h = None"
    using msg_re_header_gen [OF k assms(2), of "'' ''" None "[]" E] by (simp add: re_event_def)
  moreover have "lines ?c = ?h # lines t" unfolding c using h by (intro lines_line) auto
  ultimately have "parse_thread E ?c = Inl (FirstLineNotMessage 1)"
    using cr by (intro parse_bad_first)
  moreover have "append_message_to_thread E [] author now body reply_to = Inr (1, ?c)"
    by (simp add: append_message_to_thread_def parse_thread_def last_line_number_def u64_add_exact)
  ultimately show ?thesis using unparsable_thread by blast
qed

theorem append_blank_body_breaks_thread_witness:
  "\<exists>content. append_message_to_thread ref_ext [] (Handler ''bob'') ''20260102T000000Z'' [] None = Inr (1, content)
    \<and> parse_thread ref_ext content = Inl (FirstLineNotMessage 1)"
proof -
  have "entry_handler (Handler ''bob'')" "compact_timestamp ''20260102T000000Z''" by code_simp+
  then show ?thesis
    using append_blank_body_breaks_thread [of "Handler ''bob''" "''20260102T000000Z''" "[]" ref_ext None
      "Handler ''bob''" "[]" "[]" None None None] by auto
qed

end
