(* ===== verification/Validators.thy ===== *)
theory Validators
  imports Thread_Parser
begin

text \<open>
  The validators of \<^verbatim>\<open>crates/gitim-core/src/validator\<close>: the compliance check run before an append
  (\<^verbatim>\<open>compliance.rs\<close>), the integrity check of a file that was read (\<^verbatim>\<open>read_check.rs\<close>), the membership
  rules of join and leave (\<^verbatim>\<open>im_rules.rs\<close>) and the checks of the YAML documents (\<^verbatim>\<open>mod.rs\<close>), with the
  records of \<^verbatim>\<open>types/meta.rs\<close>, \<^verbatim>\<open>types/project.rs\<close> and \<^verbatim>\<open>types/config.rs\<close> they read.  The main result:
  an accepted append keeps a clean file clean.
\<close>

subsection \<open>Compliance of an append (compliance.rs)\<close>

datatype compliance_error =
    CParse parse_error
  | CLineNumberGap nat nat
  | CUnknownAuthor string
  | CInvalidPointTo nat
  | CEmptyBody nat
  | CUnknownMention string nat
  | CEventNonZeroPointTo nat
  | CEventInvalidJson nat
  | CNotMember string

fun check_new_entry :: "string list \<Rightarrow> nat set \<Rightarrow> thread_entry \<Rightarrow> compliance_error + unit" where
  "check_new_entry user_set known_lines (EMessage msg) =
     (if msg_point_to msg \<noteq> 0 \<and> msg_point_to msg \<notin> known_lines
      then Inl (CInvalidPointTo (msg_point_to msg))
      else andThen (try_each (\<lambda>mention.
             if as_str mention \<notin> set user_set
             then Inl (CUnknownMention (as_str mention) (msg_line_number msg)) else Inr ())
             (msg_mentions msg)) (\<lambda>_.
           if trim (msg_body msg) = [] then Inl (CEmptyBody (msg_line_number msg)) else Inr ()))"
| "check_new_entry user_set known_lines (EEvent ev) =
     (if ev_point_to ev \<noteq> 0 then Inl (CEventNonZeroPointTo (ev_line_number ev))
      else if \<not> is_object (ev_meta ev) then Inl (CEventInvalidJson (ev_line_number ev))
      else Inr ())"

fun validate_append_loop ::
  "string list \<Rightarrow> string list \<Rightarrow> nat set \<Rightarrow> nat \<Rightarrow> thread_entry list \<Rightarrow> compliance_error + unit" where
  "validate_append_loop user_set allowed_senders known_lines expected_next [] = Inr ()"
| "validate_append_loop user_set allowed_senders known_lines expected_next (entry # rest) =
     (let ln = entry_line_number entry; author = as_str (entry_author entry)
      in if ln \<noteq> expected_next then Inl (CLineNumberGap expected_next ln)
         else if author \<notin> set user_set then Inl (CUnknownAuthor author)
         else if allowed_senders \<noteq> [] \<and> author \<notin> set allowed_senders then Inl (CNotMember author)
         else andThen (check_new_entry user_set known_lines entry) (\<lambda>_.
                validate_append_loop user_set allowed_senders (insert ln known_lines) (u64_add ln 1) rest))"

definition validate_append ::
  "ext \<Rightarrow> string \<Rightarrow> string \<Rightarrow> string list \<Rightarrow> string list \<Rightarrow> compliance_error + unit" where
  "validate_append E existing new_lines registered_users allowed_senders =
     andThen (map_err CParse (parse_thread E existing)) (\<lambda>existing_file.
     andThen (map_err CParse (parse_thread E new_lines)) (\<lambda>new_file.
       validate_append_loop registered_users allowed_senders
         (set (map entry_line_number (entries existing_file)))
         (u64_add (last_line_number existing_file) 1) (entries new_file)))"

subsection \<open>Integrity of a thread (read\_check.rs)\<close>

datatype integrity_issue =
    ILineNumberGap nat nat
  | IUnknownAuthor string
  | IInvalidPointTo nat
  | IEmptyBody nat
  | IUnknownMention string nat
  | IParseError parse_error

fun entry_issues :: "string list \<Rightarrow> nat set \<Rightarrow> thread_entry \<Rightarrow> integrity_issue list" where
  "entry_issues user_set known_lines (EMessage msg) =
     (if msg_point_to msg \<noteq> 0 \<and> msg_point_to msg \<notin> known_lines
      then [IInvalidPointTo (msg_point_to msg)] else [])
     @ (if trim (msg_body msg) = [] then [IEmptyBody (msg_line_number msg)] else [])
     @ map (\<lambda>mention. IUnknownMention (as_str mention) (msg_line_number msg))
         (filter (\<lambda>mention. as_str mention \<notin> set user_set) (msg_mentions msg))"
| "entry_issues user_set known_lines (EEvent ev) =
     (if ev_point_to ev \<noteq> 0 then [ILineNumberGap 0 (ev_point_to ev)] else [])
     @ (if \<not> is_object (ev_meta ev) then [IEmptyBody (ev_line_number ev)] else [])"

fun integrity_loop :: "string list \<Rightarrow> nat set \<Rightarrow> nat \<Rightarrow> thread_entry list \<Rightarrow> integrity_issue list" where
  "integrity_loop user_set known_lines expected_next [] = []"
| "integrity_loop user_set known_lines expected_next (entry # rest) =
     (let ln = entry_line_number entry; author = as_str (entry_author entry)
      in (if ln \<noteq> expected_next then [ILineNumberGap expected_next ln] else [])
         @ (if author \<notin> set user_set then [IUnknownAuthor author] else [])
         @ entry_issues user_set known_lines entry
         @ integrity_loop user_set (insert ln known_lines) (u64_add ln 1) rest)"

definition check_thread_integrity :: "ext \<Rightarrow> string \<Rightarrow> string list \<Rightarrow> integrity_issue list" where
  "check_thread_integrity E input registered_users =
     (case parse_thread E input of
        Inl e \<Rightarrow> [IParseError e]
      | Inr f \<Rightarrow> integrity_loop registered_users {} 1 (entries f))"

subsection \<open>Membership rules (im\_rules.rs)\<close>

datatype im_rule_error =
    AuthorNotRegistered string
  | TargetNotRegistered string
  | AuthorNotMember string
  | AlreadyMember string
  | NotMember string
  | LastMember string

definition validate_join ::
  "string \<Rightarrow> string list \<Rightarrow> string list \<Rightarrow> string list \<Rightarrow> im_rule_error + unit" where
  "validate_join author targets registered_users current_members =
     (if author \<notin> set registered_users then Inl (AuthorNotRegistered author)
      else if targets = [] then
        (if author \<in> set current_members then Inl (AlreadyMember author) else Inr ())
      else if author \<notin> set current_members then Inl (AuthorNotMember author)
      else try_each (\<lambda>target.
             if target \<notin> set registered_users then Inl (TargetNotRegistered target)
             else if target \<in> set current_members then Inl (AlreadyMember target)
             else Inr ()) targets)"

definition validate_leave ::
  "string \<Rightarrow> string list \<Rightarrow> string list \<Rightarrow> string list \<Rightarrow> im_rule_error + unit" where
  "validate_leave author targets registered_users current_members =
     (if author \<notin> set registered_users then Inl (AuthorNotRegistered author)
      else if targets = [] then
        (if author \<notin> set current_members then Inl (NotMember author)
         else if card (set current_members) = 1 then Inl (LastMember author)
         else Inr ())
      else if author \<notin> set current_members then Inl (AuthorNotMember author)
      else try_each (\<lambda>target.
             if target \<notin> set registered_users then Inl (TargetNotRegistered target)
             else if target \<notin> set current_members then Inl (NotMember target)
             else Inr ()) targets)"

subsection \<open>Documents (mod.rs, types/meta.rs, types/project.rs, types/config.rs)\<close>

datatype user_kind = UserUnknown | UserHuman | UserAgent

record user_meta =
  um_display_name :: string
  um_role :: string
  um_introduction :: string
  um_labels :: "string list"
  um_kind :: user_kind

record channel_meta =
  cm_display_name :: string
  cm_created_by :: string
  cm_created_at :: string
  cm_introduction :: string
  cm_members :: "string list"
  cm_project :: "string option"

record project_meta =
  pm_display_name :: string
  pm_created_by :: string
  pm_created_at :: string
  pm_introduction :: string

record daemon_config =
  dc_sync_interval :: nat
  dc_debug_http :: bool
  dc_debug_port :: nat

record config =
  cfg_version :: nat
  cfg_endpoint :: string
  cfg_endpoint_url :: string
  cfg_daemon :: daemon_config

definition daemon_config_default :: daemon_config where
  "daemon_config_default = \<lparr>dc_sync_interval = 3, dc_debug_http = False, dc_debug_port = 3000\<rparr>"

definition config_default :: config where
  "config_default = \<lparr>cfg_version = 1, cfg_endpoint = ''github'', cfg_endpoint_url = [],
     cfg_daemon = daemon_config_default\<rparr>"

datatype validation_error =
    YamlParse
  | FieldConstraint string string
  | InvalidChannelName string
  | InvalidConfig nat

definition field_len :: "string \<Rightarrow> string \<Rightarrow> nat \<Rightarrow> string \<Rightarrow> validation_error + unit" where
  "field_len field value m reason =
     (if value = [] \<or> length value > m then Inl (FieldConstraint field reason) else Inr ())"

text \<open>\<^verbatim>\<open>^\d{8}T\d{6}Z$\<close>.\<close>

definition timestamp_re :: "ext \<Rightarrow> string \<Rightarrow> bool" where
  "timestamp_re E s =
     (case do { (_, s) \<leftarrow> re_digits_exact E 8 s;
                s \<leftarrow> strip_prefix ''T'' s;
                (_, s) \<leftarrow> re_digits_exact E 6 s;
                strip_prefix ''Z'' s } of
        Some rest \<Rightarrow> rest = []
      | None \<Rightarrow> False)"

definition check_created_by :: "string \<Rightarrow> validation_error + unit" where
  "check_created_by h = discard (map_err (\<lambda>_. FieldConstraint ''created_by'' ''must be a valid handler'') (handler_new h))"

definition validate_user_meta :: "(string \<Rightarrow> user_meta option) \<Rightarrow> string \<Rightarrow> validation_error + user_meta" where
  "validate_user_meta yaml_read yaml =
     andThen (ok_or YamlParse (yaml_read yaml)) (\<lambda>meta.
     andThen (field_len ''display_name'' (um_display_name meta) 64 ''must be 1-64 characters'') (\<lambda>_.
     andThen (field_len ''role'' (um_role meta) 32 ''must be 1-32 characters'') (\<lambda>_.
     andThen (field_len ''introduction'' (um_introduction meta) 500 ''must be 1-500 characters'') (\<lambda>_.
       Inr meta))))"

definition validate_channel_meta ::
  "ext \<Rightarrow> (string \<Rightarrow> channel_meta option) \<Rightarrow> string \<Rightarrow> validation_error + channel_meta" where
  "validate_channel_meta E yaml_read yaml =
     andThen (ok_or YamlParse (yaml_read yaml)) (\<lambda>meta.
     andThen (field_len ''display_name'' (cm_display_name meta) 64 ''must be 1-64 characters'') (\<lambda>_.
     andThen (field_len ''introduction'' (cm_introduction meta) 500 ''must be 1-500 characters'') (\<lambda>_.
     andThen (check_created_by (cm_created_by meta)) (\<lambda>_.
       if \<not> timestamp_re E (cm_created_at meta)
       then Inl (FieldConstraint ''created_at'' ''must match YYYYMMDDTHHmmssZ format'')
       else Inr meta))))"

definition validate_project_meta ::
  "(string \<Rightarrow> project_meta option) \<Rightarrow> string \<Rightarrow> validation_error + project_meta" where
  "validate_project_meta yaml_read yaml =
     andThen (ok_or YamlParse (yaml_read yaml)) (\<lambda>meta.
     andThen (field_len ''display_name'' (pm_display_name meta) 64 ''must be 1-64 characters'') (\<lambda>_.
     andThen (field_len ''introduction'' (pm_introduction meta) 500 ''must be 1-500 characters'') (\<lambda>_.
     andThen (check_created_by (pm_created_by meta)) (\<lambda>_. Inr meta))))"

definition validate_config :: "(string \<Rightarrow> config option) \<Rightarrow> string \<Rightarrow> validation_error + config" where
  "validate_config yaml_read yaml =
     andThen (ok_or YamlParse (yaml_read yaml)) (\<lambda>config.
       if cfg_version config \<noteq> 1 then Inl (InvalidConfig (cfg_version config)) else Inr config)"

subsection \<open>Accepted appends\<close>

lemma try_each_mentions:
  "try_each (\<lambda>mention. if as_str mention \<notin> set users then Inl (err mention) else Inr ()) ms = Inr ()
   \<longleftrightarrow> (\<forall>m \<in> set ms. as_str m \<in> set users)"
  by (induction ms) auto

lemma check_new_entry_issues:
  "check_new_entry users known e = Inr () \<longleftrightarrow> entry_issues users known e = []"
proof (cases e)
  case (EMessage m)
  then show ?thesis
    using try_each_mentions [of users "\<lambda>h. CUnknownMention (as_str h) (msg_line_number m)" "msg_mentions m"]
    by (auto simp: filter_empty_conv)
qed auto

lemma append_loop_integrity:
  "validate_append_loop users allowed known expected es = Inr () \<longleftrightarrow>
   integrity_loop users known expected es = []
   \<and> (allowed = [] \<or> (\<forall>e \<in> set es. as_str (entry_author e) \<in> set allowed))"
  by (induction es arbitrary: known expected) (auto simp: Let_def check_new_entry_issues)

lemma integrity_loop_append:
  "integrity_loop users known expected (es @ es') =
   integrity_loop users known expected es
   @ integrity_loop users (known \<union> set (map entry_line_number es))
       (if es = [] then expected else u64_add (entry_line_number (last es)) 1) es'"
  by (induction es arbitrary: known expected) (auto simp: Let_def)

lemma append_clean:
  assumes clean: "check_thread_integrity E existing users = []"
    and ok: "validate_append E existing new_lines users allowed = Inr ()"
    and nl: "existing = [] \<or> last existing = newline"
  shows "check_thread_integrity E (existing @ new_lines) users = []"
proof -
  obtain fe fn where fe: "parse_thread E existing = Inr fe" and fn: "parse_thread E new_lines = Inr fn"
    and loop: "validate_append_loop users allowed (set (map entry_line_number (entries fe)))
      (u64_add (last_line_number fe) 1) (entries fn) = Inr ()"
    using ok by (auto simp: validate_append_def)
  have "parse_thread E (existing @ new_lines) = Inr \<lparr>entries = entries fe @ entries fn\<rparr>"
    by (rule parse_thread_append [OF fe fn nl])
  moreover have "u64_add (last_line_number fe) 1 =
      (if entries fe = [] then 1 else u64_add (entry_line_number (last (entries fe))) 1)"
    using u64_add_exact [of 0 1] by (auto simp: last_line_number_def)
  ultimately show ?thesis
    using clean loop
    by (auto simp: check_thread_integrity_def fe append_loop_integrity integrity_loop_append split: if_splits)
qed

lemma integrity_loop_mono:
  "integrity_loop users known expected es = [] \<Longrightarrow> set users \<subseteq> set users' \<Longrightarrow>
   integrity_loop users' known expected es = []"
proof (induction es arbitrary: known expected)
  case (Cons e es)
  then have "entry_issues users' known e = []" by (cases e) (auto simp: Let_def filter_empty_conv split: if_splits)
  then show ?case using Cons by (auto simp: Let_def split: if_splits)
qed simp

lemma validate_append_mono:
  "validate_append E existing new_lines users allowed = Inr () \<Longrightarrow> set users \<subseteq> set users' \<Longrightarrow>
   validate_append E existing new_lines users' allowed = Inr ()"
  by (auto simp: validate_append_def append_loop_integrity intro: integrity_loop_mono)

text \<open>C4: An accepted append keeps a clean thread clean: when the integrity check finds nothing in a
  file and the compliance check accepts the new lines, the integrity check finds nothing in the
  appended file (line numbers stay consecutive, authors and mentions registered, references
  resolved, bodies non-empty).\<close>

theorem accepted_append_keeps_integrity:
  assumes "check_thread_integrity E existing users = []"
    and "validate_append E existing new_lines users allowed = Inr ()"
    and "existing = [] \<or> last existing = newline"
  shows "check_thread_integrity E (existing @ new_lines) users = []"
  using assms by (rule append_clean)

lemma integrity_numbers:
  "integrity_loop users known expected es = [] \<Longrightarrow> expected + length es \<le> u64_max + 1 \<Longrightarrow>
   map entry_line_number es = [expected ..< expected + length es]"
proof (induction es arbitrary: known expected)
  case (Cons e es)
  then have e: "entry_line_number e = expected"
    and rest: "integrity_loop users (insert expected known) (u64_add expected 1) es = []"
    by (auto simp: Let_def split: if_splits)
  show ?case
  proof (cases es)
    case Nil
    then show ?thesis using e by simp
  next
    case (Cons x xs)
    then have "u64_add expected 1 = expected + 1" using Cons.prems(2) by (intro u64_add_exact) simp
    then have "map entry_line_number es = [expected + 1 ..< expected + 1 + length es]"
      using Cons.IH rest Cons.prems(2) by simp
    then show ?thesis using e by (simp add: upt_rec)
  qed
qed simp

text \<open>In a thread without integrity issues the lines are numbered 1, 2, 3, ... without gap, and the
  last line number is the number of entries.\<close>

theorem clean_thread_numbering:
  assumes "check_thread_integrity E input users = []" "parse_thread E input = Inr f"
    and "length (entries f) \<le> u64_max"
  shows "map entry_line_number (entries f) = [1 ..< 1 + length (entries f)]
    \<and> last_line_number f = length (entries f)"
proof -
  have nums: "map entry_line_number (entries f) = [1 ..< 1 + length (entries f)]"
    using assms by (intro integrity_numbers) (auto simp: check_thread_integrity_def)
  have "entry_line_number (last (entries f)) = length (entries f)" if "entries f \<noteq> []"
  proof -
    have "entry_line_number (last (entries f)) = last (map entry_line_number (entries f))"
      using that by (simp add: last_map)
    moreover have "1 \<le> length (entries f)" using that by (simp add: Suc_leI)
    ultimately show ?thesis using nums by simp
  qed
  then show ?thesis using nums by (auto simp: last_line_number_def)
qed

lemma append_message_iff:
  assumes f: "parse_thread E existing = Inr f" and n: "n = u64_add (last_line_number f) 1"
    and wf: "entry_handler author" "compact_timestamp now" "carriage \<notin> set body" "body \<noteq> []"
      "hd body \<noteq> newline" "pt \<le> u64_max"
  shows "validate_append E existing (format_message E n pt author now body) users allowed = Inr () \<longleftrightarrow>
    as_str author \<in> set users \<and> (allowed = [] \<or> as_str author \<in> set allowed)
    \<and> (pt = 0 \<or> pt \<in> set (map entry_line_number (entries f)))
    \<and> (\<forall>h \<in> set (extract_mentions (read_body E body)). as_str h \<in> set users)
    \<and> trim (read_body E body) \<noteq> []"
proof -
  let ?m = "\<lparr>msg_line_number = n, msg_point_to = pt, msg_author = author, msg_timestamp = now,
    msg_body = body, msg_mentions = [], msg_links = []\<rparr>"
  have "n \<le> u64_max" using n u64_add_le by simp
  then have "list_all (entry_wf E) [EMessage ?m]" using wf by simp
  from parse_thread_formatted [OF this]
  have p: "parse_thread E (format_message E n pt author now body) = Inr \<lparr>entries = [read_entry E (EMessage ?m)]\<rparr>"
    by simp
  show ?thesis
    unfolding validate_append_def p f
    by (auto simp: append_loop_integrity Let_def n filter_empty_conv)
qed

text \<open>The compliance check of a single formatted message decides exactly the posting rules: it is
  accepted iff its author is registered and (when senders are restricted) allowed, the line it replies to
  exists, everybody it mentions is registered, and its text is not blank.\<close>

theorem validate_append_message_iff:
  assumes f: "parse_thread E existing = Inr f" and n: "n = u64_add (last_line_number f) 1"
    and wf: "entry_handler author" "compact_timestamp now" "carriage \<notin> set body" "body \<noteq> []"
      "hd body \<noteq> newline" "pt \<le> u64_max"
  shows "validate_append E existing (format_message E n pt author now body) users allowed = Inr () \<longleftrightarrow>
    as_str author \<in> set users \<and> (allowed = [] \<or> as_str author \<in> set allowed)
    \<and> (pt = 0 \<or> pt \<in> set (map entry_line_number (entries f)))
    \<and> (\<forall>h \<in> set (extract_mentions (read_body E body)). as_str h \<in> set users)
    \<and> trim (read_body E body) \<noteq> []"
  using assms by (rule append_message_iff)

definition demo_thread :: string where
  "demo_thread = format_message ref_ext 1 0 (Handler ''alice'') ''20260101T000000Z'' ''hello''"

definition demo_reply :: string where
  "demo_reply = format_message ref_ext 2 1 (Handler ''bob'') ''20260101T000001Z'' ''hi <@alice>''"

definition demo_users :: "string list" where
  "demo_users = [''alice'', ''bob'']"

lemma demo_thread_parsed:
  "parse_thread ref_ext demo_thread = Inr \<lparr>entries = [read_entry ref_ext (EMessage
     \<lparr>msg_line_number = 1, msg_point_to = 0, msg_author = Handler ''alice'',
      msg_timestamp = ''20260101T000000Z'', msg_body = ''hello'', msg_mentions = [], msg_links = []\<rparr>)]\<rparr>"
proof -
  let ?m = "EMessage \<lparr>msg_line_number = 1, msg_point_to = 0, msg_author = Handler ''alice'',
      msg_timestamp = ''20260101T000000Z'', msg_body = ''hello'', msg_mentions = [], msg_links = []\<rparr>"
  have "entry_handler (Handler ''alice'')" "compact_timestamp ''20260101T000000Z''" by code_simp+
  then have "list_all (entry_wf ref_ext) [?m]" by simp
  from parse_thread_formatted [OF this] show ?thesis by (simp add: demo_thread_def)
qed

lemma demo_body: "read_body ref_ext ''hello'' = ''hello''" "trim ''hello'' = ''hello''"
  "extract_mentions ''hello'' = []"
  by code_simp+

lemma demo_thread_clean: "check_thread_integrity ref_ext demo_thread demo_users = []"
  by (simp add: check_thread_integrity_def demo_thread_parsed Let_def demo_body demo_users_def)

lemma demo_reply_valid: "validate_append ref_ext demo_thread demo_reply demo_users demo_users = Inr ()"
proof -
  have "entry_handler (Handler ''bob'')" "compact_timestamp ''20260101T000001Z''" by code_simp+
  moreover have "read_body ref_ext ''hi <@alice>'' = ''hi <@alice>''" "trim ''hi <@alice>'' \<noteq> []"
    "extract_mentions ''hi <@alice>'' = [Handler ''alice'']" by code_simp+
  ultimately have m: "list_all (entry_wf ref_ext) [EMessage
     \<lparr>msg_line_number = 2, msg_point_to = 1, msg_author = Handler ''bob'',
      msg_timestamp = ''20260101T000001Z'', msg_body = ''hi <@alice>'', msg_mentions = [], msg_links = []\<rparr>]"
    "read_body ref_ext ''hi <@alice>'' = ''hi <@alice>''" "trim ''hi <@alice>'' \<noteq> []"
    "extract_mentions ''hi <@alice>'' = [Handler ''alice'']" by simp_all
  have "parse_thread ref_ext demo_reply = Inr \<lparr>entries = map (read_entry ref_ext) [EMessage
     \<lparr>msg_line_number = 2, msg_point_to = 1, msg_author = Handler ''bob'',
      msg_timestamp = ''20260101T000001Z'', msg_body = ''hi <@alice>'', msg_mentions = [], msg_links = []\<rparr>]\<rparr>"
    using parse_thread_formatted [OF m(1)] by (simp add: demo_reply_def)
  then show ?thesis
    using m u64_add_exact [of 1 1]
    by (simp add: validate_append_def demo_thread_parsed append_loop_integrity Let_def last_line_number_def
        demo_users_def)
qed

theorem accepted_append_keeps_integrity_witness:
  "check_thread_integrity ref_ext (demo_thread @ demo_reply) demo_users = []"
proof -
  have "demo_thread = [] \<or> last demo_thread = newline" by code_simp
  then show ?thesis
    using accepted_append_keeps_integrity [OF demo_thread_clean demo_reply_valid] by blast
qed

theorem clean_thread_numbering_witness:
  "\<exists>f. parse_thread ref_ext demo_thread = Inr f \<and> last_line_number f = 1"
  using clean_thread_numbering [OF demo_thread_clean demo_thread_parsed] demo_thread_parsed by simp

theorem validate_append_message_iff_witness:
  "validate_append ref_ext demo_thread
     (format_message ref_ext 2 7 (Handler ''bob'') ''20260101T000001Z'' ''hello'') demo_users [] \<noteq> Inr ()"
proof -
  have "entry_handler (Handler ''bob'')" "compact_timestamp ''20260101T000001Z''" by code_simp+
  then show ?thesis
    using validate_append_message_iff [OF demo_thread_parsed, of 2 "Handler ''bob''" "''20260101T000001Z''"
        "''hello''" 7 demo_users "[]"] u64_add_exact [of 1 1]
    by (simp add: last_line_number_def Let_def)
qed

subsection \<open>Membership\<close>

lemma validate_join_Inr:
  "validate_join author targets reg members = Inr () \<longleftrightarrow>
     author \<in> set reg
     \<and> (if targets = [] then author \<notin> set members
        else author \<in> set members \<and> set targets \<subseteq> set reg \<and> set targets \<inter> set members = {})"
proof -
  have "try_each (\<lambda>t. if t \<notin> set reg then Inl (TargetNotRegistered t)
      else if t \<in> set members then Inl (AlreadyMember t) else Inr ()) ts = Inr ()
    \<longleftrightarrow> set ts \<subseteq> set reg \<and> set ts \<inter> set members = {}" for ts
    by (induction ts) auto
  then show ?thesis by (auto simp: validate_join_def)
qed

lemma validate_leave_Inr:
  "validate_leave author targets reg members = Inr () \<longleftrightarrow>
     author \<in> set reg \<and> author \<in> set members
     \<and> (if targets = [] then card (set members) \<noteq> 1
        else set targets \<subseteq> set reg \<and> set targets \<subseteq> set members)"
proof -
  have "try_each (\<lambda>t. if t \<notin> set reg then Inl (TargetNotRegistered t)
      else if t \<notin> set members then Inl (NotMember t) else Inr ()) ts = Inr ()
    \<longleftrightarrow> set ts \<subseteq> set reg \<and> set ts \<subseteq> set members" for ts
    by (induction ts) auto
  then show ?thesis by (auto simp: validate_leave_def)
qed

end
