(* ===== verification/Board.thy ===== *)
theory Board
  imports Validators
begin

text \<open>
  Show boards (\<^verbatim>\<open>crates/gitim-core/src/types/board.rs\<close>): a markdown document with a YAML frontmatter, of
  bounded size, whose sections can be replaced or extended one at a time.  The YAML library is a pair of
  function parameters.  \<open>find_section\<close> keeps the byte offsets of the source; its correctness is stated
  over the decomposition of the body into lines.
\<close>

subsection \<open>Documents\<close>

definition board_version :: nat where "board_version = 1"
definition board_max_bytes :: nat where "board_max_bytes = 64 * 1024"
definition board_max_status_len :: nat where "board_max_status_len = 80"
definition board_max_summary_len :: nat where "board_max_summary_len = 280"

datatype board_error =
    BoardInvalidHandler handler_error
  | HandlerMismatch string string
  | UnsupportedVersion nat nat
  | BoardInvalidTimestamp string
  | EmptyStatus
  | StatusTooLong nat nat
  | SummaryTooLong nat nat
  | BoardLabel label_error
  | YamlSerialize
  | UnknownField string
  | InvalidSection string
  | DocumentTooLarge nat nat

datatype board_markdown_error =
    BoardTooLarge nat nat
  | MissingOpeningDelimiter
  | MissingClosingDelimiter
  | BoardYaml
  | BoardInvalid board_error

record board_meta =
  bm_version :: nat
  bm_handler :: string
  bm_updated_at :: string
  bm_status :: string
  bm_summary :: string
  bm_labels :: "string list"

record board_document =
  bd_meta :: board_meta
  bd_body :: string

definition board_path :: "string \<Rightarrow> board_error + string" where
  "board_path handler =
     andThen (map_err BoardInvalidHandler (handler_new handler)) (\<lambda>h.
       Inr (path_join (path_join ''showboards'' (as_str h)) ''board.md''))"

subsection \<open>Validation\<close>

definition board_timestamp :: "string \<Rightarrow> board_error + unit" where
  "board_timestamp timestamp =
     (if compact_timestamp timestamp
      then Inr () else Inl (BoardInvalidTimestamp timestamp))"

definition validate_status :: "string \<Rightarrow> board_error + unit" where
  "validate_status status =
     (if trim status = [] then Inl EmptyStatus
      else if length status > board_max_status_len then Inl (StatusTooLong (length status) board_max_status_len)
      else Inr ())"

definition validate_summary :: "string \<Rightarrow> board_error + unit" where
  "validate_summary summary =
     (if length summary > board_max_summary_len then Inl (SummaryTooLong (length summary) board_max_summary_len)
      else Inr ())"

definition validate_board_meta :: "board_meta \<Rightarrow> board_error + unit" where
  "validate_board_meta meta =
     run_checks
       [fail_if (bm_version meta \<noteq> board_version) (UnsupportedVersion (bm_version meta) board_version),
        discard (map_err BoardInvalidHandler (handler_new (bm_handler meta))),
        board_timestamp (bm_updated_at meta),
        validate_status (bm_status meta),
        validate_summary (bm_summary meta),
        map_err BoardLabel (validate_labels (bm_labels meta) board_max_labels)]"

definition yaml_delimiter :: string where
  "yaml_delimiter = ''---'' @ [newline]"

definition frontmatter_yaml :: "string \<Rightarrow> string" where
  "frontmatter_yaml yaml = (case strip_prefix yaml_delimiter yaml of Some y \<Rightarrow> y | None \<Rightarrow> yaml)"

definition rendered_board_len :: "(board_meta \<Rightarrow> string option) \<Rightarrow> board_meta \<Rightarrow> string \<Rightarrow> board_error + nat" where
  "rendered_board_len yaml_write meta body =
     andThen (ok_or YamlSerialize (yaml_write meta)) (\<lambda>yaml.
       let yaml = frontmatter_yaml yaml;
           yaml_newline_len = (if \<not> ends_with [newline] yaml then 1 else 0);
           final_newline_len = (if body \<noteq> [] \<and> \<not> ends_with [newline] body then 1 else 0)
       in Inr (length yaml_delimiter + length yaml + yaml_newline_len + length yaml_delimiter + length body
               + final_newline_len))"

definition validate_rendered_size ::
  "(board_meta \<Rightarrow> string option) \<Rightarrow> board_meta \<Rightarrow> string \<Rightarrow> board_error + unit" where
  "validate_rendered_size yaml_write meta body =
     andThen (rendered_board_len yaml_write meta body) (\<lambda>len.
       fail_if (len > board_max_bytes) (DocumentTooLarge len board_max_bytes))"

definition validate_candidate_document ::
  "(board_meta \<Rightarrow> string option) \<Rightarrow> board_meta \<Rightarrow> string \<Rightarrow> board_error + unit" where
  "validate_candidate_document yaml_write meta body =
     andThen (validate_board_meta meta) (\<lambda>_. validate_rendered_size yaml_write meta body)"

definition validate_board_document :: "(board_meta \<Rightarrow> string option) \<Rightarrow> board_document \<Rightarrow> board_error + unit" where
  "validate_board_document yaml_write doc =
     andThen (validate_board_meta (bd_meta doc)) (\<lambda>_. validate_rendered_size yaml_write (bd_meta doc) (bd_body doc))"

definition validate_board_for_handler ::
  "(board_meta \<Rightarrow> string option) \<Rightarrow> board_document \<Rightarrow> string \<Rightarrow> board_error + unit" where
  "validate_board_for_handler yaml_write doc expected_handler =
     andThen (map_err BoardInvalidHandler (handler_new expected_handler)) (\<lambda>expected.
     andThen (validate_board_document yaml_write doc) (\<lambda>_.
       fail_if (bm_handler (bd_meta doc) \<noteq> as_str expected)
         (HandlerMismatch (as_str expected) (bm_handler (bd_meta doc)))))"

subsection \<open>Reading and writing\<close>

text \<open>The default headings, in UTF-8.\<close>

definition default_headings :: "string list" where
  "default_headings =
    [[CHR 0xE6, CHR 0x88, CHR 0x91, CHR 0xE8, CHR 0x83, CHR 0xBD, CHR 0xE5, CHR 0x81, CHR 0x9A, CHR 0xE4, CHR 0xBB, CHR 0x80,
       CHR 0xE4, CHR 0xB9, CHR 0x88],
     [CHR 0xE6, CHR 0x9A, CHR 0x82, CHR 0xE6, CHR 0x97, CHR 0xB6, CHR 0xE9, CHR 0x98, CHR 0xBB, CHR 0xE5, CHR 0xA1, CHR 0x9E],
     [CHR 0xE6, CHR 0x9C, CHR 0x80, CHR 0xE8, CHR 0xBF, CHR 0x91, CHR 0xE4, CHR 0xBA, CHR 0xA4, CHR 0xE4, CHR 0xBB, CHR 0x98],
     [CHR 0xE5, CHR 0x90, CHR 0x88, CHR 0xE4, CHR 0xBD, CHR 0x9C, CHR 0xE5, CHR 0x89, CHR 0x8D, CHR 0xE9, CHR 0x9C, CHR 0x80,
       CHR 0xE8, CHR 0xA6, CHR 0x81, CHR 0xE7, CHR 0x9F, CHR 0xA5, CHR 0xE9, CHR 0x81, CHR 0x93, CHR 0xE7, CHR 0x9A, CHR 0x84]]"

fun default_board_text :: "string list \<Rightarrow> string" where
  "default_board_text [] = []"
| "default_board_text [h] = ''## '' @ h @ [newline]"
| "default_board_text (h # hs) = ''## '' @ h @ [newline, newline] @ default_board_text hs"

definition default_board_body :: string where
  "default_board_body = default_board_text default_headings"

definition default_board ::
  "(board_meta \<Rightarrow> string option) \<Rightarrow> string \<Rightarrow> string \<Rightarrow> board_error + board_document" where
  "default_board yaml_write handler timestamp =
     andThen (map_err BoardInvalidHandler (handler_new handler)) (\<lambda>h.
       let doc = \<lparr>bd_meta = \<lparr>bm_version = board_version, bm_handler = as_str h, bm_updated_at = timestamp,
                             bm_status = ''idle'', bm_summary = [], bm_labels = []\<rparr>,
                  bd_body = default_board_body\<rparr>
       in andThen (validate_board_document yaml_write doc) (\<lambda>_. Inr doc))"

definition split_frontmatter :: "string \<Rightarrow> board_markdown_error + string \<times> string" where
  "split_frontmatter input =
     (if \<not> starts_with yaml_delimiter input then Inl MissingOpeningDelimiter
      else let rest = drop (length yaml_delimiter) input in
        case find_str ([newline] @ yaml_delimiter) rest of
          Some idx \<Rightarrow> Inr (take (idx + 1) rest, drop (idx + length ([newline] @ yaml_delimiter)) rest)
        | None \<Rightarrow> (case strip_prefix yaml_delimiter rest of
                     Some body \<Rightarrow> Inr ([], body)
                   | None \<Rightarrow> Inl MissingClosingDelimiter))"

definition parse_board_markdown ::
  "(string \<Rightarrow> board_meta option) \<Rightarrow> (board_meta \<Rightarrow> string option) \<Rightarrow> string \<Rightarrow> board_markdown_error + board_document" where
  "parse_board_markdown yaml_read yaml_write input =
     (if length input > board_max_bytes then Inl (BoardTooLarge (length input) board_max_bytes)
      else andThen (split_frontmatter input) (\<lambda>(yaml, body).
           andThen (ok_or BoardYaml (yaml_read yaml)) (\<lambda>meta.
             let doc = \<lparr>bd_meta = meta, bd_body = body\<rparr>
             in andThen (map_err BoardInvalid (validate_board_document yaml_write doc)) (\<lambda>_. Inr doc))))"

definition ensure_newline :: "string \<Rightarrow> string" where
  "ensure_newline out = (if \<not> ends_with [newline] out then out @ [newline] else out)"

definition render_board :: "string \<Rightarrow> string \<Rightarrow> string" where
  "render_board yaml body =
     ensure_newline (ensure_newline (yaml_delimiter @ frontmatter_yaml yaml) @ yaml_delimiter @ body)"

definition stringify_board_markdown ::
  "(board_meta \<Rightarrow> string option) \<Rightarrow> board_document \<Rightarrow> board_markdown_error + string" where
  "stringify_board_markdown yaml_write doc =
     andThen (map_err BoardInvalid (validate_board_document yaml_write doc)) (\<lambda>_.
     andThen (ok_or BoardYaml (yaml_write (bd_meta doc))) (\<lambda>yaml.
       let out = render_board yaml (bd_body doc)
       in if length out > board_max_bytes then Inl (BoardInvalid (DocumentTooLarge (length out) board_max_bytes))
          else Inr out))"

subsection \<open>Sections\<close>

definition heading_name :: "string \<Rightarrow> string option" where
  "heading_name line = map_option trim (strip_prefix ''## '' (trim_end_matches carriage (trim_end_matches newline line)))"

fun find_heading :: "string \<Rightarrow> nat \<Rightarrow> string list \<Rightarrow> (nat \<times> nat) option" where
  "find_heading section offset [] = None"
| "find_heading section offset (line # rest) =
     (if heading_name line = Some section then Some (offset, offset + length line)
      else find_heading section (offset + length line) rest)"

fun section_end :: "nat \<Rightarrow> nat \<Rightarrow> string list \<Rightarrow> nat" where
  "section_end body_len offset [] = body_len"
| "section_end body_len offset (line # rest) =
     (if heading_name line \<noteq> None then offset else section_end body_len (offset + length line) rest)"

definition find_section :: "string \<Rightarrow> string \<Rightarrow> (nat \<times> nat) option" where
  "find_section body section =
     (case find_heading section 0 (split_inclusive body) of
        None \<Rightarrow> None
      | Some (start, content_start) \<Rightarrow>
          Some (start, section_end (length body) content_start (split_inclusive (drop content_start body))))"

definition validate_section_name :: "string \<Rightarrow> board_error + string" where
  "validate_section_name section =
     (let section = trim section in
      if section = [] then Inl (InvalidSection ''empty'')
      else if newline \<in> set section \<or> carriage \<in> set section then Inl (InvalidSection ''must fit on one line'')
      else Inr section)"

definition normalize_section_value :: "string \<Rightarrow> string" where
  "normalize_section_value value = trim_matches newline value"

definition section_block :: "string \<Rightarrow> string \<Rightarrow> string" where
  "section_block section value =
     (let value = normalize_section_value value in
      if value = [] then ''## '' @ section @ [newline, newline]
      else ''## '' @ section @ [newline, newline] @ value @ [newline])"

definition body_with_appended_section :: "string \<Rightarrow> string \<Rightarrow> string" where
  "body_with_appended_section body section =
     (if body = [] then section else trim_end_matches newline body @ [newline, newline] @ section)"

definition append_to_section_block :: "string \<Rightarrow> string \<Rightarrow> string" where
  "append_to_section_block existing value =
     (let replacement = trim_end_matches newline existing;
          replacement = (if \<not> ends_with [newline] replacement then replacement @ [newline] else replacement)
      in if value \<noteq> [] then replacement @ value @ [newline] else replacement)"

text \<open>Setters return the result and the document left behind by the mutable reference.\<close>

definition set_board_section ::
  "(board_meta \<Rightarrow> string option) \<Rightarrow> string \<Rightarrow> string \<Rightarrow> board_document \<Rightarrow> (board_error + unit) \<times> board_document" where
  "set_board_section yaml_write section value doc =
     (case validate_section_name section of
        Inl e \<Rightarrow> (Inl e, doc)
      | Inr section \<Rightarrow>
          (let replacement = section_block section value;
               body = (case find_section (bd_body doc) section of
                         Some (start, fin) \<Rightarrow> take start (bd_body doc) @ replacement @ drop fin (bd_body doc)
                       | None \<Rightarrow> body_with_appended_section (bd_body doc) replacement)
           in case validate_candidate_document yaml_write (bd_meta doc) body of
                Inl e \<Rightarrow> (Inl e, doc)
              | Inr _ \<Rightarrow> (Inr (), doc\<lparr>bd_body := body\<rparr>)))"

definition append_board_section ::
  "(board_meta \<Rightarrow> string option) \<Rightarrow> string \<Rightarrow> string \<Rightarrow> board_document \<Rightarrow> (board_error + unit) \<times> board_document" where
  "append_board_section yaml_write section value doc =
     (case validate_section_name section of
        Inl e \<Rightarrow> (Inl e, doc)
      | Inr section \<Rightarrow>
          (let value = normalize_section_value value;
               body = (case find_section (bd_body doc) section of
                         Some (start, fin) \<Rightarrow>
                           take start (bd_body doc)
                           @ append_to_section_block (take (fin - start) (drop start (bd_body doc))) value
                           @ drop fin (bd_body doc)
                       | None \<Rightarrow> body_with_appended_section (bd_body doc) (section_block section value))
           in case validate_candidate_document yaml_write (bd_meta doc) body of
                Inl e \<Rightarrow> (Inl e, doc)
              | Inr _ \<Rightarrow> (Inr (), doc\<lparr>bd_body := body\<rparr>)))"

definition parse_labels_csv :: "string \<Rightarrow> board_error + string list" where
  "parse_labels_csv value =
     (let labels = filter (\<lambda>t. t \<noteq> []) (map trim (split_on (CHR '','') value))
      in andThen (map_err BoardLabel (validate_labels labels board_max_labels)) (\<lambda>_. Inr labels))"

definition set_board_meta_field :: "string \<Rightarrow> string \<Rightarrow> board_meta \<Rightarrow> board_error + board_meta" where
  "set_board_meta_field field value meta =
     (if field = ''status'' then
        (let status = trim value in andThen (validate_status status) (\<lambda>_. Inr (meta\<lparr>bm_status := status\<rparr>)))
      else if field = ''summary'' then
        (let summary = trim value in andThen (validate_summary summary) (\<lambda>_. Inr (meta\<lparr>bm_summary := summary\<rparr>)))
      else if field = ''labels'' \<or> field = ''tags'' then
        andThen (parse_labels_csv value) (\<lambda>labels. Inr (meta\<lparr>bm_labels := labels\<rparr>))
      else Inl (UnknownField field))"

definition set_board_field ::
  "(board_meta \<Rightarrow> string option) \<Rightarrow> string \<Rightarrow> string \<Rightarrow> board_document \<Rightarrow> (board_error + unit) \<times> board_document" where
  "set_board_field yaml_write field value doc =
     (case set_board_meta_field field value (bd_meta doc) of
        Inl e \<Rightarrow> (Inl e, doc)
      | Inr meta \<Rightarrow> (let doc' = doc\<lparr>bd_meta := meta\<rparr> in (validate_board_document yaml_write doc', doc')))"


subsection \<open>The size bound\<close>

lemma ends_with_newline [simp]: "ends_with [newline] s \<longleftrightarrow> s \<noteq> [] \<and> last s = newline"
  by (metis append_butlast_last_id append_is_Nil_conv ends_with_iff last_snoc list.distinct(1))

lemma ensure_newline_last: "ensure_newline s \<noteq> [] \<and> last (ensure_newline s) = newline"
  by (auto simp: ensure_newline_def)

lemma delimiter_last [simp]: "yaml_delimiter \<noteq> [] \<and> last yaml_delimiter = newline"
  by (simp add: yaml_delimiter_def)

lemma length_render_le:
  assumes "yaml_write meta = Some yaml" "rendered_board_len yaml_write meta body = Inr n"
  shows "length (render_board yaml body) \<le> n"
  using assms by (auto simp: rendered_board_len_def render_board_def ensure_newline_def Let_def split: if_splits)

lemma length_render:
  assumes "yaml_write meta = Some yaml" "frontmatter_yaml yaml \<noteq> []"
  shows "rendered_board_len yaml_write meta body = Inr (length (render_board yaml body))"
  using assms by (auto simp: rendered_board_len_def render_board_def ensure_newline_def Let_def)

lemma validate_board_document_Inr:
  "validate_board_document W doc = Inr () \<longleftrightarrow>
     validate_board_meta (bd_meta doc) = Inr ()
     \<and> (\<exists>n. rendered_board_len W (bd_meta doc) (bd_body doc) = Inr n \<and> n \<le> board_max_bytes)"
  by (auto simp: validate_board_document_def validate_rendered_size_def)

lemma rendered_board_len_Inr:
  "rendered_board_len W meta body = Inr n \<Longrightarrow> \<exists>yaml. W meta = Some yaml"
  by (auto simp: rendered_board_len_def)

lemma board_render_accepts:
  "validate_board_document W doc = Inr () \<longleftrightarrow>
     (\<exists>out. stringify_board_markdown W doc = Inr out \<and> length out \<le> board_max_bytes)"
proof -
  have "\<exists>out. stringify_board_markdown W doc = Inr out \<and> length out \<le> board_max_bytes" if valid: "validate_board_document W doc = Inr ()"
  proof -
    from valid obtain n where n: "rendered_board_len W (bd_meta doc) (bd_body doc) = Inr n" "n \<le> board_max_bytes"
      by (auto simp: validate_board_document_Inr)
    then obtain yaml where yaml: "W (bd_meta doc) = Some yaml" using rendered_board_len_Inr by blast
    have "length (render_board yaml (bd_body doc)) \<le> board_max_bytes"
      using length_render_le [of W, OF yaml n(1)] n(2) by simp
    then show ?thesis using valid yaml by (simp add: stringify_board_markdown_def Let_def)
  qed
  then show ?thesis by (auto simp: stringify_board_markdown_def)
qed


subsection \<open>Round trip\<close>

lemma find_delimiter:
  assumes "\<not> contains_str (newline # yaml_delimiter) (y @ [newline])"
  shows "find_str (newline # yaml_delimiter) (y @ newline # yaml_delimiter @ rest) = Some (length y)"
proof (rule find_strI)
  let ?s = "y @ newline # yaml_delimiter @ rest"
  show "prefix (newline # yaml_delimiter) (drop (length y) ?s)" by simp
  show "length y \<le> length ?s" by simp
  fix j assume j: "j < length y"
  show "\<not> prefix (newline # yaml_delimiter) (drop j ?s)"
  proof
    assume "prefix (newline # yaml_delimiter) (drop j ?s)"
    then obtain r where r: "drop j ?s = newline # CHR ''-'' # CHR ''-'' # CHR ''-'' # newline # r"
      by (auto simp: prefix_def yaml_delimiter_def)
    have at: "?s ! (j + k) = (newline # CHR ''-'' # CHR ''-'' # CHR ''-'' # newline # r) ! k" for k
      unfolding r [symmetric] by (rule nth_drop [symmetric]) (use j in simp)
    have nl: "?s ! length y = newline" by (simp add: nth_append)
    have "j + k \<noteq> length y" if "k \<in> {1, 2, 3}" for k
      using at [of k] nl that by auto
    from this [of 1] this [of 2] this [of 3] have four: "j + 4 \<le> length y" using j by simp
    then have "take (Suc (length y)) ?s = take j ?s @ take (Suc (length y) - j) (drop j ?s)"
      using take_add [of j "Suc (length y) - j" ?s] by simp
    moreover have "take (Suc (length y) - j) (drop j ?s) = (newline # yaml_delimiter) @ take (length y - j - 4) r"
    proof -
      have "Suc (length y) - j = Suc (Suc (Suc (Suc (Suc (length y - j - 4)))))" using four by simp
      then show ?thesis unfolding r by (simp only: take_Suc_Cons yaml_delimiter_def append_Cons append_Nil)
    qed
    moreover have "take (Suc (length y)) ?s = y @ [newline]" by simp
    ultimately have "y @ [newline] = take j ?s @ (newline # yaml_delimiter) @ take (length y - j - 4) r"
      by (simp only: append_assoc)
    then show False using assms contains_str_iff by metis
  qed
qed

text \<open>What the round trip needs of the YAML library: the text it prints for metadata, without its own
  opening delimiter and ended by a newline, reads back, and has no line \<^verbatim>\<open>---\<close>.\<close>

definition board_yaml :: "(string \<Rightarrow> board_meta option) \<Rightarrow> (board_meta \<Rightarrow> string option) \<Rightarrow> bool" where
  "board_yaml R W \<longleftrightarrow>
     (\<forall>m y. W m = Some y \<longrightarrow>
        frontmatter_yaml y \<noteq> [] \<and> R (ensure_newline (frontmatter_yaml y)) = Some m
        \<and> \<not> contains_str (newline # yaml_delimiter) (ensure_newline (frontmatter_yaml y)))"

definition stored_body :: "string \<Rightarrow> string" where
  "stored_body body = (if body = [] then [] else ensure_newline body)"

lemma render_board_shape:
  assumes "frontmatter_yaml y \<noteq> []"
  shows "render_board y body = yaml_delimiter @ ensure_newline (frontmatter_yaml y) @ yaml_delimiter @ stored_body body"
  using assms by (auto simp: render_board_def ensure_newline_def stored_body_def)

lemma split_rendered:
  assumes "frontmatter_yaml y \<noteq> []" "\<not> contains_str (newline # yaml_delimiter) (ensure_newline (frontmatter_yaml y))"
  shows "split_frontmatter (render_board y body) = Inr (ensure_newline (frontmatter_yaml y), stored_body body)"
proof -
  obtain z where z: "ensure_newline (frontmatter_yaml y) = z @ [newline]"
    by (metis append_butlast_last_id ensure_newline_last)
  have "find_str (newline # yaml_delimiter) (z @ newline # yaml_delimiter @ stored_body body) = Some (length z)"
    using find_delimiter assms(2) by (simp add: z)
  then show ?thesis
    by (simp add: render_board_shape [OF assms(1)] z split_frontmatter_def Let_def)
qed

lemma written_board_read:
  assumes "board_yaml R W" "stringify_board_markdown W doc = Inr out"
  shows "parse_board_markdown R W out = Inr (doc\<lparr>bd_body := stored_body (bd_body doc)\<rparr>)"
proof -
  from assms(2) obtain y where y: "W (bd_meta doc) = Some y" "out = render_board y (bd_body doc)"
      "length out \<le> board_max_bytes" "validate_board_meta (bd_meta doc) = Inr ()"
    by (auto simp: stringify_board_markdown_def validate_board_document_Inr Let_def split: if_splits)
  from assms(1) y(1) have c: "frontmatter_yaml y \<noteq> []" "R (ensure_newline (frontmatter_yaml y)) = Some (bd_meta doc)"
      "\<not> contains_str (newline # yaml_delimiter) (ensure_newline (frontmatter_yaml y))"
    by (auto simp: board_yaml_def)
  have idem: "stored_body (stored_body (bd_body doc)) = stored_body (bd_body doc)"
    by (auto simp: stored_body_def ensure_newline_def)
  have "rendered_board_len W (bd_meta doc) (stored_body (bd_body doc)) = Inr (length out)"
    using length_render [of W, OF y(1) c(1)] by (simp add: y(2) render_board_shape [OF c(1)] idem)
  then have "validate_board_document W \<lparr>bd_meta = bd_meta doc, bd_body = stored_body (bd_body doc)\<rparr> = Inr ()"
    using y(3,4) by (simp add: validate_board_document_Inr)
  then show ?thesis
    using split_rendered [OF c(1,3), of "bd_body doc"] y(2,3) c(2)
    by (cases doc) (simp add: parse_board_markdown_def Let_def)
qed

text \<open>C35: A board that is written is read back as it was, its body ended by a newline.\<close>

theorem board_markdown_roundtrip:
  assumes "board_yaml R W" "stringify_board_markdown W doc = Inr out"
  shows "parse_board_markdown R W out = Inr (doc\<lparr>bd_body := stored_body (bd_body doc)\<rparr>)"
  using assms by (rule written_board_read)

definition demo_board :: board_document where
  "demo_board = \<lparr>bd_meta = \<lparr>bm_version = 1, bm_handler = ''ann'', bm_updated_at = ''20260101T000000Z'',
     bm_status = ''busy'', bm_summary = [], bm_labels = []\<rparr>,
     bd_body = ''## todo'' @ [newline, newline] @ ''ship it''\<rparr>"

definition demo_yaml :: string where
  "demo_yaml = ''handler: ann'' @ [newline]"

text \<open>A YAML library that knows the metadata of the example only.\<close>

definition demo_read :: "string \<Rightarrow> board_meta option" where
  "demo_read s = (if s = demo_yaml then Some (bd_meta demo_board) else None)"

definition demo_write :: "board_meta \<Rightarrow> string option" where
  "demo_write m = (if m = bd_meta demo_board then Some demo_yaml else None)"

lemma demo_board_yaml: "board_yaml demo_read demo_write"
proof -
  have "frontmatter_yaml demo_yaml = demo_yaml" "ensure_newline demo_yaml = demo_yaml" "demo_yaml \<noteq> []"
      "\<not> contains_str (newline # yaml_delimiter) demo_yaml"
    by code_simp+
  then show ?thesis by (auto simp: board_yaml_def demo_read_def demo_write_def)
qed

theorem board_markdown_roundtrip_witness:
  "\<exists>out. parse_board_markdown demo_read demo_write out = Inr (demo_board\<lparr>bd_body := stored_body (bd_body demo_board)\<rparr>)
     \<and> stringify_board_markdown demo_write demo_board = Inr out"
proof -
  have "validate_board_meta (bd_meta demo_board) = Inr ()" by code_simp
  moreover have "rendered_board_len demo_write (bd_meta demo_board) (bd_body demo_board) = Inr 38" by code_simp
  ultimately have "validate_board_document demo_write demo_board = Inr ()"
    by (simp add: validate_board_document_Inr board_max_bytes_def)
  then obtain out where "stringify_board_markdown demo_write demo_board = Inr out" by (auto simp: board_render_accepts)
  then show ?thesis using board_markdown_roundtrip [OF demo_board_yaml] by blast
qed
subsection \<open>Replacing a section\<close>

text \<open>The lines of a body with their newlines; only the last may lack one.\<close>

definition full_line :: "string \<Rightarrow> bool" where
  "full_line l \<longleftrightarrow> (\<exists>a. newline \<notin> set a \<and> l = a @ [newline])"

lemma split_inclusive_full: "\<forall>l \<in> set ls. full_line l \<Longrightarrow> split_inclusive (concat ls @ s) = ls @ split_inclusive s"
proof (induction ls)
  case (Cons l ls)
  then obtain a where "newline \<notin> set a" "l = a @ [newline]" by (auto simp: full_line_def)
  with Cons show ?case by (simp add: split_inclusive_line)
qed simp

lemma split_inclusive_init:
  assumes "split_inclusive s = xs @ ys" "ys \<noteq> []"
  shows "\<forall>l \<in> set xs. full_line l"
  using assms
proof (induction s arbitrary: xs rule: length_induct)
  case (1 s)
  show ?case
  proof (cases "newline \<in> set s")
    case True
    then obtain u v where uv: "s = u @ newline # v" "newline \<notin> set u" using split_list_first by metis
    then have eq: "(u @ [newline]) # split_inclusive v = xs @ ys" using 1(2) split_inclusive_line by metis
    show ?thesis
    proof (cases xs)
      case (Cons x xs')
      then have "split_inclusive v = xs' @ ys" "length v < length s" using eq uv(1) by auto
      then have "\<forall>l \<in> set xs'. full_line l" using 1(1,3) by blast
      then show ?thesis using Cons eq uv(2) by (auto simp: full_line_def)
    qed simp
  next
    case False
    then have "length (split_inclusive s) \<le> 1" using split_inclusive_last [of s] by (cases s) auto
    then have "xs = []" using 1(2,3) by (cases xs; cases ys) auto
    then show ?thesis by simp
  qed
qed

lemma split_inclusive_suffix:
  assumes "split_inclusive s = xs @ ys"
  shows "split_inclusive (concat ys) = ys"
proof (cases "ys = []")
  case False
  have "split_inclusive (concat xs @ concat ys) = xs @ split_inclusive (concat ys)"
    using split_inclusive_full split_inclusive_init [OF assms False] by blast
  moreover have "concat xs @ concat ys = s" by (metis assms concat_append concat_split_inclusive)
  ultimately show ?thesis using assms by simp
qed simp

text \<open>The text of a section, found on the list of lines.\<close>

definition section_lines :: "string \<Rightarrow> string list \<Rightarrow> string option" where
  "section_lines section ls =
     (case dropWhile (\<lambda>l. heading_name l \<noteq> Some section) ls of
        [] \<Rightarrow> None
      | h # r \<Rightarrow> Some (concat (h # takeWhile (\<lambda>l. heading_name l = None) r)))"

definition section_text :: "string \<Rightarrow> string \<Rightarrow> string option" where
  "section_text body section =
     (case find_section body section of None \<Rightarrow> None | Some (a, b) \<Rightarrow> Some (take (b - a) (drop a body)))"

lemma find_heading_split:
  "find_heading section off ls =
     (case dropWhile (\<lambda>l. heading_name l \<noteq> Some section) ls of
        [] \<Rightarrow> None
      | h # r \<Rightarrow> (let a = off + length (concat (takeWhile (\<lambda>l. heading_name l \<noteq> Some section) ls))
                  in Some (a, a + length h)))"
proof (induction ls arbitrary: off)
  case (Cons l ls)
  show ?case
  proof (cases "heading_name l = Some section")
    case False
    then show ?thesis using Cons.IH [of "off + length l"]
      by (cases "dropWhile (\<lambda>l. heading_name l \<noteq> Some section) ls")
        (simp_all add: Let_def add.assoc del: dropWhile_eq_Nil_conv)
  qed simp
qed simp

lemma section_end_split:
  "n = off + length (concat ls) \<Longrightarrow>
   section_end n off ls = off + length (concat (takeWhile (\<lambda>l. heading_name l = None) ls))"
  by (induction ls arbitrary: off) auto

lemma find_section_lines:
  assumes "split_inclusive body = B @ h # r" "\<forall>l \<in> set B. heading_name l \<noteq> Some section"
    "heading_name h = Some section"
  shows "find_section body section =
     Some (length (concat B), length (concat B) + length h + length (concat (takeWhile (\<lambda>l. heading_name l = None) r)))"
proof -
  have body: "body = concat B @ h @ concat r" by (metis assms(1) concat.simps(2) concat_append concat_split_inclusive)
  have d: "dropWhile (\<lambda>l. heading_name l \<noteq> Some section) (split_inclusive body) = h # r"
    using assms by (simp add: dropWhile_append2)
  have t: "takeWhile (\<lambda>l. heading_name l \<noteq> Some section) (split_inclusive body) = B"
    using assms by (simp add: takeWhile_append2)
  have "find_heading section 0 (split_inclusive body) = Some (length (concat B), length (concat B) + length h)"
    by (subst find_heading_split) (simp add: d t Let_def)
  moreover have "split_inclusive (drop (length (concat B) + length h) body) = r"
    using split_inclusive_suffix [of body "B @ [h]" r] assms(1) by (simp add: body)
  moreover have "section_end (length body) (length (concat B) + length h) r
      = length (concat B) + length h + length (concat (takeWhile (\<lambda>l. heading_name l = None) r))"
    by (rule section_end_split) (simp add: body)
  ultimately show ?thesis by (simp add: find_section_def)
qed

lemma dropWhile_headed:
  "dropWhile P ls = h # r \<Longrightarrow> \<exists>B. ls = B @ h # r \<and> (\<forall>l \<in> set B. P l) \<and> \<not> P h"
  by (metis dropWhile_eq_Cons_conv set_takeWhileD takeWhile_dropWhile_id)

lemma find_section_None:
  "find_section body section = None \<longleftrightarrow> (\<forall>l \<in> set (split_inclusive body). heading_name l \<noteq> Some section)"
proof (cases "dropWhile (\<lambda>l. heading_name l \<noteq> Some section) (split_inclusive body)")
  case Nil
  then have "find_section body section = None" by (simp add: find_section_def find_heading_split del: dropWhile_eq_Nil_conv)
  then show ?thesis using Nil by (simp add: dropWhile_eq_Nil_conv)
next
  case (Cons h r)
  then have "find_section body section \<noteq> None" by (simp add: find_section_def find_heading_split Let_def)
  then show ?thesis using dropWhile_headed [OF Cons] by auto
qed

lemma section_text_lines: "section_text body section = section_lines section (split_inclusive body)"
proof (cases "dropWhile (\<lambda>l. heading_name l \<noteq> Some section) (split_inclusive body)")
  case Nil
  then show ?thesis by (simp only: section_text_def section_lines_def find_section_def find_heading_split list.case option.case)
next
  case (Cons h r)
  then obtain B where B: "split_inclusive body = B @ h # r" "\<forall>l \<in> set B. heading_name l \<noteq> Some section"
      "heading_name h = Some section" using dropWhile_headed by fastforce
  let ?c = "concat (takeWhile (\<lambda>l. heading_name l = None) r)"
  have "body = concat B @ h @ ?c @ concat (dropWhile (\<lambda>l. heading_name l = None) r)"
    by (metis B(1) concat.simps(2) concat_append concat_split_inclusive takeWhile_dropWhile_id)
  then have "take (length h + length ?c) (drop (length (concat B)) body) = h @ ?c" by simp
  then show ?thesis using find_section_lines [OF B] by (simp add: section_text_def section_lines_def Cons)
qed

lemma section_lines_new:
  assumes "\<forall>l \<in> set B. heading_name l \<noteq> Some section" "heading_name h = Some section"
    "\<forall>l \<in> set C. heading_name l = None" "A = [] \<or> heading_name (hd A) \<noteq> None"
  shows "section_lines section (B @ h # C @ A) = Some (concat (h # C))"
proof -
  have "takeWhile (\<lambda>l. heading_name l = None) (C @ A) = C" using assms(3,4) by (cases A) (auto simp: takeWhile_append2)
  then show ?thesis using assms(1,2) by (simp add: section_lines_def dropWhile_append2)
qed

lemma section_lines_other:
  assumes "heading_name h = Some section" "heading_name h' = Some section" "s \<noteq> section"
    "\<forall>l \<in> set C. heading_name l = None" "\<forall>l \<in> set C'. heading_name l = None"
  shows "section_lines s (B @ h # C @ A) = section_lines s (B @ h' # C' @ A)"
proof (induction B)
  case Nil
  then show ?case using assms by (simp add: section_lines_def dropWhile_append2)
next
  case (Cons l B)
  have "takeWhile (\<lambda>l. heading_name l = None) (B @ h # X) = takeWhile (\<lambda>l. heading_name l = None) (B @ h' # Y)" for X Y
    using assms(1,2) by (induction B) auto
  from this [of "C @ A" "C' @ A"] show ?case using Cons by (simp add: section_lines_def)
qed

lemma trim_end_newline [simp]: "trim_end_matches newline (l @ [newline]) = trim_end_matches newline l"
  by (simp add: trim_end_matches_def)

lemma heading_name_newline [simp]: "heading_name (l @ [newline]) = heading_name l"
  by (simp add: heading_name_def)

lemma trim_end_id: "s = [] \<or> last s \<noteq> c \<Longrightarrow> trim_end_matches c s = s"
  by (cases s rule: rev_cases) (auto simp: trim_end_matches_def)

lemma heading_name_section:
  assumes "validate_section_name name = Inr section"
  shows "heading_name (''## '' @ section) = Some section" "newline \<notin> set (''## '' @ section)"
proof -
  from assms have s: "section = trim name" "section \<noteq> []" "newline \<notin> set section" "carriage \<notin> set section"
    by (auto simp: validate_section_name_def Let_def split: if_splits)
  have "last (''## '' @ section) \<in> set section" using s(2) by (metis last_appendR last_in_set)
  then have "trim_end_matches newline (''## '' @ section) = ''## '' @ section"
      "trim_end_matches carriage (''## '' @ section) = ''## '' @ section"
    using s(3,4) by (metis trim_end_id)+
  then show "heading_name (''## '' @ section) = Some section" using s(1) by (simp add: heading_name_def)
  show "newline \<notin> set (''## '' @ section)" using s(3) by simp
qed

lemma heading_name_blank: "heading_name [newline] = None"
  by code_simp
lemma split_inclusive_ended: "\<forall>l \<in> set (split_inclusive (v @ [newline])). full_line l"
proof -
  have "split_inclusive ((v @ [newline]) @ ''x'') = split_inclusive (v @ [newline]) @ [''x'']"
    by (subst split_inclusive_append) auto
  then show ?thesis using split_inclusive_init by blast
qed

text \<open>The lines of the block written for a section.\<close>

definition block_lines :: "string \<Rightarrow> string list" where
  "block_lines value =
     (let v = normalize_section_value value in [newline] # (if v = [] then [] else split_inclusive (v @ [newline])))"

lemma section_block_lines:
  "section_block section value = concat ((''## '' @ section @ [newline]) # block_lines value)"
  by (simp add: section_block_def block_lines_def Let_def)

lemma block_lines_full: "\<forall>l \<in> set (block_lines value). full_line l"
  using split_inclusive_ended by (auto simp: block_lines_def Let_def full_line_def)

lemma heading_line_full:
  "validate_section_name name = Inr section \<Longrightarrow> full_line (''## '' @ section @ [newline])
     \<and> heading_name (''## '' @ section @ [newline]) = Some section"
  using heading_name_section [of name "section"] heading_name_newline [of "''## '' @ section"]
  by (auto simp: full_line_def)

lemma split_inclusive_newline:
  assumes "v \<noteq> []" "last v \<noteq> newline"
  shows "\<exists>xs l. split_inclusive v = xs @ [l] \<and> split_inclusive (v @ [newline]) = xs @ [l @ [newline]]"
  using assms
proof (induction v)
  case (Cons c v)
  show ?case
  proof (cases "v = []")
    case False
    with Cons obtain xs l where "split_inclusive v = xs @ [l]" "split_inclusive (v @ [newline]) = xs @ [l @ [newline]]"
      by auto
    then show ?thesis by (cases "c = newline"; cases xs) (auto intro: exI [of _ "[]"] exI [of _ "[newline] # xs"])
  qed (use Cons in auto)
qed simp

lemma headings_newline:
  "heading_name ` set (split_inclusive (v @ [newline])) \<subseteq> insert None (heading_name ` set (split_inclusive v))"
proof (cases "v = [] \<or> last v = newline")
  case True
  then have "split_inclusive (v @ [newline]) = split_inclusive v @ [[newline]]" by (subst split_inclusive_append) auto
  then show ?thesis by (auto simp: heading_name_blank)
next
  case False
  then obtain xs l where "split_inclusive v = xs @ [l]" "split_inclusive (v @ [newline]) = xs @ [l @ [newline]]"
    using split_inclusive_newline by metis
  then show ?thesis by auto
qed

lemma block_lines_plain:
  "\<forall>l \<in> set (split_inclusive (normalize_section_value value)). heading_name l = None \<Longrightarrow>
   \<forall>l \<in> set (block_lines value). heading_name l = None"
proof -
  let ?v = "normalize_section_value value"
  assume "\<forall>l \<in> set (split_inclusive ?v). heading_name l = None"
  then have "heading_name ` set (split_inclusive ?v) \<subseteq> {None}" by auto
  then have "heading_name ` set (split_inclusive (?v @ [newline])) \<subseteq> {None}" by (rule order_trans [OF headings_newline insert_subsetI [OF singletonI]])
  then have "\<forall>l \<in> set (split_inclusive (?v @ [newline])). heading_name l = None" by auto
  then show ?thesis by (simp add: block_lines_def Let_def heading_name_blank)
qed

text \<open>The body that \<open>set_board_section\<close> writes, line by line.\<close>

definition with_section :: "string \<Rightarrow> string \<Rightarrow> string \<Rightarrow> string" where
  "with_section section value body =
     (case find_section body section of
        Some (start, fin) \<Rightarrow> take start body @ section_block section value @ drop fin body
      | None \<Rightarrow> body_with_appended_section body (section_block section value))"

lemma set_board_section_Inr:
  "set_board_section W name value doc = (Inr (), doc') \<longleftrightarrow>
     (\<exists>section. validate_section_name name = Inr section
        \<and> validate_candidate_document W (bd_meta doc) (with_section section value (bd_body doc)) = Inr ()
        \<and> doc' = doc\<lparr>bd_body := with_section section value (bd_body doc)\<rparr>)"
proof -
  have "set_board_section W name value doc =
      (case validate_section_name name of
         Inl e \<Rightarrow> (Inl e, doc)
       | Inr section \<Rightarrow>
           (case validate_candidate_document W (bd_meta doc) (with_section section value (bd_body doc)) of
              Inl e \<Rightarrow> (Inl e, doc)
            | Inr _ \<Rightarrow> (Inr (), doc\<lparr>bd_body := with_section section value (bd_body doc)\<rparr>)))"
    unfolding set_board_section_def with_section_def Let_def ..
  then show ?thesis by (auto split: sum.splits)
qed

lemma with_section_found:
  assumes "split_inclusive body = B @ h # C @ A" "\<forall>l \<in> set B. heading_name l \<noteq> Some section"
    "heading_name h = Some section" "\<forall>l \<in> set C. heading_name l = None" "A = [] \<or> heading_name (hd A) \<noteq> None"
    "validate_section_name name = Inr section"
  shows "with_section section value body = concat B @ section_block section value @ concat A"
    "split_inclusive (with_section section value body) = B @ (''## '' @ section @ [newline]) # block_lines value @ A"
proof -
  have body: "body = concat B @ h @ concat C @ concat A"
    by (metis assms(1) concat.simps(2) concat_append concat_split_inclusive)
  have "takeWhile (\<lambda>l. heading_name l = None) (C @ A) = C" using assms(4,5) by (cases A) (auto simp: takeWhile_append2)
  then have "find_section body section = Some (length (concat B), length (concat B) + length h + length (concat C))"
    using find_section_lines [OF assms(1-3)] by simp
  then show eq: "with_section section value body = concat B @ section_block section value @ concat A"
    by (simp add: with_section_def body)
  have "\<forall>l \<in> set B. full_line l" using split_inclusive_init [OF assms(1)] by simp
  then have full: "\<forall>l \<in> set (B @ (''## '' @ section @ [newline]) # block_lines value). full_line l"
    using block_lines_full heading_line_full [OF assms(6)] by auto
  have "split_inclusive (concat A) = A"
    using split_inclusive_suffix [of body "B @ h # C" A] assms(1) by simp
  moreover have "concat B @ section_block section value @ concat A
      = concat (B @ (''## '' @ section @ [newline]) # block_lines value) @ concat A"
    by (simp add: section_block_lines)
  ultimately show "split_inclusive (with_section section value body) = B @ (''## '' @ section @ [newline]) # block_lines value @ A"
    unfolding eq by (simp only: split_inclusive_full [OF full]) simp
qed

lemma trim_end_decompose: "\<exists>k. body = trim_end_matches newline body @ replicate k newline"
proof -
  have "rev body = takeWhile (\<lambda>c. c = newline) (rev body) @ dropWhile (\<lambda>c. c = newline) (rev body)" by simp
  then have "body = rev (dropWhile (\<lambda>c. c = newline) (rev body)) @ rev (takeWhile (\<lambda>c. c = newline) (rev body))"
    by (metis rev_append rev_rev_ident)
  moreover have "replicate (length (rev (takeWhile (\<lambda>c. c = newline) (rev body)))) newline
      = rev (takeWhile (\<lambda>c. c = newline) (rev body))"
    by (rule replicate_length_same) (auto dest: set_takeWhileD)
  ultimately show ?thesis unfolding trim_end_matches_def by metis
qed

lemma with_section_new:
  assumes "find_section body section = None" "validate_section_name name = Inr section"
  shows "\<exists>B. split_inclusive (with_section section value body) = B @ (''## '' @ section @ [newline]) # block_lines value
    \<and> (\<forall>l \<in> set B. heading_name l \<noteq> Some section)"
proof (cases "body = []")
  case True
  have "split_inclusive (concat ((''## '' @ section @ [newline]) # block_lines value) @ [])
      = ((''## '' @ section @ [newline]) # block_lines value) @ split_inclusive []"
    using block_lines_full heading_line_full [OF assms(2)] by (intro split_inclusive_full) auto
  then show ?thesis using True assms(1) by (intro exI [of _ "[]"]) (simp add: with_section_def body_with_appended_section_def section_block_lines)
next
  case False
  let ?t = "trim_end_matches newline body" and ?blk = "(''## '' @ section @ [newline]) # block_lines value"
  let ?B = "split_inclusive (?t @ [newline]) @ [[newline]]"
  have "with_section section value body = concat (?B @ ?blk) @ []"
    using assms(1) False by (simp add: with_section_def body_with_appended_section_def section_block_lines)
  moreover have "\<forall>l \<in> set (?B @ ?blk). full_line l"
    using block_lines_full heading_line_full [OF assms(2)] split_inclusive_ended by (auto simp: full_line_def)
  ultimately have sp: "split_inclusive (with_section section value body) = ?B @ ?blk"
    using split_inclusive_full [of "?B @ ?blk" "[]"] by (simp only: split_inclusive.simps append_Nil2)
  have "heading_name l \<noteq> Some section" if "l \<in> set (split_inclusive (?t @ [newline]))" for l
  proof -
    obtain k where k: "body = ?t @ replicate k newline" using trim_end_decompose by blast
    have none: "\<forall>l \<in> set (split_inclusive body). heading_name l \<noteq> Some section" using assms(1) find_section_None by blast
    show ?thesis
    proof (cases k)
      case 0
      then have "?t = body" using k by simp
      then show ?thesis using that none headings_newline [of body] by fastforce
    next
      case (Suc n)
      then have "split_inclusive body = split_inclusive (?t @ [newline]) @ split_inclusive (replicate n newline)"
        using split_inclusive_append [of "?t @ [newline]" "replicate n newline"] k by simp
      then show ?thesis using that none by auto
    qed
  qed
  then show ?thesis using sp by (intro exI [of _ ?B]) (auto simp: heading_name_blank)
qed

text \<open>The decomposition of the body around the section, whether it was there or not.\<close>

lemma with_section_lines:
  assumes "validate_section_name name = Inr section"
    "\<forall>l \<in> set (split_inclusive (normalize_section_value value)). heading_name l = None"
  shows "section_text (with_section section value body) section = Some (section_block section value)"
    and "find_section body section \<noteq> None \<Longrightarrow> s \<noteq> section \<Longrightarrow>
           section_text (with_section section value body) s = section_text body s"
    and "with_section section value (with_section section value body) = with_section section value body"
proof -
  let ?hl = "''## '' @ section @ [newline]" and ?w = "with_section section value body"
  have h: "heading_name ?hl = Some section" using heading_line_full [OF assms(1)] by simp
  have C: "\<forall>l \<in> set (block_lines value). heading_name l = None" using block_lines_plain [OF assms(2)] .
  obtain B A where BA: "split_inclusive ?w = B @ ?hl # block_lines value @ A"
      "\<forall>l \<in> set B. heading_name l \<noteq> Some section" "A = [] \<or> heading_name (hd A) \<noteq> None"
      "find_section body section \<noteq> None \<Longrightarrow> s \<noteq> section \<Longrightarrow> section_text ?w s = section_text body s"
  proof (cases "find_section body section")
    case None
    with with_section_new [OF None assms(1)] that [of _ "[]"] show ?thesis by auto
  next
    case (Some ab)
    then obtain h r where "dropWhile (\<lambda>l. heading_name l \<noteq> Some section) (split_inclusive body) = h # r"
      by (cases "dropWhile (\<lambda>l. heading_name l \<noteq> Some section) (split_inclusive body)")
        (auto simp: find_section_def find_heading_split)
    then obtain B where B: "split_inclusive body = B @ h # r" "\<forall>l \<in> set B. heading_name l \<noteq> Some section"
        "heading_name h = Some section" using dropWhile_headed by fastforce
    let ?C = "takeWhile (\<lambda>l. heading_name l = None) r" and ?A = "dropWhile (\<lambda>l. heading_name l = None) r"
    have sb: "split_inclusive body = B @ h # ?C @ ?A" using B(1) by simp
    have c: "\<forall>l \<in> set ?C. heading_name l = None" using set_takeWhileD by fastforce
    have a: "?A = [] \<or> heading_name (hd ?A) \<noteq> None" using hd_dropWhile [of "\<lambda>l. heading_name l = None" r] by blast
    note w = with_section_found(2) [OF sb B(2,3) c a assms(1)]
    have "section_text ?w s = section_text body s" if "s \<noteq> section"
      unfolding section_text_lines w sb using section_lines_other [OF h B(3) that C c] by simp
    with that [OF w B(2) a] show ?thesis by blast
  qed
  show "section_text ?w section = Some (section_block section value)"
    unfolding section_text_lines BA(1) section_block_lines by (rule section_lines_new [OF BA(2) h C BA(3)])
  show "find_section body section \<noteq> None \<Longrightarrow> s \<noteq> section \<Longrightarrow> section_text ?w s = section_text body s" by (rule BA(4))
  have "with_section section value ?w = concat B @ section_block section value @ concat A"
    by (rule with_section_found(1) [OF BA(1,2) h C BA(3) assms(1)])
  also have "\<dots> = ?w"
    by (metis BA(1) append_assoc concat.simps(2) concat_append concat_split_inclusive section_block_lines)
  finally show "with_section section value ?w = ?w" .
qed

text \<open>After a section has been set, reading it gives exactly the block that was set, setting it again
  to the same value changes nothing, and when the section existed before every other section reads as
  before; the value must not itself contain a heading line.\<close>

theorem board_section_set:
  assumes "set_board_section W name value doc = (Inr (), doc')"
    "\<forall>l \<in> set (split_inclusive (normalize_section_value value)). heading_name l = None"
  shows "section_text (bd_body doc') (trim name) = Some (section_block (trim name) value)
    \<and> set_board_section W name value doc' = (Inr (), doc')
    \<and> (find_section (bd_body doc) (trim name) \<noteq> None \<and> s \<noteq> trim name \<longrightarrow>
         section_text (bd_body doc') s = section_text (bd_body doc) s)"
proof -
  from assms(1) obtain sn where sec: "validate_section_name name = Inr sn"
      "validate_candidate_document W (bd_meta doc) (with_section sn value (bd_body doc)) = Inr ()"
      "doc' = doc\<lparr>bd_body := with_section sn value (bd_body doc)\<rparr>"
    unfolding set_board_section_Inr by blast
  have "sn = trim name" using sec(1) by (auto simp: validate_section_name_def Let_def split: if_splits)
  then show ?thesis
    using sec with_section_lines [OF sec(1) assms(2)] by (simp add: set_board_section_Inr)
qed

theorem board_section_set_witness:
  "section_text (bd_body (demo_board\<lparr>bd_body := with_section ''todo'' ''rest'' (bd_body demo_board)\<rparr>)) (trim ''todo'')
     = Some (section_block (trim ''todo'') ''rest'')"
proof -
  have "validate_board_meta (bd_meta demo_board) = Inr ()" by code_simp
  moreover have "rendered_board_len demo_write (bd_meta demo_board) (with_section ''todo'' ''rest'' (bd_body demo_board)) = Inr 35"
    by code_simp
  ultimately have "validate_candidate_document demo_write (bd_meta demo_board) (with_section ''todo'' ''rest'' (bd_body demo_board)) = Inr ()"
    by (simp add: validate_candidate_document_def validate_rendered_size_def board_max_bytes_def)
  moreover have "validate_section_name ''todo'' = Inr ''todo''" by code_simp
  ultimately have "set_board_section demo_write ''todo'' ''rest'' demo_board
      = (Inr (), demo_board\<lparr>bd_body := with_section ''todo'' ''rest'' (bd_body demo_board)\<rparr>)"
    unfolding set_board_section_Inr by blast
  moreover have "\<forall>l \<in> set (split_inclusive (normalize_section_value ''rest'')). heading_name l = None" by code_simp
  ultimately show ?thesis using board_section_set by blast
qed

end
