(* ===== verification/Flow.thy ===== *)
theory Flow
  imports Validators "HOL-Library.AList"
begin

text \<open>
  Flow documents (\<^verbatim>\<open>crates/gitim-core/src/flow\<close>): the types (\<^verbatim>\<open>types.rs\<close>), the Markdown reader and writer
  (\<^verbatim>\<open>parser.rs\<close>) and the validator with its depth first search for cycles (\<^verbatim>\<open>validator.rs\<close>).  The main
  result is that the search decides acyclicity, so that a valid flow can always make progress.
\<close>

subsection \<open>Types (types.rs)\<close>

datatype node_type = AgentMention | ChannelThread | HumanReview | WaitForSignal

record flow_node =
  fn_id :: string
  fn_type :: node_type
  fn_owner :: "string option"
  fn_participants :: "string list"
  fn_signal :: "string option"
  fn_needs :: "string list"
  fn_exits :: "string list"
  fn_required_labels :: "string list"
  fn_prompt :: string

record flow_meta =
  fm_schema_version :: nat
  fm_slug :: string
  fm_name :: string
  fm_description :: string
  fm_created_by :: string
  fm_created_at :: string
  fm_updated_at :: "string option"
  fm_nodes :: "flow_node list"

record flow_document =
  fd_meta :: flow_meta

record flow_node_input =
  fi_id :: string
  fi_type :: node_type
  fi_owner :: "string option"
  fi_participants :: "string list"
  fi_signal :: "string option"
  fi_needs :: "string list"
  fi_exits :: "string list"
  fi_required_labels :: "string list"
  fi_prompt :: string

definition into_flow_node :: "flow_node_input \<Rightarrow> flow_node" where
  "into_flow_node x =
     \<lparr>fn_id = fi_id x, fn_type = fi_type x, fn_owner = fi_owner x, fn_participants = fi_participants x,
      fn_signal = fi_signal x, fn_needs = fi_needs x, fn_exits = fi_exits x,
      fn_required_labels = fi_required_labels x, fn_prompt = fi_prompt x\<rparr>"

datatype flow_error =
    InvalidSlug flow_slug_error
  | MissingFrontmatter
  | FlowYamlParse
  | SchemaVersion nat
  | SlugMismatch string string
  | InvalidNodeId string string
  | DuplicateNodeId string
  | UnknownNeed string string
  | FlowCycle
  | MissingRequiredField string node_type string
  | InvalidNodeField string string label_error

datatype flow_warning =
    BodySectionMissing string
  | OrphanBodySection string
  | OversizedFile nat nat
  | TooManyNodes nat nat
  | Phase2NodeType string node_type

subsection \<open>Reading and writing (parser.rs)\<close>

definition frontmatter_delim :: string where
  "frontmatter_delim = ''---''"

text \<open>The byte order mark U+FEFF in UTF-8; \<^verbatim>\<open>trim_start_matches\<close> drops every leading copy.\<close>

definition bom :: string where
  "bom = [CHR 0xEF, CHR 0xBB, CHR 0xBF]"

function trim_start_str :: "string \<Rightarrow> string \<Rightarrow> string" where
  "trim_start_str p s =
     (if p = [] then s else case strip_prefix p s of Some t \<Rightarrow> trim_start_str p t | None \<Rightarrow> s)"
  by auto
termination by (relation "measure (\<lambda>(p, s). length s)") auto

text \<open>A \<^verbatim>\<open>BTreeMap\<close> is an association list in key order.\<close>

fun btree_insert :: "string \<Rightarrow> 'a \<Rightarrow> (string \<times> 'a) list \<Rightarrow> (string \<times> 'a) list" where
  "btree_insert k v [] = [(k, v)]"
| "btree_insert k v ((k', v') # m) =
     (if k < k' then (k, v) # (k', v') # m
      else if k = k' then (k, v) # m
      else (k', v') # btree_insert k v m)"

fun split_sections_loop ::
  "string list \<Rightarrow> (string \<times> string) list \<Rightarrow> string option \<Rightarrow> string \<Rightarrow> (string \<times> string) list" where
  "split_sections_loop [] sections current_id buf =
     (case current_id of Some i \<Rightarrow> btree_insert i (trim buf) sections | None \<Rightarrow> sections)"
| "split_sections_loop (line # rest) sections current_id buf =
     (case strip_prefix ''## '' line of
        Some r \<Rightarrow>
          (case current_id of
             Some i \<Rightarrow> split_sections_loop rest (btree_insert i (trim buf) sections) (Some (trim r)) []
           | None \<Rightarrow> split_sections_loop rest sections (Some (trim r)) buf)
      | None \<Rightarrow>
          if current_id \<noteq> None then split_sections_loop rest sections current_id (buf @ line @ [newline])
          else split_sections_loop rest sections current_id buf)"

definition split_body_sections :: "string \<Rightarrow> (string \<times> string) list" where
  "split_body_sections body = split_sections_loop (lines body) [] None []"

definition attach_prompt :: "(string \<times> string) list \<Rightarrow> flow_node \<Rightarrow> flow_node" where
  "attach_prompt section_map node =
     (case map_of section_map (fn_id node) of
        Some text \<Rightarrow> node\<lparr>fn_prompt := text\<rparr> | None \<Rightarrow> node)"

definition parse_flow_markdown_with_warnings ::
  "(string \<Rightarrow> flow_meta option) \<Rightarrow> string \<Rightarrow> flow_error + flow_document \<times> flow_warning list" where
  "parse_flow_markdown_with_warnings yaml_read content =
     (let trimmed = trim_start_str bom content in
      if \<not> starts_with frontmatter_delim trimmed then Inl MissingFrontmatter
      else let after_open = drop (length frontmatter_delim) trimmed in
      andThen (ok_or MissingFrontmatter (find_str ([newline] @ frontmatter_delim) after_open)) (\<lambda>end_pos.
      let yaml_body = take end_pos after_open;
          body_after = drop (end_pos + 1 + length frontmatter_delim) after_open in
      andThen (ok_or FlowYamlParse (yaml_read (trim yaml_body))) (\<lambda>meta.
      if fm_schema_version meta \<noteq> 1 then Inl (SchemaVersion (fm_schema_version meta))
      else let section_map = split_body_sections body_after;
               ids = map fn_id (fm_nodes meta);
               missing = map BodySectionMissing (filter (\<lambda>i. map_of section_map i = None) ids);
               orphan = map OrphanBodySection (filter (\<lambda>i. i \<notin> set ids) (map fst section_map))
           in Inr (\<lparr>fd_meta = meta\<lparr>fm_nodes := map (attach_prompt section_map) (fm_nodes meta)\<rparr>\<rparr>,
                   missing @ orphan))))"

definition parse_flow_markdown :: "(string \<Rightarrow> flow_meta option) \<Rightarrow> string \<Rightarrow> flow_error + flow_document" where
  "parse_flow_markdown yaml_read content =
     andThen (parse_flow_markdown_with_warnings yaml_read content) (\<lambda>(doc, _). Inr doc)"

text \<open>\<^verbatim>\<open>str::trim_end\<close>.\<close>

definition trim_end :: "string \<Rightarrow> string" where
  "trim_end s = concat (rev (dropWhile is_whitespace (rev (chars s))))"

definition stringify_node :: "flow_node \<Rightarrow> string" where
  "stringify_node node =
     [newline] @ ''## '' @ fn_id node @ [newline, newline]
     @ (if fn_prompt node \<noteq> [] then trim (fn_prompt node) @ [newline] else [])"

definition stringify_flow_markdown ::
  "(flow_meta \<Rightarrow> string option) \<Rightarrow> flow_document \<Rightarrow> flow_error + string" where
  "stringify_flow_markdown yaml_write doc =
     andThen (ok_or FlowYamlParse (yaml_write (fd_meta doc))) (\<lambda>frontmatter.
       Inr (''---'' @ [newline] @ trim_end frontmatter @ [newline] @ ''---'' @ [newline]
            @ concat (map stringify_node (fm_nodes (fd_meta doc)))))"

subsection \<open>Validation (validator.rs)\<close>

definition max_file_size :: nat where
  "max_file_size = 256 * 1024"

definition max_node_count :: nat where
  "max_node_count = 50"

definition node_id_char :: "char \<Rightarrow> bool" where
  "node_id_char c \<longleftrightarrow> is_lower c \<or> is_digit c \<or> c = CHR ''-'' \<or> c = CHR ''_''"

text \<open>The text of the reason is that of the source, less the value it quotes.\<close>

definition validate_node_id :: "string \<Rightarrow> string + unit" where
  "validate_node_id i =
     (if i = [] then Inl ''must not be empty''
      else if length i > 39 then Inl ''exceeds 39 characters''
      else if bad_char node_id_char i \<noteq> None then Inl ''contains invalid character''
      else if starts_with ''-'' i \<or> ends_with ''-'' i then Inl ''must not start or end with hyphen''
      else if contains_str ''--'' i then Inl ''must not contain consecutive hyphens''
      else Inr ())"

datatype mark = White | Gray | Black

type_synonym adjacency = "(string \<times> string list) list"
type_synonym marks = "(string \<times> mark) list"

definition mark_of :: "marks \<Rightarrow> string \<Rightarrow> mark" where
  "mark_of marks i = (case map_of marks i of Some m \<Rightarrow> m | None \<Rightarrow> Black)"

definition needs_of :: "adjacency \<Rightarrow> string \<Rightarrow> string list" where
  "needs_of adj i = (case map_of adj i of Some ns \<Rightarrow> ns | None \<Rightarrow> [])"

definition whites :: "marks \<Rightarrow> string set" where
  "whites marks = {i. map_of marks i = Some White}"

lemma finite_whites [simp]: "finite (whites marks)"
  by (rule finite_subset [OF _ finite_dom_map_of [of marks]]) (auto simp: whites_def)

lemma whites_update: "whites (AList.update i c marks) = (if c = White then insert i (whites marks) else whites marks - {i})"
  by (auto simp: whites_def update_conv')

function (sequential) dfs :: "adjacency \<Rightarrow> string \<Rightarrow> marks \<Rightarrow> bool \<times> marks"
  and dfs_needs :: "adjacency \<Rightarrow> string list \<Rightarrow> marks \<Rightarrow> bool \<times> marks" where
  "dfs adj i marks =
     (case mark_of marks i of
        Gray \<Rightarrow> (True, marks)
      | Black \<Rightarrow> (False, marks)
      | White \<Rightarrow>
          (let r = dfs_needs adj (needs_of adj i) (AList.update i Gray marks)
           in if fst r then (True, snd r) else (False, AList.update i Black (snd r))))"
| "dfs_needs adj [] marks = (False, marks)"
| "dfs_needs adj (n # ns) marks =
     (let r = dfs adj n marks in if fst r then (True, snd r) else dfs_needs adj ns (snd r))"
  by pat_completeness auto

lemma dfs_whites_dom:
  "dfs_dfs_needs_dom (Inl (adj, i, m)) \<Longrightarrow> whites (snd (dfs adj i m)) \<subseteq> whites m"
  "dfs_dfs_needs_dom (Inr (adj, ns, m)) \<Longrightarrow> whites (snd (dfs_needs adj ns m)) \<subseteq> whites m"
proof (induction rule: dfs_dfs_needs.pinduct)
  case (1 adj i m)
  then show ?case
    by (auto simp: dfs.psimps Let_def whites_update split: mark.splits)
next
  case (3 adj n ns m)
  then show ?case
    by (auto simp: dfs_needs.psimps Let_def)
qed (simp add: dfs_needs.psimps)

termination dfs
proof (relation "measures [\<lambda>x. case x of Inl (adj, i, m) \<Rightarrow> card (whites m) | Inr (adj, ns, m) \<Rightarrow> card (whites m),
      \<lambda>x. case x of Inl (adj, i, m) \<Rightarrow> 0 | Inr (adj, ns, m) \<Rightarrow> length ns]", goal_cases)
  case (2 adj i m)
  then have "i \<in> whites m" by (auto simp: mark_of_def whites_def split: option.splits)
  then have "card (whites m - {i}) < card (whites m)" by (intro psubset_card_mono) auto
  then show ?case by (simp add: whites_update)
next
  case (4 adj n ns m x)
  then have "card (whites (snd (dfs adj n m))) \<le> card (whites m)"
    using dfs_whites_dom(1) [of adj n m] by (intro card_mono) auto
  then show ?case using 4 by auto
qed auto

declare dfs.simps [simp del]

definition has_cycle :: "flow_node list \<Rightarrow> bool" where
  "has_cycle nodes =
     (let adj = rev (map (\<lambda>n. (fn_id n, fn_needs n)) nodes);
          marks = map (\<lambda>n. (fn_id n, White)) nodes
      in fst (dfs_needs adj (map fn_id nodes) marks))"
fun check_duplicates :: "string list \<Rightarrow> flow_node list \<Rightarrow> flow_error + string list" where
  "check_duplicates seen [] = Inr seen"
| "check_duplicates seen (n # ns) =
     (if fn_id n \<in> set seen then Inl (DuplicateNodeId (fn_id n)) else check_duplicates (fn_id n # seen) ns)"

definition check_needs :: "string list \<Rightarrow> flow_node \<Rightarrow> flow_error + unit" where
  "check_needs seen n =
     try_each (\<lambda>need. if need \<notin> set seen then Inl (UnknownNeed (fn_id n) need) else Inr ()) (fn_needs n)"

definition check_node_fields :: "flow_node \<Rightarrow> flow_error + unit" where
  "check_node_fields n =
     andThen
       (case fn_type n of
          AgentMention \<Rightarrow>
            if fn_owner n = None then Inl (MissingRequiredField (fn_id n) (fn_type n) ''owner'') else Inr ()
        | ChannelThread \<Rightarrow>
            if fn_participants n = [] then Inl (MissingRequiredField (fn_id n) (fn_type n) ''participants'')
            else Inr ()
        | HumanReview \<Rightarrow> Inr ()
        | WaitForSignal \<Rightarrow>
            if fn_signal n = None then Inl (MissingRequiredField (fn_id n) (fn_type n) ''signal'') else Inr ())
       (\<lambda>_. map_err (InvalidNodeField (fn_id n) ''required_labels'')
              (validate_labels (fn_required_labels n) flow_node_max_labels))"

definition validate_flow_document :: "flow_document \<Rightarrow> string \<Rightarrow> flow_error + unit" where
  "validate_flow_document doc slug_in_path =
     (let meta = fd_meta doc in
      andThen (map_err InvalidSlug (flow_slug_new (fm_slug meta))) (\<lambda>_.
      andThen (map_err InvalidSlug (flow_slug_new slug_in_path)) (\<lambda>_.
      if fm_slug meta \<noteq> slug_in_path then Inl (SlugMismatch (fm_slug meta) slug_in_path)
      else andThen (try_each (\<lambda>n. map_err (InvalidNodeId (fn_id n)) (validate_node_id (fn_id n))) (fm_nodes meta)) (\<lambda>_.
      andThen (check_duplicates [] (fm_nodes meta)) (\<lambda>seen.
      andThen (try_each (check_needs seen) (fm_nodes meta)) (\<lambda>_.
      andThen (try_each check_node_fields (fm_nodes meta)) (\<lambda>_.
      if has_cycle (fm_nodes meta) then Inl FlowCycle else Inr ())))))))"

definition validate_flow_for_storage :: "flow_document \<Rightarrow> nat \<Rightarrow> flow_warning list" where
  "validate_flow_for_storage doc file_size =
     (if file_size > max_file_size then [OversizedFile file_size max_file_size] else [])
     @ (let nodes = fm_nodes (fd_meta doc) in
        (if length nodes > max_node_count then [TooManyNodes (length nodes) max_node_count] else [])
        @ map (\<lambda>n. Phase2NodeType (fn_id n) (fn_type n))
            (filter (\<lambda>n. fn_type n = HumanReview \<or> fn_type n = WaitForSignal) nodes))"

subsection \<open>The search decides acyclicity\<close>

text \<open>The dependency relation among the marked nodes.\<close>

definition edges :: "adjacency \<Rightarrow> marks \<Rightarrow> (string \<times> string) set" where
  "edges adj m = {(a, b). a \<in> dom (map_of m) \<and> b \<in> dom (map_of m) \<and> b \<in> set (needs_of adj a)}"

definition grays :: "marks \<Rightarrow> string set" where
  "grays m = {i. map_of m i = Some Gray}"

definition blacks :: "marks \<Rightarrow> string set" where
  "blacks m = {i. map_of m i = Some Black}"

text \<open>What holds of the black nodes: everything they depend on is black, and they form no cycle.\<close>

definition settled :: "adjacency \<Rightarrow> marks \<Rightarrow> bool" where
  "settled adj m \<longleftrightarrow> (\<forall>(a, b) \<in> edges adj m. a \<in> blacks m \<longrightarrow> b \<in> blacks m)
     \<and> acyclic (edges adj m \<inter> blacks m \<times> blacks m)"

lemma update_dom: "i \<in> dom (map_of m) \<Longrightarrow> dom (map_of (AList.update i c m)) = dom (map_of m)"
  by (auto simp: update_conv')

lemma edges_update: "i \<in> dom (map_of m) \<Longrightarrow> edges adj (AList.update i c m) = edges adj m"
  by (simp add: edges_def update_dom)

lemma dfs_keys:
  "dom (map_of (snd (dfs adj i m))) = dom (map_of m)"
  "dom (map_of (snd (dfs_needs adj ns m))) = dom (map_of m)"
proof (induction adj i m and adj ns m rule: dfs_dfs_needs.induct)
  case (1 adj i m)
  show ?case
  proof (cases "mark_of m i")
    case White
    then have i: "i \<in> dom (map_of m)" by (auto simp: mark_of_def split: option.splits)
    let ?r = "dfs_needs adj (needs_of adj i) (AList.update i Gray m)"
    have r: "dom (map_of (snd ?r)) = dom (map_of m)" using 1 White update_dom [OF i] by simp
    then have "dom (map_of (AList.update i Black (snd ?r))) = dom (map_of m)" using i update_dom by metis
    then show ?thesis using White r by (simp add: dfs.simps Let_def)
  qed (simp_all add: dfs.simps)
qed (simp_all add: Let_def)

lemma acyclic_insert_source:
  assumes "acyclic (E \<inter> B \<times> B)" "\<And>a. (a, i) \<in> E \<Longrightarrow> a \<notin> B" "(i, i) \<notin> E" "i \<notin> B"
  shows "acyclic (E \<inter> insert i B \<times> insert i B)"
proof -
  let ?F = "E \<inter> insert i B \<times> insert i B"
  have no_in: "(a, i) \<notin> ?F" for a using assms(2,3) by auto
  have "(a, b) \<in> (E \<inter> B \<times> B)\<^sup>+ \<or> a = i" if "(a, b) \<in> ?F\<^sup>+" for a b
    using that
  proof (induction rule: trancl_induct)
    case (step b c)
    then have "b \<noteq> i" using no_in by (metis tranclE)
    then have "(b, c) \<in> E \<inter> B \<times> B \<or> a = i" using step no_in by blast
    then show ?case using step by (auto intro: trancl_into_trancl)
  qed (use no_in in blast)
  then show ?thesis using assms(1) no_in unfolding acyclic_def by (metis tranclE)
qed

lemma dfs_false:
  "dfs adj i m = (False, m') \<Longrightarrow> settled adj m \<Longrightarrow>
     settled adj m' \<and> grays m' = grays m \<and> blacks m \<subseteq> blacks m'
     \<and> (i \<in> dom (map_of m) \<longrightarrow> i \<in> blacks m') \<and> i \<notin> grays m"
  "dfs_needs adj ns m = (False, m') \<Longrightarrow> settled adj m \<Longrightarrow>
     settled adj m' \<and> grays m' = grays m \<and> blacks m \<subseteq> blacks m'
     \<and> set ns \<inter> dom (map_of m) \<subseteq> blacks m' \<and> set ns \<inter> grays m = {}"
proof (induction adj i m and adj ns m arbitrary: m' and m' rule: dfs_dfs_needs.induct)
  case (1 adj i m)
  show ?case
  proof (cases "mark_of m i")
    case White
    let ?m1 = "AList.update i Gray m"
    define m2 where "m2 = snd (dfs_needs adj (needs_of adj i) ?m1)"
    have i: "map_of m i = Some White" using White by (auto simp: mark_of_def split: option.splits)
    have r: "dfs_needs adj (needs_of adj i) ?m1 = (False, m2)" and m': "m' = AList.update i Black m2"
      using 1(2) White unfolding m2_def by (auto simp: dfs.simps Let_def prod_eq_iff split: if_splits)
    have keys: "dom (map_of m2) = dom (map_of m)" "i \<in> dom (map_of m2)"
      using dfs_keys(2) [of adj "needs_of adj i" ?m1] i update_dom [of i m Gray] by (auto simp: m2_def)
    have ed: "edges adj ?m1 = edges adj m" "edges adj m' = edges adj m" "edges adj m2 = edges adj m"
      using i keys edges_update [of i] by (auto simp: m' edges_def)
    have b1: "blacks ?m1 = blacks m" "grays ?m1 = insert i (grays m)"
      using i by (auto simp: blacks_def grays_def update_conv')
    have "settled adj ?m1" using 1(3) by (simp add: settled_def ed b1)
    then have IH: "settled adj m2" "grays m2 = insert i (grays m)" "blacks m \<subseteq> blacks m2"
      "set (needs_of adj i) \<inter> dom (map_of m) \<subseteq> blacks m2" "i \<notin> set (needs_of adj i)"
      using 1(1) [OF White r] b1 update_dom [of i m Gray, OF domI, OF i] by auto
    have b': "blacks m' = insert i (blacks m2)" "grays m' = grays m"
      using IH(2) i by (auto simp: m' blacks_def grays_def update_conv')
    have "i \<in> grays m2" using IH(2) by simp
    then have ib: "i \<notin> blacks m2" by (simp add: blacks_def grays_def)
    have closed: "b \<in> blacks m2" if "(a, b) \<in> edges adj m" "a \<in> insert i (blacks m2)" for a b
    proof (cases "a = i")
      case True
      then show ?thesis using that(1) IH(4) by (auto simp: edges_def)
    next
      case False
      have "\<forall>(a, b) \<in> edges adj m. a \<in> blacks m2 \<longrightarrow> b \<in> blacks m2"
        using IH(1) unfolding settled_def ed by blast
      then show ?thesis using that False by blast
    qed
    have "acyclic (edges adj m \<inter> blacks m2 \<times> blacks m2)" using IH(1) by (simp add: settled_def ed)
    then have "acyclic (edges adj m \<inter> insert i (blacks m2) \<times> insert i (blacks m2))"
      using closed ib IH(5) by (intro acyclic_insert_source) (auto simp: edges_def)
    then have "settled adj m'" unfolding settled_def ed b' using closed by auto
    then show ?thesis using IH(3) b' i by (auto simp: grays_def)
  next
    case Black
    then show ?thesis using 1(2,3) by (auto simp: dfs.simps mark_of_def blacks_def grays_def split: option.splits)
  qed (use 1 in \<open>auto simp: dfs.simps\<close>)
next
  case (3 adj n ns m)
  define m1 where "m1 = snd (dfs adj n m)"
  have r: "dfs adj n m = (False, m1)" "dfs_needs adj ns m1 = (False, m')"
    using 3(3) unfolding m1_def by (auto simp: Let_def prod_eq_iff split: if_splits)
  have nf: "\<not> fst (dfs adj n m)" using r(1) by simp
  have k: "dom (map_of m1) = dom (map_of m)" using dfs_keys(1) by (simp add: m1_def)
  have IH1: "settled adj m1" "grays m1 = grays m" "blacks m \<subseteq> blacks m1" "n \<in> dom (map_of m) \<longrightarrow> n \<in> blacks m1"
    "n \<notin> grays m" using 3(1) [OF r(1) 3(4)] by auto
  have "settled adj m' \<and> grays m' = grays m1 \<and> blacks m1 \<subseteq> blacks m'
     \<and> set ns \<inter> dom (map_of m1) \<subseteq> blacks m' \<and> set ns \<inter> grays m1 = {}"
    using 3(2) [OF refl nf r(2) [unfolded m1_def] IH1(1) [unfolded m1_def]] unfolding m1_def .
  then show ?case using IH1 k by auto
qed auto

lemma dfs_true:
  "fst (dfs adj i m) \<Longrightarrow> settled adj m \<Longrightarrow> \<forall>g \<in> grays m. (g, i) \<in> (edges adj m)\<^sup>+ \<Longrightarrow> \<not> acyclic (edges adj m)"
  "fst (dfs_needs adj ns m) \<Longrightarrow> settled adj m \<Longrightarrow>
     \<forall>g \<in> grays m. \<forall>n \<in> set ns \<inter> dom (map_of m). (g, n) \<in> (edges adj m)\<^sup>+ \<Longrightarrow> \<not> acyclic (edges adj m)"
proof (induction adj i m and adj ns m rule: dfs_dfs_needs.induct)
  case (1 adj i m)
  show ?case
  proof (cases "mark_of m i")
    case White
    let ?m1 = "AList.update i Gray m"
    have i: "map_of m i = Some White" using White by (auto simp: mark_of_def split: option.splits)
    have keys: "dom (map_of ?m1) = dom (map_of m)" using i by (intro update_dom) auto
    have ed: "edges adj ?m1 = edges adj m" using i by (intro edges_update) auto
    have b1: "blacks ?m1 = blacks m" "grays ?m1 = insert i (grays m)"
      using i by (auto simp: blacks_def grays_def update_conv')
    have "settled adj ?m1" using 1(3) by (simp add: settled_def ed b1)
    moreover have "(g, n) \<in> (edges adj m)\<^sup>+" if "g \<in> insert i (grays m)" "n \<in> set (needs_of adj i) \<inter> dom (map_of m)" for g n
    proof -
      have "(i, n) \<in> edges adj m" using that(2) i by (auto simp: edges_def)
      then show ?thesis using that(1) 1(4) by (auto intro: trancl_into_trancl)
    qed
    moreover have "fst (dfs_needs adj (needs_of adj i) ?m1)" using 1(2) White by (auto simp: dfs.simps Let_def split: if_splits)
    ultimately show ?thesis using 1(1) [OF White] by (simp add: b1 ed keys)
  next
    case Gray
    then have "i \<in> grays m" by (auto simp: mark_of_def grays_def split: option.splits)
    then show ?thesis using 1(4) unfolding acyclic_def by blast
  qed (use 1 in \<open>auto simp: dfs.simps\<close>)
next
  case (3 adj n ns m)
  show ?case
  proof (cases "fst (dfs adj n m)")
    case True
    then have "n \<in> dom (map_of m)"
      by (cases "map_of m n") (auto simp: dfs.simps mark_of_def)
    then show ?thesis using 3(1) [OF True 3(4)] 3(5) by auto
  next
    case False
    define m1 where "m1 = snd (dfs adj n m)"
    have r: "dfs adj n m = (False, m1)" using False by (simp add: m1_def prod_eq_iff)
    have k: "dom (map_of m1) = dom (map_of m)" using dfs_keys(1) by (simp add: m1_def)
    have "settled adj m1" "grays m1 = grays m" using dfs_false(1) [OF r 3(4)] by auto
    moreover have "edges adj m1 = edges adj m" by (simp add: edges_def k)
    moreover have "fst (dfs_needs adj ns m1)" using 3(3) r by (simp add: Let_def)
    ultimately show ?thesis using 3(2) [OF refl False] 3(5) r k by simp
  qed
qed auto

definition depends :: "flow_node list \<Rightarrow> (string \<times> string) set" where
  "depends nodes = {(a, b). \<exists>n \<in> set nodes. fn_id n = a \<and> b \<in> set (fn_needs n) \<and> b \<in> fn_id ` set nodes}"

lemma needs_of_nodes:
  assumes "distinct (map fn_id nodes)" "n \<in> set nodes"
  shows "needs_of (rev (map (\<lambda>n. (fn_id n, fn_needs n)) nodes)) (fn_id n) = fn_needs n"
proof -
  let ?adj = "rev (map (\<lambda>n. (fn_id n, fn_needs n)) nodes)"
  have "distinct (map fst ?adj)" using assms(1) by (simp add: rev_map comp_def distinct_map)
  moreover have "(fn_id n, fn_needs n) \<in> set ?adj" using assms(2) by auto
  ultimately have "map_of ?adj (fn_id n) = Some (fn_needs n)" by (rule map_of_is_SomeI)
  then show ?thesis by (simp add: needs_of_def)
qed

lemma has_cycle_iff:
  assumes "distinct (map fn_id nodes)"
  shows "has_cycle nodes \<longleftrightarrow> \<not> acyclic (depends nodes)"
proof -
  let ?adj = "rev (map (\<lambda>n. (fn_id n, fn_needs n)) nodes)" and ?m = "map (\<lambda>n. (fn_id n, White)) nodes"
  have all_white: "map_of ?m i = Some c \<Longrightarrow> c = White" for i c by (auto dest!: map_of_SomeD)
  have dom: "dom (map_of ?m) = fn_id ` set nodes" by (force simp: dom_map_of_conv_image_fst)
  have none: "grays ?m = {}" "blacks ?m = {}" using all_white by (auto simp: grays_def blacks_def)
  have ed: "edges ?adj ?m = depends nodes"
    using needs_of_nodes [OF assms] by (auto simp: edges_def dom depends_def)
  have settled: "settled ?adj ?m" by (simp add: settled_def none acyclic_def)
  show ?thesis
  proof
    assume "has_cycle nodes"
    then show "\<not> acyclic (depends nodes)"
      using dfs_true(2) [of ?adj "map fn_id nodes" ?m] settled by (simp add: has_cycle_def none ed)
  next
    assume cyc: "\<not> acyclic (depends nodes)"
    show "has_cycle nodes"
    proof (rule ccontr)
      assume "\<not> has_cycle nodes"
      then obtain m' where m': "dfs_needs ?adj (map fn_id nodes) ?m = (False, m')"
        by (auto simp: has_cycle_def Let_def prod_eq_iff)
      have k: "dom (map_of m') = fn_id ` set nodes" using dfs_keys(2) [of ?adj "map fn_id nodes" ?m] m' dom by simp
      then have ed': "edges ?adj m' = depends nodes" using ed by (simp add: edges_def dom)
      have "settled ?adj m'" "fn_id ` set nodes \<subseteq> blacks m'" using dfs_false(2) [OF m' settled] dom by auto
      moreover from this(2) have "depends nodes \<inter> blacks m' \<times> blacks m' = depends nodes" by (auto simp: depends_def)
      ultimately show False using cyc by (simp add: settled_def ed')
    qed
  qed
qed

lemma check_duplicates_Inr:
  "check_duplicates seen ns = Inr seen' \<Longrightarrow>
     distinct (map fn_id ns) \<and> set (map fn_id ns) \<inter> set seen = {} \<and> set seen' = set seen \<union> set (map fn_id ns)"
  by (induction seen ns rule: check_duplicates.induct) (auto split: if_splits)

lemma check_duplicates_ok:
  "distinct (map fn_id ns) \<Longrightarrow> set (map fn_id ns) \<inter> set seen = {} \<Longrightarrow> \<exists>seen'. check_duplicates seen ns = Inr seen'"
  by (induction seen ns rule: check_duplicates.induct) auto

lemma check_needs_Inr: "check_needs seen n = Inr () \<longleftrightarrow> set (fn_needs n) \<subseteq> set seen"
  by (auto simp: check_needs_def try_each_Inr)

text \<open>The specification of a valid flow: its dependency relation is acyclic and total on its nodes.\<close>

definition flow_wf :: "flow_document \<Rightarrow> string \<Rightarrow> bool" where
  "flow_wf doc s \<longleftrightarrow>
     (let nodes = fm_nodes (fd_meta doc) in
      is_ok (flow_slug_new s) \<and> fm_slug (fd_meta doc) = s
      \<and> (\<forall>n \<in> set nodes. validate_node_id (fn_id n) = Inr () \<and> check_node_fields n = Inr ()
           \<and> set (fn_needs n) \<subseteq> fn_id ` set nodes)
      \<and> distinct (map fn_id nodes) \<and> acyclic (depends nodes))"

lemma validate_flow_wf: "validate_flow_document doc s = Inr () \<longleftrightarrow> flow_wf doc s"
proof -
  let ?ns = "fm_nodes (fd_meta doc)"
  have try_ids: "try_each (\<lambda>n. map_err (InvalidNodeId (fn_id n)) (validate_node_id (fn_id n))) ?ns = Inr ()
    \<longleftrightarrow> (\<forall>n \<in> set ?ns. validate_node_id (fn_id n) = Inr ())" by (auto simp: try_each_Inr)
  have needs: "try_each (check_needs seen) ?ns = Inr () \<longleftrightarrow> (\<forall>n \<in> set ?ns. set (fn_needs n) \<subseteq> set seen)" for seen
    by (auto simp: try_each_Inr check_needs_Inr)
  have fields: "try_each check_node_fields ?ns = Inr () \<longleftrightarrow> (\<forall>n \<in> set ?ns. check_node_fields n = Inr ())"
    by (simp add: try_each_Inr)
  show ?thesis
  proof
    assume "validate_flow_document doc s = Inr ()"
    then obtain seen where a: "is_ok (flow_slug_new s)" "fm_slug (fd_meta doc) = s"
      "\<forall>n \<in> set ?ns. validate_node_id (fn_id n) = Inr ()" "check_duplicates [] ?ns = Inr seen"
      "\<forall>n \<in> set ?ns. set (fn_needs n) \<subseteq> set seen" "\<forall>n \<in> set ?ns. check_node_fields n = Inr ()" "\<not> has_cycle ?ns"
      by (auto simp: validate_flow_document_def Let_def try_each_Inr check_needs_Inr is_ok_iff split: if_splits)
    then show "flow_wf doc s" using check_duplicates_Inr [OF a(4)] has_cycle_iff [of ?ns] by (auto simp: flow_wf_def)
  next
    assume w: "flow_wf doc s"
    then obtain seen where seen: "check_duplicates [] ?ns = Inr seen"
      using check_duplicates_ok [of ?ns "[]"] by (auto simp: flow_wf_def Let_def)
    have set: "set seen = fn_id ` set ?ns" using check_duplicates_Inr [OF seen] by simp
    have nc: "\<not> has_cycle ?ns" using w has_cycle_iff [of ?ns] by (auto simp: flow_wf_def Let_def)
    have parts: "is_ok (flow_slug_new s)" "fm_slug (fd_meta doc) = s"
      "try_each (\<lambda>n. map_err (InvalidNodeId (fn_id n)) (validate_node_id (fn_id n))) ?ns = Inr ()"
      "try_each (check_needs seen) ?ns = Inr ()" "try_each check_node_fields ?ns = Inr ()"
      using w set unfolding try_ids needs fields by (auto simp: flow_wf_def Let_def)
    then obtain sl where "flow_slug_new s = Inr sl" by (auto simp: is_ok_iff)
    then show "validate_flow_document doc s = Inr ()"
      using parts seen nc by (simp add: validate_flow_document_def Let_def)
  qed
qed

text \<open>C27: The depth first search decides acyclicity: on nodes with distinct identifiers it reports a cycle
  exactly when some node depends, through one or more steps, on itself.\<close>

theorem has_cycle_decides:
  assumes "distinct (map fn_id nodes)"
  shows "has_cycle nodes \<longleftrightarrow> (\<exists>i. (i, i) \<in> (depends nodes)\<^sup>+)"
  using has_cycle_iff [OF assms] by (auto simp: acyclic_def)


text \<open>C29: A valid flow is never stuck: as long as some node is not done, there is a node that is not done
  and all of whose dependencies are.\<close>

theorem valid_flow_progress:
  assumes "validate_flow_document doc s = Inr ()" "\<not> fn_id ` set (fm_nodes (fd_meta doc)) \<subseteq> done"
  shows "\<exists>n \<in> set (fm_nodes (fd_meta doc)). fn_id n \<notin> done \<and> set (fn_needs n) \<subseteq> done"
proof -
  let ?ns = "fm_nodes (fd_meta doc)"
  have w: "acyclic (depends ?ns)" "\<And>n. n \<in> set ?ns \<Longrightarrow> set (fn_needs n) \<subseteq> fn_id ` set ?ns"
    using assms(1) by (auto simp: validate_flow_wf flow_wf_def Let_def)
  have "finite (depends ?ns)"
    by (rule finite_subset [of _ "fn_id ` set ?ns \<times> fn_id ` set ?ns"]) (auto simp: depends_def)
  then have "wf ((depends ?ns)\<inverse>)" using w(1) by (simp add: finite_acyclic_wf_converse)
  moreover obtain i where "i \<in> fn_id ` set ?ns - done" using assms(2) by blast
  ultimately obtain j where j: "j \<in> fn_id ` set ?ns - done"
    and min: "\<And>b. (j, b) \<in> depends ?ns \<Longrightarrow> b \<notin> fn_id ` set ?ns - done"
    by (metis converse_iff wfE_min)
  then obtain n where n: "n \<in> set ?ns" "fn_id n = j" by auto
  have "b \<in> done" if "b \<in> set (fn_needs n)" for b
  proof -
    have "b \<in> fn_id ` set ?ns" using w(2) [OF n(1)] that by blast
    moreover from this have "(j, b) \<in> depends ?ns" using that n by (auto simp: depends_def)
    ultimately show ?thesis using min [of b] by blast
  qed
  then show ?thesis using n j by blast
qed

definition demo_node :: "string \<Rightarrow> string list \<Rightarrow> flow_node" where
  "demo_node i needs = \<lparr>fn_id = i, fn_type = HumanReview, fn_owner = None, fn_participants = [],
     fn_signal = None, fn_needs = needs, fn_exits = [], fn_required_labels = [], fn_prompt = ''do it''\<rparr>"

definition demo_flow :: flow_document where
  "demo_flow = \<lparr>fd_meta = \<lparr>fm_schema_version = 1, fm_slug = ''release'', fm_name = ''Release'',
     fm_description = [], fm_created_by = ''ann'', fm_created_at = ''t'', fm_updated_at = None,
     fm_nodes = [demo_node ''ship'' [''build'', ''test''], demo_node ''test'' [''build''], demo_node ''build'' []]\<rparr>\<rparr>"

theorem has_cycle_decides_witness:
  "\<exists>i. (i, i) \<in> (depends [demo_node ''a'' [''b''], demo_node ''b'' [''a'']])\<^sup>+"
proof -
  have "has_cycle [demo_node ''a'' [''b''], demo_node ''b'' [''a'']]" by code_simp
  then show ?thesis
    using has_cycle_decides [of "[demo_node ''a'' [''b''], demo_node ''b'' [''a'']]"] by (simp add: demo_node_def)
qed

theorem valid_flow_progress_witness:
  "\<exists>n \<in> set (fm_nodes (fd_meta demo_flow)). fn_id n \<notin> {''build''} \<and> set (fn_needs n) \<subseteq> {''build''}"
proof -
  have "validate_flow_document demo_flow ''release'' = Inr ()" by code_simp
  moreover have "\<not> fn_id ` set (fm_nodes (fd_meta demo_flow)) \<subseteq> {''build''}"
    by (simp add: demo_flow_def demo_node_def)
  ultimately show ?thesis by (rule valid_flow_progress)
qed

end
