(* ===== verification/Flow_Run.thy ===== *)
theory Flow_Run
  imports Flow
begin

text \<open>
  Runs of a flow: the data and checks of \<^verbatim>\<open>crates/gitim-core/src/flow/run.rs\<close>, and the state changes that
  the handlers of \<^verbatim>\<open>crates/gitim-daemon/src/flow_run_handlers.rs\<close> make to a run once it has been read
  (creation, setting the status of a node, cancellation).  The handlers themselves, which read and
  commit the state file, are in \<open>Daemon_Flows\<close>.  The reachable runs are an inductive predicate, and the
  invariant \<open>run_ok\<close> is proved by rule induction over it.
\<close>

subsection \<open>Run identifiers\<close>

datatype run_id_error = RunIdEmpty | RunIdFormat

datatype run_id = RunId (run_id_str: string)

definition run_id_byte :: "nat \<Rightarrow> char \<Rightarrow> bool" where
  "run_id_byte i b =
     (if i \<le> 7 then is_digit b
      else if i = 8 then b = CHR ''T''
      else if i \<le> 14 then is_digit b
      else if i = 15 then b = CHR ''-''
      else if i \<le> 21 then is_hexdigit b \<and> (is_digit b \<or> is_lower b)
      else False)"

definition is_valid_run_id :: "string \<Rightarrow> bool" where
  "is_valid_run_id s \<longleftrightarrow> length s = 22 \<and> list_all (\<lambda>(i, b). run_id_byte i b) (enumerate 0 s)"

definition run_id_new :: "string \<Rightarrow> run_id_error + run_id" where
  "run_id_new s =
     (if s = [] then Inl RunIdEmpty
      else if \<not> is_valid_run_id s then Inl RunIdFormat
      else Inr (RunId s))"

text \<open>\<^verbatim>\<open>RunId::generate\<close> with the formatted clock reading and the hexadecimal text of the random bytes as
  arguments.\<close>

definition run_id_generate :: "string \<Rightarrow> string \<Rightarrow> run_id" where
  "run_id_generate timestamp hash = RunId (timestamp @ ''-'' @ hash)"

definition run_path :: "string \<Rightarrow> run_id \<Rightarrow> string" where
  "run_path slug r =
     path_join (path_join (path_join (path_join ''flows'' slug) ''runs'') (run_id_str r)) ''state.yaml''"

subsection \<open>Statuses and runs\<close>

datatype run_status = RunInProgress | RunDone | RunFailed | RunCancelled

definition run_is_terminal :: "run_status \<Rightarrow> bool" where
  "run_is_terminal st \<longleftrightarrow> st \<in> {RunDone, RunFailed, RunCancelled}"

fun run_status_str :: "run_status \<Rightarrow> string" where
  "run_status_str RunInProgress = ''in_progress''"
| "run_status_str RunDone = ''done''"
| "run_status_str RunFailed = ''failed''"
| "run_status_str RunCancelled = ''cancelled''"

datatype node_status = NodePending | NodeInProgress | NodeDone | NodeFailed | NodeSkipped

definition node_is_terminal :: "node_status \<Rightarrow> bool" where
  "node_is_terminal st \<longleftrightarrow> st \<in> {NodeDone, NodeFailed, NodeSkipped}"

fun node_status_str :: "node_status \<Rightarrow> string" where
  "node_status_str NodePending = ''pending''"
| "node_status_str NodeInProgress = ''in_progress''"
| "node_status_str NodeDone = ''done''"
| "node_status_str NodeFailed = ''failed''"
| "node_status_str NodeSkipped = ''skipped''"

definition parse_node_status :: "string \<Rightarrow> node_status option" where
  "parse_node_status s =
     (if s = ''pending'' then Some NodePending
      else if s = ''in_progress'' then Some NodeInProgress
      else if s = ''done'' then Some NodeDone
      else if s = ''failed'' then Some NodeFailed
      else if s = ''skipped'' then Some NodeSkipped
      else None)"

definition parse_run_status :: "string \<Rightarrow> run_status option" where
  "parse_run_status s =
     (if s = ''in_progress'' then Some RunInProgress
      else if s = ''done'' then Some RunDone
      else if s = ''failed'' then Some RunFailed
      else if s = ''cancelled'' then Some RunCancelled
      else None)"

record flow_run_node =
  rn_id :: string
  rn_status :: node_status
  rn_actor :: "string option"
  rn_started_at :: "string option"
  rn_completed_at :: "string option"
  rn_result_ref :: "string option"

record flow_run =
  fr_schema_version :: nat
  fr_run_id :: string
  fr_flow_slug :: string
  fr_channel :: string
  fr_started_at :: string
  fr_started_by :: string
  fr_status :: run_status
  fr_nodes :: "flow_run_node list"
  fr_updated_at :: string

datatype flow_run_error =
    InvalidRunId run_id_error
  | RunYamlParse
  | RunSchemaVersion nat
  | UnknownNodeId string
  | InvalidTransition node_status node_status
  | RunTerminal run_status

definition parse_run_state :: "(string \<Rightarrow> flow_run option) \<Rightarrow> string \<Rightarrow> flow_run_error + flow_run" where
  "parse_run_state yaml_read content =
     andThen (ok_or RunYamlParse (yaml_read content)) (\<lambda>run.
       if fr_schema_version run \<noteq> 1 then Inl (RunSchemaVersion (fr_schema_version run)) else Inr run)"

definition stringify_run_state :: "(flow_run \<Rightarrow> string option) \<Rightarrow> flow_run \<Rightarrow> flow_run_error + string" where
  "stringify_run_state yaml_write run = ok_or RunYamlParse (yaml_write run)"

definition validate_node_transition :: "node_status \<Rightarrow> node_status \<Rightarrow> flow_run_error + unit" where
  "validate_node_transition from to =
     (if from = to then Inr ()
      else let allowed = (case from of
               NodePending \<Rightarrow> to \<in> {NodeInProgress, NodeDone, NodeFailed, NodeSkipped}
             | NodeInProgress \<Rightarrow> to \<in> {NodeDone, NodeFailed, NodeSkipped}
             | _ \<Rightarrow> False)
           in if allowed then Inr () else Inl (InvalidTransition from to))"

subsection \<open>Changes made by the handlers\<close>

definition new_run_node :: "flow_node \<Rightarrow> flow_run_node" where
  "new_run_node n = \<lparr>rn_id = fn_id n, rn_status = NodePending, rn_actor = None, rn_started_at = None,
     rn_completed_at = None, rn_result_ref = None\<rparr>"

definition start_run ::
  "flow_document \<Rightarrow> run_id \<Rightarrow> flow_slug \<Rightarrow> channel_name \<Rightarrow> string \<Rightarrow> string \<Rightarrow> flow_run" where
  "start_run template r slug channel author now =
     (let nodes = map new_run_node (fm_nodes (fd_meta template));
          initial_status = (if nodes = [] then RunDone else RunInProgress)
      in \<lparr>fr_schema_version = 1, fr_run_id = run_id_str r, fr_flow_slug = flow_slug_str slug,
          fr_channel = channel_str channel, fr_started_at = now, fr_started_by = author,
          fr_status = initial_status, fr_nodes = nodes, fr_updated_at = now\<rparr>)"

definition update_node ::
  "node_status \<Rightarrow> string option \<Rightarrow> string option \<Rightarrow> string \<Rightarrow> flow_run_node \<Rightarrow> flow_run_node" where
  "update_node new_status actor result_ref now node =
     (let n1 = (if rn_status node = NodePending \<and> new_status = NodeInProgress
                then node\<lparr>rn_started_at := Some now\<rparr> else node);
          n2 = (if node_is_terminal new_status \<and> rn_completed_at n1 = None
                then (let n = (if rn_started_at n1 = None then n1\<lparr>rn_started_at := Some now\<rparr> else n1)
                      in n\<lparr>rn_completed_at := Some now\<rparr>)
                else n1);
          n3 = n2\<lparr>rn_status := new_status\<rparr>;
          n4 = (if actor \<noteq> None then n3\<lparr>rn_actor := actor\<rparr> else n3)
      in if result_ref \<noteq> None then n4\<lparr>rn_result_ref := result_ref\<rparr> else n4)"

definition auto_complete :: "flow_run \<Rightarrow> flow_run" where
  "auto_complete run =
     (if list_all (\<lambda>n. node_is_terminal (rn_status n)) (fr_nodes run)
      then run\<lparr>fr_status := if list_ex (\<lambda>n. rn_status n = NodeFailed) (fr_nodes run) then RunFailed else RunDone\<rparr>
      else run)"

fun position :: "('a \<Rightarrow> bool) \<Rightarrow> 'a list \<Rightarrow> nat option" where
  "position p [] = None"
| "position p (x # xs) = (if p x then Some 0 else map_option Suc (position p xs))"

definition set_node ::
  "string \<Rightarrow> node_status \<Rightarrow> string option \<Rightarrow> string option \<Rightarrow> string \<Rightarrow> flow_run \<Rightarrow> flow_run_error + flow_run" where
  "set_node node_id new_status actor result_ref now run =
     (if run_is_terminal (fr_status run) then Inl (RunTerminal (fr_status run))
      else case position (\<lambda>n. rn_id n = node_id) (fr_nodes run) of
        None \<Rightarrow> Inl (UnknownNodeId node_id)
      | Some i \<Rightarrow>
          andThen (validate_node_transition (rn_status (fr_nodes run ! i)) new_status) (\<lambda>_.
            let nodes = (fr_nodes run)[i := update_node new_status actor result_ref now (fr_nodes run ! i)]
            in Inr ((auto_complete (run\<lparr>fr_nodes := nodes\<rparr>))\<lparr>fr_updated_at := now\<rparr>)))"

definition cancel_run :: "string \<Rightarrow> flow_run \<Rightarrow> flow_run_error + flow_run" where
  "cancel_run now run =
     (if run_is_terminal (fr_status run) then Inl (RunTerminal (fr_status run))
      else Inr (run\<lparr>fr_status := RunCancelled, fr_updated_at := now\<rparr>))"

subsection \<open>Reachable runs\<close>

inductive run_step :: "flow_run \<Rightarrow> flow_run \<Rightarrow> bool" where
  set_node_step: "set_node nid st actor ref now run = Inr run' \<Longrightarrow> run_step run run'"
| cancel_step: "cancel_run now run = Inr run' \<Longrightarrow> run_step run run'"

text \<open>A run that was started and then updated by any number of requests.\<close>

definition run_started :: "flow_run \<Rightarrow> bool" where
  "run_started run \<longleftrightarrow>
     (\<exists>template r slug channel author now. run = start_run template r slug channel author now)"

definition run_reachable :: "flow_run \<Rightarrow> bool" where
  "run_reachable run \<longleftrightarrow> (\<exists>run0. run_started run0 \<and> run_step\<^sup>*\<^sup>* run0 run)"

inductive_cases run_stepE: "run_step run run'"

text \<open>The times of a node agree with its status.\<close>

definition node_ok :: "flow_run_node \<Rightarrow> bool" where
  "node_ok n =
     (case rn_status n of
        NodePending \<Rightarrow> rn_started_at n = None \<and> rn_completed_at n = None
      | NodeInProgress \<Rightarrow> rn_started_at n \<noteq> None \<and> rn_completed_at n = None
      | _ \<Rightarrow> rn_started_at n \<noteq> None \<and> rn_completed_at n \<noteq> None)"

text \<open>A run is finished exactly when it was cancelled or all its nodes are, and it failed exactly when a
  node did.\<close>

definition run_ok :: "flow_run \<Rightarrow> bool" where
  "run_ok run \<longleftrightarrow>
     list_all node_ok (fr_nodes run)
     \<and> (case fr_status run of
          RunInProgress \<Rightarrow> list_ex (\<lambda>n. \<not> node_is_terminal (rn_status n)) (fr_nodes run)
        | RunDone \<Rightarrow> list_all (\<lambda>n. rn_status n \<in> {NodeDone, NodeSkipped}) (fr_nodes run)
        | RunFailed \<Rightarrow> list_all (\<lambda>n. node_is_terminal (rn_status n)) (fr_nodes run)
            \<and> list_ex (\<lambda>n. rn_status n = NodeFailed) (fr_nodes run)
        | RunCancelled \<Rightarrow> True)"

lemma position_Some:
  "position p xs = Some i \<Longrightarrow> i < length xs \<and> p (xs ! i) \<and> (\<forall>j < i. \<not> p (xs ! j))"
proof (induction xs arbitrary: i)
  case (Cons x xs)
  show ?case
  proof (cases "p x")
    case False
    with Cons.prems obtain k where "position p xs = Some k" "i = Suc k" by auto
    with Cons.IH [of k] False show ?thesis by (auto simp: less_Suc_eq_0_disj)
  qed (use Cons.prems in auto)
qed simp

lemma position_None: "position p xs = None \<longleftrightarrow> (\<forall>x \<in> set xs. \<not> p x)"
  by (induction xs) auto

lemma update_node_id [simp]: "rn_id (update_node st actor ref now n) = rn_id n"
  by (simp add: update_node_def Let_def)

lemma update_node_status [simp]: "rn_status (update_node st actor ref now n) = st"
  by (simp add: update_node_def Let_def)

lemma update_node_ok:
  assumes "node_ok n" "validate_node_transition (rn_status n) st = Inr ()"
  shows "node_ok (update_node st actor ref now n)"
  using assms
  by (cases "rn_status n"; cases st)
    (auto simp: node_ok_def update_node_def node_is_terminal_def validate_node_transition_def Let_def split: if_splits)

lemma auto_complete_nodes [simp]: "fr_nodes (auto_complete run) = fr_nodes run"
  by (simp add: auto_complete_def)

lemma auto_complete_ok:
  assumes "list_all node_ok (fr_nodes run)" "fr_status run = RunInProgress"
  shows "run_ok (auto_complete run)"
proof -
  have "rn_status n \<in> {NodeDone, NodeSkipped}"
    if "node_is_terminal (rn_status n)" "rn_status n \<noteq> NodeFailed" for n
    using that by (auto simp: node_is_terminal_def)
  then show ?thesis
    using assms by (auto simp: run_ok_def auto_complete_def list_all_iff list_ex_iff)
qed

lemma set_node_Inr:
  "set_node nid st actor ref now run = Inr run' \<longleftrightarrow>
     fr_status run = RunInProgress
     \<and> (\<exists>i. position (\<lambda>n. rn_id n = nid) (fr_nodes run) = Some i
          \<and> validate_node_transition (rn_status (fr_nodes run ! i)) st = Inr ()
          \<and> run' = (auto_complete (run\<lparr>fr_nodes := (fr_nodes run)[i := update_node st actor ref now (fr_nodes run ! i)]\<rparr>))
                \<lparr>fr_updated_at := now\<rparr>)"
  by (cases "fr_status run") (auto simp: set_node_def run_is_terminal_def Let_def split: option.splits)

lemma run_ok_updated [simp]: "run_ok (run\<lparr>fr_updated_at := now\<rparr>) = run_ok run"
  by (cases "fr_status run") (simp_all add: run_ok_def)

lemma set_node_ok:
  assumes "run_ok run" "set_node nid st actor ref now run = Inr run'"
  shows "run_ok run'"
proof -
  from assms(2) obtain i where i: "fr_status run = RunInProgress"
      "position (\<lambda>n. rn_id n = nid) (fr_nodes run) = Some i"
      "validate_node_transition (rn_status (fr_nodes run ! i)) st = Inr ()"
      "run' = (auto_complete (run\<lparr>fr_nodes := (fr_nodes run)[i := update_node st actor ref now (fr_nodes run ! i)]\<rparr>))
         \<lparr>fr_updated_at := now\<rparr>"
    unfolding set_node_Inr by blast
  from assms(1) have ok: "list_all node_ok (fr_nodes run)" by (simp add: run_ok_def)
  with position_Some [OF i(2)] have "node_ok (fr_nodes run ! i)" by (auto simp: list_all_length)
  from update_node_ok [OF this i(3)] ok
  have "list_all node_ok ((fr_nodes run)[i := update_node st actor ref now (fr_nodes run ! i)])"
    by (auto simp: list_all_iff dest!: set_update_subset_insert [THEN subsetD])
  then show ?thesis using i(1,4) auto_complete_ok by simp
qed

lemma run_step_ok: "run_step run run' \<Longrightarrow> run_ok run \<Longrightarrow> run_ok run'"
proof (erule run_stepE)
  fix now assume "cancel_run now run = Inr run'" "run_ok run"
  then show "run_ok run'" by (auto simp: cancel_run_def run_ok_def split: if_splits)
qed (rule set_node_ok)

lemma start_run_ok: "run_ok (start_run template r slug channel author now)"
proof (cases "fm_nodes (fd_meta template)")
  case Nil
  then show ?thesis by (simp add: start_run_def run_ok_def)
next
  case (Cons n ns)
  then show ?thesis
    by (simp add: start_run_def run_ok_def list_all_iff node_ok_def new_run_node_def node_is_terminal_def)
qed

interpretation run_machine: step_invariant run_step run_ok
  by unfold_locales (rule run_step_ok)

lemma run_reachable_ok: "run_reachable run \<Longrightarrow> run_ok run"
  unfolding run_reachable_def by (rule run_machine.started_keeps [where start = run_started]) (auto simp: run_started_def start_run_ok)

lemma run_reachable_start: "run_reachable (start_run template r slug channel author now)"
  unfolding run_reachable_def run_started_def by blast

text \<open>C32: In every run that the handlers can produce, the run's status is determined by its nodes (in
  progress exactly while some node is unfinished, done when all nodes are done or skipped, failed when
  all are finished and one failed, unless it was cancelled), and the times recorded for a node agree
  with its status.\<close>

theorem flow_run_invariant: "run_reachable run \<Longrightarrow> run_ok run"
  by (rule run_reachable_ok)

subsection \<open>Progress\<close>

text \<open>What is left to do: two for a pending node, one for a node in progress.\<close>

fun status_left :: "node_status \<Rightarrow> nat" where
  "status_left NodePending = 2"
| "status_left NodeInProgress = 1"
| "status_left _ = 0"

definition work_left :: "flow_run \<Rightarrow> nat" where
  "work_left run = sum_list (map (\<lambda>n. status_left (rn_status n)) (fr_nodes run))"

lemma transition_left:
  "validate_node_transition st st' = Inr () \<Longrightarrow> st \<noteq> st' \<Longrightarrow> status_left st' < status_left st"
  by (cases st; cases st') (auto simp: validate_node_transition_def)

lemma sum_list_upd_less:
  fixes f :: "'a \<Rightarrow> nat"
  assumes "i < length xs" "f y < f (xs ! i)"
  shows "sum_list (map f (xs[i := y])) < sum_list (map f xs)"
  using assms
proof (induction xs arbitrary: i)
  case (Cons x xs)
  then show ?case by (cases i) auto
qed simp

lemma node_status_at: "i < length ns \<Longrightarrow> rn_status (ns[i := update_node st a r now (ns ! i)] ! j)
    = (if j = i then st else rn_status (ns ! j))"
  by (cases "j = i") auto

lemma step_progress:
  assumes "run_step run run'"
  shows "map rn_id (fr_nodes run') = map rn_id (fr_nodes run)
     \<and> (\<forall>j < length (fr_nodes run). node_is_terminal (rn_status (fr_nodes run ! j)) \<longrightarrow>
          rn_status (fr_nodes run' ! j) = rn_status (fr_nodes run ! j))
     \<and> (map rn_status (fr_nodes run') = map rn_status (fr_nodes run) \<or> work_left run' < work_left run)"
  using assms
proof (cases rule: run_step.cases)
  case (set_node_step nid st actor ref now)
  then obtain i where p: "position (\<lambda>n. rn_id n = nid) (fr_nodes run) = Some i"
      and v: "validate_node_transition (rn_status (fr_nodes run ! i)) st = Inr ()"
      and ns: "fr_nodes run' = (fr_nodes run)[i := update_node st actor ref now (fr_nodes run ! i)]"
    by (auto simp: set_node_Inr)
  have i: "i < length (fr_nodes run)" using position_Some [OF p] by simp
  have ids: "map rn_id (fr_nodes run') = map rn_id (fr_nodes run)"
    using i by (simp add: ns map_update list_update_same_conv)
  have fin: "st = rn_status (fr_nodes run ! i)" if "node_is_terminal (rn_status (fr_nodes run ! i))"
    using v that by (auto simp: validate_node_transition_def node_is_terminal_def split: node_status.splits if_splits)
  have work: "map rn_status (fr_nodes run') = map rn_status (fr_nodes run) \<or> work_left run' < work_left run"
  proof (cases "rn_status (fr_nodes run ! i) = st")
    case True
    then show ?thesis using i by (simp add: ns map_update list_update_same_conv)
  next
    case False
    from transition_left [OF v this] show ?thesis
      using i by (simp add: ns work_left_def sum_list_upd_less)
  qed
  from i have upd: "rn_status (fr_nodes run' ! j) = (if j = i then st else rn_status (fr_nodes run ! j))" for j
    by (simp add: ns node_status_at)
  show ?thesis using ids fin work upd by auto
qed (auto simp: cancel_run_def split: if_splits)

lemma work_left_bound: "work_left run \<le> 2 * length (fr_nodes run)"
proof -
  have "status_left st \<le> 2" for st by (cases st) auto
  then have "(\<Sum>n\<leftarrow>ns. status_left (rn_status n)) \<le> 2 * length ns" for ns :: "flow_run_node list"
  proof (induction ns)
    case (Cons n ns)
    then show ?case using add_mono [of "status_left (rn_status n)" 2] by simp
  qed simp
  then show ?thesis by (simp add: work_left_def)
qed

lemma unfinished_node_accepted:
  assumes "run_ok run" "\<not> run_is_terminal (fr_status run)" "distinct (map rn_id (fr_nodes run))"
  shows "\<exists>nid run'. set_node nid NodeDone actor ref now run = Inr run' \<and> work_left run' < work_left run"
proof -
  have st: "fr_status run = RunInProgress" using assms(2) by (cases "fr_status run") (auto simp: run_is_terminal_def)
  with assms(1) obtain k where k: "k < length (fr_nodes run)" "\<not> node_is_terminal (rn_status (fr_nodes run ! k))"
    by (auto simp: run_ok_def list_ex_length)
  let ?nid = "rn_id (fr_nodes run ! k)"
  obtain i where i: "position (\<lambda>n. rn_id n = ?nid) (fr_nodes run) = Some i"
    using k position_None [of "\<lambda>n. rn_id n = ?nid" "fr_nodes run"] by (cases "position (\<lambda>n. rn_id n = ?nid) (fr_nodes run)") auto
  from position_Some [OF i] k(1) assms(3) have "i = k" by (auto simp: distinct_conv_nth)
  have v: "validate_node_transition (rn_status (fr_nodes run ! k)) NodeDone = Inr ()"
    and ne: "rn_status (fr_nodes run ! k) \<noteq> NodeDone"
    using k(2) by (cases "rn_status (fr_nodes run ! k)"; simp add: node_is_terminal_def validate_node_transition_def)+
  obtain run' where run': "set_node ?nid NodeDone actor ref now run = Inr run'"
    using st i v \<open>i = k\<close> by (auto simp: set_node_Inr)
  then have "fr_nodes run' = (fr_nodes run)[k := update_node NodeDone actor ref now (fr_nodes run ! k)]"
    using i \<open>i = k\<close> by (auto simp: set_node_Inr)
  then have "work_left run' < work_left run"
    using k(1) transition_left [OF v ne] by (simp add: work_left_def sum_list_upd_less)
  with run' show ?thesis by blast
qed


definition demo_run :: flow_run where
  "demo_run = start_run demo_flow (RunId ''20260101T000000-abcdef'') (FlowSlug ''release'') (ChannelName ''general'')
     ''alice'' ''20260101T000000Z''"

theorem flow_run_invariant_witness: "run_ok demo_run \<and> length (fr_nodes demo_run) = 3"
  using flow_run_invariant [OF run_reachable_start [of demo_flow "RunId ''20260101T000000-abcdef''" "FlowSlug ''release''"
      "ChannelName ''general''" "''alice''" "''20260101T000000Z''"]]
  by (simp add: demo_run_def start_run_def demo_flow_def)


end
