(* ===== verification/Flow_Text.thy ===== *)
theory Flow_Text
  imports Flow
begin

text \<open>
  Flow documents as text: what \<^verbatim>\<open>stringify_flow_markdown\<close> writes, \<^verbatim>\<open>parse_flow_markdown\<close> reads back.  The
  YAML library is a pair of functions of which the round trip assumes that reading inverts writing
  (up to the prompts, which are not serialised) and that no line of the frontmatter begins with the
  delimiter.
\<close>

subsection \<open>Trimming\<close>

lemma whitespace_newline [simp]: "is_whitespace [newline]"
  by (simp add: is_whitespace_def whitespace_chars_def)

lemma trim_fixed:
  assumes "trim p = p" "p \<noteq> []"
  shows "\<not> is_whitespace (hd (chars p))" "\<not> is_whitespace (last (chars p))"
proof -
  have t: "trim_chars (chars p) = chars p" "chars p \<noteq> []" using assms chars_trim [of p] by auto
  let ?d = "dropWhile is_whitespace (chars p)"
  have "length (trim_chars (chars p)) \<le> length ?d" unfolding trim_chars_def by (simp add: length_dropWhile_le [of _ "rev ?d", simplified])
  then have "length (chars p) \<le> length ?d" using t by simp
  then have d: "?d = chars p" by (metis dual_order.antisym length_append length_dropWhile_le self_append_conv2
      takeWhile_dropWhile_id length_0_conv add_cancel_right_left)
  then show "\<not> is_whitespace (hd (chars p))" using t(2) hd_dropWhile by metis
  have "dropWhile is_whitespace (rev (chars p)) = rev (chars p)"
    using t(1) unfolding trim_chars_def d by (metis rev_rev_ident)
  then have "\<not> is_whitespace (hd (rev (chars p)))" using t(2) hd_dropWhile [of is_whitespace "rev (chars p)"] by simp
  then show "\<not> is_whitespace (last (chars p))" using t(2) by (simp add: hd_rev)
qed

lemma chars_newlines: "set w \<subseteq> {newline} \<Longrightarrow> chars w = map (\<lambda>c. [c]) w"
  by (intro chars_ascii) (auto simp: byte_class)

lemma drop_newlines:
  "set w \<subseteq> {newline} \<Longrightarrow> dropWhile is_whitespace (map (\<lambda>c. [c]) w @ cs) = dropWhile is_whitespace cs"
  by (induction w) auto

lemma trim_wrap:
  assumes "trim p = p" "p = [] \<or> \<not> is_cont (hd p)" "set v \<subseteq> {newline}" "set w \<subseteq> {newline}"
  shows "trim (v @ p @ w) = p"
proof -
  have nc: "\<not> is_cont newline" by (simp add: byte_class)
  have pw: "chars (p @ w) = chars p @ map (\<lambda>c. [c]) w"
  proof (cases w)
    case (Cons c w')
    then have "\<not> is_cont (hd w)" using assms(4) nc by auto
    then show ?thesis using chars_append [of w p] Cons chars_newlines [OF assms(4)] by simp
  qed simp
  have "chars (v @ p @ w) = map (\<lambda>c. [c]) v @ chars (p @ w)"
  proof (cases "p @ w = []")
    case False
    then have "\<not> is_cont (hd (p @ w))" using assms(2,4) nc by (cases p; cases w) auto
    then show ?thesis using chars_append [OF False] chars_newlines [OF assms(3)] by simp
  qed (use chars_newlines [OF assms(3)] in simp)
  then have front: "dropWhile is_whitespace (chars (v @ p @ w)) = dropWhile is_whitespace (chars p @ map (\<lambda>c. [c]) w)"
    using drop_newlines [OF assms(3)] pw by simp
  have rear: "dropWhile is_whitespace (rev (map (\<lambda>c. [c]) w) @ cs) = dropWhile is_whitespace cs" for cs
    using drop_newlines [of "rev w" cs] assms(4) by (simp add: rev_map)
  show ?thesis
  proof (cases "p = []")
    case True
    then have "dropWhile is_whitespace (chars p @ map (\<lambda>c. [c]) w) = []"
      using drop_newlines [OF assms(4), of "[]"] by simp
    then have "dropWhile is_whitespace (chars (v @ p @ w)) = []" unfolding front .
    then have "trim_chars (chars (v @ p @ w)) = []" unfolding trim_chars_def by (simp only: rev.simps dropWhile.simps)
    then show ?thesis by (simp add: trim_def True)
  next
    case False
    note f = trim_fixed [OF assms(1) False]
    have "dropWhile is_whitespace (chars p @ map (\<lambda>c. [c]) w) = chars p @ map (\<lambda>c. [c]) w"
      using f(1) False by (intro dropWhile_hd) auto
    moreover have "dropWhile is_whitespace (rev (chars p)) = rev (chars p)"
      using f(2) by (intro dropWhile_hd) (simp add: hd_rev)
    ultimately have "trim_chars (chars (v @ p @ w)) = chars p"
      using front rear [of "rev (chars p)"] by (simp add: trim_chars_def)
    then show ?thesis by (simp add: trim_def)
  qed
qed

subsection \<open>Sections\<close>

lemma map_of_btree_insert [simp]: "map_of (btree_insert k v m) = (map_of m)(k \<mapsto> v)"
  by (induction k v m rule: btree_insert.induct) auto

lemma split_sections_text:
  assumes "\<forall>l \<in> set ls. \<not> starts_with ''## '' l"
  shows "split_sections_loop (ls @ rest) sections (Some i) buf =
    split_sections_loop rest sections (Some i) (buf @ concat (map (\<lambda>l. l @ [newline]) ls))"
  using assms
proof (induction ls arbitrary: buf)
  case (Cons l ls)
  have "strip_prefix ''## '' l = None" using Cons.prems by (simp add: starts_with_iff strip_prefix_None)
  then show ?case using Cons by simp
qed simp

text \<open>A node whose prompt survives the round trip: the trimmed prompt has no carriage return, is the
  beginning of a character, and has no line that looks like a section heading.\<close>

definition prompt_ok :: "flow_node \<Rightarrow> bool" where
  "prompt_ok n \<longleftrightarrow> (let p = trim (fn_prompt n) in
     carriage \<notin> set p \<and> (p = [] \<or> \<not> is_cont (hd p)) \<and> list_all (\<lambda>l. \<not> starts_with ''## '' l) (lines p))"

definition node_text :: "flow_node \<Rightarrow> string" where
  "node_text n = (if fn_prompt n \<noteq> [] then trim (fn_prompt n) @ [newline] else [])"

lemma node_text_lines:
  assumes "prompt_ok n"
  shows "\<forall>l \<in> set (lines (node_text n)). \<not> starts_with ''## '' l"
    and "concat (map (\<lambda>l. l @ [newline]) (lines (node_text n))) = node_text n"
proof -
  let ?p = "trim (fn_prompt n)"
  have ok: "carriage \<notin> set ?p" "list_all (\<lambda>l. \<not> starts_with ''## '' l) (lines ?p)"
    using assms by (auto simp: prompt_ok_def Let_def)
  have "lines (?p @ [newline]) = lines ?p \<or> lines (?p @ [newline]) = lines ?p @ [[]]"
  proof (cases "?p = []")
    case True
    then show ?thesis using lines_line [of "[]" "[]"] by simp
  next
    case False
    show ?thesis
    proof (cases "last ?p = newline")
      case True
      then show ?thesis using lines_append [of ?p "[newline]"] lines_line [of "[]" "[]"] by simp
    next
      case nl: False
      have "last ?p \<noteq> carriage" using ok(1) False by (metis last_in_set)
      then show ?thesis using lines_newline [OF False nl] by simp
    qed
  qed
  then show "\<forall>l \<in> set (lines (node_text n)). \<not> starts_with ''## '' l"
    using ok(2) by (auto simp: node_text_def list_all_iff starts_with_iff)
  show "concat (map (\<lambda>l. l @ [newline]) (lines (node_text n))) = node_text n"
    using ok(1) by (intro unlines_lines) (auto simp: node_text_def)
qed

lemma trim_node_text:
  assumes "prompt_ok n" "set w \<subseteq> {newline}"
  shows "trim ([newline] @ node_text n @ w) = trim (fn_prompt n)"
proof (cases "fn_prompt n = []")
  case True
  then show ?thesis using trim_wrap [of "[]" "[newline]" w] assms(2) by (simp add: node_text_def)
next
  case False
  then show ?thesis
    using trim_wrap [of "trim (fn_prompt n)" "[newline]" "newline # w"] assms
    by (simp add: node_text_def prompt_ok_def Let_def)
qed

definition id_ok :: "string \<Rightarrow> bool" where
  "id_ok i \<longleftrightarrow> trim i = i \<and> newline \<notin> set i \<and> carriage \<notin> set i"

lemma lines_node:
  assumes "id_ok (fn_id n)" "prompt_ok n"
  shows "lines (stringify_node n @ s) = [] # (''## '' @ fn_id n) # [] # lines (node_text n) @ lines s"
proof -
  have i: "newline \<notin> set (''## '' @ fn_id n)" "last (''## '' @ fn_id n) \<noteq> carriage"
    using assms(1) by (auto simp: id_ok_def) (metis last_in_set)
  have t: "node_text n = [] \<or> last (node_text n) = newline" by (simp add: node_text_def)
  let ?t = "newline # node_text n @ s"
  have "lines ((''## '' @ fn_id n) @ newline # ?t) = (''## '' @ fn_id n) # lines ?t"
    using lines_line [OF i(1)] i(2) by blast
  moreover have "lines ?t = [] # lines (node_text n) @ lines s"
    using lines_line [of "[]" "node_text n @ s"] lines_append [OF t, of s] by simp
  moreover have "lines (newline # (''## '' @ fn_id n) @ newline # ?t) = [] # lines ((''## '' @ fn_id n) @ newline # ?t)"
    using lines_line [of "[]"] by simp
  moreover have "stringify_node n @ s = newline # (''## '' @ fn_id n) @ newline # ?t"
    by (simp add: stringify_node_def node_text_def)
  ultimately show ?thesis by (simp only:)
qed

lemma strip_heading [simp]: "strip_prefix ''## '' (''## '' @ r) = Some r"
  by simp

lemma strip_empty [simp]: "strip_prefix ''## '' [] = None"
  by simp

text \<open>One section after the other: when the text of the previous node has been collected, the next node
  flushes it.\<close>

lemma split_sections_nodes:
  assumes "\<forall>n \<in> set ns. id_ok (fn_id n) \<and> prompt_ok n" "prompt_ok m"
  shows "\<exists>sections'. split_sections_loop (lines (concat (map stringify_node ns))) sections (Some (fn_id m)) ([newline] @ node_text m)
      = sections'
    \<and> map_of sections' = (map_of sections)(fn_id m \<mapsto> trim (fn_prompt m)) ++ map_of (rev (map (\<lambda>n. (fn_id n, trim (fn_prompt n))) ns))"
  using assms
proof (induction ns arbitrary: m sections)
  case Nil
  then show ?case using trim_node_text [OF Nil(2), of "[]"] by (auto simp: fun_eq_iff)
next
  case (Cons n ns)
  have n: "id_ok (fn_id n)" "prompt_ok n" using Cons.prems(1) by auto
  have tid: "trim (fn_id n) = fn_id n" using n(1) by (simp add: id_ok_def)
  let ?S = "btree_insert (fn_id m) (trim ([newline] @ node_text m @ [newline])) sections"
  have "split_sections_loop (lines (concat (map stringify_node (n # ns)))) sections (Some (fn_id m)) ([newline] @ node_text m)
      = split_sections_loop (lines (node_text n) @ lines (concat (map stringify_node ns))) ?S (Some (fn_id n)) [newline]"
    using lines_node [OF n, of "concat (map stringify_node ns)"] by (simp add: tid del: strip_prefix_Some)
  also have "\<dots> = split_sections_loop (lines (concat (map stringify_node ns))) ?S (Some (fn_id n)) ([newline] @ node_text n)"
    using split_sections_text [OF node_text_lines(1) [OF n(2)]] node_text_lines(2) [OF n(2)] by simp
  finally show ?case
    using Cons.IH [of n ?S] Cons.prems n trim_node_text [OF Cons.prems(2), of "[newline]"]
    by (auto simp: map_add_def fun_eq_iff split: option.splits)
qed

lemma split_body_sections_nodes:
  assumes "\<forall>n \<in> set ns. id_ok (fn_id n) \<and> prompt_ok n"
  shows "map_of (split_body_sections ([newline] @ concat (map stringify_node ns)))
    = map_of (rev (map (\<lambda>n. (fn_id n, trim (fn_prompt n))) ns))"
proof (cases ns)
  case Nil
  then show ?thesis using lines_line [of "[]" "[]"] by (simp add: split_body_sections_def)
next
  case (Cons n ns')
  have n: "id_ok (fn_id n)" "prompt_ok n" "\<forall>n \<in> set ns'. id_ok (fn_id n) \<and> prompt_ok n"
    using assms Cons by auto
  have tid: "trim (fn_id n) = fn_id n" using n(1) by (simp add: id_ok_def)
  have "split_body_sections ([newline] @ concat (map stringify_node ns))
    = split_sections_loop (lines (node_text n) @ lines (concat (map stringify_node ns'))) [] (Some (fn_id n)) [newline]"
    unfolding split_body_sections_def Cons
    using lines_node [OF n(1,2), of "concat (map stringify_node ns')"]
      lines_line [of "[]" "concat (map stringify_node (n # ns'))"]
    by (simp add: tid del: strip_prefix_Some)
  also have "\<dots> = split_sections_loop (lines (concat (map stringify_node ns'))) [] (Some (fn_id n)) ([newline] @ node_text n)"
    using split_sections_text [OF node_text_lines(1) [OF n(2)]] node_text_lines(2) [OF n(2)] by simp
  finally show ?thesis
    using split_sections_nodes [OF n(3,2), of "[]"] by (auto simp: Cons map_add_def fun_eq_iff split: option.splits)
qed

subsection \<open>The frontmatter\<close>

lemma take_split: "j \<le> n \<Longrightarrow> take n s = take j s @ take (n - j) (drop j s)"
  by (metis le_add_diff_inverse take_add)

lemma find_close:
  assumes "\<not> contains_str (newline # ''---'') (newline # fm)"
  shows "find_str (newline # ''---'') (newline # fm @ newline # ''---'' @ rest) = Some (Suc (length fm))"
proof (rule find_strI)
  let ?s = "newline # fm @ newline # ''---'' @ rest"
  show "prefix (newline # ''---'') (drop (Suc (length fm)) ?s)" by simp
  show "Suc (length fm) \<le> length ?s" by simp
  fix j assume j: "j < Suc (length fm)"
  show "\<not> prefix (newline # ''---'') (drop j ?s)"
  proof
    assume "prefix (newline # ''---'') (drop j ?s)"
    then obtain r where r: "drop j ?s = (newline # ''---'') @ r" by (auto simp: prefix_def)
    have dash: "?s ! (j + k) = CHR ''-''" if "k \<in> {1, 2, 3}" for k
    proof -
      have "?s ! (j + k) = drop j ?s ! k" using j by simp
      then show ?thesis using r that by auto
    qed
    have nl: "?s ! Suc (length fm) = newline" by (simp add: nth_append)
    have "j + 3 < Suc (length fm)"
    proof (rule ccontr)
      assume "\<not> j + 3 < Suc (length fm)"
      then have k: "Suc (length fm) - j \<in> {1, 2, 3}" "j + (Suc (length fm) - j) = Suc (length fm)" using j by auto
      have "newline = CHR ''-''" using dash [OF k(1)] unfolding k(2) nl .
      then show False by simp
    qed
    then have four: "Suc (length fm) - j = 4 + (Suc (length fm) - j - 4)" by simp
    have "newline # fm = take (Suc (length fm)) ?s" by simp
    also have "\<dots> = take j ?s @ take (Suc (length fm) - j) (drop j ?s)" using j by (intro take_split) simp
    also have "take (Suc (length fm) - j) (drop j ?s) = (newline # ''---'') @ take (Suc (length fm) - j - 4) r"
      unfolding r by (subst four) (simp add: numeral_eq_Suc)
    finally have "newline # fm = take j ?s @ (newline # ''---'') @ take (Suc (length fm) - j - 4) r" .
    then have "contains_str (newline # ''---'') (newline # fm)" unfolding contains_str_iff by blast
    then show False using assms by blast
  qed
qed

text \<open>The prompts are not part of the frontmatter: reading it gives them empty.\<close>

definition strip_prompts :: "flow_meta \<Rightarrow> flow_meta" where
  "strip_prompts meta = meta\<lparr>fm_nodes := map (\<lambda>n. n\<lparr>fn_prompt := []\<rparr>) (fm_nodes meta)\<rparr>"

definition trim_prompts :: "flow_document \<Rightarrow> flow_document" where
  "trim_prompts doc = \<lparr>fd_meta = (fd_meta doc)\<lparr>fm_nodes :=
     map (\<lambda>n. n\<lparr>fn_prompt := trim (fn_prompt n)\<rparr>) (fm_nodes (fd_meta doc))\<rparr>\<rparr>"

lemma attach_prompts:
  assumes "distinct (map fn_id ns)" "map_of S = map_of (rev (map (\<lambda>n. (fn_id n, trim (fn_prompt n))) ns))"
  shows "map (attach_prompt S) (map (\<lambda>n. n\<lparr>fn_prompt := []\<rparr>) ns) = map (\<lambda>n. n\<lparr>fn_prompt := trim (fn_prompt n)\<rparr>) ns"
    and "n \<in> set ns \<Longrightarrow> map_of S (fn_id n) = Some (trim (fn_prompt n))"
proof -
  have at: "map_of S (fn_id n) = Some (trim (fn_prompt n))" if "n \<in> set ns" for n
  proof -
    let ?m = "rev (map (\<lambda>n. (fn_id n, trim (fn_prompt n))) ns)"
    have "distinct (map fst ?m)" using assms(1) by (simp add: rev_map comp_def distinct_map)
    then show ?thesis unfolding assms(2) using that by (intro map_of_is_SomeI) auto
  qed
  then show "n \<in> set ns \<Longrightarrow> map_of S (fn_id n) = Some (trim (fn_prompt n))" .
  show "map (attach_prompt S) (map (\<lambda>n. n\<lparr>fn_prompt := []\<rparr>) ns) = map (\<lambda>n. n\<lparr>fn_prompt := trim (fn_prompt n)\<rparr>) ns"
    using at by (auto simp: attach_prompt_def)
qed

lemma parse_written:
  assumes "yaml_read (trim ([newline] @ trim_end w)) = Some meta" "fm_schema_version meta = 1"
    and "\<not> contains_str ([newline] @ ''---'') ([newline] @ trim_end w)" and S: "S = split_body_sections ([newline] @ body)"
  shows "parse_flow_markdown_with_warnings yaml_read
      (''---'' @ [newline] @ trim_end w @ [newline] @ ''---'' @ [newline] @ body) =
    Inr (\<lparr>fd_meta = meta\<lparr>fm_nodes := map (attach_prompt S) (fm_nodes meta)\<rparr>\<rparr>,
      map BodySectionMissing (filter (\<lambda>i. map_of S i = None) (map fn_id (fm_nodes meta)))
      @ map OrphanBodySection (filter (\<lambda>i. i \<notin> set (map fn_id (fm_nodes meta))) (map fst S)))"
proof -
  let ?fm = "trim_end w" and ?body = "[newline] @ body"
  let ?open = "newline # ?fm @ newline # ''---'' @ ?body"
  let ?text = "''---'' @ ?open"
  have nb: "trim_start_str bom ?text = ?text" by (subst trim_start_str.simps) (simp add: bom_def)
  have pos: "find_str ([newline] @ frontmatter_delim) ?open = Some (Suc (length ?fm))"
    using find_close [of ?fm ?body] assms(3) by (simp add: frontmatter_delim_def)
  have pieces: "starts_with frontmatter_delim ?text" "drop (length frontmatter_delim) ?text = ?open"
    "take (Suc (length ?fm)) ?open = [newline] @ ?fm"
    "drop (Suc (length ?fm) + 1 + length frontmatter_delim) ?open = ?body"
    by (simp_all add: frontmatter_delim_def starts_with_iff)
  have "parse_flow_markdown_with_warnings yaml_read ?text =
    Inr (\<lparr>fd_meta = meta\<lparr>fm_nodes := map (attach_prompt S) (fm_nodes meta)\<rparr>\<rparr>,
      map BodySectionMissing (filter (\<lambda>i. map_of S i = None) (map fn_id (fm_nodes meta)))
      @ map OrphanBodySection (filter (\<lambda>i. i \<notin> set (map fn_id (fm_nodes meta))) (map fst S)))"
    unfolding parse_flow_markdown_with_warnings_def Let_def nb pieces pos ok_or_Some andThen.simps assms(1,2) S
    by (simp add: pieces(1) del: append_Cons)
  then show ?thesis by simp
qed



end
