(* ===== verification/Sync.thy ===== *)
theory Sync
  imports Validators "HOL-Library.Option_ord"
begin

text \<open>
  Reconciling local and remote history (\<^verbatim>\<open>crates/gitim-sync/src/renumber.rs\<close> and \<^verbatim>\<open>conflict.rs\<close>): local
  additions to a thread are renumbered behind the remote entries, channel metadata is merged, and two
  versions of a quick session are merged.  A path is the list of its components, which is how
  \<^verbatim>\<open>PathBuf\<close> compares; a \<^verbatim>\<open>HashMap\<close> is an association list, of which only lookups and the set of keys
  are used.
\<close>

type_synonym path = "string list"

subsection \<open>Renumbering (renumber.rs)\<close>

fun line_map_loop :: "nat \<Rightarrow> nat \<Rightarrow> thread_entry list \<Rightarrow> (nat \<rightharpoonup> nat) \<Rightarrow> (nat \<rightharpoonup> nat)" where
  "line_map_loop max_existing i [] line_map = line_map"
| "line_map_loop max_existing i (entry # rest) line_map =
     line_map_loop max_existing (i + 1) rest
       (line_map(entry_line_number entry \<mapsto> u64_add (u64_add max_existing 1) i))"

definition line_map_of :: "nat \<Rightarrow> thread_entry list \<Rightarrow> nat \<rightharpoonup> nat" where
  "line_map_of max_existing es = line_map_loop max_existing 0 es Map.empty"

fun renumber_entry :: "ext \<Rightarrow> (nat \<rightharpoonup> nat) \<Rightarrow> nat list \<Rightarrow> thread_entry \<Rightarrow> string" where
  "renumber_entry E line_map batch_line_numbers (EMessage msg) =
     (let new_ln = the (line_map (msg_line_number msg));
          new_pt = (if msg_point_to msg = 0 then 0
                    else if msg_point_to msg \<in> set batch_line_numbers then the (line_map (msg_point_to msg))
                    else msg_point_to msg)
      in format_message E new_ln new_pt (msg_author msg) (msg_timestamp msg) (msg_body msg))"
| "renumber_entry E line_map batch_line_numbers (EEvent ev) =
     (let new_ln = the (line_map (ev_line_number ev))
      in format_event E new_ln (ev_author ev) (ev_timestamp ev) (ev_event_type ev) (ev_meta ev))"

definition renumber_batch :: "ext \<Rightarrow> string \<Rightarrow> nat \<Rightarrow> parse_error + string" where
  "renumber_batch E batch max_existing =
     andThen (parse_thread E batch) (\<lambda>f.
       let line_map = line_map_of max_existing (entries f);
           batch_line_numbers = map entry_line_number (entries f)
       in Inr (concat (map (renumber_entry E line_map batch_line_numbers) (entries f))))"

subsection \<open>Thread conflicts (conflict.rs)\<close>

text \<open>The text of a \<^verbatim>\<open>ConflictError::QuickSession\<close> is either one of the fixed texts or the rendering of a
  session error, which is kept as the error itself.\<close>

datatype conflict_error =
    ConflictRenumber parse_error
  | ConflictParse parse_error
  | ConflictSession string
  | ConflictInvalidSession quick_session_error

record renumber_mapping =
  rm_file :: path
  rm_old_line :: nat
  rm_new_line :: nat

record resolved_file =
  rf_path :: path
  rf_content :: string

definition max_line :: "thread_entry list \<Rightarrow> nat" where
  "max_line es = foldr max (map entry_line_number es) 0"

definition resolve_file ::
  "ext \<Rightarrow> path \<Rightarrow> string \<Rightarrow> string \<Rightarrow> conflict_error + resolved_file \<times> renumber_mapping list" where
  "resolve_file E rel_path local_content remote_content =
     andThen (if remote_content = [] then Inr 0
              else andThen (map_err ConflictParse (parse_thread E remote_content)) (\<lambda>f. Inr (max_line (entries f)))) (\<lambda>max_line.
     andThen (map_err ConflictParse (parse_thread E local_content)) (\<lambda>local_file.
     andThen (map_err ConflictRenumber (renumber_batch E local_content max_line)) (\<lambda>renumbered.
     andThen (map_err ConflictParse (parse_thread E renumbered)) (\<lambda>renumbered_file.
       let mappings = map (\<lambda>(old_ln, new_ln). \<lparr>rm_file = rel_path, rm_old_line = old_ln, rm_new_line = new_ln\<rparr>)
             (zip (map entry_line_number (entries local_file)) (map entry_line_number (entries renumbered_file)));
           base = (if remote_content \<noteq> [] \<and> \<not> ends_with [newline] remote_content
                   then remote_content @ [newline] else remote_content)
       in Inr (\<lparr>rf_path = rel_path, rf_content = base @ renumbered\<rparr>, mappings)))))"

fun resolve_loop ::
  "ext \<Rightarrow> (path \<times> string) list \<Rightarrow> (path \<times> string) list \<Rightarrow> path list \<Rightarrow>
   conflict_error + resolved_file list \<times> renumber_mapping list" where
  "resolve_loop E local_additions remote_contents [] = Inr ([], [])"
| "resolve_loop E local_additions remote_contents (rel_path # rest) =
     andThen (resolve_file E rel_path (the (map_of local_additions rel_path))
                (case map_of remote_contents rel_path of Some s \<Rightarrow> s | None \<Rightarrow> [])) (\<lambda>(file, ms).
     andThen (resolve_loop E local_additions remote_contents rest) (\<lambda>(files, mappings).
       Inr (file # files, ms @ mappings)))"

definition resolve_content_pure ::
  "ext \<Rightarrow> (path \<times> string) list \<Rightarrow> (path \<times> string) list \<Rightarrow>
   conflict_error + resolved_file list \<times> renumber_mapping list" where
  "resolve_content_pure E local_additions remote_contents =
     resolve_loop E local_additions remote_contents (sort (remdups (map fst local_additions)))"

subsection \<open>The commit message of a rebase\<close>

definition file_stem :: "path \<Rightarrow> string option" where
  "file_stem p =
     (if p = [] \<or> last p = ''..'' then None
      else let name = last p; ext = takeWhile (\<lambda>c. c \<noteq> CHR ''.'') (rev name);
               stem = rev (drop (Suc (length ext)) (rev name))
           in if CHR ''.'' \<notin> set name \<or> stem = [] then Some name else Some stem)"

definition group_by :: "('k \<times> 'v) list \<Rightarrow> ('k::linorder \<times> 'v list) list" where
  "group_by kvs = map (\<lambda>k. (k, map snd (filter (\<lambda>kv. fst kv = k) kvs))) (sort (remdups (map fst kvs)))"

definition rebase_entries ::
  "ext \<Rightarrow> (path \<times> string) list \<Rightarrow> path \<times> nat list \<Rightarrow> (string \<times> string \<times> nat list) list" where
  "rebase_entries E local_additions file_lines =
     (let (file, new_lines) = file_lines;
          channel = (case file_stem file of Some s \<Rightarrow> s | None \<Rightarrow> ''unknown'')
      in case map_of local_additions file of
           None \<Rightarrow> []
         | Some content \<Rightarrow>
             (case parse_thread E content of
                Inr parsed \<Rightarrow>
                  map (\<lambda>(author, lines). (author, channel, lines))
                    (group_by (zip (map (\<lambda>e. as_str (entry_author e)) (entries parsed)) new_lines))
              | Inl _ \<Rightarrow> [(''unknown'', channel, new_lines)]))"

fun join_with :: "string \<Rightarrow> string list \<Rightarrow> string" where
  "join_with sep [] = []"
| "join_with sep [s] = s"
| "join_with sep (s # t # ss) = s @ sep @ join_with sep (t # ss)"

definition build_rebase_commit_msg ::
  "ext \<Rightarrow> renumber_mapping list \<Rightarrow> (path \<times> string) list \<Rightarrow> string" where
  "build_rebase_commit_msg E mappings local_additions =
     (let by_file = group_by (map (\<lambda>m. (rm_file m, rm_new_line m)) mappings);
          es = concat (map (rebase_entries E local_additions) by_file)
      in if es = [] then ''msg: sync after rebase''
         else join_with [newline] (map (\<lambda>(author, channel, lines).
                ''msg: @'' @ author @ '' -> '' @ channel @ '' ''
                @ join_with '' '' (map (\<lambda>l. ''L'' @ pad0 6 (show_nat l)) lines) @ ''(rebased)'') es))"

subsection \<open>Channel metadata\<close>

fun push_missing :: "string list \<Rightarrow> string list \<Rightarrow> string list" where
  "push_missing members [] = members"
| "push_missing members (m # ms) = push_missing (if m \<notin> set members then members @ [m] else members) ms"

definition merge_channel_meta :: "channel_meta \<Rightarrow> channel_meta \<Rightarrow> channel_meta" where
  "merge_channel_meta local remote =
     \<lparr>cm_display_name = cm_display_name remote, cm_created_by = cm_created_by remote,
      cm_created_at = cm_created_at remote, cm_introduction = cm_introduction remote,
      cm_members = sort (push_missing (cm_members remote) (cm_members local)),
      cm_project = cm_project remote\<rparr>"

subsection \<open>Quick sessions\<close>

definition translate_local :: "renumber_mapping list \<Rightarrow> path \<Rightarrow> nat \<Rightarrow> nat" where
  "translate_local mappings thread_path line =
     (case find (\<lambda>m. rm_file m = thread_path \<and> rm_old_line m = line) mappings of
        Some m \<Rightarrow> rm_new_line m | None \<Rightarrow> line)"

definition merge_title :: "quick_session_meta \<Rightarrow> quick_session_meta \<Rightarrow> conflict_error + string option" where
  "merge_title local remote =
     (case (qs_title local, qs_title remote) of
        (Some l, Some r) \<Rightarrow> if l \<noteq> r then Inl (ConflictSession ''concurrent titles differ'') else Inr (Some l)
      | (Some l, None) \<Rightarrow> Inr (Some l)
      | (None, Some r) \<Rightarrow> Inr (Some r)
      | (None, None) \<Rightarrow> Inr None)"

definition human_lines :: "string \<Rightarrow> thread_entry list \<Rightarrow> nat list" where
  "human_lines created_by es =
     List.map_filter (\<lambda>e. case e of
        EMessage m \<Rightarrow> if as_str (msg_author m) = created_by then Some (msg_line_number m) else None
      | EEvent _ \<Rightarrow> None) es"

definition newest_human_line :: "string \<Rightarrow> thread_entry list \<Rightarrow> nat option" where
  "newest_human_line created_by es =
     (let ls = human_lines created_by es in if ls = [] then None else Some (foldr max ls 0))"

fun final_preview :: "thread_entry list \<Rightarrow> string" where
  "final_preview [] = []"
| "final_preview (EMessage m # rest) = truncate_quick_session_preview (msg_body m)"
| "final_preview (EEvent _ # rest) = final_preview rest"

text \<open>The request id of the newest human line and the time it was written.\<close>

definition merge_human ::
  "quick_session_meta \<Rightarrow> quick_session_meta \<Rightarrow> nat option \<Rightarrow> nat option \<Rightarrow> string option \<times> string option" where
  "merge_human local remote local_human_line newest =
     (case (local_human_line, qs_last_human_line remote) of
        (Some l, Some r) \<Rightarrow>
          if l > r then (qs_last_human_request_id local, Some (qs_updated_at local))
          else (qs_last_human_request_id remote, Some (qs_updated_at remote))
      | (Some l, None) \<Rightarrow>
          if Some l = newest then (qs_last_human_request_id local, Some (qs_updated_at local))
          else (None, None)
      | (None, Some r) \<Rightarrow> (qs_last_human_request_id remote, Some (qs_updated_at remote))
      | (None, None) \<Rightarrow> (None, None))"

record failure =
  fl_attempt :: string
  fl_error :: string
  fl_updated_at :: string
  fl_seen :: "nat option"

definition failure_of :: "quick_session_meta \<Rightarrow> nat option \<Rightarrow> failure option" where
  "failure_of m human_line =
     (case (qs_last_failed_attempt_id m, qs_error m) of
        (Some a, Some e) \<Rightarrow>
          Some \<lparr>fl_attempt = a, fl_error = e, fl_updated_at = qs_updated_at m, fl_seen = human_line\<rparr>
      | _ \<Rightarrow> None)"

definition merge_failure :: "failure option \<Rightarrow> failure option \<Rightarrow> string option \<Rightarrow> failure option" where
  "merge_failure lf rf human_updated_at =
     (let f = (case (lf, rf) of
                 (Some l, Some r) \<Rightarrow> Some (if fl_updated_at l \<ge> fl_updated_at r then l else r)
               | (Some l, None) \<Rightarrow> Some l
               | (None, Some r) \<Rightarrow> Some r
               | (None, None) \<Rightarrow> None)
      in case f of
           None \<Rightarrow> None
         | Some x \<Rightarrow> if (case human_updated_at of None \<Rightarrow> True | Some h \<Rightarrow> fl_updated_at x \<ge> h)
                     then Some x else None)"

record completion =
  cp_attempt :: string
  cp_input :: nat
  cp_output :: nat

definition completion_of :: "quick_session_meta \<Rightarrow> (nat \<Rightarrow> nat) \<Rightarrow> completion option" where
  "completion_of m translate =
     (case (qs_last_completed_attempt_id m, qs_last_completed_input_line m, qs_last_completed_line m) of
        (Some a, Some i, Some out) \<Rightarrow> Some \<lparr>cp_attempt = a, cp_input = translate i, cp_output = translate out\<rparr>
      | _ \<Rightarrow> None)"

definition merge_completion :: "completion option \<Rightarrow> completion option \<Rightarrow> conflict_error + completion option" where
  "merge_completion lc rc =
     (case (lc, rc) of
        (Some l, Some r) \<Rightarrow>
          if cp_attempt l \<noteq> cp_attempt r \<and> cp_input l = cp_input r
          then Inl (ConflictSession ''different attempts completed the same input'')
          else Inr (Some (if cp_input l > cp_input r \<or> cp_input l = cp_input r \<and> cp_output l \<ge> cp_output r
                          then l else r))
      | (Some l, None) \<Rightarrow> Inr (Some l)
      | (None, Some r) \<Rightarrow> Inr (Some r)
      | (None, None) \<Rightarrow> Inr None)"

record run_claim =
  rc_attempt :: string
  rc_input :: nat
  rc_started :: string

definition claim_of ::
  "string \<Rightarrow> bool \<Rightarrow> quick_session_meta \<Rightarrow> (nat \<Rightarrow> nat) \<Rightarrow> conflict_error + run_claim option" where
  "claim_of side archive_wins m translate =
     (if \<not> archive_wins \<and> qs_status m = Running then
        (let incomplete = ConflictSession (side @ '' running claim is incomplete'') in
         andThen (ok_or incomplete (qs_attempt_id m)) (\<lambda>a.
         andThen (ok_or incomplete (qs_processing_input_line m)) (\<lambda>i.
         andThen (ok_or incomplete (qs_processing_started_at m)) (\<lambda>s.
           Inr (Some \<lparr>rc_attempt = a, rc_input = translate i, rc_started = s\<rparr>)))))
      else Inr None)"

definition claim_completed :: "completion option \<Rightarrow> failure option \<Rightarrow> run_claim \<Rightarrow> bool" where
  "claim_completed completion failure c \<longleftrightarrow>
     (case completion of Some d \<Rightarrow> cp_attempt d = rc_attempt c \<and> cp_input d = rc_input c | None \<Rightarrow> False)
     \<or> (case failure of Some f \<Rightarrow> fl_attempt f = rc_attempt c | None \<Rightarrow> False)"

definition drop_completed :: "completion option \<Rightarrow> failure option \<Rightarrow> run_claim option \<Rightarrow> run_claim option" where
  "drop_completed completion failure c =
     (case c of Some x \<Rightarrow> if claim_completed completion failure x then None else Some x | None \<Rightarrow> None)"

definition merge_claim :: "run_claim option \<Rightarrow> run_claim option \<Rightarrow> conflict_error + run_claim option" where
  "merge_claim lc rc =
     (case (lc, rc) of
        (Some l, Some r) \<Rightarrow>
          if rc_attempt l \<noteq> rc_attempt r \<or> rc_input l \<noteq> rc_input r
          then Inl (ConflictSession ''concurrent running claims differ'')
          else Inr (Some (if rc_started l \<ge> rc_started r then l else r))
      | (Some l, None) \<Rightarrow> Inr (Some l)
      | (None, Some r) \<Rightarrow> Inr (Some r)
      | (None, None) \<Rightarrow> Inr None)"

definition merge_summary :: "quick_session_meta \<Rightarrow> quick_session_meta \<Rightarrow> string option \<times> string option" where
  "merge_summary local remote =
     (case (qs_summary_updated_at local, qs_summary_updated_at remote) of
        (Some l, Some r) \<Rightarrow>
          if l > r then (qs_summary local, qs_summary_updated_at local)
          else (qs_summary remote, qs_summary_updated_at remote)
      | (Some _, None) \<Rightarrow> (qs_summary local, qs_summary_updated_at local)
      | _ \<Rightarrow> (qs_summary remote, qs_summary_updated_at remote))"

definition stable_status ::
  "run_claim option \<Rightarrow> failure option \<Rightarrow> nat option \<Rightarrow> string option \<Rightarrow> quick_session_status" where
  "stable_status cl failure newest title =
     (if cl \<noteq> None then Running
      else if (case failure of None \<Rightarrow> False
               | Some f \<Rightarrow> (case newest of None \<Rightarrow> True
                   | Some n \<Rightarrow> (case fl_seen f of None \<Rightarrow> True | Some seen \<Rightarrow> n \<le> seen)))
      then SessionError
      else if title \<noteq> None then Active else NeedsTitle)"

definition checked_add1 :: "nat \<Rightarrow> nat option" where
  "checked_add1 n = (if n < u64_max then Some (n + 1) else None)"

definition merged_session ::
  "quick_session_meta \<Rightarrow> quick_session_meta \<Rightarrow> bool \<Rightarrow> string option \<Rightarrow> thread_entry list \<Rightarrow> nat option \<Rightarrow>
   string option \<Rightarrow> failure option \<Rightarrow> completion option \<Rightarrow> run_claim option \<Rightarrow> nat \<Rightarrow> quick_session_meta" where
  "merged_session local remote archive_wins title es newest request_id failure completion cl revision =
     (let stable = stable_status cl failure newest title;
          (summary, summary_updated_at) = merge_summary local remote
      in \<lparr>qs_id = qs_id local, qs_title = title, qs_agent_id = qs_agent_id local,
          qs_created_by = qs_created_by local,
          qs_status = (if archive_wins then Archived else stable),
          qs_created_at = qs_created_at local,
          qs_updated_at = max (qs_updated_at local) (qs_updated_at remote),
          qs_archived_at = (if archive_wins then max (qs_archived_at local) (qs_archived_at remote) else None),
          qs_archived_from = (if archive_wins then Some stable else None),
          qs_summary = summary, qs_summary_updated_at = summary_updated_at,
          qs_last_message_preview = final_preview (rev es),
          qs_error = map_option fl_error failure,
          qs_processing_input_line = map_option rc_input cl,
          qs_processing_started_at = map_option rc_started cl,
          qs_attempt_id = map_option rc_attempt cl,
          qs_last_completed_attempt_id = map_option cp_attempt completion,
          qs_last_completed_input_line = map_option cp_input completion,
          qs_last_completed_line = map_option cp_output completion,
          qs_last_failed_attempt_id = map_option fl_attempt failure,
          qs_last_human_request_id = request_id, qs_last_human_line = newest,
          qs_revision = revision\<rparr>)"

definition same_session :: "quick_session_meta \<Rightarrow> quick_session_meta \<Rightarrow> bool" where
  "same_session local remote \<longleftrightarrow>
     qs_id local = qs_id remote \<and> qs_agent_id local = qs_agent_id remote
     \<and> qs_created_by local = qs_created_by remote \<and> qs_created_at local = qs_created_at remote"

definition merge_quick_session_meta ::
  "ext \<Rightarrow> quick_session_meta \<Rightarrow> quick_session_meta \<Rightarrow> string \<Rightarrow> renumber_mapping list \<Rightarrow> path \<Rightarrow>
   conflict_error + quick_session_meta" where
  "merge_quick_session_meta E local remote merged_thread mappings thread_path =
     andThen (map_err ConflictInvalidSession (validate_quick_session_meta local)) (\<lambda>_.
     andThen (map_err ConflictInvalidSession (validate_quick_session_meta remote)) (\<lambda>_.
     andThen (fail_if (\<not> same_session local remote) (ConflictSession ''immutable metadata differs'')) (\<lambda>_.
     let archive_wins = (qs_status local = Archived \<or> qs_status remote = Archived);
         translate = translate_local mappings thread_path in
     andThen (merge_title local remote) (\<lambda>title.
     andThen (map_err ConflictParse (parse_thread E merged_thread)) (\<lambda>parsed.
     let newest = newest_human_line (qs_created_by local) (entries parsed);
         local_human_line = map_option translate (qs_last_human_line local);
         human = merge_human local remote local_human_line newest;
         failure = merge_failure (failure_of local local_human_line)
           (failure_of remote (qs_last_human_line remote)) (snd human) in
     andThen (merge_completion (completion_of local translate) (completion_of remote (\<lambda>l. l))) (\<lambda>completion.
     andThen (fail_if (completion \<noteq> None \<and> failure \<noteq> None
                \<and> map_option fl_attempt failure = map_option cp_attempt completion)
              (ConflictSession ''the same attempt both completed and failed'')) (\<lambda>_.
     andThen (claim_of ''local'' archive_wins local translate) (\<lambda>local_claim.
     andThen (claim_of ''remote'' archive_wins remote (\<lambda>l. l)) (\<lambda>remote_claim.
     andThen (merge_claim (drop_completed completion failure local_claim)
                (drop_completed completion failure remote_claim)) (\<lambda>cl.
     andThen (fail_if (cl \<noteq> None \<and> failure \<noteq> None
                \<and> map_option fl_attempt failure \<noteq> map_option rc_attempt cl)
              (ConflictSession ''a running claim conflicts with a failed attempt'')) (\<lambda>_.
     andThen (ok_or (ConflictSession ''revision overflow'') (checked_add1 (max (qs_revision local) (qs_revision remote)))) (\<lambda>revision.
     let merged = merged_session local remote archive_wins title (entries parsed) newest (fst human)
           failure completion cl revision in
     andThen (map_err ConflictInvalidSession (validate_quick_session_meta merged)) (\<lambda>_.
       Inr merged)))))))))))))"

subsection \<open>Channel members\<close>

lemma push_missing_set: "set (push_missing members ms) = set members \<union> set ms"
  by (induction ms arbitrary: members) auto

lemma push_missing_distinct: "distinct members \<Longrightarrow> distinct (push_missing members ms)"
  by (induction ms arbitrary: members) auto

text \<open>Merging channel metadata keeps every member of either side and invents none, in sorted order
  and without duplicates when the remote list has none; so when both sides have no duplicates, which side is
  called remote does not matter for the member list, and merging again changes nothing.\<close>

theorem merge_channel_members:
  "set (cm_members (merge_channel_meta local remote)) = set (cm_members local) \<union> set (cm_members remote)
   \<and> sorted (cm_members (merge_channel_meta local remote))
   \<and> (distinct (cm_members remote) \<longrightarrow> distinct (cm_members (merge_channel_meta local remote)))
   \<and> (distinct (cm_members remote) \<longrightarrow> distinct (cm_members local) \<longrightarrow>
        cm_members (merge_channel_meta local remote) = cm_members (merge_channel_meta remote local))
   \<and> (distinct (cm_members remote) \<longrightarrow>
        merge_channel_meta local (merge_channel_meta local remote) = merge_channel_meta local remote)"
proof -
  let ?m = "\<lambda>l r. cm_members (merge_channel_meta l r)"
  have s: "set (?m l r) = set (cm_members l) \<union> set (cm_members r)" for l r :: channel_meta
    by (auto simp: merge_channel_meta_def push_missing_set)
  have o: "sorted (?m l r)" for l r :: channel_meta by (simp add: merge_channel_meta_def)
  have d: "distinct (?m l r)" if "distinct (cm_members r)" for l r :: channel_meta
    using that by (simp add: merge_channel_meta_def push_missing_distinct)
  have eq: "?m local remote = ?m remote local" if "distinct (cm_members remote)" "distinct (cm_members local)"
    using s o d that by (intro sorted_distinct_set_unique) auto
  have again: "?m local (merge_channel_meta local remote) = ?m local remote" if "distinct (cm_members remote)"
    using s o d that by (intro sorted_distinct_set_unique) auto
  have "merge_channel_meta local (merge_channel_meta local remote) = merge_channel_meta local remote"
    if "distinct (cm_members remote)"
    using again [OF that] by (simp add: merge_channel_meta_def)
  then show ?thesis using s o d eq by auto
qed

theorem merge_channel_members_witness:
  "let a = \<lparr>cm_display_name = ''a'', cm_created_by = ''a'', cm_created_at = ''t'', cm_introduction = ''i'',
       cm_members = [''bob'', ''alice''], cm_project = None\<rparr>;
       b = a\<lparr>cm_members := [''carol'', ''bob'']\<rparr>
   in cm_members (merge_channel_meta a b) = cm_members (merge_channel_meta b a)"
  using merge_channel_members
  by (auto simp: Let_def)

subsection \<open>Merged sessions\<close>

lemma checked_add1_Some: "checked_add1 n = Some r \<longleftrightarrow> n < u64_max \<and> r = n + 1"
  by (auto simp: checked_add1_def)

lemma unit_ex: "(\<exists>u. P u) \<longleftrightarrow> P ()"
  by auto

lemma completion_of_valid:
  assumes "qs_valid m" "qs_last_completed_input_line m = Some i"
  shows "\<exists>c. completion_of m t = Some c \<and> cp_input c = t i"
proof -
  have "validate_completion m = Inr ()" using assms(1) by (simp add: qs_valid_iff)
  then show ?thesis using assms(2) by (auto simp: validate_completion_Inr completion_of_def)
qed

lemma merge_completion_upper:
  assumes "merge_completion lc rc = Inr c"
  shows "lc = Some l \<Longrightarrow> \<exists>d. c = Some d \<and> cp_input l \<le> cp_input d"
    and "rc = Some r \<Longrightarrow> \<exists>d. c = Some d \<and> cp_input r \<le> cp_input d"
  using assms by (auto simp: merge_completion_def split: option.splits if_splits)

lemma claim_of_archived: "claim_of side True m t = Inr c \<Longrightarrow> c = None"
  by (simp add: claim_of_def)

lemma merge_claim_None: "merge_claim None None = Inr None"
  by (simp add: merge_claim_def)

lemma drop_completed_None [simp]: "drop_completed d f None = None"
  by (simp add: drop_completed_def)

lemma merge_title_keeps:
  "merge_title l r = Inr t \<Longrightarrow> (qs_title l = Some x \<or> qs_title r = Some x) \<Longrightarrow> t = Some x"
  by (auto simp: merge_title_def split: option.splits if_splits)

lemma merge_qs_cases:
  assumes "merge_quick_session_meta E local remote merged_thread mappings thread_path = Inr m"
  obtains title es newest request_id failure completion lc rc cl revision where
    "qs_valid local" "qs_valid remote" "same_session local remote"
    "merge_title local remote = Inr title"
    "merge_completion (completion_of local (translate_local mappings thread_path)) (completion_of remote (\<lambda>l. l))
       = Inr completion"
    "claim_of ''local'' (qs_status local = Archived \<or> qs_status remote = Archived) local
       (translate_local mappings thread_path) = Inr lc"
    "claim_of ''remote'' (qs_status local = Archived \<or> qs_status remote = Archived) remote (\<lambda>l. l) = Inr rc"
    "merge_claim (drop_completed completion failure lc) (drop_completed completion failure rc) = Inr cl"
    "checked_add1 (max (qs_revision local) (qs_revision remote)) = Some revision"
    "m = merged_session local remote (qs_status local = Archived \<or> qs_status remote = Archived) title
       es newest request_id failure completion cl revision"
    "qs_valid m"
  using assms
  apply (simp only: merge_quick_session_meta_def Let_def andThen_Inr map_err_Inr ok_or_Inr fail_if_Inr
      unit_ex simp_thms sum.inject)
  apply (elim exE conjE)
  apply (rule that, assumption+)
   apply (rule sym, assumption)
  apply blast
  done

text \<open>C26: A merged session is safe: it is valid, keeps the identity of the session, has a revision larger
  than both sides, keeps a title either side had, is archived without a running claim as soon as one
  side is archived, and forgets no completed input of either side.\<close>

theorem merge_session_safe:
  assumes "merge_quick_session_meta E local remote merged_thread mappings thread_path = Inr m"
  shows "validate_quick_session_meta m = Inr ()
    \<and> qs_id m = qs_id local \<and> qs_agent_id m = qs_agent_id remote \<and> qs_created_by m = qs_created_by remote
    \<and> qs_revision m = max (qs_revision local) (qs_revision remote) + 1
    \<and> (\<forall>x. qs_title local = Some x \<or> qs_title remote = Some x \<longrightarrow> qs_title m = Some x)
    \<and> (qs_status local = Archived \<or> qs_status remote = Archived \<longrightarrow>
         qs_status m = Archived \<and> qs_attempt_id m = None)
    \<and> (\<forall>i. qs_last_completed_input_line remote = Some i \<longrightarrow>
         (\<exists>j. qs_last_completed_input_line m = Some j \<and> i \<le> j))
    \<and> (\<forall>i. qs_last_completed_input_line local = Some i \<longrightarrow>
         (\<exists>j. qs_last_completed_input_line m = Some j \<and> translate_local mappings thread_path i \<le> j))"
  using assms
proof (rule merge_qs_cases)
  fix title es newest request_id failure completion lc rc cl revision
  let ?t = "translate_local mappings thread_path" and ?a = "qs_status local = Archived \<or> qs_status remote = Archived"
  assume valid: "qs_valid local" "qs_valid remote" "qs_valid m" and same: "same_session local remote"
    and title: "merge_title local remote = Inr title"
    and comp: "merge_completion (completion_of local ?t) (completion_of remote (\<lambda>l. l)) = Inr completion"
    and claims: "claim_of ''local'' ?a local ?t = Inr lc" "claim_of ''remote'' ?a remote (\<lambda>l. l) = Inr rc"
      "merge_claim (drop_completed completion failure lc) (drop_completed completion failure rc) = Inr cl"
    and rev: "checked_add1 (max (qs_revision local) (qs_revision remote)) = Some revision"
    and m: "m = merged_session local remote ?a title es newest request_id failure completion cl revision"
  have fields: "qs_id m = qs_id local" "qs_agent_id m = qs_agent_id local" "qs_created_by m = qs_created_by local"
    "qs_revision m = max (qs_revision local) (qs_revision remote) + 1" "qs_title m = title"
    "qs_last_completed_input_line m = map_option cp_input completion"
    "qs_attempt_id m = map_option rc_attempt cl"
    using rev by (simp_all add: m merged_session_def checked_add1_Some split: prod.split)
  have arch: "qs_status m = Archived \<and> cl = None" if ?a
  proof -
    have "lc = None" "rc = None" using that claims(1,2) claim_of_archived by fastforce+
    then show ?thesis
      using that claims(3) by (simp add: m merged_session_def merge_claim_None split: prod.split)
  qed
  have remote: "\<exists>j. qs_last_completed_input_line m = Some j \<and> i \<le> j"
    if "qs_last_completed_input_line remote = Some i" for i
    using completion_of_valid [OF valid(2) that, of "\<lambda>l. l"] merge_completion_upper(2) [OF comp] fields(6) by auto
  have loc: "\<exists>j. qs_last_completed_input_line m = Some j \<and> ?t i \<le> j"
    if "qs_last_completed_input_line local = Some i" for i
    using completion_of_valid [OF valid(1) that, of ?t] merge_completion_upper(1) [OF comp] fields(6) by auto
  show ?thesis
    using valid same merge_title_keeps [OF title] arch remote loc fields
    by (auto simp: same_session_def)
qed

definition demo_dialogue :: "thread_entry list" where
  "demo_dialogue =
     [EMessage \<lparr>msg_line_number = 1, msg_point_to = 0, msg_author = Handler ''ann'',
        msg_timestamp = ''20260101T000000Z'', msg_body = ''hi'', msg_mentions = [], msg_links = []\<rparr>,
      EMessage \<lparr>msg_line_number = 2, msg_point_to = 1, msg_author = Handler ''bot'',
        msg_timestamp = ''20260101T000001Z'', msg_body = ''yo'', msg_mentions = [], msg_links = []\<rparr>]"

lemma demo_dialogue_wf: "list_all (entry_wf ref_ext) demo_dialogue"
proof -
  have "entry_handler (Handler ''ann'')" "entry_handler (Handler ''bot'')"
    "compact_timestamp ''20260101T000000Z''" "compact_timestamp ''20260101T000001Z''" by code_simp+
  then show ?thesis by (simp add: demo_dialogue_def)
qed

lemma demo_dialogue_exact: "list_all (entry_exact ref_ext) demo_dialogue"
  by code_simp

lemma demo_dialogue_parsed:
  "parse_thread ref_ext (concat (map (format_entry ref_ext) demo_dialogue)) = Inr \<lparr>entries = demo_dialogue\<rparr>"
proof -
  have "map (read_entry ref_ext) demo_dialogue = demo_dialogue"
    using demo_dialogue_wf demo_dialogue_exact by (intro map_idI) (auto simp: list_all_iff read_entry_exact)
  then show ?thesis using parse_thread_formatted [OF demo_dialogue_wf] by simp
qed

lemma demo_merge:
  "merge_quick_session_meta ref_ext demo_titled demo_replied
     (concat (map (format_entry ref_ext) demo_dialogue)) [] [] = Inr (demo_replied\<lparr>qs_revision := 6\<rparr>)"
proof -
  let ?c = "\<lparr>cp_attempt = demo_attempt, cp_input = 1, cp_output = 2\<rparr>"
  have valid: "qs_valid demo_titled" "qs_valid demo_replied" "qs_valid (demo_replied\<lparr>qs_revision := 6\<rparr>)"
    by code_simp+
  have same: "same_session demo_titled demo_replied" by (simp add: same_session_def demo_defs)
  have st: "(qs_status demo_titled = Archived \<or> qs_status demo_replied = Archived) = False"
    by (simp add: demo_defs)
  have title: "merge_title demo_titled demo_replied = Inr (Some ''Hello'')" by (simp add: merge_title_def demo_defs)
  have newest: "newest_human_line (qs_created_by demo_titled) (entries \<lparr>entries = demo_dialogue\<rparr>) = Some 1"
    by (simp add: demo_defs demo_dialogue_def newest_human_line_def human_lines_def map_filter_simps)
  have human: "merge_human demo_titled demo_replied (map_option (translate_local [] []) (qs_last_human_line demo_titled)) (Some 1)
    = (None, Some ''t4'')" by (simp add: merge_human_def demo_defs translate_local_def)
  have fail: "failure_of demo_titled l = None" "failure_of demo_replied l = None" for l
    by (simp_all add: failure_of_def demo_defs)
  have comp: "completion_of demo_titled (translate_local [] []) = None" "completion_of demo_replied (\<lambda>l. l) = Some ?c"
    by (simp_all add: completion_of_def demo_defs)
  have claims: "claim_of ''local'' False demo_titled (translate_local [] []) =
      Inr (Some \<lparr>rc_attempt = demo_attempt, rc_input = 1, rc_started = ''t2''\<rparr>)"
    "claim_of ''remote'' False demo_replied (\<lambda>l. l) = Inr None"
    by (simp_all add: claim_of_def demo_defs translate_local_def)
  have rev: "checked_add1 (max (qs_revision demo_titled) (qs_revision demo_replied)) = Some 6"
    by (simp add: checked_add1_def demo_defs)
  have order: "max ''t3'' ''t4'' = ''t4''" by code_simp
  have merged: "merged_session demo_titled demo_replied False (Some ''Hello'') (entries \<lparr>entries = demo_dialogue\<rparr>)
     (Some 1) None None (Some ?c) None 6 = demo_replied\<lparr>qs_revision := 6\<rparr>"
    by (simp add: merged_session_def merge_summary_def stable_status_def demo_defs demo_dialogue_def demo_texts order)
  have dropped: "drop_completed (Some ?c) None (Some \<lparr>rc_attempt = demo_attempt, rc_input = 1, rc_started = s\<rparr>) = None" for s
    by (simp add: drop_completed_def claim_completed_def)
  show ?thesis
    unfolding merge_quick_session_meta_def Let_def demo_dialogue_parsed
    by (simp only: valid same st title newest human fst_conv snd_conv fail comp claims rev merged dropped
        map_err.simps andThen.simps fail_if_def merge_failure_def merge_completion_def Let_def prod.case
        option.case if_False if_True simp_thms drop_completed_None merge_claim_None ok_or_Some option.distinct)
qed

theorem merge_session_safe_witness:
  "\<exists>m. merge_quick_session_meta ref_ext demo_titled demo_replied
      (concat (map (format_entry ref_ext) demo_dialogue)) [] [] = Inr m \<and> validate_quick_session_meta m = Inr ()"
  using merge_session_safe [OF demo_merge] demo_merge by blast

subsection \<open>Renumbered batches\<close>

fun renumber_to :: "(nat \<rightharpoonup> nat) \<Rightarrow> nat list \<Rightarrow> thread_entry \<Rightarrow> thread_entry" where
  "renumber_to line_map batch (EMessage m) =
     EMessage (m\<lparr>msg_line_number := the (line_map (msg_line_number m)),
       msg_point_to := (if msg_point_to m = 0 then 0
         else if msg_point_to m \<in> set batch then the (line_map (msg_point_to m)) else msg_point_to m)\<rparr>)"
| "renumber_to line_map batch (EEvent e) =
     EEvent (e\<lparr>ev_line_number := the (line_map (ev_line_number e))\<rparr>)"

text \<open>What renumbering must not touch: author, time, and the text of a message or the type and data of
  an event.\<close>

fun entry_payload :: "thread_entry \<Rightarrow> handler \<times> string \<times> (string + string \<times> json)" where
  "entry_payload (EMessage m) = (msg_author m, msg_timestamp m, Inl (msg_body m))"
| "entry_payload (EEvent e) = (ev_author e, ev_timestamp e, Inr (ev_event_type e, ev_meta e))"

lemma renumber_entry_format: "renumber_entry E lm batch = (\<lambda>e. format_entry E (renumber_to lm batch e))"
proof
  show "renumber_entry E lm batch e = format_entry E (renumber_to lm batch e)" for e
    by (cases e) (auto simp: Let_def)
qed

lemma renumber_to_line: "entry_line_number (renumber_to lm batch e) = the (lm (entry_line_number e))"
  by (cases e) auto

lemma renumber_to_payload: "entry_payload (renumber_to lm batch e) = entry_payload e"
  by (cases e) auto

lemma renumber_to_exact: "entry_exact E e \<Longrightarrow> entry_exact E (renumber_to lm batch e)"
  by (cases e) auto

lemma renumber_to_wf:
  assumes "entry_wf E e" "\<forall>k v. lm k = Some v \<longrightarrow> v \<le> u64_max" "entry_line_number e \<in> dom lm" "set batch \<subseteq> dom lm"
  shows "entry_wf E (renumber_to lm batch e)"
proof (cases e)
  case (EMessage m)
  have "the (lm k) \<le> u64_max" if "k \<in> dom lm" for k using assms(2) that by auto
  then show ?thesis using assms EMessage by (auto simp: subset_iff)
qed (use assms in auto)

lemma line_map_loop_other:
  "k \<notin> set (map entry_line_number es) \<Longrightarrow> line_map_loop n i es m k = m k"
  by (induction es arbitrary: i m) auto

lemma line_map_loop_nth:
  assumes "distinct (map entry_line_number es)" "j < length es" "n + 1 + i + length es \<le> u64_max + 1"
  shows "line_map_loop n i es m (entry_line_number (es ! j)) = Some (n + 1 + i + j)"
  using assms
proof (induction es arbitrary: i m j)
  case (Cons e es)
  have u: "u64_add (u64_add n 1) i = n + 1 + i" using Cons.prems(3) by (simp add: u64_add_exact)
  show ?case
  proof (cases j)
    case 0
    then show ?thesis using Cons.prems(1) u by (simp add: line_map_loop_other)
  next
    case (Suc k)
    then show ?thesis using Cons by simp
  qed
qed simp

lemma line_map_of_nth:
  "distinct (map entry_line_number es) \<Longrightarrow> n + length es \<le> u64_max \<Longrightarrow> j < length es \<Longrightarrow>
   line_map_of n es (entry_line_number (es ! j)) = Some (n + 1 + j)"
  using line_map_loop_nth [of es j n 0 Map.empty] by (simp add: line_map_of_def)

lemma line_map_of_dom:
  assumes "distinct (map entry_line_number es)" "n + length es \<le> u64_max"
  shows "dom (line_map_of n es) = set (map entry_line_number es)"
    and "line_map_of n es k = Some v \<Longrightarrow> v \<le> u64_max"
proof -
  have out: "line_map_of n es k = None" if "k \<notin> set (map entry_line_number es)" for k
    using line_map_loop_other [OF that] by (simp add: line_map_of_def)
  have hit: "\<exists>j < length es. line_map_of n es k = Some (n + 1 + j)" if k: "k \<in> set (map entry_line_number es)" for k
  proof -
    obtain j where "j < length es" "k = entry_line_number (es ! j)" using k by (auto simp: in_set_conv_nth)
    then show ?thesis using line_map_of_nth [OF assms, of j] by auto
  qed
  show "dom (line_map_of n es) = set (map entry_line_number es)" using out hit by fastforce
  show "line_map_of n es k = Some v \<Longrightarrow> v \<le> u64_max"
    using out [of k] hit [of k] assms(2) by (cases "k \<in> set (map entry_line_number es)") auto
qed

text \<open>A batch that can be moved: it parses to entries the formatter reproduces, with distinct line
  numbers, and there is room for it after line \<open>n\<close>.\<close>

definition movable :: "ext \<Rightarrow> string \<Rightarrow> nat \<Rightarrow> thread_file \<Rightarrow> bool" where
  "movable E batch n f \<longleftrightarrow> parse_thread E batch = Inr f \<and> list_all (entry_wf E) (entries f)
     \<and> list_all (entry_exact E) (entries f) \<and> distinct (map entry_line_number (entries f))
     \<and> n + length (entries f) \<le> u64_max"

definition moved_entries :: "nat \<Rightarrow> thread_entry list \<Rightarrow> thread_entry list" where
  "moved_entries n es = map (renumber_to (line_map_of n es) (map entry_line_number es)) es"

lemma moved_entries_lines:
  assumes "distinct (map entry_line_number es)" "n + length es \<le> u64_max"
  shows "map entry_line_number (moved_entries n es) = [n + 1 ..< n + 1 + length es]"
  using line_map_of_nth [OF assms]
  by (intro nth_equalityI) (auto simp: moved_entries_def renumber_to_line simp del: upt_Suc)

lemma moved_entries_payload: "map entry_payload (moved_entries n es) = map entry_payload es"
  by (simp add: moved_entries_def renumber_to_payload)

lemma renumber_batch_parsed:
  assumes "movable E batch n f"
  shows "\<exists>out. renumber_batch E batch n = Inr out \<and> parse_thread E out = Inr \<lparr>entries = moved_entries n (entries f)\<rparr>"
proof -
  let ?es = "entries f"
  let ?out = "concat (map (format_entry E) (moved_entries n ?es))"
  have f: "parse_thread E batch = Inr f" and wf: "list_all (entry_wf E) ?es" and ex: "list_all (entry_exact E) ?es"
    and d: "distinct (map entry_line_number ?es)" "n + length ?es \<le> u64_max"
    using assms by (auto simp: movable_def)
  have wf': "list_all (entry_wf E) (moved_entries n ?es)"
    using wf line_map_of_dom [OF d] by (auto simp: moved_entries_def list_all_iff intro!: renumber_to_wf)
  have "map (read_entry E) (moved_entries n ?es) = moved_entries n ?es"
    using wf' ex by (intro map_idI read_entry_exact) (auto simp: moved_entries_def list_all_iff renumber_to_exact)
  then have "parse_thread E ?out = Inr \<lparr>entries = moved_entries n ?es\<rparr>"
    using parse_thread_formatted [OF wf'] by simp
  moreover have "renumber_batch E batch n = Inr ?out"
    by (simp add: renumber_batch_def f moved_entries_def comp_def renumber_entry_format)
  ultimately show ?thesis by blast
qed

text \<open>Renumbering a batch behind line \<open>n\<close> succeeds and keeps it intact: the new text parses to the same
  messages and events in the same order, numbered \<open>n + 1\<close>, \<open>n + 2\<close>, ...; a reply to a line of the batch
  still points to that line under its new number, and a reply to an older line is unchanged.\<close>

theorem renumber_batch_correct:
  assumes "movable E batch n f"
  shows "\<exists>out es. renumber_batch E batch n = Inr out \<and> parse_thread E out = Inr \<lparr>entries = es\<rparr>
    \<and> map entry_line_number es = [n + 1 ..< n + 1 + length (entries f)]
    \<and> map entry_payload es = map entry_payload (entries f)
    \<and> (\<forall>i < length es. \<forall>j < length es. \<forall>m. entries f ! i = EMessage m \<and> msg_point_to m \<noteq> 0
         \<and> msg_point_to m = entry_line_number (entries f ! j)
         \<longrightarrow> entry_point_to (es ! i) = entry_line_number (es ! j))
    \<and> (\<forall>i < length es. entry_point_to (entries f ! i) \<notin> set (map entry_line_number (entries f))
         \<longrightarrow> entry_point_to (es ! i) = entry_point_to (entries f ! i))"
proof -
  let ?es = "entries f" and ?es' = "moved_entries n (entries f)"
  have d: "distinct (map entry_line_number ?es)" "n + length ?es \<le> u64_max"
    using assms by (auto simp: movable_def)
  have nth: "?es' ! i = renumber_to (line_map_of n ?es) (map entry_line_number ?es) (?es ! i)"
    if "i < length ?es" for i using that by (simp add: moved_entries_def)
  have len: "length ?es' = length ?es" by (simp add: moved_entries_def)
  have refs: "entry_point_to (?es' ! i) = entry_line_number (?es' ! j)"
    if "i < length ?es" "j < length ?es" "?es ! i = EMessage m" "msg_point_to m \<noteq> 0"
      "msg_point_to m = entry_line_number (?es ! j)" for i j m
    using that by (simp add: nth renumber_to_line)
  have old: "entry_point_to (?es' ! i) = entry_point_to (?es ! i)"
    if "i < length ?es" "entry_point_to (?es ! i) \<notin> set (map entry_line_number ?es)" for i
    using that by (cases "?es ! i") (auto simp: nth)
  show ?thesis
    using renumber_batch_parsed [OF assms] moved_entries_lines [OF d] moved_entries_payload [of n ?es] refs old len
    by metis
qed

lemma replace_crlf_last_other: "a \<noteq> [] \<Longrightarrow> last a \<noteq> newline \<Longrightarrow> last (replace_crlf a) = last a"
  by (induction a rule: replace_crlf.induct) auto

lemma parse_thread_newline:
  assumes "a \<noteq> []" "last a \<noteq> newline" "last a \<noteq> carriage"
  shows "parse_thread E (a @ [newline]) = parse_thread E a"
proof -
  have "replace_crlf (a @ [newline]) = replace_crlf a @ [newline]"
    using assms replace_crlf_append [of a "[newline]"] by simp
  moreover have "lines (replace_crlf a @ [newline]) = lines (replace_crlf a)"
    using assms replace_crlf_last_other [of a] by (intro lines_newline) auto
  ultimately show ?thesis using assms(1) by (simp add: parse_thread_def)
qed

text \<open>The two sides of a thread conflict that can be resolved.\<close>

definition resolvable :: "ext \<Rightarrow> string \<Rightarrow> string \<Rightarrow> thread_file \<Rightarrow> thread_file \<Rightarrow> bool" where
  "resolvable E local_content remote_content fl fr \<longleftrightarrow>
     parse_thread E remote_content = Inr fr \<and> (remote_content = [] \<or> last remote_content \<noteq> carriage)
     \<and> movable E local_content (max_line (entries fr)) fl"

definition resolved_entries :: "thread_file \<Rightarrow> thread_file \<Rightarrow> thread_entry list" where
  "resolved_entries fl fr = entries fr @ moved_entries (max_line (entries fr)) (entries fl)"

lemma resolve_file_parsed:
  assumes "resolvable E local_content remote_content fl fr"
  shows "\<exists>rf ms. resolve_file E p local_content remote_content = Inr (rf, ms) \<and> rf_path rf = p
    \<and> parse_thread E (rf_content rf) = Inr \<lparr>entries = resolved_entries fl fr\<rparr>
    \<and> map (\<lambda>m. (rm_old_line m, rm_new_line m)) ms
      = zip (map entry_line_number (entries fl))
          (map entry_line_number (moved_entries (max_line (entries fr)) (entries fl)))
    \<and> (\<forall>m \<in> set ms. rm_file m = p)"
proof -
  let ?n = "max_line (entries fr)"
  have fr: "parse_thread E remote_content = Inr fr" and cr: "remote_content = [] \<or> last remote_content \<noteq> carriage"
    and mv: "movable E local_content ?n fl" using assms by (auto simp: resolvable_def)
  obtain out where out: "renumber_batch E local_content ?n = Inr out"
    "parse_thread E out = Inr \<lparr>entries = moved_entries ?n (entries fl)\<rparr>" using renumber_batch_parsed [OF mv] by auto
  let ?base = "if remote_content \<noteq> [] \<and> \<not> ends_with [newline] remote_content
    then remote_content @ [newline] else remote_content"
  have ends: "ends_with [newline] remote_content \<longleftrightarrow> last remote_content = newline" if "remote_content \<noteq> []"
    using that unfolding ends_with_iff by (metis append_butlast_last_id last_snoc)
  have base: "parse_thread E ?base = Inr fr" "?base = [] \<or> last ?base = newline"
    using fr cr ends parse_thread_newline [of remote_content E] by auto
  have whole: "parse_thread E (?base @ out) = Inr \<lparr>entries = resolved_entries fl fr\<rparr>"
    using parse_thread_append [OF base(1) out(2) base(2)] by (simp add: resolved_entries_def)
  have n: "(if remote_content = [] then Inr 0
      else andThen (map_err ConflictParse (parse_thread E remote_content)) (\<lambda>f. Inr (max_line (entries f)))) = Inr ?n"
    using fr by (auto simp: parse_thread_def max_line_def)
  have fl: "parse_thread E local_content = Inr fl" using mv by (simp add: movable_def)
  let ?z = "zip (map entry_line_number (entries fl)) (map entry_line_number (moved_entries ?n (entries fl)))"
  let ?ms = "map (\<lambda>(old_ln, new_ln). \<lparr>rm_file = p, rm_old_line = old_ln, rm_new_line = new_ln\<rparr>) ?z"
  have "resolve_file E p local_content remote_content = Inr (\<lparr>rf_path = p, rf_content = ?base @ out\<rparr>, ?ms)"
    unfolding resolve_file_def n andThen.simps fl out map_err.simps Let_def by simp
  moreover have "map (\<lambda>m. (rm_old_line m, rm_new_line m)) ?ms = ?z" by (simp add: comp_def case_prod_unfold)
  ultimately show ?thesis using whole by (auto simp: case_prod_unfold)
qed

lemma resolve_loop_parsed:
  assumes "\<And>p. p \<in> set ps \<Longrightarrow> resolvable E (the (map_of la p))
      (case map_of rc p of Some s \<Rightarrow> s | None \<Rightarrow> []) (fl p) (fr p)"
  shows "\<exists>files ms. resolve_loop E la rc ps = Inr (files, ms) \<and> map rf_path files = ps
    \<and> (\<forall>rf \<in> set files. parse_thread E (rf_content rf)
         = Inr \<lparr>entries = resolved_entries (fl (rf_path rf)) (fr (rf_path rf))\<rparr>)"
  using assms
proof (induction ps)
  case (Cons p ps)
  obtain rf ms where rf: "resolve_file E p (the (map_of la p)) (case map_of rc p of Some s \<Rightarrow> s | None \<Rightarrow> [])
      = Inr (rf, ms)" "rf_path rf = p"
    "parse_thread E (rf_content rf) = Inr \<lparr>entries = resolved_entries (fl p) (fr p)\<rparr>"
    using resolve_file_parsed [OF Cons.prems, of p p] by auto
  obtain files ms' where "resolve_loop E la rc ps = Inr (files, ms')" "map rf_path files = ps"
    "\<forall>rf \<in> set files. parse_thread E (rf_content rf) = Inr \<lparr>entries = resolved_entries (fl (rf_path rf)) (fr (rf_path rf))\<rparr>"
    using Cons.IH Cons.prems by auto
  with rf show ?case by auto
qed simp

text \<open>C25: Conflict resolution loses and duplicates nothing: when every conflicting thread is resolvable, the
  resolution succeeds with exactly one file per locally changed path, and each file parses to the remote
  entries, unchanged, followed by the local entries with the same authors, times and contents in
  the same order, numbered consecutively after the largest remote number.\<close>

theorem resolve_content_complete:
  assumes "\<And>p. p \<in> fst ` set local_additions \<Longrightarrow> resolvable E (the (map_of local_additions p))
      (case map_of remote_contents p of Some s \<Rightarrow> s | None \<Rightarrow> []) (fl p) (fr p)"
  shows "\<exists>files ms. resolve_content_pure E local_additions remote_contents = Inr (files, ms)
    \<and> set (map rf_path files) = fst ` set local_additions \<and> distinct (map rf_path files)
    \<and> (\<forall>rf \<in> set files. \<exists>es. parse_thread E (rf_content rf) = Inr \<lparr>entries = entries (fr (rf_path rf)) @ es\<rparr>
         \<and> map entry_payload es = map entry_payload (entries (fl (rf_path rf)))
         \<and> map entry_line_number es = [max_line (entries (fr (rf_path rf))) + 1 ..<
             max_line (entries (fr (rf_path rf))) + 1 + length (entries (fl (rf_path rf)))])"
proof -
  let ?ps = "sort (remdups (map fst local_additions))"
  have res: "resolvable E (the (map_of local_additions p))
      (case map_of remote_contents p of Some s \<Rightarrow> s | None \<Rightarrow> []) (fl p) (fr p)" if "p \<in> set ?ps" for p
    using assms that by auto
  obtain files ms where r: "resolve_loop E local_additions remote_contents ?ps = Inr (files, ms)"
    "map rf_path files = ?ps"
    "\<forall>rf \<in> set files. parse_thread E (rf_content rf) = Inr \<lparr>entries = resolved_entries (fl (rf_path rf)) (fr (rf_path rf))\<rparr>"
    using resolve_loop_parsed [of ?ps, OF res] by blast
  have lines: "map entry_line_number (moved_entries (max_line (entries (fr p))) (entries (fl p)))
      = [max_line (entries (fr p)) + 1 ..< max_line (entries (fr p)) + 1 + length (entries (fl p))]" if "p \<in> set ?ps" for p
    using res [OF that] by (intro moved_entries_lines) (auto simp: resolvable_def movable_def)
  have "rf_path rf \<in> set ?ps" if "rf \<in> set files" for rf using that r(2) by (metis image_eqI list.set_map)
  moreover have "set (map rf_path files) = fst ` set local_additions" "distinct (map rf_path files)"
    unfolding r(2) by simp_all
  ultimately show ?thesis
    using r(1,3) lines
    by (auto simp: resolve_content_pure_def resolved_entries_def moved_entries_payload simp del: upt_Suc)
qed

definition demo_local :: "thread_entry list" where
  "demo_local =
     [EMessage \<lparr>msg_line_number = 2, msg_point_to = 0, msg_author = Handler ''ann'',
        msg_timestamp = ''20260101T000000Z'', msg_body = ''hi'', msg_mentions = [], msg_links = []\<rparr>,
      EMessage \<lparr>msg_line_number = 3, msg_point_to = 2, msg_author = Handler ''bot'',
        msg_timestamp = ''20260101T000001Z'', msg_body = ''yo'', msg_mentions = [], msg_links = []\<rparr>]"

lemma demo_local_movable:
  "movable ref_ext (concat (map (format_entry ref_ext) demo_local)) 2 \<lparr>entries = demo_local\<rparr>"
proof -
  have "entry_handler (Handler ''ann'')" "entry_handler (Handler ''bot'')"
    "compact_timestamp ''20260101T000000Z''" "compact_timestamp ''20260101T000001Z''" by code_simp+
  then have wf: "list_all (entry_wf ref_ext) demo_local" by (simp add: demo_local_def)
  have ex: "list_all (entry_exact ref_ext) demo_local" by code_simp
  have "map (read_entry ref_ext) demo_local = demo_local"
    using wf ex by (intro map_idI) (auto simp: list_all_iff read_entry_exact)
  then have "parse_thread ref_ext (concat (map (format_entry ref_ext) demo_local)) = Inr \<lparr>entries = demo_local\<rparr>"
    using parse_thread_formatted [OF wf] by simp
  then show ?thesis using wf ex by (simp add: movable_def demo_local_def)
qed

theorem renumber_batch_correct_witness:
  "\<exists>out es. renumber_batch ref_ext (concat (map (format_entry ref_ext) demo_local)) 2 = Inr out
     \<and> parse_thread ref_ext out = Inr \<lparr>entries = es\<rparr> \<and> map entry_line_number es = [3, 4]
     \<and> entry_point_to (es ! 1) = 3"
proof -
  obtain out es where o: "renumber_batch ref_ext (concat (map (format_entry ref_ext) demo_local)) 2 = Inr out"
    "parse_thread ref_ext out = Inr \<lparr>entries = es\<rparr>" "map entry_line_number es = [3 ..< 3 + length demo_local]"
    and ref: "\<forall>i < length es. \<forall>j < length es. \<forall>m. demo_local ! i = EMessage m \<and> msg_point_to m \<noteq> 0
         \<and> msg_point_to m = entry_line_number (demo_local ! j) \<longrightarrow> entry_point_to (es ! i) = entry_line_number (es ! j)"
    using renumber_batch_correct [OF demo_local_movable] by auto
  have ln: "map entry_line_number es = [3, 4]" using o(3) by (simp add: demo_local_def upt_rec)
  then have len: "length es = 2" by (metis length_map length_Cons list.size(3) numeral_2_eq_2)
  have "entry_line_number (es ! 0) = 3" using ln len by (metis nth_Cons_0 nth_map zero_less_numeral)
  moreover have "entry_point_to (es ! 1) = entry_line_number (es ! 0)"
    using ref [rule_format, of 1 0] len by (simp add: demo_local_def)
  ultimately have "entry_point_to (es ! 1) = 3" by simp
  then show ?thesis using o(1,2) ln by (intro exI conjI)
qed

theorem resolve_content_complete_witness:
  "\<exists>files ms. resolve_content_pure ref_ext
      [([''channels'', ''general.thread''], concat (map (format_entry ref_ext) demo_local))]
      [([''channels'', ''general.thread''], concat (map (format_entry ref_ext) demo_dialogue))] = Inr (files, ms)
    \<and> set (map rf_path files) = {[''channels'', ''general.thread'']}"
proof -
  have "max_line (entries \<lparr>entries = demo_dialogue\<rparr>) = 2" by (simp add: max_line_def demo_dialogue_def)
  moreover have "last (concat (map (format_entry ref_ext) demo_dialogue)) \<noteq> carriage" by code_simp
  ultimately have "resolvable ref_ext (concat (map (format_entry ref_ext) demo_local))
      (concat (map (format_entry ref_ext) demo_dialogue)) \<lparr>entries = demo_local\<rparr> \<lparr>entries = demo_dialogue\<rparr>"
    using demo_dialogue_parsed demo_local_movable by (simp add: resolvable_def)
  then show ?thesis
    using resolve_content_complete [of "[([''channels'', ''general.thread''], concat (map (format_entry ref_ext) demo_local))]"
        ref_ext "[([''channels'', ''general.thread''], concat (map (format_entry ref_ext) demo_dialogue))]"
        "\<lambda>_. \<lparr>entries = demo_local\<rparr>" "\<lambda>_. \<lparr>entries = demo_dialogue\<rparr>"] by auto
qed

end
