(* ===== verification/Recipients.thy ===== *)
theory Recipients
  imports Validators
begin

text \<open>
  Who is notified of a message (\<^verbatim>\<open>crates/gitim-core/src/recipients.rs\<close>).  A \<^verbatim>\<open>BTreeSet\<close> is a sorted list
  without duplicates.  The walk up the reply chain carries the set of visited lines, which is what
  makes it end on every input: an ancestor line that is found is one of the finitely many message
  lines not yet visited.
\<close>

definition bset_insert :: "string \<Rightarrow> string list \<Rightarrow> string list" where
  "bset_insert x s = insort_insert x s"

fun bset_insert_all :: "string list \<Rightarrow> string list \<Rightarrow> string list" where
  "bset_insert_all [] s = s"
| "bset_insert_all (x # xs) s = bset_insert_all xs (bset_insert x s)"

function parent_chain :: "message list \<Rightarrow> nat \<Rightarrow> nat list \<Rightarrow> string list \<Rightarrow> string list" where
  "parent_chain all_messages cursor visited recipients =
     (if cursor = 0 \<or> cursor \<in> set visited then recipients
      else case find (\<lambda>m. msg_line_number m = cursor) all_messages of
             Some ancestor \<Rightarrow>
               parent_chain all_messages (msg_point_to ancestor) (cursor # visited)
                 (bset_insert_all (map as_str (msg_mentions ancestor))
                    (bset_insert (as_str (msg_author ancestor)) recipients))
           | None \<Rightarrow> recipients)"
  by auto
termination
proof (relation "measure (\<lambda>(ms, cursor, visited, _). card (set (map msg_line_number ms) - set visited))")
  fix ms :: "message list" and cursor visited recipients a
  assume cv: "\<not> (cursor = 0 \<or> cursor \<in> set visited)" and a: "find (\<lambda>m. msg_line_number m = cursor) ms = Some a"
  then have "cursor \<in> set (map msg_line_number ms)" by (auto simp: find_Some_iff)
  then have "card (set (map msg_line_number ms) - set (cursor # visited))
      < card (set (map msg_line_number ms) - set visited)"
    using cv by (intro psubset_card_mono) auto
  then show "((ms, msg_point_to a, cursor # visited, bset_insert_all (map as_str (msg_mentions a))
        (bset_insert (as_str (msg_author a)) recipients)), ms, cursor, visited, recipients)
      \<in> measure (\<lambda>(ms, cursor, visited, _). card (set (map msg_line_number ms) - set visited))" by simp
qed simp

declare parent_chain.simps [simp del]

definition compute_recipients :: "message \<Rightarrow> channel_meta \<Rightarrow> message list \<Rightarrow> string list" where
  "compute_recipients message channel_meta all_messages =
     (let r1 = (if cm_created_by channel_meta \<noteq> [] then bset_insert (cm_created_by channel_meta) [] else []);
          r2 = parent_chain all_messages (msg_point_to message) [] r1
      in bset_insert_all (map as_str (msg_mentions message)) r2)"

definition compute_card_thread_recipients :: "message \<Rightarrow> card_meta \<Rightarrow> string list" where
  "compute_card_thread_recipients message cmeta =
     (let r1 = (if card_created_by cmeta \<noteq> [] then bset_insert (card_created_by cmeta) [] else []);
          r2 = (case card_assignee cmeta of
                  Some a \<Rightarrow> if a \<noteq> [] then bset_insert a r1 else r1
                | None \<Rightarrow> r1)
      in bset_insert_all (map as_str (msg_mentions message)) r2)"

subsection \<open>The reply chain\<close>

text \<open>The messages a reply answers, directly or through other replies.\<close>

inductive on_chain :: "message list \<Rightarrow> nat \<Rightarrow> message \<Rightarrow> bool" for ms where
  here: "start \<noteq> 0 \<Longrightarrow> find (\<lambda>m. msg_line_number m = start) ms = Some a \<Longrightarrow> on_chain ms start a"
| above: "start \<noteq> 0 \<Longrightarrow> find (\<lambda>m. msg_line_number m = start) ms = Some a \<Longrightarrow>
    on_chain ms (msg_point_to a) b \<Longrightarrow> on_chain ms start b"

inductive_simps on_chain_iff: "on_chain ms start b"

definition participants :: "message \<Rightarrow> string set" where
  "participants m = insert (as_str (msg_author m)) (as_str ` set (msg_mentions m))"

lemma bset_insert_set [simp]: "set (bset_insert x s) = insert x (set s)"
  by (simp add: bset_insert_def set_insort_insert)

lemma bset_insert_all_set [simp]: "set (bset_insert_all xs s) = set xs \<union> set s"
  by (induction xs s rule: bset_insert_all.induct) auto

lemma bset_insert_wf: "sorted s \<and> distinct s \<Longrightarrow> sorted (bset_insert x s) \<and> distinct (bset_insert x s)"
  by (simp add: bset_insert_def sorted_insort_insert distinct_insort_insert)

lemma bset_insert_all_wf: "sorted s \<and> distinct s \<Longrightarrow> sorted (bset_insert_all xs s) \<and> distinct (bset_insert_all xs s)"
  by (induction xs s rule: bset_insert_all.induct) (auto simp: bset_insert_wf)

lemma parent_chain_wf:
  "sorted r \<and> distinct r \<Longrightarrow> sorted (parent_chain ms c v r) \<and> distinct (parent_chain ms c v r)"
proof (induction ms c v r rule: parent_chain.induct)
  case (1 ms c v r)
  show ?case
  proof (cases "c = 0 \<or> c \<in> set v")
    case False
    show ?thesis
    proof (cases "find (\<lambda>m. msg_line_number m = c) ms")
      case None
      then show ?thesis using 1(2) False by (subst (1 2) parent_chain.simps) simp
    next
      case (Some a)
      then show ?thesis
        using 1(1) [OF False Some] 1(2) False bset_insert_all_wf bset_insert_wf
        by (subst (1 2) parent_chain.simps) simp
    qed
  qed (use 1(2) in \<open>simp add: parent_chain.simps\<close>)
qed

lemma parent_chain_upper:
  "set (parent_chain ms c v r) \<subseteq> set r \<union> (\<Union>b \<in> {b. on_chain ms c b}. participants b)"
proof (induction ms c v r rule: parent_chain.induct)
  case (1 ms c v r)
  show ?case
  proof (cases "c = 0 \<or> c \<in> set v \<or> find (\<lambda>m. msg_line_number m = c) ms = None")
    case True
    then have "parent_chain ms c v r = r" by (subst parent_chain.simps) auto
    then show ?thesis by simp
  next
    case False
    then obtain a where a: "find (\<lambda>m. msg_line_number m = c) ms = Some a" by auto
    have "parent_chain ms c v r = parent_chain ms (msg_point_to a) (c # v)
        (bset_insert_all (map as_str (msg_mentions a)) (bset_insert (as_str (msg_author a)) r))"
      using False a by (subst parent_chain.simps) simp
    moreover have "on_chain ms c a" "\<And>b. on_chain ms (msg_point_to a) b \<Longrightarrow> on_chain ms c b"
      using False a by (auto intro: on_chain.intros)
    ultimately show ?thesis using 1 [OF _ a] False by (fastforce simp: participants_def)
  qed
qed

text \<open>What has been visited is accounted for: its participants are recorded, and its parent is visited or
  is the line looked at next.\<close>

definition accounted :: "message list \<Rightarrow> nat \<Rightarrow> nat list \<Rightarrow> string list \<Rightarrow> bool" where
  "accounted ms c v r \<longleftrightarrow> (\<forall>l \<in> set v. \<exists>a. find (\<lambda>m. msg_line_number m = l) ms = Some a
     \<and> participants a \<subseteq> set r \<and> (msg_point_to a = c \<or> msg_point_to a \<in> set v))"

lemma accountedD:
  assumes "accounted ms c v r" "l \<in> set v" "find (\<lambda>m. msg_line_number m = l) ms = Some a"
  shows "participants a \<subseteq> set r" "msg_point_to a \<in> insert c (set v)"
  using assms by (fastforce simp: accounted_def)+

lemma chain_accounted:
  assumes "on_chain ms start b" "accounted ms c v r" "c = 0 \<or> c \<in> set v \<or> find (\<lambda>m. msg_line_number m = c) ms = None"
    "start \<in> insert c (set v)"
  shows "participants b \<subseteq> set r"
  using assms
proof (induction rule: on_chain.induct)
  case (here start a)
  then have "start \<in> set v" by auto
  then show ?case using here(2,3) accountedD by blast
next
  case (above start a b)
  then have "start \<in> set v" by auto
  then have "msg_point_to a \<in> insert c (set v)" using above(2,5) accountedD by blast
  then show ?case using above by blast
qed

lemma parent_chain_lower:
  assumes "accounted ms c v r" "start \<in> insert c (set v)" "on_chain ms start b"
  shows "participants b \<subseteq> set (parent_chain ms c v r)"
  using assms
proof (induction ms c v r rule: parent_chain.induct)
  case (1 ms c v r)
  show ?case
  proof (cases "c = 0 \<or> c \<in> set v \<or> find (\<lambda>m. msg_line_number m = c) ms = None")
    case True
    then have "parent_chain ms c v r = r" by (subst parent_chain.simps) auto
    then show ?thesis using chain_accounted [OF 1(4,2) True 1(3)] by simp
  next
    case False
    then obtain a where a: "find (\<lambda>m. msg_line_number m = c) ms = Some a" by auto
    let ?r = "bset_insert_all (map as_str (msg_mentions a)) (bset_insert (as_str (msg_author a)) r)"
    have eq: "parent_chain ms c v r = parent_chain ms (msg_point_to a) (c # v) ?r"
      using False a by (subst parent_chain.simps) simp
    have "participants a \<subseteq> set ?r" by (auto simp: participants_def)
    then have "accounted ms (msg_point_to a) (c # v) ?r"
      using 1(2) a by (fastforce simp: accounted_def)
    then show ?thesis unfolding eq using 1(1) [OF _ a] False 1(3,4) by auto
  qed
qed

text \<open>C31: The recipients of a channel message are exactly the channel owner, the authors of and the users
  mentioned in the messages of its reply chain, and the users it mentions, sorted and without
  duplicates; the walk ends on every input, reply cycles included.\<close>

theorem compute_recipients_exact:
  "set (compute_recipients m c ms) =
     (if cm_created_by c = [] then {} else {cm_created_by c})
     \<union> (\<Union>b \<in> {b. on_chain ms (msg_point_to m) b}. participants b) \<union> as_str ` set (msg_mentions m)
   \<and> sorted (compute_recipients m c ms) \<and> distinct (compute_recipients m c ms)"
proof -
  let ?r1 = "if cm_created_by c \<noteq> [] then bset_insert (cm_created_by c) [] else []"
  have wf: "sorted ?r1 \<and> distinct ?r1" using bset_insert_wf [of "[]"] by simp
  have mono: "set r \<subseteq> set (parent_chain ms x v r)" for x v r
  proof (induction ms x v r rule: parent_chain.induct)
    case (1 ms x v r)
    show ?case by (subst parent_chain.simps) (use 1 in \<open>auto split: option.splits\<close>)
  qed
  have "set (parent_chain ms (msg_point_to m) [] ?r1)
      = set ?r1 \<union> (\<Union>b \<in> {b. on_chain ms (msg_point_to m) b}. participants b)"
  proof (intro equalityI parent_chain_upper Un_least UN_least mono)
    fix b assume "b \<in> {b. on_chain ms (msg_point_to m) b}"
    then show "participants b \<subseteq> set (parent_chain ms (msg_point_to m) [] ?r1)"
      by (intro parent_chain_lower [of _ _ _ _ "msg_point_to m"]) (auto simp: accounted_def)
  qed
  moreover have "sorted (compute_recipients m c ms) \<and> distinct (compute_recipients m c ms)"
    unfolding compute_recipients_def Let_def by (intro bset_insert_all_wf parent_chain_wf wf)
  ultimately show ?thesis by (auto simp: compute_recipients_def Let_def)
qed

end
