(* ===== verification/Daemon.thy ===== *)
theory Daemon
  imports Board Flow_Run Flow_Text Sync Recipients
begin

text \<open>
  The state of the daemon and what its handlers share (\<^verbatim>\<open>crates/gitim-daemon/src/state.rs\<close>, \<^verbatim>\<open>api.rs\<close>,
  \<^verbatim>\<open>handlers/mod.rs\<close>, and the interface of \<^verbatim>\<open>gitim-sync/src/git.rs\<close> they call).

  \<^bold>\<open>State.\<close>  The working tree is an association list from paths, relative to the repository root, to
  file contents; a directory exists when a file lies below it.  Next to it the state keeps the user
  list, the identity, the list of messages waiting for a push, the events sent, and the commits made by
  handlers.  The field \<^verbatim>\<open>thread_cache\<close> is left out: the sources only remove entries from it.

  \<^bold>\<open>Environment.\<close>  The clock, the YAML library, the git executable and the failures of the file system
  are the record \<open>env\<close>.  A failed write leaves the file as it was.  \<^verbatim>\<open>git mv\<close> and \<^verbatim>\<open>git rebase\<close> return the
  new tree; what a property needs to know of them is the named hypothesis \<open>git_ok\<close>.

  \<^bold>\<open>Interleaving.\<close>  Handlers run concurrently and hold \<^verbatim>\<open>commit_lock\<close> only for a part of their work.
  A handler therefore takes two states: \<open>s0\<close>, what it read before it took the lock, and \<open>s\<close>, the state
  under the lock, which other requests may have changed in between.  A sequential run has \<open>s0 = s\<close>.
\<close>

type_synonym tree = "(string \<times> string) list"

subsection \<open>Git\<close>

datatype git_error =
    CommandFailed string
  | GitIo string
  | PushConflict
  | RateLimited
  | AuthFailed string
  | DetachedHead
  | GitTimeout nat
  | DiskFull string
  | RemoteSlotBusy
  | RemoteSlotUnavailable string

record commit_info =
  ci_paths :: "string list"
  ci_message :: string
  ci_author :: "string \<times> string"

subsection \<open>Events and pending messages\<close>

datatype event =
    ThreadChanged string string
  | MessagesPushed string "nat list"
  | MessageRenumbered string nat nat
  | MembershipChanged string string string "string list"
  | CardCreated string string
  | CardStatusChanged string string string string string
  | CardMessageAppended string string "nat list"
  | CardArchived string string string
  | CardUnarchived string string string
  | BoardUpdated string
  | FlowChanged string
  | FlowRunStarted string string string
  | FlowRunNodeUpdated string string string
  | FlowRunCompleted string string
  | ChannelUnarchived string string string
  | UserArchived string string string
  | UserUnarchived string string string
  | DmArchived string string string
  | DmUnarchived string string string
  | ProjectCreated string
  | ChannelProjectChanged string "string option"
  | QuickSessionChanged string string quick_session_status nat

record pending_message =
  pm_channel :: string
  pm_line_number :: nat
  pm_commit_id :: string

subsection \<open>State and environment\<close>

record app_state =
  st_tree :: tree
  st_users :: "string list"
  st_current_user :: "string option"
  st_github_email :: "string option"
  st_is_admin :: bool
  st_is_guest :: bool
  st_has_remote :: bool
  st_sync_started :: bool
  st_pending_push :: "pending_message list"
  st_events :: "event list"
  st_push_notified :: bool
  st_commits :: "commit_info list"

text \<open>The operations on files that can fail.  \<open>IoRestore\<close> is the write that puts a file back after a failure; it
  comes later than the write it undoes and may fare differently.\<close>

datatype io_op =
  IoRead string | IoWrite string | IoMkdir string | IoRemove string | IoRename string string | IoRestore string

record env =
  en_ext :: ext
  en_now :: string
  en_io :: "io_op \<Rightarrow> string option"
  en_commit :: "string list \<Rightarrow> string \<Rightarrow> git_error option"
  en_head :: "git_error + string"
  en_mv :: "string \<Rightarrow> string \<Rightarrow> tree \<Rightarrow> git_error + tree"
  en_git_remote :: bool
  en_push :: "nat \<Rightarrow> git_error option"
  en_fetch :: "nat \<Rightarrow> git_error option"
  en_rebase :: "nat \<Rightarrow> tree \<Rightarrow> git_error + tree"
  en_checkout :: "string \<Rightarrow> tree \<Rightarrow> tree"
  en_order :: "string list \<Rightarrow> string list"
  en_fresh :: string
  en_run_stamp :: string
  en_channel_read :: "string \<Rightarrow> channel_meta option"
  en_channel_write :: "channel_meta \<Rightarrow> string option"
  en_card_read :: "string \<Rightarrow> card_meta option"
  en_card_write :: "card_meta \<Rightarrow> string option"
  en_session_read :: "string \<Rightarrow> quick_session_meta option"
  en_session_write :: "quick_session_meta \<Rightarrow> string option"
  en_board_read :: "string \<Rightarrow> board_meta option"
  en_board_write :: "board_meta \<Rightarrow> string option"
  en_flow_read :: "string \<Rightarrow> flow_meta option"
  en_flow_write :: "flow_meta \<Rightarrow> string option"
  en_run_read :: "string \<Rightarrow> flow_run option"
  en_run_write :: "flow_run \<Rightarrow> string option"
  en_user_read :: "string \<Rightarrow> user_meta option"
  en_user_write :: "user_meta \<Rightarrow> string option"
  en_project_read :: "string \<Rightarrow> project_meta option"
  en_project_write :: "project_meta \<Rightarrow> string option"

subsection \<open>User metadata (types/meta.rs)\<close>

definition max_introduction_len :: nat where
  "max_introduction_len = 256"

datatype user_meta_error = IntroductionTooLong nat nat | UserLabel label_error

definition check_user_meta :: "user_meta \<Rightarrow> user_meta_error + unit" where
  "check_user_meta meta =
     (if length (um_introduction meta) > max_introduction_len
      then Inl (IntroductionTooLong (length (um_introduction meta)) max_introduction_len)
      else map_err UserLabel (validate_labels (um_labels meta) user_max_labels))"

subsection \<open>Errors\<close>

text \<open>The reason a handler gives for refusing a request; the text of the response is a rendering of it.
  \<open>ErrIo\<close> and \<open>ErrGit\<close> carry the context named in the text, \<open>ErrNotFound\<close> is the error with code
  \<^verbatim>\<open>not_found\<close>.\<close>

datatype daemon_error =
    ErrNoIdentity
  | ErrGuest
  | ErrAuthorMismatch string string
  | ErrInvalidAuthor handler_error
  | ErrDeparted string
  | ErrUnknownUser string
  | ErrInvalidHandler string handler_error
  | ErrInvalidChannel channel_name_error
  | ErrDmFormat
  | ErrDmArchived string
  | ErrDmNotArchived string
  | ErrDmMissing string
  | ErrDmNotRegistered string
  | ErrParseThread parse_error
  | ErrParseMeta string
  | ErrYaml string
  | ErrChannelExists string
  | ErrChannelArchived string
  | ErrNoChannel string
  | ErrNotCreator
  | ErrCreatorLeaves
  | ErrRule im_rule_error
  | ErrCompliance compliance_error
  | ErrIo string string
  | ErrGit string git_error
  | ErrPushConflicts string
  | ErrNotFound string string
  | ErrInvalidSlug flow_slug_error
  | ErrFlow flow_error
  | ErrRun flow_run_error
  | ErrInvalidRunId run_id_error
  | ErrInvalidStatus string
  | ErrExists string string
  | ErrBoard board_error
  | ErrNoBoard string
  | ErrBoardMarkdown board_markdown_error
  | ErrSession quick_session_error
  | ErrSessionMessage string
  | ErrSessionCollision
  | ErrSessionMissing
  | ErrCard string
  | ErrLabels label_error
  | ErrCardArchived string
  | ErrCardNotArchived string
  | ErrNotMember
  | ErrCardInvalid card_error
  | ErrNotSelf string
  | ErrLabelsFull nat
  | ErrUserMeta user_meta_error
  | ErrNotCardOwner
  | ErrNoFields
  | ErrNoArchive string
  | ErrActiveExists string
  | ErrReserved string
  | ErrAlreadyArchived string
  | ErrNoUser string
  | ErrProfile string
  | ErrInvalidProject project_slug_error
  | ErrProjectExists string
  | ErrNoProject string
  | ErrProjectCorrupt string
  | ErrValidation validation_error

type_synonym 'a outcome = "(daemon_error + 'a) \<times> app_state"

subsection \<open>Files\<close>

definition file_exists :: "app_state \<Rightarrow> string \<Rightarrow> bool" where
  "file_exists s p \<longleftrightarrow> map_of (st_tree s) p \<noteq> None"

definition below :: "string \<Rightarrow> string \<Rightarrow> bool" where
  "below d p \<longleftrightarrow> starts_with (d @ ''/'') p"

definition path_exists :: "app_state \<Rightarrow> string \<Rightarrow> bool" where
  "path_exists s p \<longleftrightarrow> file_exists s p \<or> list_ex (\<lambda>(q, _). below p q) (st_tree s)"

text \<open>Reading: \<^const>\<open>None\<close> stands for \<^verbatim>\<open>ErrorKind::NotFound\<close>.\<close>

definition read_file :: "env \<Rightarrow> app_state \<Rightarrow> string \<Rightarrow> string option + string" where
  "read_file V s p =
     (case map_of (st_tree s) p of
        None \<Rightarrow> Inl None
      | Some c \<Rightarrow> (case en_io V (IoRead p) of Some e \<Rightarrow> Inl (Some e) | None \<Rightarrow> Inr c))"

text \<open>\<^verbatim>\<open>read_to_string(..).unwrap_or_default()\<close>.\<close>

definition read_or_default :: "env \<Rightarrow> app_state \<Rightarrow> string \<Rightarrow> string" where
  "read_or_default V s p = (case read_file V s p of Inr c \<Rightarrow> c | Inl _ \<Rightarrow> [])"

definition put_file :: "string \<Rightarrow> string \<Rightarrow> app_state \<Rightarrow> app_state" where
  "put_file p c s = s\<lparr>st_tree := AList.update p c (st_tree s)\<rparr>"

definition write_file :: "env \<Rightarrow> string \<Rightarrow> string \<Rightarrow> string \<Rightarrow> app_state \<Rightarrow> unit outcome" where
  "write_file V context p c s =
     (case en_io V (IoWrite p) of Some e \<Rightarrow> (Inl (ErrIo context e), s) | None \<Rightarrow> (Inr (), put_file p c s))"

text \<open>\<^verbatim>\<open>OpenOptions::append\<close>: the text is added to what the file holds.\<close>

definition append_file :: "env \<Rightarrow> string \<Rightarrow> string \<Rightarrow> app_state \<Rightarrow> unit outcome" where
  "append_file V p c s =
     (case en_io V (IoWrite p) of
        Some e \<Rightarrow> (Inl (ErrIo ''write failed'' e), s)
      | None \<Rightarrow> (Inr (), put_file p ((case map_of (st_tree s) p of Some old \<Rightarrow> old | None \<Rightarrow> []) @ c) s))"

definition make_dir :: "env \<Rightarrow> string \<Rightarrow> string \<Rightarrow> daemon_error + unit" where
  "make_dir V context d = (case en_io V (IoMkdir d) of Some e \<Rightarrow> Inl (ErrIo context e) | None \<Rightarrow> Inr ())"

text \<open>The names in a directory, in the order the system lists them.\<close>

definition read_dir :: "env \<Rightarrow> app_state \<Rightarrow> string \<Rightarrow> string list" where
  "read_dir V s d =
     en_order V (remdups (List.map_filter
       (\<lambda>(p, _). map_option (takeWhile (\<lambda>c. c \<noteq> CHR ''/'')) (strip_prefix (d @ ''/'') p)) (st_tree s)))"

text \<open>Moving a file, or a directory with everything in it.\<close>

definition moved_name :: "string \<Rightarrow> string \<Rightarrow> string \<Rightarrow> string" where
  "moved_name a b p =
     (if p = a then b
      else case strip_prefix (a @ ''/'') p of Some r \<Rightarrow> b @ ''/'' @ r | None \<Rightarrow> p)"

definition move_path :: "string \<Rightarrow> string \<Rightarrow> tree \<Rightarrow> tree" where
  "move_path a b t = map (\<lambda>(p, c). (moved_name a b p, c)) t"

definition tree_has :: "tree \<Rightarrow> string \<Rightarrow> bool" where
  "tree_has t p \<longleftrightarrow> list_ex (\<lambda>(q, _). q = p \<or> below p q) t"

subsection \<open>Git operations of the handlers\<close>

definition author_for :: "app_state \<Rightarrow> string \<Rightarrow> string \<times> string" where
  "author_for s handler =
     (handler, case st_github_email s of Some e \<Rightarrow> e | None \<Rightarrow> handler @ ''@gitim'')"

definition add_and_commit_as ::
  "env \<Rightarrow> string list \<Rightarrow> string \<Rightarrow> string \<Rightarrow> app_state \<Rightarrow> (git_error + unit) \<times> app_state" where
  "add_and_commit_as V paths message author s =
     (case en_commit V paths message of
        Some e \<Rightarrow> (Inl e, s)
      | None \<Rightarrow> (Inr (), s\<lparr>st_commits := st_commits s
                   @ [\<lparr>ci_paths = paths, ci_message = message, ci_author = author_for s author\<rparr>]\<rparr>))"

definition add_and_commit_only_as ::
  "env \<Rightarrow> string \<Rightarrow> string \<Rightarrow> string \<Rightarrow> app_state \<Rightarrow> (git_error + string) \<times> app_state" where
  "add_and_commit_only_as V path message author s =
     (case add_and_commit_as V [path] message author s of
        (Inl e, s') \<Rightarrow> (Inl e, s')
      | (Inr _, s') \<Rightarrow> (en_head V, s'))"

definition git_mv :: "env \<Rightarrow> string \<Rightarrow> string \<Rightarrow> app_state \<Rightarrow> (git_error + unit) \<times> app_state" where
  "git_mv V a b s =
     (case en_mv V a b (st_tree s) of
        Inl e \<Rightarrow> (Inl e, s)
      | Inr t \<Rightarrow> (Inr (), s\<lparr>st_tree := t\<rparr>))"

text \<open>The push loop of the handlers: at most three attempts, each conflict followed by a fetch and a
  rebase.  \<open>left\<close> counts the attempts that remain.\<close>

definition max_push_retries :: nat where
  "max_push_retries = 3"

fun push_attempts :: "env \<Rightarrow> string \<Rightarrow> nat \<Rightarrow> app_state \<Rightarrow> unit outcome" where
  "push_attempts V op 0 s = (Inl (ErrPushConflicts op), s)"
| "push_attempts V op (Suc left) s =
     (case en_push V left of
        None \<Rightarrow> (Inr (), s)
      | Some PushConflict \<Rightarrow>
          (case en_fetch V left of
             Some e \<Rightarrow> (Inl (ErrGit (op @ '' fetch failed'') e), s)
           | None \<Rightarrow>
               (case en_rebase V left (st_tree s) of
                  Inl e \<Rightarrow> (Inl (ErrGit (op @ '' rebase failed'') e), s)
                | Inr t \<Rightarrow> push_attempts V op left (s\<lparr>st_tree := t\<rparr>)))
      | Some e \<Rightarrow> (Inl (ErrGit (op @ '' push failed'') e), s))"

definition push_with_retry :: "env \<Rightarrow> string \<Rightarrow> app_state \<Rightarrow> unit outcome" where
  "push_with_retry V op s = (if \<not> en_git_remote V then (Inr (), s) else push_attempts V op max_push_retries s)"

definition send_event :: "event \<Rightarrow> app_state \<Rightarrow> app_state" where
  "send_event e s = s\<lparr>st_events := st_events s @ [e]\<rparr>"

definition notify_push :: "app_state \<Rightarrow> app_state" where
  "notify_push s = s\<lparr>st_push_notified := True\<rparr>"

definition schedule_sync :: "app_state \<Rightarrow> app_state" where
  "schedule_sync s = (if st_has_remote s \<and> st_sync_started s then notify_push s else s)"

definition add_pending :: "string \<Rightarrow> nat \<Rightarrow> string \<Rightarrow> app_state \<Rightarrow> app_state" where
  "add_pending channel line commit s =
     s\<lparr>st_pending_push := st_pending_push s
        @ [\<lparr>pm_channel = channel, pm_line_number = line, pm_commit_id = commit\<rparr>]\<rparr>"

subsection \<open>Who is asking (handlers/mod.rs)\<close>

definition archived_user_path :: "string \<Rightarrow> string" where
  "archived_user_path author = ''archive/users/'' @ author @ ''.meta.yaml''"

definition ensure_author_not_departed :: "app_state \<Rightarrow> string \<Rightarrow> daemon_error + unit" where
  "ensure_author_not_departed s author = fail_if (path_exists s (archived_user_path author)) (ErrDeparted author)"

definition resolve_author :: "string option \<Rightarrow> app_state \<Rightarrow> daemon_error + string" where
  "resolve_author author s =
     (case author of
        Some a \<Rightarrow> if a \<noteq> [] then Inr a else ok_or ErrNoIdentity (st_current_user s)
      | None \<Rightarrow> ok_or ErrNoIdentity (st_current_user s))"

definition resolve_quick_session_actor :: "string option \<Rightarrow> app_state \<Rightarrow> daemon_error + string" where
  "resolve_quick_session_actor author s =
     andThen (ok_or ErrNoIdentity (st_current_user s)) (\<lambda>current.
     andThen (fail_if (case author of Some r \<Rightarrow> r \<noteq> [] \<and> r \<noteq> current | None \<Rightarrow> False)
                (ErrAuthorMismatch current (case author of Some r \<Rightarrow> r | None \<Rightarrow> []))) (\<lambda>_.
     andThen (ensure_author_not_departed s current) (\<lambda>_. Inr current)))"

definition resolve_board_author :: "string option \<Rightarrow> app_state \<Rightarrow> daemon_error + string" where
  "resolve_board_author author s =
     andThen (ok_or ErrNoIdentity (st_current_user s)) (\<lambda>current.
     andThen (case author of
                Some requested \<Rightarrow> fail_if (requested \<noteq> current) (ErrAuthorMismatch current requested)
              | None \<Rightarrow> Inr ()) (\<lambda>_.
     andThen (ensure_author_not_departed s current) (\<lambda>_. Inr current)))"

definition channel_thread_path :: "string \<Rightarrow> string" where
  "channel_thread_path name = ''channels/'' @ name @ ''.thread''"

definition channel_meta_path :: "string \<Rightarrow> string" where
  "channel_meta_path name = ''channels/'' @ name @ ''.meta.yaml''"

definition archived_channel_meta_path :: "string \<Rightarrow> string" where
  "archived_channel_meta_path name = ''archive/channels/'' @ name @ ''.meta.yaml''"

definition dm_thread_path :: "string \<Rightarrow> string" where
  "dm_thread_path stem = ''dm/'' @ stem @ ''.thread''"

definition archived_dm_path :: "string \<Rightarrow> string" where
  "archived_dm_path stem = ''archive/dm/'' @ stem @ ''.thread''"

definition resolve_thread_path :: "string \<Rightarrow> daemon_error + string \<times> string" where
  "resolve_thread_path channel =
     (case strip_prefix ''dm:'' channel of
        Some dm_rest \<Rightarrow>
          (let parts = split_on (CHR '','') dm_rest in
           if length parts \<noteq> 2 then Inl ErrDmFormat
           else andThen (map_err (ErrInvalidHandler ''DM handler'') (handler_new (parts ! 0))) (\<lambda>h1.
                andThen (map_err (ErrInvalidHandler ''DM handler'') (handler_new (parts ! 1))) (\<lambda>h2.
                  let name = dm_filename h1 h2 in Inr (dm_thread_path name, name))))
      | None \<Rightarrow>
          andThen (map_err ErrInvalidChannel (channel_name_new channel)) (\<lambda>name.
            Inr (channel_thread_path (channel_str name), channel_str name)))"
subsection \<open>What the operations leave alone\<close>

named_theorems daemon_frame "effects of the shared operations on the parts of the state"

lemma put_file_simps [simp]:
  "map_of (st_tree (put_file p c s)) = (map_of (st_tree s))(p \<mapsto> c)"
  "st_tree (put_file p c s) = AList.update p c (st_tree s)"
  "st_users (put_file p c s) = st_users s" "st_commits (put_file p c s) = st_commits s"
  "st_events (put_file p c s) = st_events s" "st_pending_push (put_file p c s) = st_pending_push s"
  by (simp_all add: put_file_def update_conv')

lemma notification_simps [simp]:
  "st_tree (send_event e s) = st_tree s" "st_users (send_event e s) = st_users s"
  "st_commits (send_event e s) = st_commits s" "st_pending_push (send_event e s) = st_pending_push s"
  "st_tree (notify_push s) = st_tree s" "st_users (notify_push s) = st_users s"
  "st_commits (notify_push s) = st_commits s" "st_pending_push (notify_push s) = st_pending_push s"
  "st_tree (schedule_sync s) = st_tree s" "st_users (schedule_sync s) = st_users s"
  "st_commits (schedule_sync s) = st_commits s" "st_pending_push (schedule_sync s) = st_pending_push s"
  "st_tree (add_pending ch l c s) = st_tree s" "st_users (add_pending ch l c s) = st_users s"
  "st_commits (add_pending ch l c s) = st_commits s"
  by (simp_all add: send_event_def notify_push_def schedule_sync_def add_pending_def)

lemma add_and_commit_frame [daemon_frame]:
  "add_and_commit_as V ps m a s = (r, s') \<Longrightarrow>
   st_tree s' = st_tree s \<and> st_users s' = st_users s
   \<and> (case r of Inl _ \<Rightarrow> s' = s
      | Inr _ \<Rightarrow> st_commits s' = st_commits s @ [\<lparr>ci_paths = ps, ci_message = m, ci_author = author_for s a\<rparr>])"
  by (auto simp: add_and_commit_as_def split: option.splits)

lemma add_and_commit_only_frame [daemon_frame]:
  "add_and_commit_only_as V p m a s = (r, s') \<Longrightarrow> st_tree s' = st_tree s \<and> st_users s' = st_users s"
  by (auto simp: add_and_commit_only_as_def add_and_commit_as_def split: option.splits)

lemma write_file_frame [daemon_frame]:
  "write_file V ctx p c s = (r, s') \<Longrightarrow> r = Inr () \<and> s' = put_file p c s \<or> (\<exists>e. r = Inl e) \<and> s' = s"
  by (auto simp: write_file_def split: option.splits)

lemma append_file_frame [daemon_frame]:
  "append_file V p c s = (r, s') \<Longrightarrow>
   r = Inr () \<and> s' = put_file p ((case map_of (st_tree s) p of Some old \<Rightarrow> old | None \<Rightarrow> []) @ c) s
   \<or> (\<exists>e. r = Inl e) \<and> s' = s"
  by (auto simp: append_file_def split: option.splits)

text \<open>A run in which no push meets a conflict: then no rebase changes the tree.\<close>

definition no_rebase :: "env \<Rightarrow> bool" where
  "no_rebase V \<longleftrightarrow> \<not> en_git_remote V \<or> (\<forall>n. en_push V n \<noteq> Some PushConflict)"

lemma push_frame [daemon_frame]:
  assumes "no_rebase V" "push_with_retry V op s = (r, s')"
  shows "s' = s"
proof -
  have "snd (push_attempts V op n s) = s" if "\<forall>n. en_push V n \<noteq> Some PushConflict" for n
    using that by (cases n) (auto split: option.splits git_error.splits)
  then show ?thesis using assms by (auto simp: push_with_retry_def no_rebase_def split: if_splits) (metis snd_conv)
qed

text \<open>The documented behaviour of \<^verbatim>\<open>git mv\<close>: it fails without a source or on an existing target file; the
  source moves to the target, or into it when the target is a directory.\<close>

definition base_name :: "string \<Rightarrow> string" where
  "base_name p = rev (takeWhile (\<lambda>c. c \<noteq> CHR ''/'') (rev p))"

definition mv_target :: "string \<Rightarrow> string \<Rightarrow> tree \<Rightarrow> string" where
  "mv_target a b t = (if list_ex (\<lambda>(q, _). below b q) t then b @ ''/'' @ base_name a else b)"

definition git_ok :: "env \<Rightarrow> bool" where
  "git_ok V \<longleftrightarrow>
     (\<forall>a b t t'. en_mv V a b t = Inr t' \<longrightarrow>
        tree_has t a \<and> \<not> tree_has t (mv_target a b t) \<and> t' = move_path a (mv_target a b t) t)"

lemma git_mv_frame [daemon_frame]:
  assumes "git_ok V" "git_mv V a b s = (r, s')"
  shows "(\<exists>e. r = Inl e) \<and> s' = s
    \<or> r = Inr () \<and> \<not> tree_has (st_tree s) (mv_target a b (st_tree s))
      \<and> s' = s\<lparr>st_tree := move_path a (mv_target a b (st_tree s)) (st_tree s)\<rparr>"
  using assms unfolding git_mv_def git_ok_def by (auto split: sum.splits)

subsection \<open>A concrete environment\<close>

text \<open>An environment without failures whose YAML library knows no document, and an empty repository with two
  users; the instances that show a hypothesis satisfiable start from them.\<close>

definition base_env :: env where
  "base_env =
     \<lparr>en_ext = ref_ext, en_now = ''20260101T000000Z'', en_io = (\<lambda>_. None), en_commit = (\<lambda>_ _. None),
      en_head = Inr ''c0ffee'',
      en_mv = (\<lambda>a b t. if tree_has t a \<and> \<not> tree_has t (mv_target a b t) then Inr (move_path a (mv_target a b t) t)
                       else Inl (CommandFailed ''mv'')),
      en_git_remote = False, en_push = (\<lambda>_. None), en_fetch = (\<lambda>_. None), en_rebase = (\<lambda>_ t. Inr t),
      en_checkout = (\<lambda>_ t. t), en_order = (\<lambda>l. l), en_fresh = ''abcdef'', en_run_stamp = ''20260101T000000'',
      en_channel_read = (\<lambda>_. None), en_channel_write = (\<lambda>_. None),
      en_card_read = (\<lambda>_. None), en_card_write = (\<lambda>_. None), en_session_read = (\<lambda>_. None),
      en_session_write = (\<lambda>_. None), en_board_read = (\<lambda>_. None), en_board_write = (\<lambda>_. None),
      en_flow_read = (\<lambda>_. None), en_flow_write = (\<lambda>_. None), en_run_read = (\<lambda>_. None), en_run_write = (\<lambda>_. None),
      en_user_read = (\<lambda>_. None), en_user_write = (\<lambda>_. None), en_project_read = (\<lambda>_. None),
      en_project_write = (\<lambda>_. None)\<rparr>"

definition base_state :: app_state where
  "base_state =
     \<lparr>st_tree = [], st_users = [''alice'', ''bob''], st_current_user = Some ''alice'', st_github_email = None,
      st_is_admin = False, st_is_guest = False, st_has_remote = False, st_sync_started = False,
      st_pending_push = [], st_events = [], st_push_notified = False, st_commits = []\<rparr>"

end
