(* ===== verification/Daemon_Store.thy ===== *)
theory Daemon_Store
  imports Daemon
begin

text \<open>
  Documents kept one per file: boards, flows, flow runs.  Their handlers share the last part of a write
  (create the directory, write the file, commit it), and what they keep true has the same form: every
  file of an area of the tree holds acceptable content.  The locale \<open>file_store\<close> states this contract; each
  family of documents interprets it.
\<close>

definition parent_dir :: "string \<Rightarrow> string" where
  "parent_dir p = take (length p - length (base_name p) - 1) p"

definition commit_document ::
  "env \<Rightarrow> string \<Rightarrow> string \<Rightarrow> string \<Rightarrow> string \<Rightarrow> string \<Rightarrow> string \<Rightarrow> string \<Rightarrow> app_state \<Rightarrow> string outcome" where
  "commit_document V mkdir_context write_context commit_context rel content message author s =
     (case make_dir V mkdir_context (parent_dir rel) of
        Inl e \<Rightarrow> (Inl e, s)
      | Inr _ \<Rightarrow>
          (case write_file V write_context rel content s of
             (Inl e, s1) \<Rightarrow> (Inl e, s1)
           | (Inr _, s1) \<Rightarrow>
               (case add_and_commit_only_as V rel message author s1 of
                  (Inl e, s2) \<Rightarrow> (Inl (ErrGit commit_context e), s2)
                | (Inr commit_id, s2) \<Rightarrow> (Inr commit_id, s2))))"

text \<open>\<^verbatim>\<open>remove_dir_all\<close>.\<close>

definition remove_below :: "string \<Rightarrow> tree \<Rightarrow> tree" where
  "remove_below d t = filter (\<lambda>(p, _). \<not> (p = d \<or> below d p)) t"

lemma commit_document_frame [daemon_frame]:
  assumes "commit_document V c1 c2 c3 rel content m a s = (r, s')"
  shows "st_users s' = st_users s
    \<and> (st_tree s' = AList.update rel content (st_tree s) \<or> (\<exists>e. r = Inl e) \<and> st_tree s' = st_tree s)"
proof -
  obtain r1 s1 where w: "write_file V c2 rel content s = (r1, s1)" by force
  obtain r2 s2 where c: "add_and_commit_only_as V rel m a s1 = (r2, s2)" by force
  show ?thesis
    using assms w c write_file_frame [OF w] add_and_commit_only_frame [OF c]
    by (auto simp: commit_document_def split: sum.splits)
qed

subsection \<open>Rollback\<close>

text \<open>The write that puts a file back: a failure is only logged, and the directory must be there.\<close>

definition restore_file :: "env \<Rightarrow> string \<Rightarrow> string \<Rightarrow> app_state \<Rightarrow> app_state" where
  "restore_file V p c s =
     (if path_exists s (parent_dir p) \<and> en_io V (IoRestore p) = None then put_file p c s else s)"

definition restore_files :: "env \<Rightarrow> (string \<times> string) list \<Rightarrow> app_state \<Rightarrow> app_state" where
  "restore_files V files s = fold (\<lambda>(p, c). restore_file V p c) files s"

definition remove_dir_all :: "env \<Rightarrow> string \<Rightarrow> app_state \<Rightarrow> app_state" where
  "remove_dir_all V d s =
     (case en_io V (IoRemove d) of Some _ \<Rightarrow> s | None \<Rightarrow> s\<lparr>st_tree := remove_below d (st_tree s)\<rparr>)"

lemma update_commute:
  "p \<noteq> q \<Longrightarrow> map_of t p = Some c \<Longrightarrow> AList.update p a (AList.update q b t) = AList.update q b (AList.update p a t)"
  by (induction t) (auto split: if_splits)

lemma update_same: "map_of t p = Some c \<Longrightarrow> AList.update p c t = t"
  by (induction t) auto

lemma base_name_file [simp]: "CHR ''/'' \<notin> set f \<Longrightarrow> base_name (d @ CHR ''/'' # f) = f"
proof -
  assume "CHR ''/'' \<notin> set f"
  then have "takeWhile (\<lambda>c. c \<noteq> CHR ''/'') (rev f @ CHR ''/'' # rev d) = rev f"
    by (subst takeWhile_tail, simp) (auto simp: takeWhile_eq_all_conv)
  then show ?thesis by (simp add: base_name_def)
qed

lemma no_slash_split:
  assumes "x @ y = x' @ y'" "CHR ''/'' \<notin> set x" "CHR ''/'' \<notin> set x'" "y = [] \<or> hd y = CHR ''/''" "y' = [] \<or> hd y' = CHR ''/''"
  shows "x = x'"
  using assms
proof (induction x arbitrary: x')
  case Nil
  then show ?case by (cases x') auto
next
  case (Cons c x)
  then show ?case by (cases x') auto
qed

lemma parent_dir_file: "CHR ''/'' \<notin> set f \<Longrightarrow> parent_dir (d @ CHR ''/'' # f) = d"
  by (simp add: parent_dir_def)

lemma path_exists_below: "map_of (st_tree s) p \<noteq> None \<Longrightarrow> below d p \<Longrightarrow> path_exists s d"
  by (auto simp: path_exists_def list_ex_iff dest!: map_of_SomeD)

definition in_dir :: "string \<Rightarrow> string \<Rightarrow> bool" where
  "in_dir d p \<longleftrightarrow> p = d \<or> below d p"

text \<open>What a rollback needs: the files can be written back, directories removed, and a move to a free place
  undone.\<close>

definition rollback_ok :: "env \<Rightarrow> bool" where
  "rollback_ok V \<longleftrightarrow>
     (\<forall>p. en_io V (IoRestore p) = None \<and> en_io V (IoRemove p) = None)
     \<and> (\<forall>a b t t'. en_mv V a b t = Inr t' \<and> \<not> tree_has t b \<and> \<not> in_dir a b \<and> \<not> in_dir b a \<longrightarrow> is_ok (en_mv V b a t'))"

lemma restore_file_ok:
  "rollback_ok V \<Longrightarrow> map_of (st_tree s) p \<noteq> None \<Longrightarrow> below (parent_dir p) p \<Longrightarrow> restore_file V p c s = put_file p c s"
  using path_exists_below by (simp add: restore_file_def rollback_ok_def)

lemma put_file_back: "map_of (st_tree s) p = Some c \<Longrightarrow> put_file p c (put_file p c' s) = s"
  by (simp add: put_file_def update_same)

lemma put_file_same: "map_of (st_tree s) p = Some c \<Longrightarrow> put_file p c s = s"
  by (simp add: put_file_def update_same)

lemma put_file_commute:
  "p \<noteq> q \<Longrightarrow> map_of (st_tree s) p = Some c \<Longrightarrow> put_file p a (put_file q b s) = put_file q b (put_file p a s)"
  using update_commute [of p q "st_tree s" c] by (simp add: put_file_def)

lemma restore_one:
  assumes "rollback_ok V" "map_of (st_tree s) p = Some c" "below (parent_dir p) p" "s1 = s \<or> s1 = put_file p c' s"
  shows "restore_files V [(p, c)] s1 = s" "restore_file V p c s1 = s"
  using assms by (auto simp: restore_files_def restore_file_ok update_conv' put_file_back put_file_same)

lemma restore_pair:
  assumes "rollback_ok V" "map_of (st_tree s) p = Some c" "map_of (st_tree s) q = Some d" "p \<noteq> q"
    "below (parent_dir p) p" "below (parent_dir q) q"
    and s1: "s1 = s \<or> s1 = put_file p c' s \<or> s1 = put_file q d' (put_file p c' s)"
  shows "restore_files V [(p, c), (q, d)] s1 = s"
proof -
  have "restore_file V p c s1 = s \<or> restore_file V p c s1 = put_file q d' s"
    using s1 assms(1-6)
    by (auto simp: restore_file_ok update_conv' put_file_back put_file_same put_file_commute [of p q])
  then show ?thesis using restore_one(2) [OF assms(1,3,6)] by (auto simp: restore_files_def)
qed

subsection \<open>Directories and moves\<close>

lemma tree_has_iff: "tree_has t d \<longleftrightarrow> (\<exists>p. in_dir d p \<and> map_of t p \<noteq> None)"
  by (auto simp: tree_has_def list_ex_iff in_dir_def weak_map_of_SomeI dest: map_of_SomeD)

lemma moved_name_cases:
  "p = a \<and> moved_name a b p = b \<or> (\<exists>r. moved_name a b p = b @ ''/'' @ r) \<or> moved_name a b p = p"
proof (cases "strip_prefix (a @ ''/'') p")
  case (Some r)
  then have "moved_name a b p = b @ ''/'' @ r \<or> p = a \<and> moved_name a b p = b"
    unfolding moved_name_def by (simp only: option.case) simp
  then show ?thesis by blast
qed (simp add: moved_name_def)

lemma moved_name_inj:
  assumes "distinct (map fst t)" "\<not> tree_has t b"
  shows "inj_on (moved_name a b) (fst ` set t)"
proof (rule inj_onI)
  fix p q assume pq: "p \<in> fst ` set t" "q \<in> fst ` set t" "moved_name a b p = moved_name a b q"
  have nb: "p \<noteq> b \<and> \<not> (\<exists>r. p = b @ ''/'' @ r)" if "p \<in> fst ` set t" for p
    using assms(2) that by (fastforce simp: tree_has_def below_def list_ex_iff starts_with_iff prefix_def)
  show "p = q"
    using pq(3) nb [OF pq(1)] nb [OF pq(2)]
    by (auto simp: moved_name_def split: if_splits option.splits)
qed

lemma map_of_move:
  assumes "distinct (map fst t)" "\<not> tree_has t b" "map_of (move_path a b t) q = Some c"
  shows "\<exists>p. map_of t p = Some c \<and> q = moved_name a b p"
proof -
  have "(q, c) \<in> set (move_path a b t)" using assms(3) by (rule map_of_SomeD)
  then obtain p where "(p, c) \<in> set t" "q = moved_name a b p" by (auto simp: move_path_def)
  then show ?thesis using assms(1) by (metis map_of_eq_Some_iff)
qed

lemma below_iff: "below d p \<longleftrightarrow> (\<exists>r. p = d @ ''/'' @ r)"
  by (auto simp: below_def starts_with_iff prefix_def)

lemma moved_self [simp]: "moved_name a b a = b"
  by (simp add: moved_name_def)

lemma moved_below [simp]: "moved_name a b (a @ CHR ''/'' # r) = b @ CHR ''/'' # r"
proof -
  have e: "strip_prefix (a @ ''/'') (a @ CHR ''/'' # r) = Some r" by simp
  show ?thesis unfolding moved_name_def e by simp
qed

lemma moved_in: "in_dir a p \<Longrightarrow> in_dir b (moved_name a b p) \<and> moved_name b a (moved_name a b p) = p"
  by (auto simp: in_dir_def below_iff)

lemma moved_out: "\<not> in_dir a p \<Longrightarrow> moved_name a b p = p"
  by (auto simp: in_dir_def below_iff moved_name_def split: option.splits)

lemma distinct_move:
  assumes "distinct (map fst t)" "\<not> tree_has t b"
  shows "distinct (map fst (move_path a b t))"
proof -
  have "distinct (map (moved_name a b) (map fst t))"
    using moved_name_inj [OF assms] assms(1) by (simp add: distinct_map del: map_map)
  then show ?thesis by (simp add: move_path_def comp_def case_prod_beta)
qed

lemma map_of_move_path:
  assumes d: "distinct (map fst t)" and free: "\<not> tree_has t b" and apart: "\<not> (\<exists>p. in_dir a p \<and> in_dir b p)"
  shows "map_of (move_path a b t) q =
    (if in_dir b q then map_of t (moved_name b a q) else if in_dir a q then None else map_of t q)"
proof -
  have iff: "map_of (move_path a b t) q = Some c \<longleftrightarrow> (\<exists>p. map_of t p = Some c \<and> q = moved_name a b p)" for c
    unfolding map_of_eq_Some_iff [OF distinct_move [OF d free]] map_of_eq_Some_iff [OF d] by (auto simp: move_path_def)
  have nb: "\<not> in_dir b p" if "map_of t p = Some c" for p c using free that by (auto simp: tree_has_iff)
  show ?thesis
  proof (cases "in_dir a q \<or> in_dir b q")
    case False
    then have "map_of (move_path a b t) q = Some c \<longleftrightarrow> map_of t q = Some c" for c
      using iff [of c] moved_in moved_out by metis
    then show ?thesis using False by (metis option.exhaust)
  next
    case True
    then consider (src) "in_dir a q" "\<not> in_dir b q" | (dst) "in_dir b q" "\<not> in_dir a q" using apart by blast
    then show ?thesis
    proof cases
      case src
      then have "map_of (move_path a b t) q \<noteq> Some c" for c using iff [of c] moved_in moved_out by metis
      then show ?thesis using src by (metis option.exhaust)
    next
      case dst
      then have "map_of (move_path a b t) q = Some c \<longleftrightarrow> map_of t (moved_name b a q) = Some c" for c
        using iff [of c] nb moved_in moved_out by metis
      then show ?thesis using dst by (metis option.exhaust)
    qed
  qed
qed

lemma move_back:
  assumes "\<not> tree_has t b"
  shows "move_path b a (move_path a b t) = t"
proof -
  have "\<not> in_dir b p" if "(p, c) \<in> set t" for p c
    using assms that by (auto simp: tree_has_def in_dir_def list_ex_iff)
  then have "moved_name b a (moved_name a b p) = p" if "(p, c) \<in> set t" for p c
    using that by (cases "in_dir a p") (auto simp: moved_in moved_out)
  then show ?thesis by (auto simp: move_path_def intro!: map_idI)
qed

lemma move_leaves_nothing:
  assumes "\<not> (\<exists>p. in_dir a p \<and> in_dir b p)"
  shows "\<not> tree_has (move_path a b t) a"
proof
  assume "tree_has (move_path a b t) a"
  then obtain p where "in_dir a (moved_name a b p)"
    by (auto simp: tree_has_def in_dir_def move_path_def list_ex_iff)
  then show False using assms moved_in [of a p b] moved_out [of a p b] by (cases "in_dir a p") auto
qed

lemma mv_target_free: "\<not> tree_has t b \<Longrightarrow> mv_target a b t = b"
  by (auto simp: mv_target_def tree_has_def list_ex_iff)

lemma in_dir_common: "in_dir a p \<Longrightarrow> in_dir b p \<Longrightarrow> in_dir a b \<or> in_dir b a"
proof -
  assume "in_dir a p" "in_dir b p"
  then obtain x y where e: "a @ x = b @ y" "x = [] \<or> hd x = CHR ''/''" "y = [] \<or> hd y = CHR ''/''"
    by (fastforce simp: in_dir_def below_iff)
  from e(1) obtain u where "a = b @ u \<and> u @ x = y \<or> a @ u = b \<and> x = u @ y" by (auto simp: append_eq_append_conv2)
  then show ?thesis using e(2,3) by (cases u) (auto simp: in_dir_def below_iff)
qed

lemma base_mv_undo:
  assumes "en_mv base_env a b t = Inr t'" "\<not> tree_has t b" "\<not> in_dir a b" "\<not> in_dir b a"
  shows "is_ok (en_mv base_env b a t')"
proof -
  have apart: "\<not> (\<exists>p. in_dir a p \<and> in_dir b p)" using in_dir_common assms(3,4) by blast
  have t: "tree_has t a" "t' = move_path a b t"
    using assms(1,2) mv_target_free [OF assms(2), of a] by (auto simp: base_env_def split: if_splits)
  have gone: "\<not> tree_has t' a" using move_leaves_nothing [OF apart] t(2) by simp
  obtain p c where "(p, c) \<in> set t" "in_dir a p" using t(1) by (auto simp: tree_has_def list_ex_iff in_dir_def)
  then have "tree_has t' b"
    using t(2) moved_in [of a p b] by (force simp: tree_has_def list_ex_iff in_dir_def move_path_def)
  then show ?thesis using gone mv_target_free [OF gone, of b] by (simp add: base_env_def is_ok_iff)
qed

lemma rollback_ok_base: "en_mv V = en_mv base_env \<Longrightarrow> en_io V = (\<lambda>_. None) \<Longrightarrow> rollback_ok V"
  using base_mv_undo unfolding rollback_ok_def by auto

subsection \<open>Stores\<close>

locale file_store =
  fixes area :: "string \<Rightarrow> bool" and good :: "string \<Rightarrow> string \<Rightarrow> bool"
  assumes good_outside: "\<not> area p \<Longrightarrow> good p c"
begin

definition store_ok :: "tree \<Rightarrow> bool" where
  "store_ok t \<longleftrightarrow> (\<forall>(p, c) \<in> set t. good p c)"

lemma store_okD: "store_ok t \<Longrightarrow> map_of t p = Some c \<Longrightarrow> good p c"
  by (auto simp: store_ok_def dest: map_of_SomeD)

lemma store_ok_Nil: "store_ok []"
  by (simp add: store_ok_def)

lemma store_ok_fresh: "(\<And>p c. (p, c) \<in> set t \<Longrightarrow> \<not> area p) \<Longrightarrow> store_ok t"
  using good_outside by (force simp: store_ok_def)

lemma store_ok_update: "store_ok t \<Longrightarrow> good p c \<Longrightarrow> store_ok (AList.update p c t)"
  unfolding store_ok_def by (induction t) (auto split: if_splits)

lemma store_ok_outside: "store_ok t \<Longrightarrow> \<not> area p \<Longrightarrow> store_ok (AList.update p c t)"
  using store_ok_update good_outside by blast

lemma store_ok_filter: "store_ok t \<Longrightarrow> store_ok (filter P t)"
  by (auto simp: store_ok_def)

lemma store_ok_move_out:
  assumes "store_ok t" "\<not> area b" "\<And>r. \<not> area (b @ ''/'' @ r)"
  shows "store_ok (move_path a b t)"
proof -
  have "good (moved_name a b p) c" if "good p c" for p c
    using that assms(2,3) good_outside by (auto simp: moved_name_def split: option.splits)
  then show ?thesis using assms(1) by (auto simp: store_ok_def move_path_def)
qed

lemma store_ok_commit:
  assumes "commit_document V c1 c2 c3 p content m a s = (r, s')" "store_ok (st_tree s)" "good p content"
  shows "store_ok (st_tree s')"
  using commit_document_frame [OF assms(1)] store_ok_update [OF assms(2,3)] assms(2) by auto

end

end
