(* ===== verification/Daemon_Boards.thy ===== *)
theory Daemon_Boards
  imports Daemon_Store
begin

text \<open>
  The board handlers (\<^verbatim>\<open>board_handlers.rs\<close>).  Known users are read before \<^verbatim>\<open>commit_lock\<close> is taken (\<open>s0\<close>);
  everything else happens under it (\<open>s\<close>).  The property: whatever the handlers are asked to do, every board
  in the tree can be shown.
\<close>

record committed_board =
  cb_handler :: string
  cb_path :: string
  cb_commit_id :: string

record board_summary =
  bs_handler :: string
  bs_path :: string
  bs_updated_at :: string
  bs_status :: string
  bs_summary :: string
  bs_labels :: "string list"

datatype board_response =
    WriteBoardResponse string string string string
  | ReadBoardResponse string string board_meta string
  | ListBoardsResponse "board_summary list"

definition ensure_known_user :: "app_state \<Rightarrow> string \<Rightarrow> daemon_error + unit" where
  "ensure_known_user s handler =
     andThen (map_err ErrInvalidAuthor (handler_new handler)) (\<lambda>h.
       fail_if (as_str h \<notin> set (st_users s)) (ErrUnknownUser (as_str h)))"

definition read_board_content :: "env \<Rightarrow> app_state \<Rightarrow> string \<Rightarrow> string \<Rightarrow> daemon_error + string" where
  "read_board_content V s rel handler =
     (case read_file V s rel of
        Inr content \<Rightarrow> Inr content
      | Inl None \<Rightarrow> Inl (ErrNoBoard handler)
      | Inl (Some e) \<Rightarrow> Inl (ErrIo ''failed to read board'' e))"

definition parse_board :: "env \<Rightarrow> string \<Rightarrow> daemon_error + board_document" where
  "parse_board V content =
     map_err ErrBoardMarkdown (parse_board_markdown (en_board_read V) (en_board_write V) content)"

definition commit_board_document_locked ::
  "env \<Rightarrow> string \<Rightarrow> board_document \<Rightarrow> string \<Rightarrow> app_state \<Rightarrow> committed_board outcome" where
  "commit_board_document_locked V author doc message_prefix s =
     (case andThen (map_err ErrBoard (validate_board_for_handler (en_board_write V) doc author)) (\<lambda>_.
           andThen (map_err ErrBoard (board_path author)) (\<lambda>rel.
           andThen (map_err ErrBoardMarkdown (stringify_board_markdown (en_board_write V) doc)) (\<lambda>rendered.
             Inr (rel, rendered)))) of
        Inl e \<Rightarrow> (Inl e, s)
      | Inr (rel, rendered) \<Rightarrow>
          (case commit_document V ''failed to create board dir'' ''failed to write board'' ''board commit failed''
                  rel rendered (message_prefix @ '' @'' @ author) author s of
             (Inl e, s1) \<Rightarrow> (Inl e, s1)
           | (Inr commit_id, s1) \<Rightarrow>
               (Inr \<lparr>cb_handler = author, cb_path = rel, cb_commit_id = commit_id\<rparr>, s1)))"

definition init_board :: "env \<Rightarrow> string \<Rightarrow> app_state \<Rightarrow> committed_board outcome" where
  "init_board V author s =
     (case andThen (map_err ErrBoard (board_path author)) (\<lambda>rel.
           andThen (fail_if (path_exists s rel) (ErrExists ''board'' author)) (\<lambda>_.
             map_err ErrBoard (default_board (en_board_write V) author (en_now V)))) of
        Inl e \<Rightarrow> (Inl e, s)
      | Inr doc \<Rightarrow> commit_board_document_locked V author doc ''board: init'' s)"

definition touch_board :: "env \<Rightarrow> board_document \<Rightarrow> board_document" where
  "touch_board V doc = doc\<lparr>bd_meta := (bd_meta doc)\<lparr>bm_updated_at := en_now V\<rparr>\<rparr>"

definition publish_board :: "env \<Rightarrow> string \<Rightarrow> string option \<Rightarrow> app_state \<Rightarrow> committed_board outcome" where
  "publish_board V author content s =
     (case andThen (map_err ErrBoard (board_path author)) (\<lambda>rel.
           andThen (case content of
                      Some c \<Rightarrow> parse_board V c
                    | None \<Rightarrow> andThen (read_board_content V s rel author) (parse_board V)) (\<lambda>doc.
           andThen (map_err ErrBoard (validate_board_for_handler (en_board_write V) doc author)) (\<lambda>_.
             Inr doc))) of
        Inl e \<Rightarrow> (Inl e, s)
      | Inr doc \<Rightarrow> commit_board_document_locked V author (touch_board V doc) ''board: update'' s)"

definition mutate_existing_board ::
  "env \<Rightarrow> string \<Rightarrow> (board_document \<Rightarrow> (board_error + unit) \<times> board_document) \<Rightarrow> app_state \<Rightarrow> committed_board outcome" where
  "mutate_existing_board V author mutate s =
     (case andThen (map_err ErrBoard (board_path author)) (\<lambda>rel.
           andThen (read_board_content V s rel author) (\<lambda>content.
           andThen (parse_board V content) (\<lambda>doc.
           andThen (map_err ErrBoard (validate_board_for_handler (en_board_write V) doc author)) (\<lambda>_.
           andThen (map_err ErrBoard (fst (mutate doc))) (\<lambda>_.
             Inr (snd (mutate doc))))))) of
        Inl e \<Rightarrow> (Inl e, s)
      | Inr doc \<Rightarrow> commit_board_document_locked V author (touch_board V doc) ''board: update'' s)"

definition board_write_success :: "committed_board \<Rightarrow> app_state \<Rightarrow> board_response outcome" where
  "board_write_success committed s =
     (Inr (WriteBoardResponse (cb_handler committed) (cb_path committed) ''committed'' (cb_commit_id committed)),
      notify_push (send_event (BoardUpdated (cb_handler committed)) s))"

text \<open>The frame of every write handler.\<close>

definition board_write ::
  "app_state \<Rightarrow> string \<Rightarrow> (app_state \<Rightarrow> committed_board outcome) \<Rightarrow> app_state \<Rightarrow> board_response outcome" where
  "board_write s0 author write s =
     (case ensure_known_user s0 author of
        Inl e \<Rightarrow> (Inl e, s)
      | Inr _ \<Rightarrow>
          (case write s of
             (Inl e, s1) \<Rightarrow> (Inl e, s1)
           | (Inr committed, s1) \<Rightarrow> board_write_success committed s1))"

definition handle_board_init :: "env \<Rightarrow> app_state \<Rightarrow> string \<Rightarrow> app_state \<Rightarrow> board_response outcome" where
  "handle_board_init V s0 author s = board_write s0 author (init_board V author) s"

definition handle_board_publish ::
  "env \<Rightarrow> app_state \<Rightarrow> string \<Rightarrow> string option \<Rightarrow> app_state \<Rightarrow> board_response outcome" where
  "handle_board_publish V s0 author content s = board_write s0 author (publish_board V author content) s"

definition handle_board_set ::
  "env \<Rightarrow> app_state \<Rightarrow> string \<Rightarrow> string \<Rightarrow> string \<Rightarrow> app_state \<Rightarrow> board_response outcome" where
  "handle_board_set V s0 author field value s =
     board_write s0 author (mutate_existing_board V author (set_board_field (en_board_write V) field value)) s"

definition handle_board_section_set ::
  "env \<Rightarrow> app_state \<Rightarrow> string \<Rightarrow> string \<Rightarrow> string \<Rightarrow> app_state \<Rightarrow> board_response outcome" where
  "handle_board_section_set V s0 author sec value s =
     board_write s0 author (mutate_existing_board V author (set_board_section (en_board_write V) sec value)) s"

definition handle_board_section_append ::
  "env \<Rightarrow> app_state \<Rightarrow> string \<Rightarrow> string \<Rightarrow> string \<Rightarrow> app_state \<Rightarrow> board_response outcome" where
  "handle_board_section_append V s0 author sec value s =
     board_write s0 author (mutate_existing_board V author (append_board_section (en_board_write V) sec value)) s"

definition handle_board_show :: "env \<Rightarrow> app_state \<Rightarrow> string \<Rightarrow> daemon_error + board_response" where
  "handle_board_show V s handler =
     andThen (map_err (ErrInvalidHandler ''handler'') (handler_new handler)) (\<lambda>_.
     andThen (map_err ErrBoard (board_path handler)) (\<lambda>rel.
     andThen (read_board_content V s rel handler) (\<lambda>content.
     andThen (parse_board V content) (\<lambda>doc.
     andThen (map_err ErrBoard (validate_board_for_handler (en_board_write V) doc handler)) (\<lambda>_.
       Inr (ReadBoardResponse handler rel (bd_meta doc) (bd_body doc)))))))"

definition board_entry :: "env \<Rightarrow> app_state \<Rightarrow> string \<Rightarrow> board_summary option" where
  "board_entry V s handler =
     (if \<not> is_ok (handler_new handler) \<or> handler \<notin> set (st_users s) then None
      else case board_path handler of
        Inl _ \<Rightarrow> None
      | Inr rel \<Rightarrow>
          (case andThen (map_err (\<lambda>_. ErrNoBoard handler) (read_file V s rel)) (parse_board V) of
             Inl _ \<Rightarrow> None
           | Inr doc \<Rightarrow>
               if \<not> is_ok (validate_board_for_handler (en_board_write V) doc handler) then None
               else Some \<lparr>bs_handler = handler, bs_path = rel, bs_updated_at = bm_updated_at (bd_meta doc),
                 bs_status = bm_status (bd_meta doc), bs_summary = bm_summary (bd_meta doc),
                 bs_labels = bm_labels (bd_meta doc)\<rparr>))"

definition handle_board_list :: "env \<Rightarrow> app_state \<Rightarrow> daemon_error + board_response" where
  "handle_board_list V s =
     (if path_exists s ''showboards'' then
        (case en_io V (IoRead ''showboards'') of
           Some e \<Rightarrow> Inl (ErrIo ''failed to list boards'' e)
         | None \<Rightarrow>
             Inr (ListBoardsResponse
               (sort_key bs_handler (List.map_filter (board_entry V s) (read_dir V s ''showboards'')))))
      else Inr (ListBoardsResponse []))"

subsection \<open>Every stored board can be shown\<close>

definition board_file :: "string \<Rightarrow> string" where
  "board_file h = ''showboards/'' @ h @ ''/board.md''"

lemma board_path_Inr: "board_path h = Inr p \<longleftrightarrow> is_ok (handler_new h) \<and> p = board_file h"
  using handler_name.file_path [of h "''showboards''" "''board.md''"]
  by (auto simp: board_path_def board_file_def is_ok_iff handler_new_Inr)

text \<open>What the file of a handler must hold: a document that parses and belongs to the handler.\<close>

definition board_good :: "(string \<Rightarrow> board_meta option) \<Rightarrow> (board_meta \<Rightarrow> string option) \<Rightarrow> string \<Rightarrow> string \<Rightarrow> bool" where
  "board_good R W h c \<longleftrightarrow>
     (\<exists>doc. parse_board_markdown R W c = Inr doc \<and> validate_board_for_handler W doc h = Inr ())"

lemma board_file_inj [simp]: "board_file h = board_file h' \<longleftrightarrow> h = h'"
  by (simp add: board_file_def)

interpretation boards: file_store "\<lambda>p. \<exists>h. p = board_file h" "\<lambda>p c. \<forall>h. p = board_file h \<longrightarrow> board_good R W h c" for R W
  by unfold_locales blast

lemma validate_board_for_handler_Inr:
  "validate_board_for_handler W doc h = Inr () \<longleftrightarrow>
     is_ok (handler_new h) \<and> validate_board_document W doc = Inr () \<and> bm_handler (bd_meta doc) = h"
  by (auto simp: validate_board_for_handler_def is_ok_iff handler_new_Inr)

lemma written_board_good:
  assumes "board_yaml R W" "validate_board_for_handler W doc h = Inr ()" "stringify_board_markdown W doc = Inr out"
  shows "board_good R W h out"
proof -
  let ?doc = "doc\<lparr>bd_body := stored_body (bd_body doc)\<rparr>"
  have p: "parse_board_markdown R W out = Inr ?doc" using written_board_read [OF assms(1,3)] .
  then have "validate_board_document W ?doc = Inr ()"
    by (auto simp: parse_board_markdown_def Let_def split: if_splits)
  then show ?thesis using p assms(2) by (auto simp: board_good_def validate_board_for_handler_Inr)
qed

lemma commit_board_keeps:
  assumes "commit_board_document_locked V author doc m s = (r, s')"
    "board_yaml (en_board_read V) (en_board_write V)"
    "boards.store_ok (en_board_read V) (en_board_write V) (st_tree s)"
  shows "boards.store_ok (en_board_read V) (en_board_write V) (st_tree s')"
proof (cases "\<exists>e. r = Inl e \<and> s' = s")
  case False
  let ?W = "en_board_write V"
  obtain rendered r1 where v: "validate_board_for_handler ?W doc author = Inr ()" "stringify_board_markdown ?W doc = Inr rendered"
      and c: "commit_document V ''failed to create board dir'' ''failed to write board'' ''board commit failed''
         (board_file author) rendered (m @ '' @'' @ author) author s = (r1, s')"
    using assms(1) False
    by (auto simp: commit_board_document_locked_def board_path_Inr split: sum.splits prod.splits)
  show ?thesis using boards.store_ok_commit [OF c assms(3)] written_board_good [OF assms(2) v] by simp
qed (use assms(3) in auto)

lemma board_writers_keep:
  assumes yaml: "board_yaml (en_board_read V) (en_board_write V)"
    and ok: "boards.store_ok (en_board_read V) (en_board_write V) (st_tree s)"
  shows "init_board V author s = (r, s') \<Longrightarrow> boards.store_ok (en_board_read V) (en_board_write V) (st_tree s')"
    and "publish_board V author content s = (r, s') \<Longrightarrow> boards.store_ok (en_board_read V) (en_board_write V) (st_tree s')"
    and "mutate_existing_board V author mutate s = (r, s') \<Longrightarrow> boards.store_ok (en_board_read V) (en_board_write V) (st_tree s')"
  using commit_board_keeps [OF _ yaml ok] ok
  by (force simp: init_board_def publish_board_def mutate_existing_board_def split: sum.splits)+

lemma board_write_keeps:
  assumes "board_write s0 author write s = (r, s')" "P (st_tree s)"
    "\<And>r1 s1. write s = (r1, s1) \<Longrightarrow> P (st_tree s1)"
  shows "P (st_tree s')"
proof -
  obtain r1 s1 where w: "write s = (r1, s1)" by force
  then show ?thesis using assms by (auto simp: board_write_def board_write_success_def split: sum.splits)
qed

inductive board_step ::
  "(string \<Rightarrow> board_meta option) \<Rightarrow> (board_meta \<Rightarrow> string option) \<Rightarrow> app_state \<Rightarrow> app_state \<Rightarrow> bool"
  for R W where
  BoardInit: "en_board_read V = R \<Longrightarrow> en_board_write V = W \<Longrightarrow>
     handle_board_init V s0 author s = (r, s') \<Longrightarrow> board_step R W s s'"
| BoardPublish: "en_board_read V = R \<Longrightarrow> en_board_write V = W \<Longrightarrow>
     handle_board_publish V s0 author content s = (r, s') \<Longrightarrow> board_step R W s s'"
| BoardSet: "en_board_read V = R \<Longrightarrow> en_board_write V = W \<Longrightarrow>
     handle_board_set V s0 author field value s = (r, s') \<Longrightarrow> board_step R W s s'"
| BoardSectionSet: "en_board_read V = R \<Longrightarrow> en_board_write V = W \<Longrightarrow>
     handle_board_section_set V s0 author sec value s = (r, s') \<Longrightarrow> board_step R W s s'"
| BoardSectionAppend: "en_board_read V = R \<Longrightarrow> en_board_write V = W \<Longrightarrow>
     handle_board_section_append V s0 author sec value s = (r, s') \<Longrightarrow> board_step R W s s'"

lemmas board_handlers = handle_board_init_def handle_board_publish_def handle_board_set_def
  handle_board_section_set_def handle_board_section_append_def

interpretation board_machine: step_invariant "board_step R W" "\<lambda>s. board_yaml R W \<and> boards.store_ok R W (st_tree s)" for R W
proof (unfold_locales, elim conjE)
  fix s s' :: app_state
  assume "board_step R W s s'" "board_yaml R W" "boards.store_ok R W (st_tree s)"
  then show "board_yaml R W \<and> boards.store_ok R W (st_tree s')"
    by (cases rule: board_step.cases)
      (auto simp: board_handlers intro: board_writers_keep elim!: board_write_keeps)
qed

text \<open>C36: A repository that starts without boards never holds a board that cannot be shown: after any sequence
  of board requests, each with any view of the users, the board of every handler that has one parses,
  belongs to that handler, and is returned by the show request.\<close>

theorem board_store_invariant:
  assumes "(board_step R W)\<^sup>*\<^sup>* s s'" "board_yaml R W" "\<forall>h. board_file h \<notin> fst ` set (st_tree s)"
    and "map_of (st_tree s') (board_file h) = Some c"
    and "en_board_read V = R" "en_board_write V = W" "en_io V (IoRead (board_file h)) = None"
  shows "\<exists>meta body. handle_board_show V s' h = Inr (ReadBoardResponse h (board_file h) meta body) \<and> bm_handler meta = h"
proof -
  have "boards.store_ok R W (st_tree s)" by (rule boards.store_ok_fresh) (use assms(3) in force)
  then have "boards.store_ok R W (st_tree s')" using board_machine.steps_keep [OF assms(1)] assms(2) by blast
  then obtain doc where d: "parse_board_markdown R W c = Inr doc" "validate_board_for_handler W doc h = Inr ()"
    using boards.store_okD [OF _ assms(4)] unfolding board_good_def by blast
  then have "is_ok (handler_new h)" "bm_handler (bd_meta doc) = h" by (auto simp: validate_board_for_handler_Inr)
  moreover from this have "board_path h = Inr (board_file h)" by (simp add: board_path_Inr)
  ultimately show ?thesis
    using d assms(4-7)
    by (auto simp: handle_board_show_def read_board_content_def read_file_def parse_board_def is_ok_iff)
qed

definition idle_meta :: board_meta where
  "idle_meta = \<lparr>bm_version = 1, bm_handler = ''alice'', bm_updated_at = ''20260101T000000Z'',
     bm_status = ''idle'', bm_summary = [], bm_labels = []\<rparr>"

definition idle_yaml :: string where
  "idle_yaml = ''handler: alice'' @ [newline]"

definition idle_read :: "string \<Rightarrow> board_meta option" where
  "idle_read c = (if c = idle_yaml then Some idle_meta else None)"

definition idle_write :: "board_meta \<Rightarrow> string option" where
  "idle_write m = (if m = idle_meta then Some idle_yaml else None)"

definition board_env :: env where
  "board_env = base_env\<lparr>en_board_read := idle_read, en_board_write := idle_write\<rparr>"

lemma idle_board_yaml: "board_yaml idle_read idle_write"
proof -
  have "frontmatter_yaml idle_yaml = idle_yaml" "ensure_newline idle_yaml = idle_yaml" "idle_yaml \<noteq> []"
      "\<not> contains_str (newline # yaml_delimiter) idle_yaml"
    by code_simp+
  then show ?thesis by (auto simp: board_yaml_def idle_read_def idle_write_def)
qed

lemma idle_init:
  "\<exists>r s' c. handle_board_init board_env base_state ''alice'' base_state = (r, s')
     \<and> map_of (st_tree s') (board_file ''alice'') = Some c"
proof -
  let ?doc = "\<lparr>bd_meta = idle_meta, bd_body = default_board_body\<rparr>"
  have m: "validate_board_meta idle_meta = Inr ()" by code_simp
  have "rendered_board_len idle_write idle_meta default_board_body = Inr 105" by code_simp
  then have v: "validate_board_document idle_write ?doc = Inr ()"
    using m by (auto simp: validate_board_document_Inr board_max_bytes_def)
  then obtain out where out: "stringify_board_markdown idle_write ?doc = Inr out" by (auto simp: board_render_accepts)
  have h: "handler_new ''alice'' = Inr (Handler ''alice'')" "\<not> path_exists base_state (board_file ''alice'')"
      "ensure_known_user base_state ''alice'' = Inr ()" by code_simp+
  have W: "en_board_write board_env = idle_write" "en_now board_env = ''20260101T000000Z''" "en_io board_env x = None"
      "en_commit board_env ps msg = None" "en_head board_env = Inr ''c0ffee''" for x ps msg
    by (simp_all add: board_env_def base_env_def)
  have "board_path ''alice'' = Inr (board_file ''alice'')" using h(1) by (simp add: board_path_Inr)
  moreover have "default_board idle_write ''alice'' ''20260101T000000Z'' = Inr ?doc"
    using h(1) v by (simp add: default_board_def board_version_def idle_meta_def Let_def)
  moreover have "validate_board_for_handler idle_write ?doc ''alice'' = Inr ()"
    using v h(1) by (simp add: validate_board_for_handler_Inr idle_meta_def)
  ultimately have i: "init_board board_env ''alice'' base_state =
      commit_board_document_locked board_env ''alice'' ?doc ''board: init'' base_state"
      "validate_board_for_handler idle_write ?doc ''alice'' = Inr ()" "board_path ''alice'' = Inr (board_file ''alice'')"
    using h(2) by (simp_all add: init_board_def W fail_if_def)
  obtain r2 s2 where cd: "commit_document board_env ''failed to create board dir'' ''failed to write board''
      ''board commit failed'' (board_file ''alice'') out ''board: init @alice'' ''alice'' base_state = (r2, s2)" by force
  then have "\<exists>c. r2 = Inr c"
    by (auto simp: commit_document_def make_dir_def write_file_def W add_and_commit_only_as_def add_and_commit_as_def)
  then have t: "map_of (st_tree s2) (board_file ''alice'') = Some out"
    using commit_document_frame [OF cd] by (auto simp: update_conv')
  obtain r1 s1 where w: "init_board board_env ''alice'' base_state = (r1, s1)" by force
  then have "s1 = s2" using i cd out by (auto simp: commit_board_document_locked_def W split: sum.splits)
  obtain r s' where hb: "handle_board_init board_env base_state ''alice'' base_state = (r, s')" by force
  then have "st_tree s' = st_tree s1"
    using w h(3) by (auto simp: handle_board_init_def board_write_def board_write_success_def split: sum.splits)
  then show ?thesis using hb t \<open>s1 = s2\<close> by auto
qed

theorem board_store_invariant_witness:
  "\<exists>s' meta body. (board_step idle_read idle_write)\<^sup>*\<^sup>* base_state s'
     \<and> handle_board_show board_env s' ''alice'' = Inr (ReadBoardResponse ''alice'' (board_file ''alice'') meta body)"
proof -
  obtain r s' c where i: "handle_board_init board_env base_state ''alice'' base_state = (r, s')"
      "map_of (st_tree s') (board_file ''alice'') = Some c" using idle_init by blast
  have V: "en_board_read board_env = idle_read" "en_board_write board_env = idle_write"
      "en_io board_env (IoRead (board_file ''alice'')) = None" by (simp_all add: board_env_def base_env_def)
  have "(board_step idle_read idle_write)\<^sup>*\<^sup>* base_state s'" using BoardInit [OF V(1,2) i(1)] by blast
  moreover have "\<forall>h. board_file h \<notin> fst ` set (st_tree base_state)" by (simp add: base_state_def)
  ultimately show ?thesis
    using board_store_invariant [OF _ idle_board_yaml _ i(2) V] by blast
qed

end
