(* ===== verification/Daemon_Flows.thy ===== *)
theory Daemon_Flows
  imports Daemon_Store
begin

text \<open>
  The handlers of flow documents and flow runs (\<^verbatim>\<open>flow_handlers.rs\<close>, \<^verbatim>\<open>flow_run_handlers.rs\<close>).  Creating, updating
  and replacing a flow read it before \<^verbatim>\<open>commit_lock\<close> is taken (\<open>s0\<close>) and write under it (\<open>s\<close>); updates of runs
  read and write under the lock.  Directory listings come in the order of the environment.
\<close>

subsection \<open>Flow documents\<close>

record committed_flow =
  cf_slug :: string
  cf_path :: string
  cf_commit_id :: string

record flow_summary =
  fs_slug :: string
  fs_name :: string
  fs_description :: string
  fs_node_count :: nat
  fs_updated_at :: "string option"

record flow_validation_item =
  fv_kind :: string
  fv_cause :: "(flow_slug_error + flow_error) + flow_warning"

datatype flow_response =
    ListFlowsResponse "flow_summary list"
  | ShowFlowResponse flow_meta string
  | WriteFlowResponse string string string string
  | RemoveFlowResponse string string string
  | ValidateFlowResponse string bool "flow_validation_item list"

definition flow_slug_of :: "string \<Rightarrow> daemon_error + flow_slug" where
  "flow_slug_of slug = map_err ErrInvalidSlug (flow_slug_new slug)"

text \<open>Read and parse a flow, with the \<^verbatim>\<open>not_found\<close> answer of the handlers.\<close>

definition read_flow :: "env \<Rightarrow> app_state \<Rightarrow> flow_slug \<Rightarrow> daemon_error + string \<times> flow_document" where
  "read_flow V s slug =
     (case read_file V s (flow_path slug) of
        Inl None \<Rightarrow> Inl (ErrNotFound ''flow'' (flow_slug_str slug))
      | Inl (Some e) \<Rightarrow> Inl (ErrIo ''failed to read flow'' e)
      | Inr content \<Rightarrow>
          andThen (map_err ErrFlow (parse_flow_markdown (en_flow_read V) content)) (\<lambda>doc. Inr (content, doc)))"

definition commit_flow_document_locked ::
  "env \<Rightarrow> flow_slug \<Rightarrow> flow_document \<Rightarrow> string \<Rightarrow> string \<Rightarrow> app_state \<Rightarrow> committed_flow outcome" where
  "commit_flow_document_locked V slug doc message_prefix author s =
     (let doc = doc\<lparr>fd_meta := (fd_meta doc)\<lparr>fm_updated_at := Some (en_now V)\<rparr>\<rparr> in
      case andThen (map_err ErrFlow (validate_flow_document doc (flow_slug_str slug))) (\<lambda>_.
             map_err ErrFlow (stringify_flow_markdown (en_flow_write V) doc)) of
        Inl e \<Rightarrow> (Inl e, s)
      | Inr rendered \<Rightarrow>
          (case commit_document V ''failed to create flow dir'' ''failed to write flow'' ''flow commit failed''
                  (flow_path slug) rendered
                  (message_prefix @ '' '' @ flow_slug_str slug @ '' @'' @ author) author s of
             (Inl e, s1) \<Rightarrow> (Inl e, s1)
           | (Inr commit_id, s1) \<Rightarrow>
               (Inr \<lparr>cf_slug = flow_slug_str slug, cf_path = flow_path slug, cf_commit_id = commit_id\<rparr>, s1)))"

definition flow_write_success :: "committed_flow outcome \<Rightarrow> flow_response outcome" where
  "flow_write_success out =
     (case out of
        (Inl e, s) \<Rightarrow> (Inl e, s)
      | (Inr c, s) \<Rightarrow>
          (Inr (WriteFlowResponse (cf_slug c) (cf_path c) ''committed'' (cf_commit_id c)),
           notify_push (send_event (FlowChanged (cf_slug c)) s)))"

definition flow_stub :: "env \<Rightarrow> flow_slug \<Rightarrow> string \<Rightarrow> string \<Rightarrow> string \<Rightarrow> flow_document" where
  "flow_stub V slug name description author =
     \<lparr>fd_meta = \<lparr>fm_schema_version = 1, fm_slug = flow_slug_str slug, fm_name = name, fm_description = description,
        fm_created_by = author, fm_created_at = en_now V, fm_updated_at = None, fm_nodes = []\<rparr>\<rparr>"

definition create_flow_checks :: "app_state \<Rightarrow> string \<Rightarrow> string \<Rightarrow> daemon_error + flow_slug" where
  "create_flow_checks s0 slug author =
     andThen (flow_slug_of slug) (\<lambda>slug.
     andThen (ensure_author_not_departed s0 author) (\<lambda>_.
     andThen (fail_if (path_exists s0 (flow_path slug)) (ErrExists ''flow'' (flow_slug_str slug))) (\<lambda>_.
       Inr slug)))"

definition handle_flow_create ::
  "env \<Rightarrow> app_state \<Rightarrow> string \<Rightarrow> string \<Rightarrow> string \<Rightarrow> string \<Rightarrow> app_state \<Rightarrow> flow_response outcome" where
  "handle_flow_create V s0 slug name description author s =
     (case create_flow_checks s0 slug author of
        Inl e \<Rightarrow> (Inl e, s)
      | Inr slug \<Rightarrow>
          flow_write_success
            (commit_flow_document_locked V slug (flow_stub V slug name description author) ''flow: create'' author s))"

text \<open>Set the prompt of the first node with the given identifier.\<close>

fun set_prompt :: "string \<Rightarrow> string \<Rightarrow> flow_node list \<Rightarrow> flow_node list option" where
  "set_prompt node_id prompt [] = None"
| "set_prompt node_id prompt (n # ns) =
     (if fn_id n = node_id then Some (n\<lparr>fn_prompt := prompt\<rparr> # ns)
      else map_option (\<lambda>ns. n # ns) (set_prompt node_id prompt ns))"

definition update_node_checks ::
  "env \<Rightarrow> app_state \<Rightarrow> string \<Rightarrow> string \<Rightarrow> string \<Rightarrow> string \<Rightarrow> daemon_error + flow_slug \<times> flow_document" where
  "update_node_checks V s0 slug node_id prompt author =
     andThen (flow_slug_of slug) (\<lambda>slug.
     andThen (ensure_author_not_departed s0 author) (\<lambda>_.
     andThen (read_flow V s0 slug) (\<lambda>(_, doc).
     andThen (ok_or (ErrNotFound ''node'' node_id)
               (set_prompt node_id (trim_end prompt) (fm_nodes (fd_meta doc)))) (\<lambda>nodes.
       Inr (slug, doc\<lparr>fd_meta := (fd_meta doc)\<lparr>fm_nodes := nodes\<rparr>\<rparr>)))))"

definition handle_flow_update_node ::
  "env \<Rightarrow> app_state \<Rightarrow> string \<Rightarrow> string \<Rightarrow> string \<Rightarrow> string \<Rightarrow> app_state \<Rightarrow> flow_response outcome" where
  "handle_flow_update_node V s0 slug node_id prompt author s =
     (case update_node_checks V s0 slug node_id prompt author of
        Inl e \<Rightarrow> (Inl e, s)
      | Inr (slug, doc) \<Rightarrow> flow_write_success (commit_flow_document_locked V slug doc ''flow: update node'' author s))"

definition replaced_flow ::
  "flow_slug \<Rightarrow> string option \<Rightarrow> string option \<Rightarrow> flow_node_input list \<Rightarrow> flow_document \<Rightarrow> flow_document" where
  "replaced_flow slug name description nodes old =
     \<lparr>fd_meta = \<lparr>fm_schema_version = 1, fm_slug = flow_slug_str slug,
        fm_name = (case name of Some n \<Rightarrow> n | None \<Rightarrow> fm_name (fd_meta old)),
        fm_description = (case description of Some d \<Rightarrow> d | None \<Rightarrow> fm_description (fd_meta old)),
        fm_created_by = fm_created_by (fd_meta old), fm_created_at = fm_created_at (fd_meta old),
        fm_updated_at = fm_updated_at (fd_meta old), fm_nodes = map into_flow_node nodes\<rparr>\<rparr>"

definition replace_checks ::
  "env \<Rightarrow> app_state \<Rightarrow> string \<Rightarrow> string option \<Rightarrow> string option \<Rightarrow> flow_node_input list \<Rightarrow> string \<Rightarrow>
   daemon_error + flow_slug \<times> flow_document" where
  "replace_checks V s0 slug name description nodes author =
     andThen (flow_slug_of slug) (\<lambda>slug.
     andThen (ensure_author_not_departed s0 author) (\<lambda>_.
     andThen (read_flow V s0 slug) (\<lambda>(_, old).
       Inr (slug, replaced_flow slug name description nodes old))))"

definition handle_flow_replace ::
  "env \<Rightarrow> app_state \<Rightarrow> string \<Rightarrow> string option \<Rightarrow> string option \<Rightarrow> flow_node_input list \<Rightarrow> string \<Rightarrow> app_state \<Rightarrow>
   flow_response outcome" where
  "handle_flow_replace V s0 slug name description nodes author s =
     (case replace_checks V s0 slug name description nodes author of
        Inl e \<Rightarrow> (Inl e, s)
      | Inr (slug, doc) \<Rightarrow> flow_write_success (commit_flow_document_locked V slug doc ''flow: replace'' author s))"

subsection \<open>Removing a flow\<close>

definition handle_flow_remove ::
  "env \<Rightarrow> app_state \<Rightarrow> string \<Rightarrow> string \<Rightarrow> app_state \<Rightarrow> flow_response outcome" where
  "handle_flow_remove V s0 slug author s =
     (case andThen (flow_slug_of slug) (\<lambda>slug.
           andThen (ensure_author_not_departed s0 author) (\<lambda>_. Inr (flow_slug_str slug))) of
        Inl e \<Rightarrow> (Inl e, s)
      | Inr slug \<Rightarrow>
          (let slug_dir = ''flows/'' @ slug; trash_dir = ''.trash/flows/'' @ slug in
           if \<not> path_exists s slug_dir then (Inl (ErrNotFound ''flow'' slug), s)
           else case make_dir V ''failed to create trash dir'' ''.trash/flows'' of
             Inl e \<Rightarrow> (Inl e, s)
           | Inr _ \<Rightarrow>
               (case (if path_exists s trash_dir then en_io V (IoRemove trash_dir) else None) of
                  Some e \<Rightarrow> (Inl (ErrIo ''failed to clear existing trash entry'' e), s)
                | None \<Rightarrow>
                    (let s1 = s\<lparr>st_tree := remove_below trash_dir (st_tree s)\<rparr> in
                     case en_io V (IoRename slug_dir trash_dir) of
                       Some e \<Rightarrow> (Inl (ErrIo ''failed to move flow to trash'' e), s1)
                     | None \<Rightarrow>
                         (let s2 = s1\<lparr>st_tree := move_path slug_dir trash_dir (st_tree s1)\<rparr> in
                          case add_and_commit_as V [slug_dir] (''flow: remove '' @ slug @ '' @'' @ author) author s2 of
                            (Inl e, s3) \<Rightarrow> (Inl (ErrGit ''flow remove (delete) commit failed'' e), s3)
                          | (Inr _, s3) \<Rightarrow>
                              (case en_head V of
                                 Inl e \<Rightarrow> (Inl (ErrGit ''rev_parse after remove commit'' e), s3)
                               | Inr commit_id \<Rightarrow>
                                   (let s4 = snd (add_and_commit_as V [trash_dir]
                                          (''flow: trash '' @ slug @ '' @'' @ author) author s3)
                                    in (Inr (RemoveFlowResponse slug ''removed'' commit_id),
                                        notify_push (send_event (FlowChanged slug) s4)))))))))"

subsection \<open>Reading flows\<close>

definition flow_entry :: "env \<Rightarrow> app_state \<Rightarrow> string \<Rightarrow> flow_summary option" where
  "flow_entry V s name =
     (case flow_slug_new name of
        Inl _ \<Rightarrow> None
      | Inr slug \<Rightarrow>
          (case read_flow V s slug of
             Inl _ \<Rightarrow> None
           | Inr (_, doc) \<Rightarrow>
               if \<not> is_ok (validate_flow_document doc (flow_slug_str slug)) then None
               else Some \<lparr>fs_slug = flow_slug_str slug, fs_name = fm_name (fd_meta doc),
                 fs_description = fm_description (fd_meta doc), fs_node_count = length (fm_nodes (fd_meta doc)),
                 fs_updated_at = fm_updated_at (fd_meta doc)\<rparr>))"

definition handle_flow_list :: "env \<Rightarrow> app_state \<Rightarrow> daemon_error + flow_response" where
  "handle_flow_list V s =
     (if path_exists s ''flows'' then
        (case en_io V (IoRead ''flows'') of
           Some e \<Rightarrow> Inl (ErrIo ''failed to list flows'' e)
         | None \<Rightarrow>
             Inr (ListFlowsResponse (sort_key fs_slug (List.map_filter (flow_entry V s) (read_dir V s ''flows'')))))
      else Inr (ListFlowsResponse []))"

definition handle_flow_show :: "env \<Rightarrow> app_state \<Rightarrow> string \<Rightarrow> daemon_error + flow_response" where
  "handle_flow_show V s slug =
     andThen (flow_slug_of slug) (\<lambda>slug.
     andThen (read_flow V s slug) (\<lambda>(content, doc). Inr (ShowFlowResponse (fd_meta doc) content)))"

definition handle_flow_validate :: "env \<Rightarrow> app_state \<Rightarrow> string \<Rightarrow> daemon_error + flow_response" where
  "handle_flow_validate V s slug =
     (case flow_slug_new slug of
        Inl e \<Rightarrow> Inr (ValidateFlowResponse slug False [\<lparr>fv_kind = ''error'', fv_cause = Inl (Inl e)\<rparr>])
      | Inr fslug \<Rightarrow>
          (case read_file V s (flow_path fslug) of
             Inl _ \<Rightarrow> Inl (ErrNotFound ''flow'' slug)
           | Inr content \<Rightarrow>
               (case parse_flow_markdown_with_warnings (en_flow_read V) content of
                  Inl e \<Rightarrow> Inr (ValidateFlowResponse slug False [\<lparr>fv_kind = ''error'', fv_cause = Inl (Inr e)\<rparr>])
                | Inr (doc, warnings) \<Rightarrow>
                    (let items = map (\<lambda>w. \<lparr>fv_kind = ''warning'', fv_cause = Inr w\<rparr>) warnings in
                     case validate_flow_document doc slug of
                       Inl e \<Rightarrow> Inr (ValidateFlowResponse slug False
                                  (items @ [\<lparr>fv_kind = ''error'', fv_cause = Inl (Inr e)\<rparr>]))
                     | Inr _ \<Rightarrow> Inr (ValidateFlowResponse slug True
                                  (items @ map (\<lambda>w. \<lparr>fv_kind = ''warning'', fv_cause = Inr w\<rparr>)
                                     (validate_flow_for_storage doc (length content))))))))"

subsection \<open>Flow runs\<close>

record committed_run =
  cr_run_id :: string
  cr_flow_slug :: string
  cr_channel :: string
  cr_path :: string
  cr_commit_id :: string

record flow_run_summary =
  frs_run_id :: string
  frs_flow_slug :: string
  frs_channel :: string
  frs_status :: run_status
  frs_started_by :: string
  frs_started_at :: string
  frs_updated_at :: string
  frs_node_count :: nat
  frs_nodes_done :: nat

datatype run_response =
    StartFlowRunResponse committed_run
  | ListFlowRunsResponse "flow_run_summary list"
  | ShowFlowRunResponse flow_run
  | UpdateFlowNodeResponse string string node_status run_status string
  | CancelFlowRunResponse string string

definition run_id_of :: "string \<Rightarrow> daemon_error + run_id" where
  "run_id_of r = map_err ErrInvalidRunId (run_id_new r)"

definition commit_run_state_locked ::
  "env \<Rightarrow> run_id \<Rightarrow> flow_slug \<Rightarrow> flow_run \<Rightarrow> string \<Rightarrow> string \<Rightarrow> app_state \<Rightarrow> committed_run outcome" where
  "commit_run_state_locked V run_id slug run message_prefix author s =
     (case map_err ErrRun (stringify_run_state (en_run_write V) run) of
        Inl e \<Rightarrow> (Inl e, s)
      | Inr rendered \<Rightarrow>
          (let rel = run_path (flow_slug_str slug) run_id in
           case commit_document V ''mkdir'' ''write'' ''commit'' rel rendered
                  (message_prefix @ '' '' @ run_id_str run_id @ '' @'' @ author) author s of
             (Inl e, s1) \<Rightarrow> (Inl e, s1)
           | (Inr commit_id, s1) \<Rightarrow>
               (Inr \<lparr>cr_run_id = run_id_str run_id, cr_flow_slug = fr_flow_slug run, cr_channel = fr_channel run,
                     cr_path = rel, cr_commit_id = commit_id\<rparr>, s1)))"

definition start_checks ::
  "env \<Rightarrow> app_state \<Rightarrow> string \<Rightarrow> string \<Rightarrow> string \<Rightarrow> daemon_error + flow_slug \<times> channel_name \<times> flow_document" where
  "start_checks V s0 slug channel author =
     andThen (ensure_author_not_departed s0 author) (\<lambda>_.
     andThen (flow_slug_of slug) (\<lambda>slug.
     andThen (map_err ErrInvalidChannel (channel_name_new channel)) (\<lambda>channel.
     andThen (read_flow V s0 slug) (\<lambda>(_, template).
     andThen (map_err ErrFlow (validate_flow_document template (flow_slug_str slug))) (\<lambda>_.
     andThen (fail_if (\<not> path_exists s0 (channel_meta_path (channel_str channel)))
               (ErrNotFound ''channel'' (channel_str channel))) (\<lambda>_.
       Inr (slug, channel, template)))))))"

definition handle_flow_run_start ::
  "env \<Rightarrow> app_state \<Rightarrow> string \<Rightarrow> string \<Rightarrow> string \<Rightarrow> app_state \<Rightarrow> run_response outcome" where
  "handle_flow_run_start V s0 slug channel author s =
     (case start_checks V s0 slug channel author of
        Inl e \<Rightarrow> (Inl e, s)
      | Inr (slug, channel, template) \<Rightarrow>
          (let run_id = run_id_generate (en_run_stamp V) (en_fresh V);
               run = start_run template run_id slug channel author (en_now V) in
           case commit_run_state_locked V run_id slug run ''flow run: start'' author s of
             (Inl e, s1) \<Rightarrow> (Inl e, s1)
           | (Inr c, s1) \<Rightarrow>
               (let s2 = send_event (FlowRunStarted (cr_run_id c) (cr_flow_slug c) (cr_channel c)) s1;
                    s3 = (if fr_status run = RunDone
                          then send_event (FlowRunCompleted (cr_run_id c) (run_status_str RunDone)) s2 else s2)
                in (Inr (StartFlowRunResponse c), notify_push s3))))"

definition run_state_path :: "string \<Rightarrow> run_id \<Rightarrow> string" where
  "run_state_path dir run_id = ''flows/'' @ dir @ ''/runs/'' @ run_id_str run_id @ ''/state.yaml''"

fun find_run_in :: "env \<Rightarrow> app_state \<Rightarrow> run_id \<Rightarrow> string list \<Rightarrow> daemon_error + string \<times> flow_run" where
  "find_run_in V s run_id [] = Inl (ErrNotFound ''run'' (run_id_str run_id))"
| "find_run_in V s run_id (d # ds) =
     (let candidate = run_state_path d run_id in
      if path_exists s candidate then
        (case read_file V s candidate of
           Inl e \<Rightarrow> Inl (ErrIo ''read'' (case e of Some t \<Rightarrow> t | None \<Rightarrow> []))
         | Inr content \<Rightarrow>
             andThen (map_err ErrRun (parse_run_state (en_run_read V) content)) (\<lambda>run. Inr (candidate, run)))
      else find_run_in V s run_id ds)"

definition find_run :: "env \<Rightarrow> app_state \<Rightarrow> run_id \<Rightarrow> daemon_error + string \<times> flow_run" where
  "find_run V s run_id =
     (if \<not> path_exists s ''flows'' then Inl (ErrNotFound ''run'' (run_id_str run_id))
      else case en_io V (IoRead ''flows'') of
        Some e \<Rightarrow> Inl (ErrIo ''list flows'' e)
      | None \<Rightarrow> find_run_in V s run_id (read_dir V s ''flows''))"

text \<open>Write a changed run back to the file it was read from, and commit it.\<close>

definition store_run ::
  "env \<Rightarrow> string \<Rightarrow> flow_run \<Rightarrow> string \<Rightarrow> string \<Rightarrow> app_state \<Rightarrow> string outcome" where
  "store_run V path run message author s =
     (case map_err ErrRun (stringify_run_state (en_run_write V) run) of
        Inl e \<Rightarrow> (Inl e, s)
      | Inr rendered \<Rightarrow>
          (case write_file V ''write'' path rendered s of
             (Inl e, s1) \<Rightarrow> (Inl e, s1)
           | (Inr _, s1) \<Rightarrow>
               (case add_and_commit_only_as V path message author s1 of
                  (Inl e, s2) \<Rightarrow> (Inl (ErrGit ''commit'' e), s2)
                | (Inr commit_id, s2) \<Rightarrow> (Inr commit_id, s2))))"

text \<open>The arrow of the commit message, in UTF-8.\<close>

definition arrow :: string where
  "arrow = [CHR 0xE2, CHR 0x86, CHR 0x92]"

definition node_set_checks ::
  "env \<Rightarrow> app_state \<Rightarrow> app_state \<Rightarrow> string \<Rightarrow> string \<Rightarrow> string \<Rightarrow> string option \<Rightarrow> string option \<Rightarrow> string \<Rightarrow>
   daemon_error + string \<times> node_status \<times> flow_run" where
  "node_set_checks V s0 s run_id node_id status_str actor result_ref author =
     andThen (ensure_author_not_departed s0 author) (\<lambda>_.
     andThen (run_id_of run_id) (\<lambda>rid.
     andThen (ok_or (ErrInvalidStatus status_str) (parse_node_status status_str)) (\<lambda>new_status.
     andThen (find_run V s rid) (\<lambda>(path, run).
     andThen (map_err ErrRun (set_node node_id new_status actor result_ref (en_now V) run)) (\<lambda>run'.
       Inr (path, new_status, run'))))))"

definition handle_flow_node_set ::
  "env \<Rightarrow> app_state \<Rightarrow> string \<Rightarrow> string \<Rightarrow> string \<Rightarrow> string option \<Rightarrow> string option \<Rightarrow> string \<Rightarrow> app_state \<Rightarrow>
   run_response outcome" where
  "handle_flow_node_set V s0 run_id node_id status_str actor result_ref author s =
     (case node_set_checks V s0 s run_id node_id status_str actor result_ref author of
        Inl e \<Rightarrow> (Inl e, s)
      | Inr (path, new_status, run) \<Rightarrow>
          (case store_run V path run
                  (''flow run: node '' @ node_id @ '' '' @ arrow @ '' '' @ node_status_str new_status @ '' @'' @ author)
                  author s of
             (Inl e, s1) \<Rightarrow> (Inl e, s1)
           | (Inr commit_id, s1) \<Rightarrow>
               (let s2 = send_event (FlowRunNodeUpdated (fr_run_id run) node_id (node_status_str new_status)) s1;
                    s3 = (if run_is_terminal (fr_status run)
                          then send_event (FlowRunCompleted (fr_run_id run) (run_status_str (fr_status run))) s2 else s2)
                in (Inr (UpdateFlowNodeResponse (fr_run_id run) node_id new_status (fr_status run) commit_id),
                    notify_push s3))))"

definition cancel_checks ::
  "env \<Rightarrow> app_state \<Rightarrow> app_state \<Rightarrow> string \<Rightarrow> string \<Rightarrow> daemon_error + string \<times> flow_run" where
  "cancel_checks V s0 s run_id author =
     andThen (ensure_author_not_departed s0 author) (\<lambda>_.
     andThen (run_id_of run_id) (\<lambda>rid.
     andThen (find_run V s rid) (\<lambda>(path, run).
     andThen (map_err ErrRun (cancel_run (en_now V) run)) (\<lambda>run'. Inr (path, run')))))"

definition handle_flow_run_cancel ::
  "env \<Rightarrow> app_state \<Rightarrow> string \<Rightarrow> string \<Rightarrow> app_state \<Rightarrow> run_response outcome" where
  "handle_flow_run_cancel V s0 run_id author s =
     (case cancel_checks V s0 s run_id author of
        Inl e \<Rightarrow> (Inl e, s)
      | Inr (path, run) \<Rightarrow>
          (case store_run V path run (''flow run: cancel '' @ run_id @ '' @'' @ author) author s of
             (Inl e, s1) \<Rightarrow> (Inl e, s1)
           | (Inr commit_id, s1) \<Rightarrow>
               (Inr (CancelFlowRunResponse (fr_run_id run) commit_id),
                notify_push (send_event (FlowRunCompleted (fr_run_id run) ''cancelled'') s1))))"

definition handle_flow_run_show :: "env \<Rightarrow> app_state \<Rightarrow> string \<Rightarrow> daemon_error + run_response" where
  "handle_flow_run_show V s run_id =
     andThen (run_id_of run_id) (\<lambda>rid.
     andThen (find_run V s rid) (\<lambda>(_, run). Inr (ShowFlowRunResponse run)))"

subsection \<open>Listing runs\<close>

definition run_entry ::
  "env \<Rightarrow> app_state \<Rightarrow> string option \<Rightarrow> run_status option \<Rightarrow> string \<Rightarrow> string \<Rightarrow> flow_run_summary option" where
  "run_entry V s channel_filter status_filter slug_name run_name =
     (case run_id_new run_name of
        Inl _ \<Rightarrow> None
      | Inr rid \<Rightarrow>
          (case read_file V s (run_state_path slug_name rid) of
             Inl _ \<Rightarrow> None
           | Inr content \<Rightarrow>
               (case parse_run_state (en_run_read V) content of
                  Inl _ \<Rightarrow> None
                | Inr run \<Rightarrow>
                    if (case channel_filter of Some ch \<Rightarrow> fr_channel run \<noteq> ch | None \<Rightarrow> False)
                       \<or> (case status_filter of Some want \<Rightarrow> fr_status run \<noteq> want | None \<Rightarrow> False) then None
                    else Some \<lparr>frs_run_id = fr_run_id run, frs_flow_slug = fr_flow_slug run,
                      frs_channel = fr_channel run, frs_status = fr_status run,
                      frs_started_by = fr_started_by run, frs_started_at = fr_started_at run,
                      frs_updated_at = fr_updated_at run, frs_node_count = length (fr_nodes run),
                      frs_nodes_done = length (filter (\<lambda>n. rn_status n = NodeDone) (fr_nodes run))\<rparr>)))"

definition runs_of :: "env \<Rightarrow> app_state \<Rightarrow> string option \<Rightarrow> string option \<Rightarrow> run_status option \<Rightarrow> string \<Rightarrow> flow_run_summary list" where
  "runs_of V s slug_filter channel_filter status_filter slug_name =
     (let runs_root = ''flows/'' @ slug_name @ ''/runs'' in
      if (case slug_filter of Some f \<Rightarrow> f \<noteq> slug_name | None \<Rightarrow> False)
         \<or> \<not> is_ok (flow_slug_new slug_name) \<or> \<not> path_exists s runs_root \<or> en_io V (IoRead runs_root) \<noteq> None then []
      else List.map_filter (run_entry V s channel_filter status_filter slug_name) (read_dir V s runs_root))"

text \<open>Newest first: a stable sort by descending start time.\<close>

definition newest_first :: "flow_run_summary list \<Rightarrow> flow_run_summary list" where
  "newest_first rs = rev (sort_key frs_started_at (rev rs))"

definition handle_flow_run_list ::
  "env \<Rightarrow> app_state \<Rightarrow> string option \<Rightarrow> string option \<Rightarrow> string option \<Rightarrow> daemon_error + run_response" where
  "handle_flow_run_list V s slug_filter channel_filter status_filter =
     andThen (case status_filter of
                None \<Rightarrow> Inr None
              | Some st \<Rightarrow> (case parse_run_status st of
                             Some r \<Rightarrow> Inr (Some r)
                           | None \<Rightarrow> Inl (ErrInvalidStatus st))) (\<lambda>status.
       if \<not> path_exists s ''flows'' then Inr (ListFlowRunsResponse [])
       else case en_io V (IoRead ''flows'') of
         Some e \<Rightarrow> Inl (ErrIo ''failed to list flows'' e)
       | None \<Rightarrow>
           Inr (ListFlowRunsResponse (newest_first
             (concat (map (runs_of V s slug_filter channel_filter status) (read_dir V s ''flows''))))))"

subsection \<open>Stored flows are valid\<close>

text \<open>What the handlers need of the YAML library: printed metadata reads back without its prompts, which live
  in the body, and contains no closing delimiter.\<close>

definition flow_yaml :: "(string \<Rightarrow> flow_meta option) \<Rightarrow> (flow_meta \<Rightarrow> string option) \<Rightarrow> bool" where
  "flow_yaml R W \<longleftrightarrow>
     (\<forall>m w. W m = Some w \<longrightarrow>
        R (trim ([newline] @ trim_end w)) = Some (strip_prompts m)
        \<and> \<not> contains_str ([newline] @ ''---'') ([newline] @ trim_end w))"

lemma node_fields_prompt [simp]: "check_node_fields (n\<lparr>fn_prompt := p\<rparr>) = check_node_fields n"
  by (cases "fn_type n") (simp_all add: check_node_fields_def)

lemma depends_prompts: "depends (map (\<lambda>n. n\<lparr>fn_prompt := g n\<rparr>) ns) = depends ns"
  by (auto simp: depends_def image_image)

lemma validate_flow_prompts:
  assumes "fd_meta doc' = (fd_meta doc)\<lparr>fm_nodes := map (\<lambda>n. n\<lparr>fn_prompt := g n\<rparr>) (fm_nodes (fd_meta doc))\<rparr>"
  shows "validate_flow_document doc' s = Inr () \<longleftrightarrow> validate_flow_document doc s = Inr ()"
  unfolding validate_flow_wf flow_wf_def Let_def assms by (simp add: depends_prompts image_image comp_def)

lemma attach_prompt_strip:
  "attach_prompt S (n\<lparr>fn_prompt := []\<rparr>) = n\<lparr>fn_prompt := (case map_of S (fn_id n) of Some t \<Rightarrow> t | None \<Rightarrow> [])\<rparr>"
  by (simp add: attach_prompt_def split: option.splits)

text \<open>Whatever the prompts contain, the document that is read back has the same slug, nodes and
  dependencies.\<close>

lemma written_flow_read:
  assumes "flow_yaml R W" "stringify_flow_markdown W doc = Inr text" "fm_schema_version (fd_meta doc) = 1"
  shows "\<exists>doc' g. parse_flow_markdown R text = Inr doc'
    \<and> fd_meta doc' = (fd_meta doc)\<lparr>fm_nodes := map (\<lambda>n. n\<lparr>fn_prompt := g n\<rparr>) (fm_nodes (fd_meta doc))\<rparr>"
proof -
  let ?ns = "fm_nodes (fd_meta doc)"
  let ?body = "concat (map stringify_node ?ns)"
  let ?S = "split_body_sections ([newline] @ ?body)"
  obtain w where w: "W (fd_meta doc) = Some w"
      "text = ''---'' @ [newline] @ trim_end w @ [newline] @ ''---'' @ [newline] @ ?body"
    using assms(2) by (auto simp: stringify_flow_markdown_def)
  have y: "R (trim ([newline] @ trim_end w)) = Some (strip_prompts (fd_meta doc))"
      "\<not> contains_str ([newline] @ ''---'') ([newline] @ trim_end w)"
    using assms(1) w(1) by (auto simp: flow_yaml_def)
  have sch: "fm_schema_version (strip_prompts (fd_meta doc)) = 1" using assms(3) by (simp add: strip_prompts_def)
  let ?g = "\<lambda>n. case map_of ?S (fn_id n) of Some t \<Rightarrow> t | None \<Rightarrow> []"
  have "map (attach_prompt ?S) (map (\<lambda>n. n\<lparr>fn_prompt := []\<rparr>) ?ns) = map (\<lambda>n. n\<lparr>fn_prompt := ?g n\<rparr>) ?ns"
    by (simp add: attach_prompt_strip)
  then show ?thesis
    using parse_written [where yaml_read = R and w = w and S = ?S and body = ?body, OF y(1) sch y(2) refl] w(2)
    by (intro exI [of _ "\<lparr>fd_meta = (fd_meta doc)\<lparr>fm_nodes := map (\<lambda>n. n\<lparr>fn_prompt := ?g n\<rparr>) ?ns\<rparr>\<rparr>"] exI [of _ ?g])
      (simp add: parse_flow_markdown_def strip_prompts_def del: map_map)
qed

definition flow_good :: "(string \<Rightarrow> flow_meta option) \<Rightarrow> flow_slug \<Rightarrow> string \<Rightarrow> bool" where
  "flow_good R slug c \<longleftrightarrow>
     (\<exists>doc. parse_flow_markdown R c = Inr doc \<and> validate_flow_document doc (flow_slug_str slug) = Inr ())"

definition valid_slug :: "flow_slug \<Rightarrow> bool" where
  "valid_slug slug \<longleftrightarrow> is_ok (flow_slug_new (flow_slug_str slug))"

lemma flow_path_valid: "valid_slug slug \<Longrightarrow> flow_path slug = ''flows/'' @ flow_slug_str slug @ ''/index.md''"
  using flow.file_path [of "flow_slug_str slug" "''flows''" "''index.md''"] by (simp add: valid_slug_def flow_path_def)

lemma flow_path_inj: "valid_slug a \<Longrightarrow> valid_slug b \<Longrightarrow> flow_path a = flow_path b \<Longrightarrow> a = b"
  by (cases a; cases b) (simp add: flow_path_valid)

lemma flow_slug_of_Inr: "flow_slug_of name = Inr slug \<Longrightarrow> valid_slug slug \<and> flow_slug_str slug = name"
  by (auto simp: flow_slug_of_def valid_slug_def flow_slug_new_Inr is_ok_iff)

interpretation flows: file_store "\<lambda>p. \<exists>slug. valid_slug slug \<and> p = flow_path slug"
    "\<lambda>p c. \<forall>slug. valid_slug slug \<and> p = flow_path slug \<longrightarrow> flow_good R slug c" for R
  by unfold_locales blast

lemma commit_flow_keeps:
  assumes "commit_flow_document_locked V slug doc m author s = (r, s')" "flow_yaml (en_flow_read V) (en_flow_write V)"
    "valid_slug slug" "fm_schema_version (fd_meta doc) = 1" "flows.store_ok (en_flow_read V) (st_tree s)"
  shows "flows.store_ok (en_flow_read V) (st_tree s')"
proof (cases "\<exists>e. r = Inl e \<and> s' = s")
  case False
  let ?doc = "doc\<lparr>fd_meta := (fd_meta doc)\<lparr>fm_updated_at := Some (en_now V)\<rparr>\<rparr>"
  obtain rendered r1 where v: "validate_flow_document ?doc (flow_slug_str slug) = Inr ()"
      "stringify_flow_markdown (en_flow_write V) ?doc = Inr rendered"
      and c: "commit_document V ''failed to create flow dir'' ''failed to write flow'' ''flow commit failed''
        (flow_path slug) rendered (m @ '' '' @ flow_slug_str slug @ '' @'' @ author) author s = (r1, s')"
    using assms(1) False by (auto simp: commit_flow_document_locked_def Let_def split: sum.splits prod.splits)
  obtain doc' g where d: "parse_flow_markdown (en_flow_read V) rendered = Inr doc'"
      "fd_meta doc' = (fd_meta ?doc)\<lparr>fm_nodes := map (\<lambda>n. n\<lparr>fn_prompt := g n\<rparr>) (fm_nodes (fd_meta ?doc))\<rparr>"
    using written_flow_read [OF assms(2) v(2)] assms(4) by auto
  then have "flow_good (en_flow_read V) slug rendered"
    using validate_flow_prompts [OF d(2)] v(1) by (auto simp: flow_good_def)
  then show ?thesis
    using flows.store_ok_commit [OF c assms(5)] flow_path_inj [OF assms(3)] by auto
qed (use assms(5) in auto)

lemma parse_flow_schema: "parse_flow_markdown R c = Inr doc \<Longrightarrow> fm_schema_version (fd_meta doc) = 1"
  by (auto simp: parse_flow_markdown_def parse_flow_markdown_with_warnings_def Let_def
      simp del: trim_start_str.simps split: if_splits)

lemma read_flow_schema: "read_flow V s slug = Inr (c, doc) \<Longrightarrow> fm_schema_version (fd_meta doc) = 1"
  using parse_flow_schema by (fastforce simp: read_flow_def split: sum.splits option.splits)

text \<open>What a handler that writes one flow may do.\<close>

definition flow_written :: "env \<Rightarrow> string \<Rightarrow> app_state \<Rightarrow> app_state \<Rightarrow> bool" where
  "flow_written V author s s' \<longleftrightarrow>
     s' = s \<or> (\<exists>slug doc m r1 s1. valid_slug slug \<and> fm_schema_version (fd_meta doc) = 1
       \<and> commit_flow_document_locked V slug doc m author s = (r1, s1) \<and> st_tree s' = st_tree s1)"

lemma flow_writtenI:
  assumes "flow_write_success (commit_flow_document_locked V slug doc m author s) = (r, s')" "valid_slug slug"
    "fm_schema_version (fd_meta doc) = 1"
  shows "flow_written V author s s'"
proof -
  obtain r1 s1 where c: "commit_flow_document_locked V slug doc m author s = (r1, s1)" by force
  then have "st_tree s' = st_tree s1" using assms(1) by (auto simp: flow_write_success_def split: sum.splits)
  then show ?thesis using c assms(2,3) unfolding flow_written_def by blast
qed

lemma flow_checks_Inr:
  "create_flow_checks s0 name author = Inr slug \<Longrightarrow> valid_slug slug"
  "update_node_checks V s0 name nid p author = Inr (slug, doc) \<Longrightarrow> valid_slug slug \<and> fm_schema_version (fd_meta doc) = 1"
  "replace_checks V s0 name on od ns author = Inr (slug, doc) \<Longrightarrow> valid_slug slug \<and> fm_schema_version (fd_meta doc) = 1"
  by (auto simp: create_flow_checks_def update_node_checks_def replace_checks_def replaced_flow_def
      dest!: flow_slug_of_Inr read_flow_schema)

lemma flow_handlers_written:
  shows "handle_flow_create V s0 name nm d author s = (r, s') \<Longrightarrow> flow_written V author s s'"
    and "handle_flow_update_node V s0 name nid p author s = (r, s') \<Longrightarrow> flow_written V author s s'"
    and "handle_flow_replace V s0 name on od ns author s = (r, s') \<Longrightarrow> flow_written V author s s'"
proof -
  have refl: "flow_written V author s s" by (simp add: flow_written_def)
  show "flow_written V author s s'" if "handle_flow_create V s0 name nm d author s = (r, s')"
  proof (cases "create_flow_checks s0 name author")
    case (Inr slug)
    then have "flow_write_success (commit_flow_document_locked V slug (flow_stub V slug nm d author) ''flow: create'' author s) = (r, s')"
      using that by (simp add: handle_flow_create_def)
    then show ?thesis by (rule flow_writtenI) (use flow_checks_Inr(1) [OF Inr] in \<open>simp_all add: flow_stub_def\<close>)
  qed (use that refl in \<open>simp add: handle_flow_create_def\<close>)
  show "flow_written V author s s'" if "handle_flow_update_node V s0 name nid p author s = (r, s')"
  proof (cases "update_node_checks V s0 name nid p author")
    case (Inr x)
    obtain slug doc where x: "x = (slug, doc)" by (cases x)
    then have "flow_write_success (commit_flow_document_locked V slug doc ''flow: update node'' author s) = (r, s')"
      using that Inr by (simp add: handle_flow_update_node_def)
    then show ?thesis by (rule flow_writtenI) (use flow_checks_Inr(2) [OF Inr [unfolded x]] in simp_all)
  qed (use that refl in \<open>simp add: handle_flow_update_node_def\<close>)
  show "flow_written V author s s'" if "handle_flow_replace V s0 name on od ns author s = (r, s')"
  proof (cases "replace_checks V s0 name on od ns author")
    case (Inr x)
    obtain slug doc where x: "x = (slug, doc)" by (cases x)
    then have "flow_write_success (commit_flow_document_locked V slug doc ''flow: replace'' author s) = (r, s')"
      using that Inr by (simp add: handle_flow_replace_def)
    then show ?thesis by (rule flow_writtenI) (use flow_checks_Inr(3) [OF Inr [unfolded x]] in simp_all)
  qed (use that refl in \<open>simp add: handle_flow_replace_def\<close>)
qed

lemma flow_written_keeps:
  assumes "flow_written V author s s'" "flow_yaml (en_flow_read V) (en_flow_write V)" "flows.store_ok (en_flow_read V) (st_tree s)"
  shows "flows.store_ok (en_flow_read V) (st_tree s')"
  using assms(1) unfolding flow_written_def
proof (elim disjE exE conjE)
  fix slug doc m r1 s1
  assume "valid_slug slug" "fm_schema_version (fd_meta doc) = 1"
    "commit_flow_document_locked V slug doc m author s = (r1, s1)" "st_tree s' = st_tree s1"
  then show ?thesis using commit_flow_keeps [OF _ assms(2) _ _ assms(3)] by simp
qed (use assms(3) in simp)

subsection \<open>Stored runs are consistent\<close>

definition run_yaml :: "(string \<Rightarrow> flow_run option) \<Rightarrow> (flow_run \<Rightarrow> string option) \<Rightarrow> bool" where
  "run_yaml R W \<longleftrightarrow> (\<forall>run w. W run = Some w \<longrightarrow> R w = Some run)"

definition run_file :: "string \<Rightarrow> bool" where
  "run_file p \<longleftrightarrow> starts_with ''flows/'' p \<and> ends_with ''/state.yaml'' p"

definition run_good :: "(string \<Rightarrow> flow_run option) \<Rightarrow> string \<Rightarrow> bool" where
  "run_good R c \<longleftrightarrow> (\<forall>run. parse_run_state R c = Inr run \<longrightarrow> run_ok run)"

interpretation runs: file_store run_file "\<lambda>p c. run_file p \<longrightarrow> run_good R c" for R
  by unfold_locales simp

lemma written_run_good: "run_yaml R W \<Longrightarrow> stringify_run_state W run = Inr w \<Longrightarrow> run_ok run \<Longrightarrow> run_good R w"
  by (auto simp: run_yaml_def stringify_run_state_def run_good_def parse_run_state_def split: if_splits)

lemma run_state_path_file: "run_file (run_state_path d rid)"
  by (auto simp: run_file_def run_state_path_def starts_with_iff ends_with_iff prefix_def)

lemma flow_path_not_run: "valid_slug slug \<Longrightarrow> \<not> run_file (flow_path slug)"
proof
  assume "valid_slug slug" "run_file (flow_path slug)"
  then obtain q where "''flows/'' @ flow_slug_str slug @ ''/index.md'' = q @ ''/state.yaml''"
    by (auto simp: run_file_def flow_path_valid ends_with_iff)
  then have "last (''flows/'' @ flow_slug_str slug @ ''/index.md'') = last (q @ ''/state.yaml'')" by metis
  then show False by simp
qed

lemma run_not_flow_path: "run_file p \<Longrightarrow> \<not> (\<exists>slug. valid_slug slug \<and> p = flow_path slug)"
  using flow_path_not_run by blast

lemma find_run_in_Inr:
  "find_run_in V s rid ds = Inr (p, run) \<Longrightarrow>
   run_file p \<and> (\<exists>c. map_of (st_tree s) p = Some c \<and> parse_run_state (en_run_read V) c = Inr run)"
proof (induction ds)
  case (Cons d ds)
  then show ?case using run_state_path_file
    by (auto simp: Let_def read_file_def split: if_splits sum.splits option.splits)
qed simp

lemma find_run_good:
  assumes "find_run V s rid = Inr (p, run)" "runs.store_ok (en_run_read V) (st_tree s)"
  shows "run_file p \<and> run_ok run"
proof -
  obtain ds where "find_run_in V s rid ds = Inr (p, run)"
    using assms(1) by (auto simp: find_run_def split: if_splits option.splits)
  then show ?thesis
    using find_run_in_Inr runs.store_okD [OF assms(2)] unfolding run_good_def by metis
qed

lemma store_run_frame:
  assumes "store_run V p run m author s = (r, s')"
  shows "st_tree s' = st_tree s
    \<or> (\<exists>w. stringify_run_state (en_run_write V) run = Inr w \<and> st_tree s' = AList.update p w (st_tree s))"
proof (cases "stringify_run_state (en_run_write V) run")
  case (Inr w)
  obtain r1 s1 where w: "write_file V ''write'' p w s = (r1, s1)" by force
  obtain r2 s2 where c: "add_and_commit_only_as V p m author s1 = (r2, s2)" by force
  show ?thesis using assms Inr w c write_file_frame [OF w] add_and_commit_only_frame [OF c]
    by (auto simp: store_run_def split: sum.splits)
qed (use assms in \<open>simp add: store_run_def\<close>)

lemma valid_run_id_chars:
  assumes "is_valid_run_id r"
  shows "r \<noteq> []" "CHR ''/'' \<notin> set r"
proof -
  show "r \<noteq> []" using assms by (auto simp: is_valid_run_id_def)
  have "\<not> run_id_byte i (CHR ''/'')" for i by (simp add: run_id_byte_def byte_class)
  moreover have "run_id_byte i (r ! i)" if "i < length r" for i
    using assms that by (auto simp: is_valid_run_id_def list_all_length nth_enumerate_eq)
  ultimately show "CHR ''/'' \<notin> set r" by (metis in_set_conv_nth)
qed

lemma run_path_is_state_path:
  assumes "valid_slug slug" "is_valid_run_id (run_id_str r)"
  shows "run_path (flow_slug_str slug) r = run_state_path (flow_slug_str slug) r"
proof -
  have "path_join (path_join ''flows'' (flow_slug_str slug)) ''runs'' = ''flows/'' @ flow_slug_str slug @ ''/runs''"
    using flow.file_path [of "flow_slug_str slug" "''flows''" "''runs''"] assms(1) by (simp add: valid_slug_def)
  moreover have "last (run_id_str r) \<noteq> CHR ''/''" "hd (run_id_str r) \<noteq> CHR ''/''" "run_id_str r \<noteq> []"
    using valid_run_id_chars [OF assms(2)] last_in_set hd_in_set by metis+
  ultimately show ?thesis
    by (auto simp: run_path_def run_state_path_def path_join_def starts_with_hd ends_with_last)
qed

text \<open>The environment of the run handlers: the YAML library reads what it printed, and the generated run
  identifier has the documented form.\<close>

definition flow_env :: "(string \<Rightarrow> flow_meta option) \<Rightarrow> (flow_meta \<Rightarrow> string option) \<Rightarrow>
    (string \<Rightarrow> flow_run option) \<Rightarrow> (flow_run \<Rightarrow> string option) \<Rightarrow> env \<Rightarrow> bool" where
  "flow_env RF WF RR WR V \<longleftrightarrow>
     en_flow_read V = RF \<and> en_flow_write V = WF \<and> en_run_read V = RR \<and> en_run_write V = WR
     \<and> flow_yaml RF WF \<and> run_yaml RR WR
     \<and> is_valid_run_id (run_id_str (run_id_generate (en_run_stamp V) (en_fresh V)))"

definition flows_inv :: "(string \<Rightarrow> flow_meta option) \<Rightarrow> (string \<Rightarrow> flow_run option) \<Rightarrow> tree \<Rightarrow> bool" where
  "flows_inv RF RR t \<longleftrightarrow> flows.store_ok RF t \<and> runs.store_ok RR t"

lemma flows_inv_run_write:
  assumes "flows_inv RF RR t" "run_file p" "run_good RR w"
  shows "flows_inv RF RR (AList.update p w t)"
  using assms flows.store_ok_outside [of RF t p w] run_not_flow_path [OF assms(2)] runs.store_ok_update [of RR t p w]
  by (auto simp: flows_inv_def)

lemma store_run_keeps:
  assumes "store_run V p run m author s = (r, s')" "flow_env RF WF RR WR V" "run_file p" "run_ok run" "flows_inv RF RR (st_tree s)"
  shows "flows_inv RF RR (st_tree s')"
  using store_run_frame [OF assms(1)] flows_inv_run_write [OF assms(5,3)] written_run_good assms(2,4,5)
  by (auto simp: flow_env_def)

lemma flow_written_inv:
  assumes "flow_written V author s s'" "flow_env RF WF RR WR V" "flows_inv RF RR (st_tree s)"
  shows "flows_inv RF RR (st_tree s')"
proof -
  have V: "en_flow_read V = RF" "flow_yaml (en_flow_read V) (en_flow_write V)" using assms(2) by (auto simp: flow_env_def)
  have "flows.store_ok RF (st_tree s')" using flow_written_keeps [OF assms(1) V(2)] assms(3) V(1) by (simp add: flows_inv_def)
  moreover have "runs.store_ok RR (st_tree s')"
    using assms(1) unfolding flow_written_def
  proof (elim disjE exE conjE)
    fix slug doc m r1 s1
    assume v: "valid_slug slug" and c: "commit_flow_document_locked V slug doc m author s = (r1, s1)" and t: "st_tree s' = st_tree s1"
    have "st_tree s1 = st_tree s \<or> (\<exists>w. st_tree s1 = AList.update (flow_path slug) w (st_tree s))"
      using c by (auto simp: commit_flow_document_locked_def Let_def split: sum.splits prod.splits dest!: commit_document_frame)
    then show ?thesis using assms(3) t runs.store_ok_outside flow_path_not_run [OF v] by (auto simp: flows_inv_def)
  qed (use assms(3) in \<open>simp add: flows_inv_def\<close>)
  ultimately show ?thesis by (simp add: flows_inv_def)
qed

lemma handle_flow_node_set_inv:
  assumes "handle_flow_node_set V s0 rid nid st actor ref author s = (r, s')" "flow_env RF WF RR WR V" "flows_inv RF RR (st_tree s)"
  shows "flows_inv RF RR (st_tree s')"
proof (cases "node_set_checks V s0 s rid nid st actor ref author")
  case (Inr x)
  have R: "en_run_read V = RR" using assms(2) by (simp add: flow_env_def)
  obtain p ns run' where x: "x = (p, ns, run')" by (cases x)
  obtain id run where f: "find_run V s id = Inr (p, run)" "set_node nid ns actor ref (en_now V) run = Inr run'"
    using Inr x by (auto simp: node_set_checks_def)
  let ?m = "''flow run: node '' @ nid @ '' '' @ arrow @ '' '' @ node_status_str ns @ '' @'' @ author"
  obtain r1 s1 where c: "store_run V p run' ?m author s = (r1, s1)" by force
  have "st_tree s' = st_tree s1"
    using assms(1) Inr x c by (auto simp: handle_flow_node_set_def Let_def split: sum.splits)
  moreover have "run_file p" "run_ok run'"
    using find_run_good [OF f(1)] assms(3) R set_node_ok [OF _ f(2)] by (auto simp: flows_inv_def)
  ultimately show ?thesis using store_run_keeps [OF c assms(2) _ _ assms(3)] by simp
qed (use assms in \<open>simp add: handle_flow_node_set_def\<close>)

lemma handle_flow_run_cancel_inv:
  assumes "handle_flow_run_cancel V s0 rid author s = (r, s')" "flow_env RF WF RR WR V" "flows_inv RF RR (st_tree s)"
  shows "flows_inv RF RR (st_tree s')"
proof (cases "cancel_checks V s0 s rid author")
  case (Inr x)
  have R: "en_run_read V = RR" using assms(2) by (simp add: flow_env_def)
  obtain p run' where x: "x = (p, run')" by (cases x)
  obtain id run where f: "find_run V s id = Inr (p, run)" "cancel_run (en_now V) run = Inr run'"
    using Inr x by (auto simp: cancel_checks_def)
  obtain r1 s1 where c: "store_run V p run' (''flow run: cancel '' @ rid @ '' @'' @ author) author s = (r1, s1)" by force
  have "st_tree s' = st_tree s1"
    using assms(1) Inr x c by (auto simp: handle_flow_run_cancel_def split: sum.splits)
  moreover have "run_file p" "run_ok run'"
    using find_run_good [OF f(1)] assms(3) R run_step_ok [OF cancel_step [OF f(2)]] by (auto simp: flows_inv_def)
  ultimately show ?thesis using store_run_keeps [OF c assms(2) _ _ assms(3)] by simp
qed (use assms in \<open>simp add: handle_flow_run_cancel_def\<close>)

lemma start_checks_valid: "start_checks V s0 slug ch author = Inr (sl, c, t) \<Longrightarrow> valid_slug sl"
  by (auto simp: start_checks_def dest!: flow_slug_of_Inr)

lemma handle_flow_run_start_inv:
  assumes "handle_flow_run_start V s0 slug ch author s = (r, s')" "flow_env RF WF RR WR V" "flows_inv RF RR (st_tree s)"
  shows "flows_inv RF RR (st_tree s')"
proof (cases "start_checks V s0 slug ch author")
  case (Inr x)
  obtain sl c t where x: "x = (sl, c, t)" by (cases x)
  let ?id = "run_id_generate (en_run_stamp V) (en_fresh V)"
  let ?run = "start_run t ?id sl c author (en_now V)"
  obtain r1 s1 where c: "commit_run_state_locked V ?id sl ?run ''flow run: start'' author s = (r1, s1)" by force
  have "st_tree s' = st_tree s1"
    using assms(1) Inr x c by (auto simp: handle_flow_run_start_def Let_def split: sum.splits)
  moreover have "st_tree s1 = st_tree s \<or> (\<exists>w. stringify_run_state (en_run_write V) ?run = Inr w
      \<and> st_tree s1 = AList.update (run_path (flow_slug_str sl) ?id) w (st_tree s))"
    using c by (auto simp: commit_run_state_locked_def Let_def split: sum.splits prod.splits dest!: commit_document_frame)
  moreover have "run_file (run_path (flow_slug_str sl) ?id)"
    using run_path_is_state_path start_checks_valid Inr x assms(2) run_state_path_file by (auto simp: flow_env_def)
  ultimately show ?thesis
    using flows_inv_run_write [OF assms(3)] written_run_good start_run_ok assms(2,3) by (auto simp: flow_env_def)
qed (use assms in \<open>simp add: handle_flow_run_start_def\<close>)

lemma trash_outside:
  "\<not> run_file (''.trash/flows/'' @ x)" "valid_slug sl \<Longrightarrow> ''.trash/flows/'' @ x \<noteq> flow_path sl"
  by (auto simp: run_file_def starts_with_iff flow_path_valid)

lemma add_and_commit_tree: "st_tree (snd (add_and_commit_as V ps m a s)) = st_tree s"
  by (simp add: add_and_commit_as_def split: option.split)

lemma handle_flow_remove_inv:
  assumes "handle_flow_remove V s0 slug author s = (r, s')" "flows_inv RF RR (st_tree s)"
  shows "flows_inv RF RR (st_tree s')"
proof -
  let ?trash = "''.trash/flows/'' @ slug" and ?dir = "''flows/'' @ slug"
  let ?t1 = "remove_below ?trash (st_tree s)"
  have "st_tree s' \<in> {st_tree s, ?t1, move_path ?dir ?trash ?t1}"
    using assms(1) unfolding handle_flow_remove_def
    by (auto simp: Let_def split: sum.splits if_splits option.splits prod.splits
        simp: add_and_commit_tree dest!: flow_slug_of_Inr add_and_commit_frame)
  moreover have "flows_inv RF RR ?t1"
    using assms(2) flows.store_ok_filter runs.store_ok_filter by (auto simp: flows_inv_def remove_below_def)
  moreover from this have "flows_inv RF RR (move_path ?dir ?trash ?t1)"
    using trash_outside(1) [of slug] trash_outside(1) [of "slug @ ''/'' @ _"] trash_outside(2)
    by (auto simp: flows_inv_def intro!: flows.store_ok_move_out runs.store_ok_move_out)
  ultimately show ?thesis using assms(2) by auto
qed

subsection \<open>Sequences of flow requests\<close>

inductive flow_step ::
  "(string \<Rightarrow> flow_meta option) \<Rightarrow> (flow_meta \<Rightarrow> string option) \<Rightarrow> (string \<Rightarrow> flow_run option) \<Rightarrow>
   (flow_run \<Rightarrow> string option) \<Rightarrow> app_state \<Rightarrow> app_state \<Rightarrow> bool"
  for RF WF RR WR where
  FlowCreate: "flow_env RF WF RR WR V \<Longrightarrow> handle_flow_create V s0 slug name d author s = (r, s') \<Longrightarrow> flow_step RF WF RR WR s s'"
| FlowUpdateNode: "flow_env RF WF RR WR V \<Longrightarrow> handle_flow_update_node V s0 slug nid p author s = (r, s') \<Longrightarrow>
     flow_step RF WF RR WR s s'"
| FlowReplace: "flow_env RF WF RR WR V \<Longrightarrow> handle_flow_replace V s0 slug on od ns author s = (r, s') \<Longrightarrow>
     flow_step RF WF RR WR s s'"
| FlowRemove: "flow_env RF WF RR WR V \<Longrightarrow> handle_flow_remove V s0 slug author s = (r, s') \<Longrightarrow> flow_step RF WF RR WR s s'"
| RunStart: "flow_env RF WF RR WR V \<Longrightarrow> handle_flow_run_start V s0 slug ch author s = (r1, s') \<Longrightarrow> flow_step RF WF RR WR s s'"
| RunNodeSet: "flow_env RF WF RR WR V \<Longrightarrow> handle_flow_node_set V s0 rid nid st actor ref author s = (r1, s') \<Longrightarrow>
     flow_step RF WF RR WR s s'"
| RunCancel: "flow_env RF WF RR WR V \<Longrightarrow> handle_flow_run_cancel V s0 rid author s = (r1, s') \<Longrightarrow> flow_step RF WF RR WR s s'"

lemmas run_handlers_inv = handle_flow_remove_inv handle_flow_run_start_inv handle_flow_node_set_inv handle_flow_run_cancel_inv

interpretation flow_machine: step_invariant "flow_step RF WF RR WR" "\<lambda>s. flows_inv RF RR (st_tree s)" for RF WF RR WR
proof
  fix s s' :: app_state
  assume "flow_step RF WF RR WR s s'" "flows_inv RF RR (st_tree s)"
  then show "flows_inv RF RR (st_tree s')"
    by (cases rule: flow_step.cases) (blast intro: flow_written_inv flow_handlers_written run_handlers_inv)+
qed


definition stub_meta :: flow_meta where
  "stub_meta = \<lparr>fm_schema_version = 1, fm_slug = ''release'', fm_name = ''Release'', fm_description = [],
     fm_created_by = ''alice'', fm_created_at = ''20260101T000000Z'', fm_updated_at = Some ''20260101T000000Z'', fm_nodes = []\<rparr>"

definition stub_read :: "string \<Rightarrow> flow_meta option" where
  "stub_read c = (if c = ''slug: release'' then Some stub_meta else None)"

definition stub_write :: "flow_meta \<Rightarrow> string option" where
  "stub_write m = (if m = stub_meta then Some ''slug: release'' else None)"

definition stub_env :: env where
  "stub_env = base_env\<lparr>en_flow_read := stub_read, en_flow_write := stub_write\<rparr>"

definition stub_state :: app_state where
  "stub_state = snd (handle_flow_create stub_env base_state ''release'' ''Release'' [] ''alice'' base_state)"

lemma stub_flow_env: "flow_env stub_read stub_write (\<lambda>_. None) (\<lambda>_. None) stub_env"
proof -
  have "trim ([newline] @ trim_end ''slug: release'') = ''slug: release''" "strip_prompts stub_meta = stub_meta"
      "\<not> contains_str ([newline] @ ''---'') ([newline] @ trim_end ''slug: release'')"
      "is_valid_run_id (run_id_str (run_id_generate (en_run_stamp stub_env) (en_fresh stub_env)))"
    by code_simp+
  then show ?thesis
    by (simp add: flow_env_def flow_yaml_def run_yaml_def stub_read_def stub_write_def stub_env_def base_env_def)
qed

lemma stub_created: "\<exists>c. read_file stub_env stub_state (flow_path (FlowSlug ''release'')) = Inr c"
proof -
  have "is_ok (read_file stub_env stub_state (flow_path (FlowSlug ''release'')))" by code_simp
  then show ?thesis by (simp add: is_ok_iff)
qed


end
