(* ===== verification/Daemon_Channels.thy ===== *)
theory Daemon_Channels
  imports Daemon
begin

text \<open>
  Sending messages, joining and leaving channels, creating channels, and archiving direct messages
  (\<^verbatim>\<open>handlers/send.rs\<close>, \<^verbatim>\<open>handlers/channel.rs\<close>, \<^verbatim>\<open>handlers/dm.rs\<close>).  A handler returns its response, or the
  reason it refuses, and the new state.  The checks of a handler are one definition that computes what
  is to be written; the handler then writes, commits and notifies.
\<close>

datatype response =
    SendResponse nat string string "string option"
  | ChannelEventResponse string string string "string list" nat string
  | CreateChannelResponse string string
  | ArchiveDmResponse string string
  | UnarchiveDmResponse string string

definition io_text :: "string option \<Rightarrow> string" where
  "io_text e = (case e of Some t \<Rightarrow> t | None \<Rightarrow> ''not found'')"

subsection \<open>Sending (send.rs)\<close>

definition dm_not_archived :: "app_state \<Rightarrow> string \<Rightarrow> string \<Rightarrow> daemon_error + unit" where
  "dm_not_archived s channel author =
     (case strip_prefix ''dm:'' channel of
        None \<Rightarrow> Inr ()
      | Some dm_rest \<Rightarrow>
          (let parts = split_on (CHR '','') dm_rest in
           if length parts = 2 then
             (case (handler_new (parts ! 0), handler_new (parts ! 1)) of
                (Inr h1, Inr h2) \<Rightarrow>
                  fail_if (path_exists s (archived_dm_path (dm_filename h1 h2)))
                    (ErrDmArchived (if parts ! 0 = author then parts ! 1 else parts ! 0))
              | _ \<Rightarrow> Inr ())
           else Inr ()))"

definition read_channel_meta :: "env \<Rightarrow> app_state \<Rightarrow> string \<Rightarrow> daemon_error + channel_meta" where
  "read_channel_meta V s channel =
     (case read_file V s (channel_meta_path channel) of
        Inl e \<Rightarrow> Inl (ErrIo ''failed to read channel meta'' (io_text e))
      | Inr content \<Rightarrow> ok_or (ErrParseMeta ''channel meta'') (en_channel_read V content))"

definition active_channel_meta :: "env \<Rightarrow> app_state \<Rightarrow> string \<Rightarrow> daemon_error + channel_meta" where
  "active_channel_meta V s channel =
     (if path_exists s (channel_meta_path channel) then read_channel_meta V s channel
      else if path_exists s (archived_channel_meta_path channel) then Inl (ErrChannelArchived channel)
      else Inl (ErrNoChannel channel))"

definition allowed_senders :: "env \<Rightarrow> app_state \<Rightarrow> string list \<Rightarrow> string \<Rightarrow> daemon_error + string list" where
  "allowed_senders V s user_list channel =
     (case strip_prefix ''dm:'' channel of
        Some dm_rest \<Rightarrow>
          (let participants = split_on (CHR '','') dm_rest in
           andThen (try_each (\<lambda>p. fail_if (p \<notin> set user_list) (ErrDmNotRegistered p)) participants) (\<lambda>_.
             Inr participants))
      | None \<Rightarrow> andThen (active_channel_meta V s channel) (\<lambda>meta. Inr (cm_members meta)))"

definition send_checks ::
  "env \<Rightarrow> app_state \<Rightarrow> app_state \<Rightarrow> string \<Rightarrow> string \<Rightarrow> nat option \<Rightarrow> string \<Rightarrow>
   daemon_error + string \<times> string \<times> nat \<times> string" where
  "send_checks V s0 s channel body reply_to author =
     andThen (map_err ErrInvalidAuthor (handler_new author)) (\<lambda>handler.
     andThen (ensure_author_not_departed s0 author) (\<lambda>_.
     andThen (fail_if (author \<notin> set (st_users s0)) (ErrUnknownUser author)) (\<lambda>_.
     andThen (dm_not_archived s0 channel author) (\<lambda>_.
     andThen (resolve_thread_path channel) (\<lambda>(thread_path, thread_name).
     let existing = read_or_default V s thread_path in
     andThen (map_err ErrParseThread (parse_thread (en_ext V) existing)) (\<lambda>existing_file.
     let next_line = u64_add (last_line_number existing_file) 1;
         point_to = (case reply_to of Some p \<Rightarrow> p | None \<Rightarrow> 0);
         new_content = format_message (en_ext V) next_line point_to handler (en_now V) body in
     andThen (allowed_senders V s (st_users s0) channel) (\<lambda>allowed.
     andThen (map_err ErrCompliance
               (validate_append (en_ext V) existing new_content (st_users s0) allowed)) (\<lambda>_.
       Inr (thread_path, thread_name, next_line, new_content)))))))))"

definition line_label :: "nat \<Rightarrow> string" where
  "line_label n = ''L'' @ pad0 6 (show_nat n)"

text \<open>Commit a message and record it as waiting for a push when its commit is known.\<close>

definition commit_message ::
  "env \<Rightarrow> string \<Rightarrow> string \<Rightarrow> string \<Rightarrow> nat \<Rightarrow> string \<Rightarrow> app_state \<Rightarrow> (string \<times> string option) \<times> app_state" where
  "commit_message V path message pending_channel line author s =
     (case add_and_commit_as V [path] message author s of
        (Inl _, s1) \<Rightarrow> ((''written'', None), s1)
      | (Inr _, s1) \<Rightarrow>
          (case en_head V of
             Inl _ \<Rightarrow> ((''committed'', None), s1)
           | Inr hash \<Rightarrow> ((''committed'', Some hash), add_pending pending_channel line hash s1)))"

definition handle_send ::
  "env \<Rightarrow> app_state \<Rightarrow> string \<Rightarrow> string \<Rightarrow> nat option \<Rightarrow> string \<Rightarrow> app_state \<Rightarrow> response outcome" where
  "handle_send V s0 channel body reply_to author s =
     (case send_checks V s0 s channel body reply_to author of
        Inl e \<Rightarrow> (Inl e, s)
      | Inr (thread_path, thread_name, next_line, new_content) \<Rightarrow>
          (case append_file V thread_path new_content s of
             (Inl e, s1) \<Rightarrow> (Inl e, s1)
           | (Inr _, s1) \<Rightarrow>
               (let ((status, commit_id), s2) =
                      commit_message V thread_path
                        (''msg: @'' @ author @ '' -> '' @ thread_name @ '' '' @ line_label next_line)
                        thread_name next_line author s1;
                    kind = (if starts_with ''dm:'' channel then ''dm'' else ''channel'');
                    s3 = send_event (ThreadChanged thread_name kind) s2
                in (Inr (SendResponse next_line thread_name status commit_id), schedule_sync s3))))"

subsection \<open>Joining and leaving (channel.rs)\<close>

datatype event_type = Join | Leave

fun event_str :: "event_type \<Rightarrow> string" where
  "event_str Join = ''join''"
| "event_str Leave = ''leave''"

definition leave_removes_channel_creator :: "string \<Rightarrow> string list \<Rightarrow> channel_meta \<Rightarrow> bool" where
  "leave_removes_channel_creator author targets meta =
     (if cm_created_by meta = [] then False
      else if targets = [] then author = cm_created_by meta
      else list_ex (\<lambda>target. target = cm_created_by meta) targets)"

definition event_rules ::
  "event_type \<Rightarrow> string \<Rightarrow> string list \<Rightarrow> string list \<Rightarrow> channel_meta \<Rightarrow> daemon_error + unit" where
  "event_rules ty author targets users meta =
     (case ty of
        Join \<Rightarrow> map_err ErrRule (validate_join author targets users (cm_members meta))
      | Leave \<Rightarrow>
          andThen (map_err ErrRule (validate_leave author targets users (cm_members meta))) (\<lambda>_.
            fail_if (leave_removes_channel_creator author targets meta) ErrCreatorLeaves))"

definition targets_json :: "string list \<Rightarrow> json" where
  "targets_json targets =
     (if targets = [] then JObject [] else JObject [(''targets'', JArray (map JString targets))])"

definition affected_users :: "string \<Rightarrow> string list \<Rightarrow> string list" where
  "affected_users author targets = (if targets = [] then [author] else targets)"

definition update_members :: "event_type \<Rightarrow> string list \<Rightarrow> channel_meta \<Rightarrow> channel_meta" where
  "update_members ty affected meta =
     (case ty of
        Join \<Rightarrow> meta\<lparr>cm_members := sort (push_missing (cm_members meta) affected)\<rparr>
      | Leave \<Rightarrow> meta\<lparr>cm_members := filter (\<lambda>m. m \<notin> set affected) (cm_members meta)\<rparr>)"

definition event_checks ::
  "env \<Rightarrow> app_state \<Rightarrow> app_state \<Rightarrow> string \<Rightarrow> string list \<Rightarrow> string \<Rightarrow> event_type \<Rightarrow>
   daemon_error + channel_meta \<times> nat \<times> string" where
  "event_checks V s0 s channel targets author ty =
     andThen (map_err ErrInvalidChannel (channel_name_new channel)) (\<lambda>_.
     andThen (map_err ErrInvalidAuthor (handler_new author)) (\<lambda>handler.
     andThen (ensure_author_not_departed s0 author) (\<lambda>_.
     andThen (fail_if (author \<notin> set (st_users s0)) (ErrUnknownUser author)) (\<lambda>_.
     andThen (try_each (\<lambda>t. discard (map_err (ErrInvalidHandler ''target'') (handler_new t))) targets) (\<lambda>_.
     andThen (active_channel_meta V s0 channel) (\<lambda>channel_meta.
     andThen (event_rules ty author targets (st_users s0) channel_meta) (\<lambda>_.
     let existing = read_or_default V s (channel_thread_path channel) in
     andThen (map_err ErrParseThread (parse_thread (en_ext V) existing)) (\<lambda>existing_file.
     let next_line = u64_add (last_line_number existing_file) 1 in
     andThen (read_channel_meta V s channel) (\<lambda>latest_meta.
     andThen (event_rules ty author targets (st_users s0) latest_meta) (\<lambda>_.
     let new_content = format_event (en_ext V) next_line handler (en_now V) (event_str ty) (targets_json targets);
         members = cm_members latest_meta;
         allowed = (if ty = Join \<and> targets = [] \<and> author \<notin> set members then members @ [author] else members) in
     andThen (map_err ErrCompliance
               (validate_append (en_ext V) existing new_content (st_users s0) allowed)) (\<lambda>_.
       Inr (latest_meta, next_line, new_content))))))))))))"

definition write_channel_event ::
  "env \<Rightarrow> app_state \<Rightarrow> string \<Rightarrow> string list \<Rightarrow> string \<Rightarrow> event_type \<Rightarrow> app_state \<Rightarrow> response outcome" where
  "write_channel_event V s0 channel targets author ty s =
     (case event_checks V s0 s channel targets author ty of
        Inl e \<Rightarrow> (Inl e, s)
      | Inr (latest_meta, next_line, new_content) \<Rightarrow>
          (case append_file V (channel_thread_path channel) new_content s of
             (Inl e, s1) \<Rightarrow> (Inl e, s1)
           | (Inr _, s1) \<Rightarrow>
               (let affected = affected_users author targets in
                case en_channel_write V (update_members ty affected latest_meta) of
                  None \<Rightarrow> (Inl (ErrYaml ''channel meta''), s1)
                | Some meta_str \<Rightarrow>
                    (case write_file V ''failed to write channel meta'' (channel_meta_path channel) meta_str s1 of
                       (Inl e, s2) \<Rightarrow> (Inl e, s2)
                     | (Inr _, s2) \<Rightarrow>
                         (let (committed, s3) =
                                add_and_commit_as V [channel_thread_path channel, channel_meta_path channel]
                                  (''event: @'' @ author @ '' '' @ event_str ty @ '' '' @ channel) author s2;
                              status = (case committed of Inr _ \<Rightarrow> ''committed'' | Inl _ \<Rightarrow> ''written'')
                          in (Inr (ChannelEventResponse channel (event_str ty) author affected next_line status),
                              send_event (MembershipChanged channel (event_str ty) author affected) s3))))))"

definition handle_join_channel ::
  "env \<Rightarrow> app_state \<Rightarrow> string \<Rightarrow> string list \<Rightarrow> string \<Rightarrow> app_state \<Rightarrow> response outcome" where
  "handle_join_channel V s0 channel targets author s = write_channel_event V s0 channel targets author Join s"

definition handle_leave_channel ::
  "env \<Rightarrow> app_state \<Rightarrow> string \<Rightarrow> string list \<Rightarrow> string \<Rightarrow> app_state \<Rightarrow> response outcome" where
  "handle_leave_channel V s0 channel targets author s = write_channel_event V s0 channel targets author Leave s"

subsection \<open>Creating a channel (channel.rs)\<close>

definition create_checks ::
  "env \<Rightarrow> app_state \<Rightarrow> string \<Rightarrow> string \<Rightarrow> string list \<Rightarrow> daemon_error + handler \<times> channel_name" where
  "create_checks V s0 name author invitees =
     andThen (map_err ErrInvalidAuthor (handler_new author)) (\<lambda>handler.
     andThen (ensure_author_not_departed s0 author) (\<lambda>_.
     andThen (fail_if (author \<notin> set (st_users s0)) (ErrUnknownUser author)) (\<lambda>_.
     andThen (try_each (\<lambda>i. andThen (discard (map_err (ErrInvalidHandler ''invitee'') (handler_new i))) (\<lambda>_.
                fail_if (i \<notin> set (st_users s0)) (ErrUnknownUser i))) invitees) (\<lambda>_.
     andThen (map_err ErrInvalidChannel (channel_name_new name)) (\<lambda>channel_name.
     andThen (fail_if (path_exists s0 (channel_meta_path name)) (ErrChannelExists name)) (\<lambda>_.
     andThen (fail_if (path_exists s0 (archived_channel_meta_path name)) (ErrChannelArchived name)) (\<lambda>_.
     andThen (make_dir V ''failed to create channels dir'' ''channels'') (\<lambda>_.
       Inr (handler, channel_name)))))))))"

definition new_channel_meta ::
  "env \<Rightarrow> string \<Rightarrow> string option \<Rightarrow> string option \<Rightarrow> string \<Rightarrow> string list \<Rightarrow> channel_meta" where
  "new_channel_meta V name display_name introduction author invitees =
     \<lparr>cm_display_name = (case display_name of Some d \<Rightarrow> d | None \<Rightarrow> name), cm_created_by = author,
      cm_created_at = en_now V, cm_introduction = (case introduction of Some i \<Rightarrow> i | None \<Rightarrow> []),
      cm_members = push_missing [author] invitees, cm_project = None\<rparr>"

definition handle_create_channel ::
  "env \<Rightarrow> app_state \<Rightarrow> string \<Rightarrow> string option \<Rightarrow> string option \<Rightarrow> string \<Rightarrow> string list \<Rightarrow> app_state \<Rightarrow> response outcome" where
  "handle_create_channel V s0 name display_name introduction author invitees s =
     (case create_checks V s0 name author invitees of
        Inl e \<Rightarrow> (Inl e, s)
      | Inr (handler, channel_name) \<Rightarrow>
          (let meta = new_channel_meta V name display_name introduction author invitees in
           case en_channel_write V meta of
             None \<Rightarrow> (Inl (ErrYaml ''channel meta''), s)
           | Some meta_str \<Rightarrow>
               (case write_file V ''failed to write channel meta'' (channel_meta_path name) meta_str s of
                  (Inl e, s1) \<Rightarrow> (Inl e, s1)
                | (Inr _, s1) \<Rightarrow>
                    (let join_line = format_event (en_ext V) 1 handler (en_now V) ''join''
                           (targets_json (tl (cm_members meta))) in
                     case write_file V ''failed to write channel thread'' (channel_thread_path name) join_line s1 of
                       (Inl e, s2) \<Rightarrow> (Inl e, s2)
                     | (Inr _, s2) \<Rightarrow>
                         (case add_and_commit_as V [channel_meta_path name, channel_thread_path name]
                                 (''channel: create #'' @ name @ '' by @'' @ author) author s2 of
                            (Inl e, s3) \<Rightarrow> (Inl (ErrGit ''create_channel commit failed'' e), s3)
                          | (Inr _, s3) \<Rightarrow>
                              (case push_with_retry V ''create_channel'' s3 of
                                 (Inl e, s4) \<Rightarrow> (Inl e, s4)
                               | (Inr _, s4) \<Rightarrow> (Inr (CreateChannelResponse name author), s4)))))))"

subsection \<open>Archiving direct messages (dm.rs)\<close>

text \<open>The part both directions share: move, commit with a rollback of the move, push.\<close>

definition move_and_commit ::
  "env \<Rightarrow> string \<Rightarrow> string \<Rightarrow> string \<Rightarrow> string \<Rightarrow> string \<Rightarrow> app_state \<Rightarrow> unit outcome" where
  "move_and_commit V op from_rel to_rel message author s =
     (case git_mv V from_rel to_rel s of
        (Inl e, s1) \<Rightarrow> (Inl (ErrGit ''git mv failed'' e), s1)
      | (Inr _, s1) \<Rightarrow>
          (case add_and_commit_as V [to_rel] message author s1 of
             (Inl e, s2) \<Rightarrow> (Inl (ErrGit (op @ '' commit failed'') e), snd (git_mv V to_rel from_rel s2))
           | (Inr _, s2) \<Rightarrow> push_with_retry V op s2))"

definition dm_stem :: "string \<Rightarrow> string \<Rightarrow> daemon_error + string" where
  "dm_stem peer author =
     andThen (map_err (ErrInvalidHandler ''peer'') (handler_new peer)) (\<lambda>peer_h.
     andThen (map_err ErrInvalidAuthor (handler_new author)) (\<lambda>author_h.
       Inr (dm_filename author_h peer_h)))"

definition archive_dm_checks :: "env \<Rightarrow> app_state \<Rightarrow> string \<Rightarrow> string \<Rightarrow> daemon_error + string" where
  "archive_dm_checks V s0 peer author =
     andThen (dm_stem peer author) (\<lambda>stem.
     andThen (ensure_author_not_departed s0 author) (\<lambda>_.
     andThen (fail_if (author \<notin> set (st_users s0)) (ErrUnknownUser author)) (\<lambda>_.
     andThen (fail_if (path_exists s0 (archived_dm_path stem)) (ErrDmArchived peer)) (\<lambda>_.
     andThen (fail_if (\<not> path_exists s0 (dm_thread_path stem)) (ErrDmMissing peer)) (\<lambda>_.
     andThen (make_dir V ''failed to create archive/dm dir'' ''archive/dm'') (\<lambda>_.
       Inr stem))))))"

definition handle_archive_dm ::
  "env \<Rightarrow> app_state \<Rightarrow> string \<Rightarrow> string \<Rightarrow> app_state \<Rightarrow> response outcome" where
  "handle_archive_dm V s0 peer author s =
     (case archive_dm_checks V s0 peer author of
        Inl e \<Rightarrow> (Inl e, s)
      | Inr stem \<Rightarrow>
          (case move_and_commit V ''archive_dm'' (dm_thread_path stem) (archived_dm_path stem)
                  (''archive: dm with @'' @ peer) author s of
             (Inl e, s1) \<Rightarrow> (Inl e, s1)
           | (Inr _, s1) \<Rightarrow>
               (Inr (ArchiveDmResponse author stem), send_event (DmArchived peer author (en_now V)) s1)))"

definition unarchive_dm_checks :: "env \<Rightarrow> app_state \<Rightarrow> string \<Rightarrow> string \<Rightarrow> daemon_error + string" where
  "unarchive_dm_checks V s0 peer author =
     andThen (dm_stem peer author) (\<lambda>stem.
     andThen (fail_if (author \<notin> set (st_users s0)) (ErrUnknownUser author)) (\<lambda>_.
     andThen (fail_if (path_exists s0 (dm_thread_path stem)) (ErrDmNotArchived peer)) (\<lambda>_.
     andThen (fail_if (\<not> path_exists s0 (archived_dm_path stem)) (ErrDmMissing peer)) (\<lambda>_.
     andThen (make_dir V ''failed to create dm dir'' ''dm'') (\<lambda>_.
       Inr stem)))))"

definition handle_unarchive_dm ::
  "env \<Rightarrow> app_state \<Rightarrow> string \<Rightarrow> string \<Rightarrow> app_state \<Rightarrow> response outcome" where
  "handle_unarchive_dm V s0 peer author s =
     (case unarchive_dm_checks V s0 peer author of
        Inl e \<Rightarrow> (Inl e, s)
      | Inr stem \<Rightarrow>
          (case move_and_commit V ''unarchive_dm'' (archived_dm_path stem) (dm_thread_path stem)
                  (''archive: restore dm with @'' @ peer) author s of
             (Inl e, s1) \<Rightarrow> (Inl e, s1)
           | (Inr _, s1) \<Rightarrow>
               (Inr (UnarchiveDmResponse author stem), send_event (DmUnarchived peer author (en_now V)) s1)))"

lemma commit_message_frame:
  "commit_message V p m ch l a s = (x, s') \<Longrightarrow> st_tree s' = st_tree s \<and> st_users s' = st_users s"
  by (auto simp: commit_message_def split: prod.splits sum.splits dest: daemon_frame)

end
