(* ===== verification/Daemon_Invariants.thy ===== *)
theory Daemon_Invariants
  imports Daemon_Channels Daemon_Store
begin

text \<open>
  What the channel handlers keep true, whatever runs between a handler's checks and its locked section:
  every message thread of the tree stays free of integrity issues, and the creator of a channel stays a
  member of it.  The handlers are the steps of a relation \<open>daemon_step\<close>; the invariants are proved for
  each handler and then by induction over sequences of steps.
\<close>

subsection \<open>Message threads\<close>

text \<open>The threads of channels and direct messages, active or archived (a card's discussion lies deeper).\<close>

definition thread_dirs :: "string list" where
  "thread_dirs = [''channels/'', ''dm/'', ''archive/channels/'', ''archive/dm/'']"

definition thread_name :: "string \<Rightarrow> bool" where
  "thread_name n \<longleftrightarrow> CHR ''/'' \<notin> set n \<and> ends_with ''.thread'' n"

definition message_thread :: "string \<Rightarrow> bool" where
  "message_thread p \<longleftrightarrow> list_ex (\<lambda>d. case strip_prefix d p of Some n \<Rightarrow> thread_name n | None \<Rightarrow> False) thread_dirs"

definition clean :: "ext \<Rightarrow> string list \<Rightarrow> string \<Rightarrow> bool" where
  "clean E U c \<longleftrightarrow> check_thread_integrity E c U = [] \<and> (c = [] \<or> last c = newline)"

definition threads_ok :: "ext \<Rightarrow> string list \<Rightarrow> tree \<Rightarrow> bool" where
  "threads_ok E U t \<longleftrightarrow> distinct (map fst t) \<and> (\<forall>p c. message_thread p \<and> map_of t p = Some c \<longrightarrow> clean E U c)"

lemma message_thread_iff: "message_thread p \<longleftrightarrow> (\<exists>d \<in> set thread_dirs. \<exists>n. p = d @ n \<and> thread_name n)"
  by (auto simp: message_thread_def list_ex_iff split: option.splits)

lemma dirs_unique:
  "d \<in> set thread_dirs \<Longrightarrow> d' \<in> set thread_dirs \<Longrightarrow> d @ n = d' @ n' \<Longrightarrow> d = d' \<and> n = n'"
  by (auto simp: thread_dirs_def)

lemma not_message_below: "message_thread p \<Longrightarrow> \<not> message_thread (p @ ''/'' @ r)"
proof
  assume "message_thread p" "message_thread (p @ ''/'' @ r)"
  then obtain d n d' n' where "d \<in> set thread_dirs" "p = d @ n" "d' \<in> set thread_dirs"
      "p @ ''/'' @ r = d' @ n'" "thread_name n'" by (auto simp: message_thread_iff)
  then have "n' = n @ ''/'' @ r" using dirs_unique [of d d' "n @ ''/'' @ r" n'] by simp
  with \<open>thread_name n'\<close> show False by (simp add: thread_name_def)
qed

lemma ends_with_dotthread: "ends_with ''.thread'' (n @ ''.thread'')"
  by (auto simp: ends_with_iff)

lemma message_threadI: "CHR ''/'' \<notin> set n \<Longrightarrow> d \<in> set thread_dirs \<Longrightarrow> message_thread (d @ n @ ''.thread'')"
  unfolding message_thread_iff thread_name_def using ends_with_dotthread [of n] by fastforce

lemma not_message_yaml: "\<not> message_thread (p @ ''.yaml'')"
proof
  assume "message_thread (p @ ''.yaml'')"
  then obtain d n where "p @ ''.yaml'' = d @ n" "ends_with ''.thread'' n" by (auto simp: message_thread_iff thread_name_def)
  then obtain q where "p @ ''.yaml'' = q @ ''.thread''" by (auto simp: ends_with_iff)
  then have "last (p @ ''.yaml'') = last (q @ ''.thread'')" by metis
  then show False by simp
qed

lemma channel_meta_not_message [simp]: "\<not> message_thread (channel_meta_path n)"
  using not_message_yaml [of "''channels/'' @ n @ ''.meta''"] by (simp add: channel_meta_path_def)

lemma kebab_no_slash: "kebab_wf k s \<Longrightarrow> CHR ''/'' \<notin> set s"
  by (auto simp: kebab_wf_def list_all_iff kebab_char_def byte_class)

lemma channel_thread_message: "channel_name_new n = Inr h \<Longrightarrow> message_thread (channel_thread_path n)"
  using message_threadI [of n "''channels/''"] kebab_no_slash
  by (auto simp: channel_thread_path_def thread_dirs_def channel_name_new_Inr)

lemma dm_filename_no_slash:
  "handler_new a = Inr h1 \<Longrightarrow> handler_new b = Inr h2 \<Longrightarrow> CHR ''/'' \<notin> set (dm_filename h1 h2)"
  using kebab_no_slash by (auto simp: dm_filename_def handler_new_Inr)

lemma dm_paths_message:
  assumes "CHR ''/'' \<notin> set stem"
  shows "message_thread (dm_thread_path stem)" "message_thread (archived_dm_path stem)"
  using message_threadI [OF assms, of "''dm/''"] message_threadI [OF assms, of "''archive/dm/''"]
  by (simp_all add: dm_thread_path_def archived_dm_path_def thread_dirs_def)

lemma resolve_thread_message:
  assumes "resolve_thread_path channel = Inr (p, name)"
  shows "message_thread p"
proof (cases "strip_prefix ''dm:'' channel")
  case None
  with assms obtain n where "channel_name_new channel = Inr n" "p = channel_thread_path (channel_str n)"
    by (auto simp: resolve_thread_path_def)
  then show ?thesis using channel_thread_message by (auto simp: channel_name_new_Inr)
next
  case (Some rest)
  with assms show ?thesis
    by (auto simp: resolve_thread_path_def Let_def intro!: dm_paths_message dest: dm_filename_no_slash split: if_splits)
qed

subsection \<open>Clean threads\<close>

lemma clean_Nil: "clean E U []"
  by (simp add: clean_def check_thread_integrity_def parse_thread_def)

lemma clean_append:
  assumes "clean E U old" "validate_append E old new users allowed = Inr ()" "set users \<subseteq> set U"
    "new \<noteq> []" "last new = newline"
  shows "clean E U (old @ new)"
  using assms append_clean [OF _ validate_append_mono] by (simp add: clean_def)

lemma format_message_ended: "format_message E l p h t b \<noteq> [] \<and> last (format_message E l p h t b) = newline"
proof (cases "lines b")
  case (Cons x xs)
  then show ?thesis by (cases xs rule: rev_cases) (simp_all add: format_message_def)
qed (simp add: format_message_def)

lemma format_event_ended: "format_event E l h t ty m \<noteq> [] \<and> last (format_event E l h t ty m) = newline"
  by (simp add: format_event_def)

lemma threads_ok_update:
  "threads_ok E U t \<Longrightarrow> (message_thread p \<Longrightarrow> clean E U c) \<Longrightarrow> threads_ok E U (AList.update p c t)"
  by (auto simp: threads_ok_def distinct_update update_conv')

lemma threads_ok_lookup:
  "threads_ok E U t \<Longrightarrow> message_thread p \<Longrightarrow> clean E U (case map_of t p of Some c \<Rightarrow> c | None \<Rightarrow> [])"
  by (auto simp: threads_ok_def clean_Nil split: option.splits)

lemma threads_ok_move:
  assumes ok: "threads_ok E U t" and a: "message_thread a" and b: "message_thread b"
    and free: "\<not> tree_has t (mv_target a b t)"
  shows "threads_ok E U (move_path a (mv_target a b t) t)"
proof -
  let ?b = "mv_target a b t"
  have d: "distinct (map fst t)" using ok by (simp add: threads_ok_def)
  have "distinct (map (moved_name a ?b) (map fst t))"
    using moved_name_inj [OF d free] d by (simp add: distinct_map del: map_map)
  then have "distinct (map fst (move_path a ?b t))" by (simp add: move_path_def comp_def case_prod_beta)
  moreover have "clean E U c" if q: "message_thread q" "map_of (move_path a ?b t) q = Some c" for q c
  proof -
    obtain p where p: "map_of t p = Some c" "q = moved_name a ?b p" using map_of_move [OF d free q(2)] by blast
    have "\<not> message_thread (?b @ ''/'' @ r)" for r
      using not_message_below [OF b, of r] not_message_below [OF b, of "base_name a @ ''/'' @ r"]
      by (auto simp: mv_target_def)
    then have "p = a \<or> q = p" using p(2) q(1) moved_name_cases [of p a ?b] by metis
    then show ?thesis using ok p(1) q(1) a by (auto simp: threads_ok_def)
  qed
  ultimately show ?thesis unfolding threads_ok_def by blast
qed
subsection \<open>The environment\<close>

text \<open>What the invariants need of the environment: the clock prints compact timestamps, files can be
  read, the YAML library reads what it printed, \<^verbatim>\<open>git mv\<close> behaves as documented, and no push meets a
  conflict.\<close>

definition reads_ok :: "env \<Rightarrow> bool" where
  "reads_ok V \<longleftrightarrow> (\<forall>p. en_io V (IoRead p) = None)"

definition env_ok :: "ext \<Rightarrow> (string \<Rightarrow> channel_meta option) \<Rightarrow> env \<Rightarrow> bool" where
  "env_ok E R V \<longleftrightarrow>
     en_ext V = E \<and> en_channel_read V = R \<and> (\<forall>m c. en_channel_write V m = Some c \<longrightarrow> R c = Some m)
     \<and> compact_timestamp (en_now V) \<and> reads_ok V \<and> git_ok V \<and> no_rebase V"

text \<open>The JSON library reads back, from one line, the target lists the handlers write.\<close>

definition json_ok :: "ext \<Rightarrow> bool" where
  "json_ok E \<longleftrightarrow>
     (\<forall>ts. (\<forall>t \<in> set ts. is_ok (handler_new t)) \<longrightarrow>
        one_line (json_to_string E (targets_json ts))
        \<and> json_from_str E (json_to_string E (targets_json ts)) = Some (targets_json ts))"

lemma read_or_default_ok:
  "reads_ok V \<Longrightarrow> read_or_default V s p = (case map_of (st_tree s) p of Some c \<Rightarrow> c | None \<Rightarrow> [])"
  by (auto simp: read_or_default_def read_file_def reads_ok_def split: option.splits)

subsection \<open>Each handler keeps threads clean\<close>

lemma handle_send_tree:
  assumes "handle_send V s0 channel body reply_to author s = (r, s')"
  shows "st_tree s' = st_tree s
    \<or> (\<exists>p name line new. send_checks V s0 s channel body reply_to author = Inr (p, name, line, new)
         \<and> st_tree s' = AList.update p ((case map_of (st_tree s) p of Some c \<Rightarrow> c | None \<Rightarrow> []) @ new) (st_tree s))"
  using assms unfolding handle_send_def
  by (auto simp: Let_def split: sum.splits prod.splits dest!: append_file_frame commit_message_frame)

lemma send_checks_Inr:
  assumes "send_checks V s0 s channel body reply_to author = Inr (p, name, line, new)"
  shows "resolve_thread_path channel = Inr (p, name)"
    and "\<exists>h. handler_new author = Inr h \<and> new = format_message (en_ext V) line
           (case reply_to of Some x \<Rightarrow> x | None \<Rightarrow> 0) h (en_now V) body"
    and "\<exists>allowed. allowed_senders V s (st_users s0) channel = Inr allowed
           \<and> validate_append (en_ext V) (read_or_default V s p) new (st_users s0) allowed = Inr ()"
    and "author \<in> set (st_users s0)" "\<not> path_exists s0 (archived_user_path author)"
  using assms by (auto simp: send_checks_def Let_def ensure_author_not_departed_def)

lemma handle_send_threads:
  assumes "handle_send V s0 channel body reply_to author s = (r, s')" "env_ok E R V" "set (st_users s0) \<subseteq> set U"
    "threads_ok E U (st_tree s)"
  shows "threads_ok E U (st_tree s')"
proof -
  consider "st_tree s' = st_tree s"
    | p name line new where "send_checks V s0 s channel body reply_to author = Inr (p, name, line, new)"
        "st_tree s' = AList.update p ((case map_of (st_tree s) p of Some c \<Rightarrow> c | None \<Rightarrow> []) @ new) (st_tree s)"
    using handle_send_tree [OF assms(1)] by blast
  then show ?thesis
  proof cases
    case 2
    let ?old = "case map_of (st_tree s) p of Some c \<Rightarrow> c | None \<Rightarrow> []"
    note c = send_checks_Inr [OF 2(1)]
    have V: "en_ext V = E" "read_or_default V s p = ?old" using assms(2) by (auto simp: env_ok_def read_or_default_ok)
    obtain allowed where va: "validate_append E ?old new (st_users s0) allowed = Inr ()" using c(3) V by auto
    have "new \<noteq> [] \<and> last new = newline" using c(2) format_message_ended by auto
    then have "clean E U (?old @ new)"
      using clean_append [OF threads_ok_lookup [OF assms(4) resolve_thread_message [OF c(1)]] va assms(3)] by blast
    then show ?thesis using threads_ok_update [OF assms(4)] 2(2) by simp
  qed (use assms(4) in simp)
qed

lemma event_checks_Inr:
  assumes "event_checks V s0 s channel targets author ty = Inr (meta, line, new)"
  shows "\<exists>n. channel_name_new channel = Inr n"
    and "\<exists>h. handler_new author = Inr h \<and> new = format_event (en_ext V) line h (en_now V) (event_str ty) (targets_json targets)"
    and "\<exists>allowed. validate_append (en_ext V) (read_or_default V s (channel_thread_path channel)) new (st_users s0) allowed = Inr ()"
    and "read_channel_meta V s channel = Inr meta" "event_rules ty author targets (st_users s0) meta = Inr ()"
  using assms by (auto simp: event_checks_def Let_def)

lemma write_channel_event_tree:
  assumes "write_channel_event V s0 channel targets author ty s = (r, s')"
  shows "st_tree s' = st_tree s
    \<or> (\<exists>meta line new t1. event_checks V s0 s channel targets author ty = Inr (meta, line, new)
         \<and> t1 = AList.update (channel_thread_path channel)
              ((case map_of (st_tree s) (channel_thread_path channel) of Some c \<Rightarrow> c | None \<Rightarrow> []) @ new) (st_tree s)
         \<and> (st_tree s' = t1
            \<or> (\<exists>c. en_channel_write V (update_members ty (affected_users author targets) meta) = Some c
                 \<and> st_tree s' = AList.update (channel_meta_path channel) c t1)))"
proof (cases "event_checks V s0 s channel targets author ty")
  case (Inr x)
  obtain meta line new where x: "x = (meta, line, new)" by (cases x) auto
  obtain r1 s1 where a: "append_file V (channel_thread_path channel) new s = (r1, s1)" by force
  let ?w = "en_channel_write V (update_members ty (affected_users author targets) meta)"
  show ?thesis
  proof (cases "\<exists>e. r1 = Inl e \<or> ?w = None")
    case True
    then show ?thesis using assms append_file_frame [OF a] Inr x a
      by (auto simp: write_channel_event_def Let_def)
  next
    case False
    then obtain c where c: "r1 = Inr ()" "?w = Some c" by (cases r1) auto
    obtain r2 s2 where w: "write_file V ''failed to write channel meta'' (channel_meta_path channel) c s1 = (r2, s2)" by force
    show ?thesis
    proof (cases r2)
      case (Inl e)
      then show ?thesis using assms append_file_frame [OF a] write_file_frame [OF w] Inr x a c w
        by (auto simp: write_channel_event_def Let_def)
    next
      case r2: (Inr u)
      then have "st_tree s' = st_tree s2"
        using assms Inr x a c w
        by (auto simp: write_channel_event_def Let_def split: prod.splits dest!: add_and_commit_frame)
      then show ?thesis using append_file_frame [OF a] write_file_frame [OF w] Inr x c r2 by auto
    qed
  qed
qed (use assms in \<open>simp add: write_channel_event_def\<close>)

lemma write_channel_event_threads:
  assumes "write_channel_event V s0 channel targets author ty s = (r, s')" "env_ok E R V"
    "set (st_users s0) \<subseteq> set U" "threads_ok E U (st_tree s)"
  shows "threads_ok E U (st_tree s')"
  using write_channel_event_tree [OF assms(1)]
proof (elim disjE exE conjE)
  fix meta line new t1
  let ?p = "channel_thread_path channel"
  let ?old = "case map_of (st_tree s) ?p of Some c \<Rightarrow> c | None \<Rightarrow> []"
  assume ch: "event_checks V s0 s channel targets author ty = Inr (meta, line, new)"
    and t1: "t1 = AList.update ?p (?old @ new) (st_tree s)"
  note c = event_checks_Inr [OF ch]
  have V: "en_ext V = E" "read_or_default V s ?p = ?old" using assms(2) by (auto simp: env_ok_def read_or_default_ok)
  obtain allowed where va: "validate_append E ?old new (st_users s0) allowed = Inr ()" using c(3) V by auto
  have m: "message_thread ?p" using c(1) channel_thread_message by blast
  have "new \<noteq> [] \<and> last new = newline" using c(2) format_event_ended by auto
  then have "clean E U (?old @ new)" using clean_append [OF threads_ok_lookup [OF assms(4) m] va assms(3)] by blast
  then have ok: "threads_ok E U t1" using threads_ok_update [OF assms(4)] t1 by simp
  then show "st_tree s' = t1 \<Longrightarrow> threads_ok E U (st_tree s')" by simp
  fix c assume "st_tree s' = AList.update (channel_meta_path channel) c t1"
  then show "threads_ok E U (st_tree s')" using threads_ok_update [OF ok, of "channel_meta_path channel" c] by simp
qed (use assms(4) in simp)
lemma join_event_parse:
  assumes "json_ok E" "handler_new author = Inr h" "compact_timestamp now" "\<forall>t \<in> set ts. is_ok (handler_new t)"
  shows "parse_thread E (format_event E 1 h now ''join'' (targets_json ts)) = Inr \<lparr>entries = [EEvent
    \<lparr>ev_line_number = 1, ev_point_to = 0, ev_author = h, ev_timestamp = now, ev_event_type = ''join'',
     ev_meta = targets_json ts\<rparr>]\<rparr>"
proof -
  let ?e = "EEvent \<lparr>ev_line_number = 1, ev_point_to = 0, ev_author = h, ev_timestamp = now, ev_event_type = ''join'',
     ev_meta = targets_json ts\<rparr>"
  have "entry_handler h" using assms(2) by (auto simp: handler_new_Inr entry_handler_def)
  moreover have "event_name ''join''" by code_simp
  moreover have "(1::nat) \<le> u64_max" by simp
  ultimately have "entry_wf E ?e" using assms(1,3,4) by (simp add: json_ok_def)
  then show ?thesis using parse_thread_formatted [of E "[?e]"] by simp
qed

lemma join_event_clean:
  assumes "json_ok E" "handler_new author = Inr h" "author \<in> set U" "compact_timestamp now"
    "\<forall>t \<in> set ts. is_ok (handler_new t)"
  shows "clean E U (format_event E 1 h now ''join'' (targets_json ts))"
proof -
  have "as_str h = author" using assms(2) by (auto simp: handler_new_Inr)
  moreover have "is_object (targets_json ts)" by (simp add: targets_json_def is_object_def)
  ultimately show ?thesis using assms(3) join_event_parse [OF assms(1,2,4,5)] format_event_ended
    by (simp add: clean_def check_thread_integrity_def)
qed

lemma is_ok_map_err [simp]: "is_ok (map_err f r) = is_ok r"
  by (cases r) auto

lemma create_checks_Inr:
  assumes "create_checks V s0 name author invitees = Inr (h, n)"
  shows "handler_new author = Inr h" "author \<in> set (st_users s0)" "channel_name_new name = Inr n"
    "\<forall>i \<in> set invitees. is_ok (handler_new i) \<and> i \<in> set (st_users s0)"
    "\<not> path_exists s0 (channel_meta_path name)" "\<not> path_exists s0 (archived_channel_meta_path name)"
    "\<not> path_exists s0 (archived_user_path author)"
  using assms by (auto simp: create_checks_def ensure_author_not_departed_def)

lemma handle_create_tree:
  assumes "handle_create_channel V s0 name dn intro author invitees s = (r, s')" "no_rebase V"
  shows "st_tree s' = st_tree s
    \<or> (\<exists>h n c. create_checks V s0 name author invitees = Inr (h, n)
         \<and> en_channel_write V (new_channel_meta V name dn intro author invitees) = Some c
         \<and> (let t1 = AList.update (channel_meta_path name) c (st_tree s) in
            st_tree s' = t1
            \<or> st_tree s' = AList.update (channel_thread_path name)
                (format_event (en_ext V) 1 h (en_now V) ''join'' (targets_json (tl (push_missing [author] invitees)))) t1))"
proof (cases "create_checks V s0 name author invitees")
  case (Inr x)
  obtain h n where x: "x = (h, n)" by (cases x) auto
  let ?m = "new_channel_meta V name dn intro author invitees"
  have mem: "cm_members ?m = push_missing [author] invitees" by (simp add: new_channel_meta_def)
  show ?thesis
  proof (cases "en_channel_write V ?m")
    case None
    then show ?thesis using assms Inr x by (simp add: handle_create_channel_def Let_def)
  next
    case (Some c)
    obtain r1 s1 where w1: "write_file V ''failed to write channel meta'' (channel_meta_path name) c s = (r1, s1)" by force
    let ?j = "format_event (en_ext V) 1 h (en_now V) ''join'' (targets_json (tl (cm_members ?m)))"
    obtain r2 s2 where w2: "write_file V ''failed to write channel thread'' (channel_thread_path name) ?j s1 = (r2, s2)" by force
    obtain r3 s3 where w3: "add_and_commit_as V [channel_meta_path name, channel_thread_path name]
        (''channel: create #'' @ name @ '' by @'' @ author) author s2 = (r3, s3)" by force
    obtain r4 s4 where w4: "push_with_retry V ''create_channel'' s3 = (r4, s4)" by force
    have t: "st_tree s3 = st_tree s2" "s4 = s3" using add_and_commit_frame [OF w3] push_frame [OF assms(2) w4] by auto
    have eq: "handle_create_channel V s0 name dn intro author invitees s =
        (case r1 of Inl e \<Rightarrow> (Inl e, s1) | Inr _ \<Rightarrow>
          (case r2 of Inl e \<Rightarrow> (Inl e, s2) | Inr _ \<Rightarrow>
            (case r3 of Inl e \<Rightarrow> (Inl (ErrGit ''create_channel commit failed'' e), s3) | Inr _ \<Rightarrow>
              (case r4 of Inl e \<Rightarrow> (Inl e, s4) | Inr _ \<Rightarrow> (Inr (CreateChannelResponse name author), s4)))))"
      using Inr x Some w1 w2 w3 w4
      by (simp add: handle_create_channel_def Let_def split: sum.splits)
    have "s' \<in> {s1, s2, s3, s4}" using assms(1) unfolding eq by (auto split: sum.splits)
    moreover have "r1 = Inr () \<or> s' = s1" using assms(1) unfolding eq by (cases r1) auto
    ultimately show ?thesis
      using write_file_frame [OF w1] write_file_frame [OF w2] t Inr x Some mem by (auto simp: Let_def)
  qed
qed (use assms in \<open>simp add: handle_create_channel_def\<close>)

lemma push_missing_tl: "set (tl (push_missing [a] xs)) \<subseteq> set xs"
proof -
  have "\<exists>ys. push_missing ms xs = ms @ ys \<and> set ys \<subseteq> set xs" for ms
  proof (induction xs arbitrary: ms)
    case (Cons x xs)
    show ?case
    proof (cases "x \<in> set ms")
      case True
      then show ?thesis using Cons [of ms] by auto
    next
      case False
      then show ?thesis using Cons [of "ms @ [x]"] by auto
    qed
  qed simp
  from this [of "[a]"] show ?thesis by auto
qed

lemma handle_create_threads:
  assumes "handle_create_channel V s0 name dn intro author invitees s = (r, s')" "env_ok E R V" "json_ok E"
    "set (st_users s0) \<subseteq> set U" "threads_ok E U (st_tree s)"
  shows "threads_ok E U (st_tree s')"
proof -
  have V: "no_rebase V" "en_ext V = E" "compact_timestamp (en_now V)" using assms(2) by (auto simp: env_ok_def)
  from handle_create_tree [OF assms(1) V(1)] show ?thesis
  proof (elim disjE exE conjE)
    fix h n c
    let ?t1 = "AList.update (channel_meta_path name) c (st_tree s)"
    let ?j = "format_event (en_ext V) 1 h (en_now V) ''join'' (targets_json (tl (push_missing [author] invitees)))"
    assume ch: "create_checks V s0 name author invitees = Inr (h, n)"
      and t: "let t1 = ?t1 in st_tree s' = t1 \<or> st_tree s' = AList.update (channel_thread_path name) ?j t1"
    note c = create_checks_Inr [OF ch]
    have ok: "threads_ok E U ?t1" using threads_ok_update [OF assms(5), of "channel_meta_path name" c] by simp
    have "\<forall>t \<in> set (tl (push_missing [author] invitees)). is_ok (handler_new t)"
      using push_missing_tl c(4) by blast
    then have "clean E U ?j" using join_event_clean [OF assms(3) c(1) _ V(3)] c(2) assms(4) V(2) by blast
    then have "threads_ok E U (AList.update (channel_thread_path name) ?j ?t1)" using threads_ok_update [OF ok] by blast
    then show ?thesis using ok t unfolding Let_def by metis
  qed (use assms(5) in simp)
qed

lemma move_and_commit_keeps:
  assumes "move_and_commit V op a b m author s = (r, s')" "git_ok V" "no_rebase V" "P (st_tree s)"
    and "\<And>t. P t \<Longrightarrow> \<not> tree_has t (mv_target a b t) \<Longrightarrow> P (move_path a (mv_target a b t) t)"
    and "\<And>t. P t \<Longrightarrow> \<not> tree_has t (mv_target b a t) \<Longrightarrow> P (move_path b (mv_target b a t) t)"
  shows "P (st_tree s')"
proof -
  obtain r1 s1 where g: "git_mv V a b s = (r1, s1)" by force
  obtain r2 s2 where c: "add_and_commit_as V [b] m author s1 = (r2, s2)" by force
  obtain r3 s3 where p: "push_with_retry V op s2 = (r3, s3)" by force
  obtain r4 s4 where rb: "git_mv V b a s2 = (r4, s4)" by force
  have 1: "P (st_tree s1)" using git_mv_frame [OF assms(2) g] assms(4,5) by auto
  then have 2: "P (st_tree s2)" using add_and_commit_frame [OF c] by simp
  have "s' \<in> {s1, s3, s4}" using assms(1) g c p rb by (auto simp: move_and_commit_def split: sum.splits)
  moreover have "s3 = s2" using push_frame [OF assms(3) p] .
  ultimately show ?thesis using 1 2 git_mv_frame [OF assms(2) rb] assms(6) by auto
qed

lemma dm_stem_no_slash: "dm_stem peer author = Inr stem \<Longrightarrow> CHR ''/'' \<notin> set stem"
  using dm_filename_no_slash by (auto simp: dm_stem_def)

subsection \<open>The creator of a channel stays a member\<close>

definition channels_ok :: "(string \<Rightarrow> channel_meta option) \<Rightarrow> tree \<Rightarrow> bool" where
  "channels_ok R t \<longleftrightarrow>
     (\<forall>n c m. map_of t (channel_meta_path n) = Some c \<and> R c = Some m \<and> cm_created_by m \<noteq> [] \<longrightarrow>
        cm_created_by m \<in> set (cm_members m))"

lemma channel_meta_path_inj [simp]: "channel_meta_path a = channel_meta_path b \<longleftrightarrow> a = b"
  by (simp add: channel_meta_path_def)

lemma channels_ok_message:
  assumes "channels_ok R t" "message_thread p"
  shows "channels_ok R (AList.update p c t)"
proof -
  have "channel_meta_path n \<noteq> p" for n using assms(2) channel_meta_not_message by metis
  then show ?thesis using assms(1) by (simp add: channels_ok_def update_conv')
qed

lemma channels_ok_meta:
  assumes "channels_ok R t" "R c = Some m" "cm_created_by m \<noteq> [] \<Longrightarrow> cm_created_by m \<in> set (cm_members m)"
  shows "channels_ok R (AList.update (channel_meta_path n) c t)"
  using assms by (auto simp: channels_ok_def update_conv')

lemma push_missing_superset: "set ms \<subseteq> set (push_missing ms xs)"
  by (induction ms xs rule: push_missing.induct) auto

lemma update_members_keeps_creator:
  assumes "event_rules ty author targets users m = Inr ()" "cm_created_by m \<in> set (cm_members m)" "cm_created_by m \<noteq> []"
  shows "cm_created_by (update_members ty (affected_users author targets) m)
    \<in> set (cm_members (update_members ty (affected_users author targets) m))"
proof (cases ty)
  case Join
  then show ?thesis using assms(2) push_missing_superset by (fastforce simp: update_members_def)
next
  case Leave
  then have "\<not> leave_removes_channel_creator author targets m" using assms(1) by (simp add: event_rules_def)
  then show ?thesis using assms(2,3) Leave
    by (auto simp: update_members_def affected_users_def leave_removes_channel_creator_def list_ex_iff split: if_splits)
qed

lemma read_channel_meta_Inr:
  "read_channel_meta V s ch = Inr m \<Longrightarrow>
   \<exists>c. map_of (st_tree s) (channel_meta_path ch) = Some c \<and> en_channel_read V c = Some m"
  by (auto simp: read_channel_meta_def read_file_def split: sum.splits option.splits)

lemma update_members_created_by [simp]: "cm_created_by (update_members ty a m) = cm_created_by m"
  by (cases ty) (simp_all add: update_members_def)

lemma handle_send_channels:
  assumes "handle_send V s0 channel body reply_to author s = (r, s')" "channels_ok R (st_tree s)"
  shows "channels_ok R (st_tree s')"
  using handle_send_tree [OF assms(1)] channels_ok_message [OF assms(2)] assms(2)
    resolve_thread_message send_checks_Inr(1) by metis

lemma write_channel_event_channels:
  assumes "write_channel_event V s0 channel targets author ty s = (r, s')" "env_ok E R V" "channels_ok R (st_tree s)"
  shows "channels_ok R (st_tree s')"
  using write_channel_event_tree [OF assms(1)]
proof (elim disjE exE conjE)
  fix meta line new t1
  assume ch: "event_checks V s0 s channel targets author ty = Inr (meta, line, new)"
    and t1: "t1 = AList.update (channel_thread_path channel)
      ((case map_of (st_tree s) (channel_thread_path channel) of Some c \<Rightarrow> c | None \<Rightarrow> []) @ new) (st_tree s)"
  note c = event_checks_Inr [OF ch]
  have ok: "channels_ok R t1"
    using channels_ok_message [OF assms(3)] channel_thread_message c(1) t1 by auto
  then show "st_tree s' = t1 \<Longrightarrow> channels_ok R (st_tree s')" by simp
  fix d let ?m = "update_members ty (affected_users author targets) meta"
  assume d: "en_channel_write V ?m = Some d" "st_tree s' = AList.update (channel_meta_path channel) d t1"
  have R: "R d = Some ?m" "en_channel_read V = R" using assms(2) d(1) by (auto simp: env_ok_def)
  have "cm_created_by meta \<in> set (cm_members meta)" if "cm_created_by meta \<noteq> []"
    using read_channel_meta_Inr [OF c(4)] assms(3) R(2) that by (auto simp: channels_ok_def)
  then have "cm_created_by ?m \<noteq> [] \<Longrightarrow> cm_created_by ?m \<in> set (cm_members ?m)"
    using update_members_keeps_creator [OF c(5)] by simp
  then show "channels_ok R (st_tree s')" using channels_ok_meta [OF ok R(1)] d(2) by simp
qed (use assms(3) in simp)

lemma handle_create_channels:
  assumes "handle_create_channel V s0 name dn intro author invitees s = (r, s')" "env_ok E R V" "channels_ok R (st_tree s)"
  shows "channels_ok R (st_tree s')"
proof -
  have V: "no_rebase V" using assms(2) by (simp add: env_ok_def)
  from handle_create_tree [OF assms(1) V] show ?thesis
  proof (elim disjE exE conjE)
    fix h n c let ?t1 = "AList.update (channel_meta_path name) c (st_tree s)"
    let ?m = "new_channel_meta V name dn intro author invitees"
    assume ch: "create_checks V s0 name author invitees = Inr (h, n)" and w: "en_channel_write V ?m = Some c"
      and t: "let t1 = ?t1 in st_tree s' = t1 \<or> st_tree s' = AList.update (channel_thread_path name)
        (format_event (en_ext V) 1 h (en_now V) ''join'' (targets_json (tl (push_missing [author] invitees)))) t1"
    have "author \<in> set (push_missing [author] invitees)" using push_missing_superset [of "[author]" invitees] by simp
    then have "channels_ok R ?t1"
      using channels_ok_meta [OF assms(3), of c ?m] assms(2) w by (simp add: env_ok_def new_channel_meta_def)
    moreover have "message_thread (channel_thread_path name)" using create_checks_Inr(3) [OF ch] channel_thread_message by blast
    ultimately show ?thesis using channels_ok_message t unfolding Let_def by metis
  qed (use assms(3) in simp)
qed

lemma channels_ok_move:
  assumes ok: "channels_ok R t" and d: "distinct (map fst t)" and free: "\<not> tree_has t (mv_target a b t)"
    and b: "\<forall>n r. b @ r \<noteq> channel_meta_path n"
  shows "channels_ok R (move_path a (mv_target a b t) t)"
  unfolding channels_ok_def
proof (intro allI impI, elim conjE)
  fix n c m
  assume q: "map_of (move_path a (mv_target a b t) t) (channel_meta_path n) = Some c" "R c = Some m" "cm_created_by m \<noteq> []"
  obtain p where p: "map_of t p = Some c" "channel_meta_path n = moved_name a (mv_target a b t) p"
    using map_of_move [OF d free q(1)] by blast
  have "mv_target a b t @ r \<noteq> channel_meta_path n" for r using b by (auto simp: mv_target_def)
  then have "channel_meta_path n = p" using moved_name_cases [of p a "mv_target a b t"] p(2) by (metis append_Nil2)
  then show "cm_created_by m \<in> set (cm_members m)" using ok p(1) q(2,3) by (auto simp: channels_ok_def)
qed

definition tree_inv :: "ext \<Rightarrow> (string \<Rightarrow> channel_meta option) \<Rightarrow> string list \<Rightarrow> tree \<Rightarrow> bool" where
  "tree_inv E R U t \<longleftrightarrow> threads_ok E U t \<and> channels_ok R t"

lemma tree_inv_move:
  assumes "tree_inv E R U t" "message_thread a" "message_thread b" "\<not> tree_has t (mv_target a b t)"
    "\<forall>n r. b @ r \<noteq> channel_meta_path n"
  shows "tree_inv E R U (move_path a (mv_target a b t) t)"
  using assms threads_ok_move channels_ok_move unfolding tree_inv_def threads_ok_def by metis

lemma dm_paths_not_meta: "dm_thread_path stem @ r \<noteq> channel_meta_path n" "archived_dm_path stem @ r \<noteq> channel_meta_path n"
  by (simp_all add: dm_thread_path_def archived_dm_path_def channel_meta_path_def)

lemma dm_move_inv:
  assumes "move_and_commit V op a b m author s = (r, s')" "env_ok E R V" "tree_inv E R U (st_tree s)"
    "CHR ''/'' \<notin> set stem" "{a, b} \<subseteq> {dm_thread_path stem, archived_dm_path stem}"
  shows "tree_inv E R U (st_tree s')"
proof (rule move_and_commit_keeps [OF assms(1)])
  have "message_thread a" "message_thread b" using dm_paths_message [OF assms(4)] assms(5) by auto
  moreover have "\<forall>n r. b @ r \<noteq> channel_meta_path n" "\<forall>n r. a @ r \<noteq> channel_meta_path n"
    using assms(5) dm_paths_not_meta by auto
  ultimately show
    "\<And>t. tree_inv E R U t \<Longrightarrow> \<not> tree_has t (mv_target a b t) \<Longrightarrow> tree_inv E R U (move_path a (mv_target a b t) t)"
    "\<And>t. tree_inv E R U t \<Longrightarrow> \<not> tree_has t (mv_target b a t) \<Longrightarrow> tree_inv E R U (move_path b (mv_target b a t) t)"
    using tree_inv_move by blast+
qed (use assms in \<open>simp_all add: env_ok_def\<close>)

lemma handle_archive_dm_inv:
  assumes "handle_archive_dm V s0 peer author s = (r, s')" "env_ok E R V" "tree_inv E R U (st_tree s)"
  shows "tree_inv E R U (st_tree s')"
proof (cases "archive_dm_checks V s0 peer author")
  case (Inr stem)
  then have st: "CHR ''/'' \<notin> set stem" using dm_stem_no_slash by (auto simp: archive_dm_checks_def)
  obtain r1 s1 where mc: "move_and_commit V ''archive_dm'' (dm_thread_path stem) (archived_dm_path stem)
      (''archive: dm with @'' @ peer) author s = (r1, s1)" by force
  have "st_tree s' = st_tree s1" using assms(1) Inr mc by (auto simp: handle_archive_dm_def split: sum.splits)
  then show ?thesis using dm_move_inv [OF mc assms(2,3) st] by simp
qed (use assms in \<open>simp add: handle_archive_dm_def\<close>)

lemma handle_unarchive_dm_inv:
  assumes "handle_unarchive_dm V s0 peer author s = (r, s')" "env_ok E R V" "tree_inv E R U (st_tree s)"
  shows "tree_inv E R U (st_tree s')"
proof (cases "unarchive_dm_checks V s0 peer author")
  case (Inr stem)
  then have st: "CHR ''/'' \<notin> set stem" using dm_stem_no_slash by (auto simp: unarchive_dm_checks_def)
  obtain r1 s1 where mc: "move_and_commit V ''unarchive_dm'' (archived_dm_path stem) (dm_thread_path stem)
      (''archive: restore dm with @'' @ peer) author s = (r1, s1)" by force
  have "st_tree s' = st_tree s1" using assms(1) Inr mc by (auto simp: handle_unarchive_dm_def split: sum.splits)
  then show ?thesis using dm_move_inv [OF mc assms(2,3) st] by simp
qed (use assms in \<open>simp add: handle_unarchive_dm_def\<close>)

subsection \<open>Sequences of requests\<close>

text \<open>One request served by the daemon.  \<open>s0\<close> is what the handler saw before it took the lock; it is any
  state whose users are among the registered users \<open>U\<close>, so that every interleaving is covered.\<close>

inductive daemon_step ::
  "ext \<Rightarrow> (string \<Rightarrow> channel_meta option) \<Rightarrow> string list \<Rightarrow> app_state \<Rightarrow> app_state \<Rightarrow> bool"
  for E R U where
  StepSend: "env_ok E R V \<Longrightarrow> set (st_users s0) \<subseteq> set U \<Longrightarrow>
     handle_send V s0 channel body reply_to author s = (r, s') \<Longrightarrow> daemon_step E R U s s'"
| StepJoin: "env_ok E R V \<Longrightarrow> set (st_users s0) \<subseteq> set U \<Longrightarrow>
     handle_join_channel V s0 channel targets author s = (r, s') \<Longrightarrow> daemon_step E R U s s'"
| StepLeave: "env_ok E R V \<Longrightarrow> set (st_users s0) \<subseteq> set U \<Longrightarrow>
     handle_leave_channel V s0 channel targets author s = (r, s') \<Longrightarrow> daemon_step E R U s s'"
| StepCreate: "env_ok E R V \<Longrightarrow> set (st_users s0) \<subseteq> set U \<Longrightarrow>
     handle_create_channel V s0 name dn intro author invitees s = (r, s') \<Longrightarrow> daemon_step E R U s s'"
| StepArchiveDm: "env_ok E R V \<Longrightarrow> set (st_users s0) \<subseteq> set U \<Longrightarrow>
     handle_archive_dm V s0 peer author s = (r, s') \<Longrightarrow> daemon_step E R U s s'"
| StepUnarchiveDm: "env_ok E R V \<Longrightarrow> set (st_users s0) \<subseteq> set U \<Longrightarrow>
     handle_unarchive_dm V s0 peer author s = (r, s') \<Longrightarrow> daemon_step E R U s s'"

lemmas handler_threads = handle_send_threads write_channel_event_threads handle_create_threads
lemmas handler_channels = handle_send_channels write_channel_event_channels handle_create_channels

lemma daemon_step_inv:
  assumes "daemon_step E R U s s'" "json_ok E" "tree_inv E R U (st_tree s)"
  shows "tree_inv E R U (st_tree s')"
  using assms(1)
proof cases
  case StepArchiveDm
  then show ?thesis using handle_archive_dm_inv assms(3) by blast
next
  case StepUnarchiveDm
  then show ?thesis using handle_unarchive_dm_inv assms(3) by blast
qed (use assms(2,3) in \<open>unfold tree_inv_def handle_join_channel_def handle_leave_channel_def,
       blast intro: handler_threads handler_channels\<close>)+

interpretation serving: step_invariant "daemon_step E R U" "\<lambda>s. json_ok E \<and> tree_inv E R U (st_tree s)" for E R U
  by unfold_locales (auto intro: daemon_step_inv)

lemma daemon_run_inv:
  assumes "(daemon_step E R U)\<^sup>*\<^sup>* s s'" "json_ok E" "tree_inv E R U (st_tree s)"
  shows "tree_inv E R U (st_tree s')"
  using serving.steps_keep [OF assms(1)] assms(2,3) by blast

subsection \<open>A concrete environment\<close>

text \<open>An instance of the external functions on which the hypotheses hold: a one-line codec of target
  lists, a metadata codec that writes only what it reads back, and \<^verbatim>\<open>git mv\<close> as documented.\<close>

definition list_print :: "json \<Rightarrow> string" where
  "list_print j =
     (case j of
        JObject [(_, JArray xs)] \<Rightarrow> concat (map (\<lambda>x. case x of JString t \<Rightarrow> t @ '','' | _ \<Rightarrow> []) xs)
      | _ \<Rightarrow> ''{}'')"

definition list_read :: "string \<Rightarrow> json option" where
  "list_read s =
     Some (if s = ''{}'' then JObject []
           else JObject [(''targets'', JArray (map JString (butlast (split_on (CHR '','') s))))])"

definition list_ext :: ext where
  "list_ext = ref_ext\<lparr>json_from_str := list_read, json_to_string := list_print\<rparr>"

lemma kebab_not_in: "kebab_wf k s \<Longrightarrow> c \<in> set s \<Longrightarrow> kebab_char c"
  by (auto simp: kebab_wf_def list_all_iff)

lemma list_codec:
  assumes "\<forall>t \<in> set ts. CHR '','' \<notin> set t"
  shows "split_on (CHR '','') (concat (map (\<lambda>t. t @ '','') ts)) = ts @ [[]]"
  using assms by (induction ts) (simp_all add: split_on_append)

lemma list_ext_json_ok: "json_ok list_ext"
proof -
  have "one_line (list_print (targets_json ts)) \<and> list_read (list_print (targets_json ts)) = Some (targets_json ts)"
    if ts: "\<forall>t \<in> set ts. is_ok (handler_new t)" for ts
  proof (cases "ts = []")
    case True
    then show ?thesis by (simp add: targets_json_def list_print_def list_read_def one_line_def)
  next
    case False
    let ?s = "concat (map (\<lambda>t. t @ '','') ts)"
    have wf: "\<forall>t \<in> set ts. \<exists>k. kebab_wf k t" using ts by (fastforce simp: is_ok_iff handler_new_Inr)
    have chars: "\<forall>t \<in> set ts. c \<notin> set t" if "c \<in> {CHR '','', newline, carriage, CHR ''{''}" for c
      using wf kebab_not_in that by (fastforce simp: kebab_char_def byte_class)
    have "?s \<noteq> []" "CHR ''{'' \<notin> set ?s" using False chars [of "CHR ''{''"] by auto
    moreover from this have "?s \<noteq> ''{}''" by (metis list.set_intros(1))
    moreover have "newline \<notin> set ?s" "carriage \<notin> set ?s" using chars [of newline] chars [of carriage] by auto
    ultimately show ?thesis
      using False list_codec [of ts] chars [of "CHR '',''"]
      by (simp add: targets_json_def list_print_def list_read_def one_line_def comp_def)
  qed
  then show ?thesis by (simp add: json_ok_def list_ext_def)
qed

definition meta_read :: "string \<Rightarrow> channel_meta option" where
  "meta_read c =
     (case split_on (CHR '','') c of
        d # b # a # i # ms \<Rightarrow>
          Some \<lparr>cm_display_name = d, cm_created_by = b, cm_created_at = a, cm_introduction = i,
                cm_members = ms, cm_project = None\<rparr>
      | _ \<Rightarrow> None)"

definition meta_print :: "channel_meta \<Rightarrow> string" where
  "meta_print m =
     join_with '','' (cm_display_name m # cm_created_by m # cm_created_at m # cm_introduction m # cm_members m)"

definition sample_env :: env where
  "sample_env = base_env\<lparr>en_ext := list_ext, en_channel_read := meta_read,
      en_channel_write := (\<lambda>m. if meta_read (meta_print m) = Some m then Some (meta_print m) else None)\<rparr>"

lemma sample_env_sel:
  "en_ext sample_env = list_ext" "en_now sample_env = ''20260101T000000Z''" "en_io sample_env p = None"
  "en_commit sample_env ps c = None" "en_head sample_env = Inr ''c0ffee''"
  by (simp_all add: sample_env_def base_env_def)

lemma sample_env_ok: "env_ok list_ext meta_read sample_env"
proof -
  have "compact_timestamp ''20260101T000000Z''" by code_simp
  then show ?thesis
    by (auto simp: env_ok_def reads_ok_def git_ok_def no_rebase_def sample_env_def base_env_def split: if_splits)
qed

definition sample_created :: app_state where
  "sample_created = snd (handle_create_channel sample_env base_state ''general'' None None ''alice'' [''bob''] base_state)"

definition sample_sent :: app_state where
  "sample_sent = snd (handle_send sample_env sample_created ''general'' ''hello'' None ''bob'' sample_created)"

lemma sample_create_ok: "is_ok (fst (handle_create_channel sample_env base_state ''general'' None None ''alice'' [''bob''] base_state))"
  by code_simp

lemma sample_created_fields:
  "handler_new ''bob'' = Inr (Handler ''bob'')" "handler_new ''alice'' = Inr (Handler ''alice'')"
  "st_users sample_created = [''alice'', ''bob'']"
  "ensure_author_not_departed sample_created ''bob'' = Inr ()"
  "dm_not_archived sample_created ''general'' ''bob'' = Inr ()"
  "resolve_thread_path ''general'' = Inr (''channels/general.thread'', ''general'')"
  "allowed_senders sample_env sample_created [''alice'', ''bob''] ''general'' = Inr [''alice'', ''bob'']"
  "read_or_default sample_env sample_created ''channels/general.thread'' =
     format_event list_ext 1 (Handler ''alice'') ''20260101T000000Z'' ''join'' (targets_json [''bob''])"
  "read_body list_ext ''hello'' = ''hello''"
  by code_simp+

lemma sample_thread_exists: "map_of (st_tree sample_created) ''channels/general.thread'' \<noteq> None"
  by code_simp

lemma sample_thread_parsed:
  "parse_thread list_ext (format_event list_ext 1 (Handler ''alice'') ''20260101T000000Z'' ''join'' (targets_json [''bob''])) =
     Inr \<lparr>entries = [EEvent \<lparr>ev_line_number = 1, ev_point_to = 0, ev_author = Handler ''alice'',
       ev_timestamp = ''20260101T000000Z'', ev_event_type = ''join'', ev_meta = targets_json [''bob'']\<rparr>]\<rparr>"
proof -
  have "compact_timestamp ''20260101T000000Z''" by code_simp
  then show ?thesis
    using join_event_parse [OF list_ext_json_ok sample_created_fields(2), of "''20260101T000000Z''" "[''bob'']"]
    by (simp add: sample_created_fields(1))
qed

lemma sample_send_checks:
  "send_checks sample_env sample_created sample_created ''general'' ''hello'' None ''bob'' =
     Inr (''channels/general.thread'', ''general'', 2,
          format_message list_ext 2 0 (Handler ''bob'') ''20260101T000000Z'' ''hello'')"
proof -
  have "entry_handler (Handler ''bob'')" "compact_timestamp ''20260101T000000Z''" by code_simp+
  then have v: "validate_append list_ext
      (format_event list_ext 1 (Handler ''alice'') ''20260101T000000Z'' ''join'' (targets_json [''bob'']))
      (format_message list_ext 2 0 (Handler ''bob'') ''20260101T000000Z'' ''hello'') [''alice'', ''bob''] [''alice'', ''bob''] = Inr ()"
    using append_message_iff [OF sample_thread_parsed, of 2 "Handler ''bob''" "''20260101T000000Z''" "''hello''" 0]
      u64_add_exact [of 1 1] by (simp add: last_line_number_def sample_created_fields demo_body)
  have "u64_add 1 1 = 2" using u64_add_exact [of 1 1] by simp
  then show ?thesis
    using v by (simp add: send_checks_def sample_env_sel sample_created_fields sample_thread_parsed last_line_number_def
        fail_if_def Let_def del: One_nat_def)
qed

lemma sample_send_ok:
  "handle_send sample_env sample_created ''general'' ''hello'' None ''bob'' sample_created =
     (Inr (SendResponse 2 ''general'' ''committed'' (Some ''c0ffee'')), sample_sent)"
  unfolding sample_sent_def
  by (simp add: handle_send_def sample_send_checks append_file_def sample_env_sel commit_message_def
      add_and_commit_as_def Let_def)

text \<open>The run of the witnesses: alice creates a channel with bob, bob posts in it.\<close>

lemma sample_run: "(daemon_step list_ext meta_read [''alice'', ''bob''])\<^sup>*\<^sup>* base_state sample_sent"
proof -
  have "daemon_step list_ext meta_read [''alice'', ''bob''] base_state sample_created"
    by (rule StepCreate [OF sample_env_ok, of base_state])
      (unfold sample_created_def, simp add: base_state_def, rule prod.collapse [symmetric])
  moreover have "daemon_step list_ext meta_read [''alice'', ''bob''] sample_created sample_sent"
    using StepSend [OF sample_env_ok _ sample_send_ok] by (simp add: sample_created_fields)
  ultimately show ?thesis by auto
qed

lemma base_state_inv: "tree_inv list_ext meta_read [''alice'', ''bob''] (st_tree base_state)"
  by (simp add: tree_inv_def threads_ok_def channels_ok_def base_state_def)

subsection \<open>Properties\<close>




lemma sample_meta: "map_of (st_tree sample_created) (channel_meta_path ''general'') = Some ''general,alice,20260101T000000Z,,alice,bob''"
  by code_simp




text \<open>C38: An existing thread that cannot be read is taken for an empty one: a message to it is accepted as
  line 1 and appended behind the lines the file already has.\<close>

theorem send_to_unreadable_thread:
  assumes "handle_send V s0 channel body reply_to author s = (Inr resp, s')" "resolve_thread_path channel = Inr (p, name)"
    and "map_of (st_tree s) p = Some old" "en_io V (IoRead p) = Some e"
  shows "(\<exists>status commit. resp = SendResponse 1 name status commit)
    \<and> (\<exists>h. map_of (st_tree s') p =
          Some (old @ format_message (en_ext V) 1 (case reply_to of Some k \<Rightarrow> k | None \<Rightarrow> 0) h (en_now V) body))"
proof -
  obtain p' n' line new where x: "send_checks V s0 s channel body reply_to author = Inr (p', n', line, new)"
    using assms(1) by (cases "send_checks V s0 s channel body reply_to author") (auto simp: handle_send_def)
  have [simp]: "p' = p" "n' = name" using send_checks_Inr(1) [OF x] assms(2) by simp_all
  have "read_or_default V s p = []" using assms(3,4) by (simp add: read_or_default_def read_file_def)
  moreover have "u64_add 0 1 = 1" using u64_add_exact [of 0 1] by simp
  ultimately have line: "line = 1" using x assms(2)
    by (auto simp: send_checks_def Let_def parse_thread_def last_line_number_def simp del: One_nat_def)
  obtain h where new: "new = format_message (en_ext V) 1 (case reply_to of Some k \<Rightarrow> k | None \<Rightarrow> 0) h (en_now V) body"
    using send_checks_Inr(2) [OF x] line by auto
  obtain r1 s1 where a: "append_file V p new s = (r1, s1)" by force
  have r1: "r1 = Inr ()" using assms(1) x a append_file_frame [OF a] by (auto simp: handle_send_def)
  obtain st cm s2 where c: "commit_message V p (''msg: @'' @ author @ '' -> '' @ name @ '' '' @ line_label line)
      name line author s1 = ((st, cm), s2)" by (metis surj_pair)
  have "resp = SendResponse line name st cm \<and> st_tree s' = st_tree s2"
    using assms(1) x a r1 c by (simp add: handle_send_def Let_def) auto
  then show ?thesis
    using commit_message_frame [OF c] append_file_frame [OF a] r1 assms(3) new line by (auto simp: update_conv')
qed

definition broken_env :: env where
  "broken_env = sample_env\<lparr>en_io := (\<lambda>io. if io = IoRead ''channels/general.thread'' then Some ''EIO'' else None)\<rparr>"

lemma broken_env_sel:
  "en_ext broken_env = list_ext" "en_now broken_env = ''20260101T000000Z''" "en_io broken_env (IoWrite p) = None"
  "en_io broken_env (IoRead ''channels/general.thread'') = Some ''EIO''"
  "en_commit broken_env ps c = None" "en_head broken_env = Inr ''c0ffee''"
  by (simp_all add: broken_env_def sample_env_def base_env_def)

lemma broken_send_checks:
  "send_checks broken_env sample_created sample_created ''general'' ''hello'' None ''bob'' =
     Inr (''channels/general.thread'', ''general'', 1,
          format_message list_ext 1 0 (Handler ''bob'') ''20260101T000000Z'' ''hello'')"
proof -
  have a: "allowed_senders broken_env sample_created [''alice'', ''bob''] ''general'' = Inr [''alice'', ''bob'']"
    "read_or_default broken_env sample_created ''channels/general.thread'' = []" by code_simp+
  have u: "u64_add 0 1 = 1" using u64_add_exact [of 0 1] by simp
  have p: "parse_thread list_ext [] = Inr \<lparr>entries = []\<rparr>" by (simp add: parse_thread_def)
  have "entry_handler (Handler ''bob'')" "compact_timestamp ''20260101T000000Z''" by code_simp+
  then have "validate_append list_ext [] (format_message list_ext 1 0 (Handler ''bob'') ''20260101T000000Z'' ''hello'')
      [''alice'', ''bob''] [''alice'', ''bob''] = Inr ()"
    using append_message_iff [OF p, of 1 "Handler ''bob''" "''20260101T000000Z''" "''hello''" 0] u
    by (simp add: last_line_number_def sample_created_fields demo_body del: One_nat_def)
  then show ?thesis
    using u by (simp add: send_checks_def broken_env_sel sample_created_fields a p last_line_number_def
        fail_if_def Let_def del: One_nat_def)
qed

definition broken_sent :: app_state where
  "broken_sent = snd (handle_send broken_env sample_created ''general'' ''hello'' None ''bob'' sample_created)"

lemma broken_send_ok:
  "handle_send broken_env sample_created ''general'' ''hello'' None ''bob'' sample_created =
     (Inr (SendResponse 1 ''general'' ''committed'' (Some ''c0ffee'')), broken_sent)"
  unfolding broken_sent_def
  by (simp add: handle_send_def broken_send_checks append_file_def broken_env_sel commit_message_def
      add_and_commit_as_def Let_def)

theorem send_to_unreadable_thread_witness:
  "\<exists>old h. map_of (st_tree sample_created) ''channels/general.thread'' = Some old \<and> old \<noteq> []
     \<and> map_of (st_tree broken_sent) ''channels/general.thread'' =
          Some (old @ format_message list_ext 1 0 h ''20260101T000000Z'' ''hello'')"
proof -
  obtain old where old: "map_of (st_tree sample_created) ''channels/general.thread'' = Some old"
    using sample_thread_exists by auto
  have "read_or_default sample_env sample_created ''channels/general.thread'' = old"
    using old by (simp add: read_or_default_def read_file_def sample_env_sel)
  then have ne: "old \<noteq> []" using sample_created_fields(8) format_event_ended by metis
  have "\<exists>h. map_of (st_tree broken_sent) ''channels/general.thread'' =
          Some (old @ format_message list_ext 1 0 h ''20260101T000000Z'' ''hello'')"
    using send_to_unreadable_thread [OF broken_send_ok sample_created_fields(6) old broken_env_sel(4)]
    by (simp add: broken_env_sel del: One_nat_def)
  then show ?thesis using old ne by blast
qed

text \<open>The rules refuse to let the last member leave, because an empty member list makes a channel public,
  but a member may still remove everybody at once: in a channel without a recorded creator, naming all
  members as targets passes the rules and leaves no member.\<close>

theorem kick_empties_legacy_channel:
  assumes "cm_created_by meta = []" "author \<in> set (cm_members meta)" "set (cm_members meta) \<subseteq> set users"
  shows "event_rules Leave author (cm_members meta) users meta = Inr ()
    \<and> cm_members (update_members Leave (affected_users author (cm_members meta)) meta) = []"
  using assms
  by (auto simp: event_rules_def leave_removes_channel_creator_def validate_leave_Inr update_members_def
      affected_users_def fail_if_def subset_iff)

definition legacy_meta :: channel_meta where
  "legacy_meta = \<lparr>cm_display_name = ''general'', cm_created_by = [], cm_created_at = [], cm_introduction = [],
     cm_members = [''alice'', ''bob''], cm_project = None\<rparr>"

theorem kick_empties_legacy_channel_witness:
  "event_rules Leave ''alice'' [''alice'', ''bob''] [''alice'', ''bob''] legacy_meta = Inr ()
   \<and> cm_members (update_members Leave (affected_users ''alice'' [''alice'', ''bob'']) legacy_meta) = []"
  using kick_empties_legacy_channel [of legacy_meta "''alice''" "[''alice'', ''bob'']"] by (simp add: legacy_meta_def)

end
