(* ===== verification/Daemon_Sessions.thy ===== *)
theory Daemon_Sessions
  imports Daemon_Invariants Daemon_Store
begin

text \<open>
  The quick-session handlers (\<^verbatim>\<open>quick_session_handlers.rs\<close>).  A session is a directory with two files, the
  metadata and the discussion; the handlers drive the state machine of \<open>Quick_Session\<close>, write both files,
  commit, and put the files back when a write or the commit fails.  \<^verbatim>\<open>git reset\<close>, which the rollback runs
  as well, changes the index only and has no effect on the model's state.
\<close>

subsection \<open>Data\<close>

record located_quick_session =
  lq_rel_dir :: string
  lq_archived :: bool

record quick_session_list_item =
  qi_id :: string
  qi_title :: "string option"
  qi_agent_id :: string
  qi_created_by :: string
  qi_status :: quick_session_status
  qi_updated_at :: string
  qi_last_message_preview :: string
  qi_revision :: nat
  qi_archived :: bool
  qi_ref :: string

record quick_session_detail =
  qd_meta :: quick_session_meta
  qd_entries :: "thread_entry list"
  qd_archived :: bool

datatype session_response =
    CreateQuickSessionResponse quick_session_detail nat string
  | ListQuickSessionsResponse "quick_session_list_item list"
  | ReadQuickSessionResponse quick_session_detail
  | SendQuickSessionMessageResponse string nat quick_session_status nat string
  | ClaimQuickSessionTurnResponse string nat string quick_session_status nat
  | SetQuickSessionTitleResponse string string quick_session_status nat
  | SetQuickSessionSummaryResponse string string quick_session_status nat
  | MarkQuickSessionErrorResponse string quick_session_status nat
  | ArchiveQuickSessionResponse string quick_session_status nat string
  | UnarchiveQuickSessionResponse string quick_session_status nat

definition session_ref :: "quick_session_meta \<Rightarrow> string" where
  "session_ref m = ''session:'' @ qs_id m"

definition list_item :: "quick_session_meta \<Rightarrow> bool \<Rightarrow> quick_session_list_item" where
  "list_item m archived =
     \<lparr>qi_id = qs_id m, qi_title = qs_title m, qi_agent_id = qs_agent_id m, qi_created_by = qs_created_by m,
      qi_status = qs_status m, qi_updated_at = qs_updated_at m,
      qi_last_message_preview = qs_last_message_preview m, qi_revision = qs_revision m,
      qi_archived = archived, qi_ref = session_ref m\<rparr>"

subsection \<open>Message bodies\<close>

definition quick_session_message_max_bytes :: nat where
  "quick_session_message_max_bytes = 64 * 1024"

definition validate_body :: "string \<Rightarrow> daemon_error + unit" where
  "validate_body body =
     (if trim body = [] then Inl (ErrSessionMessage ''quick session message cannot be empty'')
      else if length body > quick_session_message_max_bytes
      then Inl (ErrSessionMessage ''quick session message exceeds 64 KB'')
      else Inr ())"

text \<open>The body as it will read back from the thread.\<close>

definition canonical_message_body :: "env \<Rightarrow> handler \<Rightarrow> string \<Rightarrow> daemon_error + string" where
  "canonical_message_body V author body =
     andThen (map_err ErrParseThread
       (parse_thread (en_ext V) (format_message (en_ext V) 1 0 author ''19700101T000000Z'' body))) (\<lambda>parsed.
       case entries parsed of
         EMessage message # _ \<Rightarrow> Inr (msg_body message)
       | _ \<Rightarrow> Inl (ErrSessionMessage ''failed to normalize message''))"

subsection \<open>Files\<close>

text \<open>A temporary file is written beside the target and renamed over it: the target changes entirely or not
  at all.\<close>

definition atomic_write_file :: "env \<Rightarrow> string \<Rightarrow> string \<Rightarrow> app_state \<Rightarrow> (string + unit) \<times> app_state" where
  "atomic_write_file V p c s =
     (case en_io V (IoWrite p) of Some e \<Rightarrow> (Inl e, s) | None \<Rightarrow> (Inr (), put_file p c s))"

definition atomic_write_pair ::
  "env \<Rightarrow> string \<Rightarrow> string \<Rightarrow> string \<Rightarrow> string \<Rightarrow> app_state \<Rightarrow> (string + unit) \<times> app_state" where
  "atomic_write_pair V p1 c1 p2 c2 s =
     (case atomic_write_file V p1 c1 s of
        (Inl e, s1) \<Rightarrow> (Inl e, s1)
      | (Inr _, s1) \<Rightarrow> atomic_write_file V p2 c2 s1)"

definition session_dir :: "string \<Rightarrow> bool \<Rightarrow> string" where
  "session_dir session_id archived =
     (if archived then ''archive/quick-sessions/'' @ session_id else ''quick-sessions/'' @ session_id)"

definition session_rel_dir :: "string \<Rightarrow> bool \<Rightarrow> daemon_error + string" where
  "session_rel_dir session_id archived =
     andThen (map_err ErrSession (validate_quick_session_id session_id)) (\<lambda>_.
       Inr (session_dir session_id archived))"

definition meta_file :: "string \<Rightarrow> string" where
  "meta_file d = d @ ''/session.meta.yaml''"

definition thread_file_of :: "string \<Rightarrow> string" where
  "thread_file_of d = d @ ''/discussion.thread''"

definition locate_session :: "app_state \<Rightarrow> string \<Rightarrow> daemon_error + located_quick_session option" where
  "locate_session s session_id =
     andThen (session_rel_dir session_id False) (\<lambda>active.
     andThen (session_rel_dir session_id True) (\<lambda>archived.
       Inr (if file_exists s (meta_file active) then Some \<lparr>lq_rel_dir = active, lq_archived = False\<rparr>
            else if file_exists s (meta_file archived) then Some \<lparr>lq_rel_dir = archived, lq_archived = True\<rparr>
            else None)))"

definition load_meta :: "env \<Rightarrow> app_state \<Rightarrow> located_quick_session \<Rightarrow> daemon_error + quick_session_meta" where
  "load_meta V s located =
     (case read_file V s (meta_file (lq_rel_dir located)) of
        Inl e \<Rightarrow> Inl (ErrIo ''failed to read quick session metadata'' (io_text e))
      | Inr content \<Rightarrow>
          andThen (ok_or (ErrParseMeta ''quick session metadata'') (en_session_read V content)) (\<lambda>meta.
          andThen (map_err ErrSession (validate_quick_session_meta meta)) (\<lambda>_. Inr meta)))"

definition load_thread :: "env \<Rightarrow> app_state \<Rightarrow> located_quick_session \<Rightarrow> daemon_error + string \<times> thread_entry list" where
  "load_thread V s located =
     (case read_file V s (thread_file_of (lq_rel_dir located)) of
        Inl e \<Rightarrow> Inl (ErrIo ''failed to read quick session thread'' (io_text e))
      | Inr content \<Rightarrow>
          andThen (map_err ErrParseThread (parse_thread (en_ext V) content)) (\<lambda>parsed.
            Inr (content, entries parsed)))"

definition bounded_entries :: "thread_entry list \<Rightarrow> nat option \<Rightarrow> nat option \<Rightarrow> thread_entry list" where
  "bounded_entries es limit since =
     (let es = filter (\<lambda>entry. is_none_or since (\<lambda>line. entry_line_number entry > line)) es in
      case limit of
        None \<Rightarrow> es
      | Some limit \<Rightarrow> if since \<noteq> None then take limit es else drop (length es - limit) es)"

definition detail ::
  "env \<Rightarrow> app_state \<Rightarrow> located_quick_session \<Rightarrow> nat option \<Rightarrow> nat option \<Rightarrow> daemon_error + quick_session_detail" where
  "detail V s located limit since =
     andThen (load_meta V s located) (\<lambda>meta.
     andThen (load_thread V s located) (\<lambda>(_, es).
       Inr \<lparr>qd_meta = meta, qd_entries = bounded_entries es limit since, qd_archived = lq_archived located\<rparr>))"

definition user_path :: "string \<Rightarrow> string" where
  "user_path handler = ''users/'' @ handler @ ''.meta.yaml''"

definition ensure_active_user :: "app_state \<Rightarrow> string \<Rightarrow> string \<Rightarrow> daemon_error + handler" where
  "ensure_active_user s handler role =
     andThen (map_err (ErrInvalidHandler role) (handler_new handler)) (\<lambda>parsed.
       if path_exists s (archived_user_path handler) then Inl (ErrDeparted handler)
       else if \<not> file_exists s (user_path handler) then Inl (ErrUnknownUser handler)
       else Inr parsed)"

definition session_yaml :: "env \<Rightarrow> quick_session_meta \<Rightarrow> daemon_error + string" where
  "session_yaml V meta = ok_or (ErrYaml ''quick session metadata'') (en_session_write V meta)"

definition emit_changed :: "quick_session_meta \<Rightarrow> app_state \<Rightarrow> app_state" where
  "emit_changed meta s =
     send_event (QuickSessionChanged (qs_id meta) (qs_agent_id meta) (qs_status meta) (qs_revision meta)) s"

text \<open>Record a committed line as waiting for a push, when its commit is known.\<close>

definition session_pending :: "env \<Rightarrow> string \<Rightarrow> nat \<Rightarrow> app_state \<Rightarrow> app_state" where
  "session_pending V session_id line s =
     (case en_head V of
        Inr commit_id \<Rightarrow> add_pending (''quick_session:'' @ session_id) line commit_id s
      | Inl _ \<Rightarrow> s)"
subsection \<open>Creating a session\<close>

definition create_session_checks ::
  "env \<Rightarrow> app_state \<Rightarrow> string \<Rightarrow> string \<Rightarrow> string \<Rightarrow> string \<Rightarrow> daemon_error + handler \<times> string" where
  "create_session_checks V s0 session_id agent_id first_message author =
     andThen (validate_body first_message) (\<lambda>_.
     andThen (map_err ErrSession (validate_quick_session_id session_id)) (\<lambda>_.
     andThen (ensure_active_user s0 author ''creator'') (\<lambda>creator.
     andThen (ensure_author_not_departed s0 author) (\<lambda>_.
     andThen (ensure_active_user s0 agent_id ''agent'') (\<lambda>_.
     andThen (canonical_message_body V creator first_message) (\<lambda>body. Inr (creator, body)))))))"

text \<open>A session of this id exists: the request is a retry, or it collides.\<close>

definition first_matches :: "string \<Rightarrow> string \<Rightarrow> thread_entry list \<Rightarrow> bool" where
  "first_matches author first_message es =
     (case es of
        EMessage message # _ \<Rightarrow>
          msg_line_number message = 1 \<and> msg_point_to message = 0
          \<and> as_str (msg_author message) = author \<and> msg_body message = first_message
      | _ \<Rightarrow> False)"

definition existing_session ::
  "env \<Rightarrow> app_state \<Rightarrow> located_quick_session \<Rightarrow> string \<Rightarrow> string \<Rightarrow> string \<Rightarrow> string \<Rightarrow> daemon_error + session_response" where
  "existing_session V s located session_id agent_id first_message author =
     andThen (detail V s located None None) (\<lambda>d.
       if qs_id (qd_meta d) \<noteq> session_id \<or> qs_agent_id (qd_meta d) \<noteq> agent_id
          \<or> qs_created_by (qd_meta d) \<noteq> author \<or> \<not> first_matches author first_message (qd_entries d)
       then Inl ErrSessionCollision
       else Inr (CreateQuickSessionResponse d 1 (session_ref (qd_meta d))))"

definition new_session ::
  "env \<Rightarrow> string list \<Rightarrow> string \<Rightarrow> string \<Rightarrow> handler \<Rightarrow> string \<Rightarrow> string \<Rightarrow>
   daemon_error + quick_session_meta \<times> string \<times> string" where
  "new_session V users session_id agent_id creator first_message author =
     andThen (map_err ErrSession (apply_quick_session_transition
       (quick_session_new session_id agent_id author (en_now V))
       (HumanMessage author 1 None first_message (en_now V)))) (\<lambda>(_, meta).
     let thread = format_message (en_ext V) 1 0 creator (en_now V) first_message in
     andThen (map_err ErrCompliance
       (validate_append (en_ext V) [] thread users [author, agent_id])) (\<lambda>_.
     andThen (session_yaml V meta) (\<lambda>meta_yaml. Inr (meta, thread, meta_yaml))))"

definition write_new_session ::
  "env \<Rightarrow> string \<Rightarrow> string \<Rightarrow> string \<Rightarrow> app_state \<Rightarrow> unit outcome" where
  "write_new_session V dir meta_yaml thread s =
     (case (case en_io V (IoMkdir dir) of
              Some e \<Rightarrow> (Inl e, s)
            | None \<Rightarrow> atomic_write_pair V (meta_file dir) meta_yaml (thread_file_of dir) thread s) of
        (Inl e, s1) \<Rightarrow> (Inl (ErrIo ''failed to write quick session'' e), remove_dir_all V dir s1)
      | (Inr _, s1) \<Rightarrow> (Inr (), s1))"

definition handle_create_quick_session ::
  "env \<Rightarrow> app_state \<Rightarrow> string \<Rightarrow> string \<Rightarrow> string \<Rightarrow> string \<Rightarrow> app_state \<Rightarrow> session_response outcome" where
  "handle_create_quick_session V s0 session_id agent_id first_message author s =
     (case andThen (create_session_checks V s0 session_id agent_id first_message author) (\<lambda>(creator, body).
           andThen (locate_session s session_id) (\<lambda>located. Inr (creator, body, located))) of
        Inl e \<Rightarrow> (Inl e, s)
      | Inr (_, body, Some located) \<Rightarrow> (existing_session V s located session_id agent_id body author, s)
      | Inr (creator, body, None) \<Rightarrow>
          (case andThen (new_session V (st_users s0) session_id agent_id creator body author) (\<lambda>(meta, thread, meta_yaml).
                andThen (session_rel_dir session_id False) (\<lambda>dir. Inr (meta, thread, meta_yaml, dir))) of
             Inl e \<Rightarrow> (Inl e, s)
           | Inr (meta, thread, meta_yaml, dir) \<Rightarrow>
               (case write_new_session V dir meta_yaml thread s of
                  (Inl e, s1) \<Rightarrow> (Inl e, s1)
                | (Inr _, s1) \<Rightarrow>
                    (case add_and_commit_as V [meta_file dir, thread_file_of dir]
                            (''session: create '' @ session_id @ '' for @'' @ agent_id @ '' by @'' @ author) author s1 of
                       (Inl e, s2) \<Rightarrow> (Inl (ErrGit ''create quick session commit failed'' e), remove_dir_all V dir s2)
                     | (Inr _, s2) \<Rightarrow>
                         (Inr (CreateQuickSessionResponse
                            \<lparr>qd_meta = meta,
                             qd_entries = (case parse_thread (en_ext V) thread of Inr f \<Rightarrow> entries f | Inl _ \<Rightarrow> []),
                             qd_archived = False\<rparr> 1 (session_ref meta)),
                          emit_changed meta (schedule_sync (session_pending V session_id 1 s2)))))))"

subsection \<open>Listing and reading\<close>

definition creator_line :: "quick_session_meta \<Rightarrow> thread_entry \<Rightarrow> nat option" where
  "creator_line meta entry =
     (case entry of
        EMessage message \<Rightarrow>
          if as_str (msg_author message) = qs_created_by meta then Some (msg_line_number message) else None
      | EEvent _ \<Rightarrow> None)"

definition newest_creator_line :: "quick_session_meta \<Rightarrow> thread_entry list \<Rightarrow> nat option" where
  "newest_creator_line meta es =
     (case List.map_filter (creator_line meta) es of [] \<Rightarrow> None | l # ls \<Rightarrow> Some (fold max ls l))"

definition is_actionable :: "env \<Rightarrow> app_state \<Rightarrow> located_quick_session \<Rightarrow> quick_session_meta \<Rightarrow> bool" where
  "is_actionable V s located meta \<longleftrightarrow>
     (qs_status meta = NeedsTitle \<or> qs_status meta = Active)
     \<and> (case load_thread V s located of
          Inl _ \<Rightarrow> False
        | Inr (_, es) \<Rightarrow>
            \<not> is_none_or (newest_creator_line meta es)
                (\<lambda>line. \<not> is_none_or (qs_last_completed_input_line meta) (\<lambda>completed. \<not> line \<le> completed)))"

definition session_entry ::
  "env \<Rightarrow> app_state \<Rightarrow> bool \<Rightarrow> string option \<Rightarrow> bool \<Rightarrow> quick_session_status option \<Rightarrow> string \<Rightarrow>
   quick_session_list_item option" where
  "session_entry V s archived agent_id actionable status session_id =
     (case session_rel_dir session_id archived of
        Inl _ \<Rightarrow> None
      | Inr rel_dir \<Rightarrow>
          (let located = \<lparr>lq_rel_dir = rel_dir, lq_archived = archived\<rparr> in
           case load_meta V s located of
             Inl _ \<Rightarrow> None
           | Inr meta \<Rightarrow>
               if \<not> is_none_or agent_id (\<lambda>agent. agent = qs_agent_id meta)
                  \<or> \<not> is_none_or status (\<lambda>st. st = qs_status meta)
                  \<or> actionable \<and> \<not> is_actionable V s located meta then None
               else Some (list_item meta archived)))"

text \<open>Newest first, sessions of the same time by id.\<close>

definition sort_sessions :: "quick_session_list_item list \<Rightarrow> quick_session_list_item list" where
  "sort_sessions items = rev (sort_key qi_updated_at (rev (sort_key qi_id items)))"

definition handle_list_quick_sessions ::
  "env \<Rightarrow> app_state \<Rightarrow> bool \<Rightarrow> string option \<Rightarrow> bool \<Rightarrow> quick_session_status option \<Rightarrow> nat option \<Rightarrow>
   daemon_error + session_response" where
  "handle_list_quick_sessions V s archived agent_id actionable status limit =
     andThen (check_some (\<lambda>agent. discard (map_err (ErrInvalidHandler ''agent'') (handler_new agent))) agent_id) (\<lambda>_.
     let root = (if archived then ''archive/quick-sessions'' else ''quick-sessions'');
         sessions = (if en_io V (IoRead root) = None
                     then List.map_filter (session_entry V s archived agent_id actionable status) (read_dir V s root)
                     else []);
         limit = (case limit of Some l \<Rightarrow> l | None \<Rightarrow> 100)
     in Inr (ListQuickSessionsResponse (take (max 1 (min 100 limit)) (sort_sessions sessions))))"

definition handle_read_quick_session ::
  "env \<Rightarrow> app_state \<Rightarrow> string \<Rightarrow> nat option \<Rightarrow> nat option \<Rightarrow> daemon_error + session_response" where
  "handle_read_quick_session V s session_id limit since =
     andThen (locate_session s session_id) (\<lambda>located.
       case located of
         None \<Rightarrow> Inl ErrSessionMissing
       | Some located \<Rightarrow>
           andThen (detail V s located limit since) (\<lambda>session. Inr (ReadQuickSessionResponse session)))"
subsection \<open>Sending a message\<close>

text \<open>The active session a request works on.\<close>

definition active_session ::
  "env \<Rightarrow> app_state \<Rightarrow> string \<Rightarrow> daemon_error + located_quick_session \<times> quick_session_meta" where
  "active_session V s session_id =
     andThen (locate_session s session_id) (\<lambda>located.
       case located of
         None \<Rightarrow> Inl ErrSessionMissing
       | Some located \<Rightarrow>
           if lq_archived located then Inl (ErrSession InvalidState)
           else andThen (load_meta V s located) (\<lambda>meta. Inr (located, meta)))"

definition sender_checks ::
  "quick_session_meta \<Rightarrow> string \<Rightarrow> nat option \<Rightarrow> string option \<Rightarrow> string option \<Rightarrow> daemon_error + unit" where
  "sender_checks meta author reply_to request_id attempt_id =
     (let is_creator = author = qs_created_by meta;
          is_agent = author = qs_agent_id meta;
          completed_retry = is_agent \<and> attempt_id = qs_last_completed_attempt_id meta
            \<and> reply_to = qs_last_completed_input_line meta;
          requested_attempt = (case attempt_id of Some a \<Rightarrow> a | None \<Rightarrow> [])
      in andThen (fail_if (\<not> is_creator \<and> \<not> is_agent) (ErrSession UnauthorizedActor)) (\<lambda>_.
         andThen (fail_if (is_creator \<and> is_none_or request_id (\<lambda>r. r = []))
                    (ErrSessionMessage ''creator messages require request_id'')) (\<lambda>_.
         andThen (fail_if (is_agent \<and> is_none_or attempt_id (\<lambda>a. a = []))
                    (ErrSessionMessage ''agent messages require attempt_id'')) (\<lambda>_.
         andThen (if is_agent \<and> \<not> completed_retry \<and> qs_status meta = Running
                  then andThen (map_err ErrSession (validate_quick_session_attempt_id requested_attempt)) (\<lambda>_.
                         fail_if (qs_attempt_id meta \<noteq> Some requested_attempt) (ErrSession StaleAttempt))
                  else Inr ()) (\<lambda>_.
           fail_if (is_agent \<and> \<not> completed_retry \<and> reply_to \<noteq> qs_processing_input_line meta)
             (ErrSession InputLineMismatch))))))"

definition next_line_of :: "thread_entry list \<Rightarrow> nat" where
  "next_line_of es = (if es = [] then 1 else u64_add (entry_line_number (last es)) 1)"

definition reply_line :: "nat option \<Rightarrow> nat" where
  "reply_line reply_to = (case reply_to of Some r \<Rightarrow> r | None \<Rightarrow> 0)"

definition message_transition ::
  "quick_session_meta \<Rightarrow> string \<Rightarrow> nat \<Rightarrow> string \<Rightarrow> nat option \<Rightarrow> string option \<Rightarrow> string option \<Rightarrow> string \<Rightarrow>
   quick_session_transition" where
  "message_transition meta author next_line body reply_to request_id attempt_id now =
     (if author = qs_created_by meta then HumanMessage author next_line request_id body now
      else AgentReply author (reply_line reply_to)
             (case attempt_id of Some a \<Rightarrow> a | None \<Rightarrow> []) next_line body now)"

definition session_message :: "env \<Rightarrow> thread_entry list \<Rightarrow> nat option \<Rightarrow> handler \<Rightarrow> string \<Rightarrow> string" where
  "session_message V es reply_to handler body =
     format_message (en_ext V) (next_line_of es) (reply_line reply_to) handler (en_now V) body"

text \<open>What a message changes: nothing (the answer to a retry), or the two files.\<close>

record session_update =
  su_located :: located_quick_session
  su_meta :: quick_session_meta
  su_next_line :: nat
  su_old_meta :: string
  su_new_meta :: string
  su_old_thread :: string
  su_message :: string

definition send_session_checks ::
  "env \<Rightarrow> app_state \<Rightarrow> string \<Rightarrow> string \<Rightarrow> daemon_error + handler" where
  "send_session_checks V s0 body author =
     andThen (validate_body body) (\<lambda>_.
     andThen (ensure_active_user s0 author ''author'') (\<lambda>handler.
     andThen (ensure_author_not_departed s0 author) (\<lambda>_. Inr handler)))"

definition send_session_update ::
  "env \<Rightarrow> app_state \<Rightarrow> string list \<Rightarrow> string \<Rightarrow> string \<Rightarrow> nat option \<Rightarrow> string option \<Rightarrow> string option \<Rightarrow> string \<Rightarrow>
   handler \<Rightarrow> daemon_error + session_response + session_update" where
  "send_session_update V s users session_id body reply_to request_id attempt_id author handler =
     andThen (active_session V s session_id) (\<lambda>(located, meta).
     andThen (load_thread V s located) (\<lambda>(old_thread, es).
     andThen (sender_checks meta author reply_to request_id attempt_id) (\<lambda>_.
     let next_line = next_line_of es in
     andThen (map_err ErrSession (apply_quick_session_transition meta
       (message_transition meta author next_line body reply_to request_id attempt_id (en_now V)))) (\<lambda>(outcome, meta).
     case outcome of
       Duplicate line_number \<Rightarrow>
         Inr (Inl (SendQuickSessionMessageResponse session_id
           (case line_number of Some l \<Rightarrow> l | None \<Rightarrow> next_line) (qs_status meta) (qs_revision meta) (session_ref meta)))
     | Applied \<Rightarrow>
         (let new_message = session_message V es reply_to handler body in
          andThen (map_err ErrCompliance (validate_append (en_ext V) old_thread new_message users
                     [qs_created_by meta, qs_agent_id meta])) (\<lambda>_.
          andThen (session_yaml V meta) (\<lambda>new_meta.
          andThen (map_err (\<lambda>e. ErrIo ''failed to read quick session metadata'' (io_text e))
                     (read_file V s (meta_file (lq_rel_dir located)))) (\<lambda>old_meta.
            Inr (Inr \<lparr>su_located = located, su_meta = meta, su_next_line = next_line, su_old_meta = old_meta,
              su_new_meta = new_meta, su_old_thread = old_thread, su_message = new_message\<rparr>)))))))))"

definition commit_session_update ::
  "env \<Rightarrow> string \<Rightarrow> string \<Rightarrow> session_update \<Rightarrow> app_state \<Rightarrow> session_response outcome" where
  "commit_session_update V session_id author u s =
     (let meta_path = meta_file (lq_rel_dir (su_located u));
          thread_path = thread_file_of (lq_rel_dir (su_located u));
          old = [(meta_path, su_old_meta u), (thread_path, su_old_thread u)]
      in case atomic_write_pair V meta_path (su_new_meta u) thread_path (su_old_thread u @ su_message u) s of
           (Inl e, s1) \<Rightarrow> (Inl (ErrIo ''failed to write quick session message'' e), restore_files V old s1)
         | (Inr _, s1) \<Rightarrow>
             (case add_and_commit_as V [meta_path, thread_path]
                     (''session-msg: @'' @ author @ '' -> '' @ session_id @ '' '' @ line_label (su_next_line u)) author s1 of
                (Inl e, s2) \<Rightarrow> (Inl (ErrGit ''send quick session message commit failed'' e), restore_files V old s2)
              | (Inr _, s2) \<Rightarrow>
                  (Inr (SendQuickSessionMessageResponse session_id (su_next_line u) (qs_status (su_meta u))
                          (qs_revision (su_meta u)) (session_ref (su_meta u))),
                   emit_changed (su_meta u) (schedule_sync (session_pending V session_id (su_next_line u) s2)))))"

definition handle_send_quick_session_message ::
  "env \<Rightarrow> app_state \<Rightarrow> string \<Rightarrow> string \<Rightarrow> nat option \<Rightarrow> string option \<Rightarrow> string option \<Rightarrow> string \<Rightarrow> app_state \<Rightarrow>
   session_response outcome" where
  "handle_send_quick_session_message V s0 session_id body reply_to request_id attempt_id author s =
     (case andThen (send_session_checks V s0 body author)
             (send_session_update V s (st_users s0) session_id body reply_to request_id attempt_id author) of
        Inl e \<Rightarrow> (Inl e, s)
      | Inr (Inl duplicate) \<Rightarrow> (Inr duplicate, s)
      | Inr (Inr u) \<Rightarrow> commit_session_update V session_id author u s)"

subsection \<open>The turns of the agent\<close>

definition meta_update ::
  "env \<Rightarrow> app_state \<Rightarrow> string \<Rightarrow> quick_session_transition \<Rightarrow>
   daemon_error + quick_session_meta \<times> (string \<times> string \<times> string) option" where
  "meta_update V s session_id transition =
     andThen (active_session V s session_id) (\<lambda>(located, meta).
     andThen (map_err (\<lambda>e. ErrIo ''failed to read quick session metadata'' (io_text e))
                (read_file V s (meta_file (lq_rel_dir located)))) (\<lambda>old_meta.
     andThen (map_err ErrSession (apply_quick_session_transition meta transition)) (\<lambda>(outcome, meta).
       case outcome of
         Duplicate _ \<Rightarrow> Inr (meta, None)
       | Applied \<Rightarrow>
           andThen (session_yaml V meta) (\<lambda>new_meta.
             Inr (meta, Some (meta_file (lq_rel_dir located), old_meta, new_meta))))))"

definition apply_meta_transition ::
  "env \<Rightarrow> string \<Rightarrow> string \<Rightarrow> quick_session_transition \<Rightarrow> string \<Rightarrow> app_state \<Rightarrow> (quick_session_meta \<times> bool) outcome" where
  "apply_meta_transition V session_id author transition operation s =
     (case meta_update V s session_id transition of
        Inl e \<Rightarrow> (Inl e, s)
      | Inr (meta, None) \<Rightarrow> (Inr (meta, False), s)
      | Inr (meta, Some (path, old_meta, new_meta)) \<Rightarrow>
          (case atomic_write_file V path new_meta s of
             (Inl e, s1) \<Rightarrow> (Inl (ErrIo ''failed to write quick session metadata'' e), s1)
           | (Inr _, s1) \<Rightarrow>
               (case add_and_commit_as V [path] (''session: '' @ operation @ '' '' @ session_id @ '' by @'' @ author)
                       author s1 of
                  (Inl e, s2) \<Rightarrow> (Inl (ErrGit (operation @ '' commit failed'') e), restore_files V [(path, old_meta)] s2)
                | (Inr _, s2) \<Rightarrow> (Inr (meta, True), s2))))"

text \<open>The answer to a transition of the agent, with the notifications of a change.\<close>

definition meta_transition_success ::
  "(quick_session_meta \<times> bool) outcome \<Rightarrow> (quick_session_meta \<Rightarrow> session_response) \<Rightarrow> session_response outcome" where
  "meta_transition_success result response =
     (case result of
        (Inl e, s1) \<Rightarrow> (Inl e, s1)
      | (Inr (meta, changed), s1) \<Rightarrow>
          (Inr (response meta), if changed then emit_changed meta (schedule_sync s1) else s1))"

definition claim_checks :: "env \<Rightarrow> app_state \<Rightarrow> string \<Rightarrow> nat \<Rightarrow> string \<Rightarrow> string \<Rightarrow> daemon_error + unit" where
  "claim_checks V s session_id input_line attempt_id author =
     andThen (active_session V s session_id) (\<lambda>(located, meta).
     andThen (fail_if (qs_agent_id meta \<noteq> author) (ErrSession UnauthorizedActor)) (\<lambda>_.
     andThen (load_thread V s located) (\<lambda>(_, es).
     let is_duplicate = qs_status meta = Running \<and> qs_processing_input_line meta = Some input_line
           \<and> qs_attempt_id meta = Some attempt_id
     in fail_if (\<not> is_duplicate \<and> newest_creator_line meta es \<noteq> Some input_line) (ErrSession InputLineMismatch))))"

definition handle_claim_quick_session_turn ::
  "env \<Rightarrow> app_state \<Rightarrow> string \<Rightarrow> nat \<Rightarrow> string \<Rightarrow> string \<Rightarrow> app_state \<Rightarrow> session_response outcome" where
  "handle_claim_quick_session_turn V s0 session_id input_line attempt_id author s =
     (case andThen (ensure_active_user s0 author ''author'') (\<lambda>_.
             claim_checks V s session_id input_line attempt_id author) of
        Inl e \<Rightarrow> (Inl e, s)
      | Inr _ \<Rightarrow>
          meta_transition_success
            (apply_meta_transition V session_id author (Claim author input_line attempt_id (en_now V))
               ''claim quick session'' s)
            (\<lambda>meta. ClaimQuickSessionTurnResponse session_id input_line attempt_id (qs_status meta) (qs_revision meta)))"

fun set_actor :: "string \<Rightarrow> quick_session_transition \<Rightarrow> quick_session_transition" where
  "set_actor author (SetTitle _ attempt_id title now) = SetTitle author attempt_id title now"
| "set_actor author (SetSummary _ attempt_id summary now) = SetSummary author attempt_id summary now"
| "set_actor author (MarkError _ attempt_id err now) = MarkError author attempt_id err now"
| "set_actor author t = t"

definition mutate_agent_meta ::
  "env \<Rightarrow> app_state \<Rightarrow> string \<Rightarrow> string \<Rightarrow> quick_session_transition \<Rightarrow> string \<Rightarrow> (quick_session_meta \<Rightarrow> session_response) \<Rightarrow>
   app_state \<Rightarrow> session_response outcome" where
  "mutate_agent_meta V s0 session_id author transition operation response s =
     (case ensure_active_user s0 author ''author'' of
        Inl e \<Rightarrow> (Inl e, s)
      | Inr _ \<Rightarrow>
          meta_transition_success
            (apply_meta_transition V session_id author (set_actor author transition) operation s) response)"

definition handle_set_quick_session_title ::
  "env \<Rightarrow> app_state \<Rightarrow> string \<Rightarrow> string \<Rightarrow> string \<Rightarrow> string \<Rightarrow> app_state \<Rightarrow> session_response outcome" where
  "handle_set_quick_session_title V s0 session_id title attempt_id author s =
     mutate_agent_meta V s0 session_id author (SetTitle [] attempt_id title (en_now V)) ''set quick session title''
       (\<lambda>meta. SetQuickSessionTitleResponse (qs_id meta) (case qs_title meta of Some t \<Rightarrow> t | None \<Rightarrow> [])
          (qs_status meta) (qs_revision meta)) s"

definition handle_set_quick_session_summary ::
  "env \<Rightarrow> app_state \<Rightarrow> string \<Rightarrow> string \<Rightarrow> string \<Rightarrow> string \<Rightarrow> app_state \<Rightarrow> session_response outcome" where
  "handle_set_quick_session_summary V s0 session_id summary attempt_id author s =
     mutate_agent_meta V s0 session_id author (SetSummary [] attempt_id summary (en_now V)) ''set quick session summary''
       (\<lambda>meta. SetQuickSessionSummaryResponse (qs_id meta) (case qs_summary meta of Some t \<Rightarrow> t | None \<Rightarrow> [])
          (qs_status meta) (qs_revision meta)) s"

definition handle_mark_quick_session_error ::
  "env \<Rightarrow> app_state \<Rightarrow> string \<Rightarrow> string \<Rightarrow> string \<Rightarrow> string \<Rightarrow> app_state \<Rightarrow> session_response outcome" where
  "handle_mark_quick_session_error V s0 session_id attempt_id diagnostic author s =
     mutate_agent_meta V s0 session_id author (MarkError [] attempt_id diagnostic (en_now V)) ''mark quick session error''
       (\<lambda>meta. MarkQuickSessionErrorResponse (qs_id meta) (qs_status meta) (qs_revision meta)) s"
subsection \<open>Archiving\<close>

definition move_session_checks ::
  "env \<Rightarrow> app_state \<Rightarrow> string \<Rightarrow> string \<Rightarrow> bool \<Rightarrow> daemon_error + string \<times> quick_session_meta \<times> string \<times> string" where
  "move_session_checks V s session_id author archive =
     andThen (locate_session s session_id) (\<lambda>located.
       case located of
         None \<Rightarrow> Inl ErrSessionMissing
       | Some located \<Rightarrow>
           if lq_archived located = archive then Inl (ErrSession InvalidState)
           else andThen (load_meta V s located) (\<lambda>meta.
             andThen (map_err (\<lambda>e. ErrIo ''failed to read quick session metadata'' (io_text e))
                        (read_file V s (meta_file (lq_rel_dir located)))) (\<lambda>old_meta.
             andThen (map_err ErrSession (apply_quick_session_transition meta
                        (if archive then Archive author (en_now V) else Unarchive author (en_now V)))) (\<lambda>(_, meta).
             andThen (session_yaml V meta) (\<lambda>new_meta.
               Inr (lq_rel_dir located, meta, old_meta, new_meta))))))"

definition relocate_session ::
  "env \<Rightarrow> string \<Rightarrow> string \<Rightarrow> bool \<Rightarrow> string \<Rightarrow> string \<Rightarrow> string \<Rightarrow> string \<Rightarrow> app_state \<Rightarrow> unit outcome" where
  "relocate_session V session_id author archive source target old_meta new_meta s =
     (let verb = (if archive then ''archive'' else ''unarchive'') in
      case atomic_write_file V (meta_file source) new_meta s of
        (Inl e, s1) \<Rightarrow> (Inl (ErrIo ''failed to write quick session metadata'' e), s1)
      | (Inr _, s1) \<Rightarrow>
          (case en_io V (IoMkdir (parent_dir target)) of
             Some e \<Rightarrow> (Inl (ErrIo ''failed to create quick session archive directory'' e),
                        restore_file V (meta_file source) old_meta s1)
           | None \<Rightarrow>
               (case git_mv V source target s1 of
                  (Inl e, s2) \<Rightarrow> (Inl (ErrGit ''failed to move quick session'' e),
                                  restore_file V (meta_file source) old_meta s2)
                | (Inr _, s2) \<Rightarrow>
                    (case add_and_commit_as V [meta_file target, thread_file_of target]
                            (''session: '' @ verb @ '' '' @ session_id @ '' by @'' @ author) author s2 of
                       (Inl e, s3) \<Rightarrow>
                         (Inl (ErrGit (verb @ '' quick session commit failed'') e),
                          restore_file V (meta_file source) old_meta (snd (git_mv V target source s3)))
                     | (Inr _, s3) \<Rightarrow> (Inr (), s3)))))"

definition move_session ::
  "env \<Rightarrow> app_state \<Rightarrow> string \<Rightarrow> string \<Rightarrow> bool \<Rightarrow> app_state \<Rightarrow> session_response outcome" where
  "move_session V s0 session_id author archive s =
     (case andThen (ensure_active_user s0 author ''creator'') (\<lambda>_.
           andThen (move_session_checks V s session_id author archive) (\<lambda>(source, meta, old_meta, new_meta).
           andThen (session_rel_dir session_id archive) (\<lambda>target. Inr (source, target, meta, old_meta, new_meta)))) of
        Inl e \<Rightarrow> (Inl e, s)
      | Inr (source, target, meta, old_meta, new_meta) \<Rightarrow>
          (case relocate_session V session_id author archive source target old_meta new_meta s of
             (Inl e, s1) \<Rightarrow> (Inl e, s1)
           | (Inr _, s1) \<Rightarrow>
               (Inr (if archive
                     then ArchiveQuickSessionResponse session_id (qs_status meta) (qs_revision meta)
                            (case qs_archived_at meta of Some t \<Rightarrow> t | None \<Rightarrow> [])
                     else UnarchiveQuickSessionResponse session_id (qs_status meta) (qs_revision meta)),
                emit_changed meta (schedule_sync s1))))"

definition handle_archive_quick_session ::
  "env \<Rightarrow> app_state \<Rightarrow> string \<Rightarrow> string \<Rightarrow> app_state \<Rightarrow> session_response outcome" where
  "handle_archive_quick_session V s0 session_id author s = move_session V s0 session_id author True s"

definition handle_unarchive_quick_session ::
  "env \<Rightarrow> app_state \<Rightarrow> string \<Rightarrow> string \<Rightarrow> app_state \<Rightarrow> session_response outcome" where
  "handle_unarchive_quick_session V s0 session_id author s = move_session V s0 session_id author False s"
subsection \<open>Files and their restoration\<close>

lemma session_parents [simp]: "parent_dir (meta_file d) = d" "parent_dir (thread_file_of d) = d"
  using parent_dir_file [of "''session.meta.yaml''" d] parent_dir_file [of "''discussion.thread''" d]
  by (simp_all add: meta_file_def thread_file_of_def)

lemma session_files_below [simp]: "below d (meta_file d)" "below d (thread_file_of d)"
  by (simp_all add: below_def meta_file_def thread_file_of_def starts_with_iff)

lemma session_files_distinct [simp]: "meta_file d \<noteq> thread_file_of d'" "thread_file_of d \<noteq> meta_file d'"
proof -
  have "last (meta_file d) \<noteq> last (thread_file_of d')" by (simp add: meta_file_def thread_file_of_def)
  then show "meta_file d \<noteq> thread_file_of d'" by metis
  have "last (thread_file_of d) \<noteq> last (meta_file d')" by (simp add: meta_file_def thread_file_of_def)
  then show "thread_file_of d \<noteq> meta_file d'" by metis
qed

lemma session_files_inj [simp]: "meta_file d = meta_file d' \<longleftrightarrow> d = d'" "thread_file_of d = thread_file_of d' \<longleftrightarrow> d = d'"
  by (simp_all add: meta_file_def thread_file_of_def)

lemma atomic_write_file_frame:
  "atomic_write_file V p c s = (r, s1) \<Longrightarrow> (\<exists>e. r = Inl e) \<and> s1 = s \<or> r = Inr () \<and> s1 = put_file p c s"
  by (auto simp: atomic_write_file_def split: option.splits)

lemma atomic_write_pair_frame:
  "atomic_write_pair V p c q d s = (r, s1) \<Longrightarrow>
   (\<exists>e. r = Inl e) \<and> (s1 = s \<or> s1 = put_file p c s) \<or> r = Inr () \<and> s1 = put_file q d (put_file p c s)"
  by (auto simp: atomic_write_pair_def atomic_write_file_def split: option.splits)

subsection \<open>What the helpers establish\<close>

lemma session_rel_dir_Inr:
  "session_rel_dir sid a = Inr d \<longleftrightarrow> validate_quick_session_id sid = Inr () \<and> d = session_dir sid a"
  by (auto simp: session_rel_dir_def)

lemma locate_session_Inr:
  "locate_session s sid = Inr l \<longleftrightarrow>
     validate_quick_session_id sid = Inr ()
     \<and> l = (if file_exists s (meta_file (session_dir sid False)) then Some \<lparr>lq_rel_dir = session_dir sid False, lq_archived = False\<rparr>
            else if file_exists s (meta_file (session_dir sid True)) then Some \<lparr>lq_rel_dir = session_dir sid True, lq_archived = True\<rparr>
            else None)"
  by (auto simp: locate_session_def session_rel_dir_def)

lemma locate_session_Some:
  "locate_session s sid = Inr (Some l) \<Longrightarrow>
     validate_quick_session_id sid = Inr () \<and> l = \<lparr>lq_rel_dir = session_dir sid (lq_archived l), lq_archived = lq_archived l\<rparr>
     \<and> file_exists s (meta_file (session_dir sid (lq_archived l)))"
  by (auto simp: locate_session_Inr split: if_splits)

lemma read_file_Inr: "read_file V s p = Inr c \<longleftrightarrow> map_of (st_tree s) p = Some c \<and> en_io V (IoRead p) = None"
  by (auto simp: read_file_def split: option.splits)

lemma load_meta_Inr:
  "load_meta V s l = Inr m \<longleftrightarrow>
     (\<exists>c. read_file V s (meta_file (lq_rel_dir l)) = Inr c \<and> en_session_read V c = Some m \<and> qs_valid m)"
  by (auto simp: load_meta_def ok_or_def split: sum.splits option.splits)

lemma load_thread_Inr:
  "load_thread V s l = Inr (th, es) \<longleftrightarrow>
     read_file V s (thread_file_of (lq_rel_dir l)) = Inr th \<and> parse_thread (en_ext V) th = Inr \<lparr>entries = es\<rparr>"
proof -
  have "f = \<lparr>entries = es\<rparr> \<longleftrightarrow> entries f = es" for f :: thread_file by (cases f) auto
  then show ?thesis by (auto simp: load_thread_def split: sum.splits)
qed

lemma active_session_Inr:
  "active_session V s sid = Inr (l, m) \<longleftrightarrow>
     validate_quick_session_id sid = Inr () \<and> l = \<lparr>lq_rel_dir = session_dir sid False, lq_archived = False\<rparr>
     \<and> load_meta V s l = Inr m"
  by (auto simp: active_session_def locate_session_Inr load_meta_Inr read_file_Inr file_exists_def split: option.splits)

lemma session_yaml_Inr: "session_yaml V m = Inr y \<longleftrightarrow> en_session_write V m = Some y"
  by (auto simp: session_yaml_def ok_or_def split: option.splits)
text \<open>A message that is not refused: the files it was read from and the transition behind it.\<close>

definition session_inputs :: "env \<Rightarrow> app_state \<Rightarrow> string \<Rightarrow> quick_session_meta \<Rightarrow> string \<Rightarrow> thread_entry list \<Rightarrow> bool" where
  "session_inputs V s sid m th es \<longleftrightarrow>
     validate_quick_session_id sid = Inr ()
     \<and> load_meta V s \<lparr>lq_rel_dir = session_dir sid False, lq_archived = False\<rparr> = Inr m
     \<and> load_thread V s \<lparr>lq_rel_dir = session_dir sid False, lq_archived = False\<rparr> = Inr (th, es)"

definition duplicate_response ::
  "string \<Rightarrow> thread_entry list \<Rightarrow> transition_outcome \<Rightarrow> quick_session_meta \<Rightarrow> session_response" where
  "duplicate_response sid es outcome m =
     SendQuickSessionMessageResponse sid (case outcome of Duplicate (Some l) \<Rightarrow> l | _ \<Rightarrow> next_line_of es)
       (qs_status m) (qs_revision m) (session_ref m)"

lemma send_session_update_Inr:
  assumes "send_session_update V s users sid body reply_to rid att author handler = Inr x"
  obtains m th es outcome m' where "session_inputs V s sid m th es"
    "sender_checks m author reply_to rid att = Inr ()"
    "apply_quick_session_transition m
       (message_transition m author (next_line_of es) body reply_to rid att (en_now V)) = Inr (outcome, m')"
    "outcome \<noteq> Applied \<longrightarrow> x = Inl (duplicate_response sid es outcome m')"
    "outcome = Applied \<longrightarrow> (\<exists>y c. en_session_write V m' = Some y
       \<and> map_of (st_tree s) (meta_file (session_dir sid False)) = Some c
       \<and> validate_append (en_ext V) th (session_message V es reply_to handler body) users
           [qs_created_by m', qs_agent_id m'] = Inr ()
       \<and> x = Inr \<lparr>su_located = \<lparr>lq_rel_dir = session_dir sid False, lq_archived = False\<rparr>, su_meta = m',
              su_next_line = next_line_of es, su_old_meta = c, su_new_meta = y, su_old_thread = th,
              su_message = session_message V es reply_to handler body\<rparr>)"
proof -
  let ?l = "\<lparr>lq_rel_dir = session_dir sid False, lq_archived = False\<rparr>"
  obtain m where m: "active_session V s sid = Inr (?l, m)"
    using assms by (auto simp: send_session_update_def active_session_Inr)
  obtain th es where t: "load_thread V s ?l = Inr (th, es)"
    using assms m by (auto simp: send_session_update_def)
  obtain outcome m' where o: "sender_checks m author reply_to rid att = Inr ()"
      "apply_quick_session_transition m
         (message_transition m author (next_line_of es) body reply_to rid att (en_now V)) = Inr (outcome, m')"
    using assms m t by (auto simp: send_session_update_def Let_def)
  have i: "session_inputs V s sid m th es" using m t by (simp add: session_inputs_def active_session_Inr)
  show ?thesis
    by (rule that [OF i o]; cases outcome)
      (use assms m t o in \<open>auto simp: send_session_update_def duplicate_response_def Let_def session_yaml_Inr read_file_Inr
         split: option.splits\<close>)
qed

definition session_files :: "string \<Rightarrow> string \<Rightarrow> string \<Rightarrow> tree \<Rightarrow> tree" where
  "session_files d c th t = AList.update (thread_file_of d) th (AList.update (meta_file d) c t)"

lemma notified_tree [simp]:
  "st_tree (emit_changed m s) = st_tree s" "st_tree (session_pending V sid l s) = st_tree s"
  by (auto simp: emit_changed_def session_pending_def split: sum.splits)

text \<open>The outcome of a message: refused without effect, recognised as a retry without effect, or applied to
  both files and committed.\<close>

lemma commit_session_update_effect:
  assumes "commit_session_update V sid author u s = (r, s')" "rollback_ok V"
    and old: "lq_rel_dir (su_located u) = d" "map_of (st_tree s) (meta_file d) = Some (su_old_meta u)"
      "map_of (st_tree s) (thread_file_of d) = Some (su_old_thread u)"
  shows "(\<exists>e. r = Inl e) \<and> s' = s
    \<or> r = Inr (SendQuickSessionMessageResponse sid (su_next_line u) (qs_status (su_meta u))
                 (qs_revision (su_meta u)) (session_ref (su_meta u)))
      \<and> st_tree s' = session_files d (su_new_meta u) (su_old_thread u @ su_message u) (st_tree s)"
proof -
  obtain r1 s1 where w: "atomic_write_pair V (meta_file d) (su_new_meta u) (thread_file_of d)
      (su_old_thread u @ su_message u) s = (r1, s1)" by force
  obtain r2 s2 where c: "add_and_commit_as V [meta_file d, thread_file_of d]
      (''session-msg: @'' @ author @ '' -> '' @ sid @ '' '' @ line_label (su_next_line u)) author s1 = (r2, s2)" by force
  have undo: "restore_files V [(meta_file d, su_old_meta u), (thread_file_of d, su_old_thread u)] s1 = s"
    using restore_pair [OF assms(2) old(2,3)] atomic_write_pair_frame [OF w] by auto
  note frames = atomic_write_pair_frame [OF w] add_and_commit_frame [OF c]
  show ?thesis
  proof (cases r1)
    case Inl
    then show ?thesis using assms(1) w undo unfolding commit_session_update_def old(1) Let_def by auto
  next
    case Inr
    then show ?thesis
      using assms(1) w c undo frames unfolding commit_session_update_def old(1) Let_def
      by (cases r2) (auto simp: session_files_def)
  qed
qed
lemma send_session_effect:
  assumes run: "handle_send_quick_session_message V s0 sid body reply_to rid att author s = (r, s')" "rollback_ok V"
  obtains (refused) e where "r = Inl e" "s' = s"
  | (accepted) handler m th es outcome m' where "send_session_checks V s0 body author = Inr handler"
      "session_inputs V s sid m th es" "sender_checks m author reply_to rid att = Inr ()"
      "apply_quick_session_transition m
         (message_transition m author (next_line_of es) body reply_to rid att (en_now V)) = Inr (outcome, m')"
      "r = Inr (duplicate_response sid es outcome m')"
      "outcome \<noteq> Applied \<longrightarrow> s' = s"
      "outcome = Applied \<longrightarrow> (\<exists>y. en_session_write V m' = Some y
         \<and> validate_append (en_ext V) th (session_message V es reply_to handler body) (st_users s0)
             [qs_created_by m', qs_agent_id m'] = Inr ()
         \<and> st_tree s' = session_files (session_dir sid False) y (th @ session_message V es reply_to handler body) (st_tree s))"
proof (cases "andThen (send_session_checks V s0 body author)
    (send_session_update V s (st_users s0) sid body reply_to rid att author)")
  case (Inl e)
  then have "r = Inl e" "s' = s" using run(1) unfolding handle_send_quick_session_message_def Inl by simp_all
  then show ?thesis by (rule refused)
next
  case (Inr x)
  then obtain handler where h: "send_session_checks V s0 body author = Inr handler"
      and upd: "send_session_update V s (st_users s0) sid body reply_to rid att author handler = Inr x"
    by auto
  have exec: "(case x of Inl duplicate \<Rightarrow> (Inr duplicate, s) | Inr u \<Rightarrow> commit_session_update V sid author u s) = (r, s')"
    using run(1) unfolding handle_send_quick_session_message_def Inr by simp
  from upd show ?thesis
  proof (rule send_session_update_Inr)
    fix m th es outcome m'
    assume i: "session_inputs V s sid m th es" and sc: "sender_checks m author reply_to rid att = Inr ()"
      and tr: "apply_quick_session_transition m
         (message_transition m author (next_line_of es) body reply_to rid att (en_now V)) = Inr (outcome, m')"
      and dup: "outcome \<noteq> Applied \<longrightarrow> x = Inl (duplicate_response sid es outcome m')"
      and app: "outcome = Applied \<longrightarrow> (\<exists>y c. en_session_write V m' = Some y
       \<and> map_of (st_tree s) (meta_file (session_dir sid False)) = Some c
       \<and> validate_append (en_ext V) th (session_message V es reply_to handler body) (st_users s0)
           [qs_created_by m', qs_agent_id m'] = Inr ()
       \<and> x = Inr \<lparr>su_located = \<lparr>lq_rel_dir = session_dir sid False, lq_archived = False\<rparr>, su_meta = m',
              su_next_line = next_line_of es, su_old_meta = c, su_new_meta = y, su_old_thread = th,
              su_message = session_message V es reply_to handler body\<rparr>)"
    note acc = accepted [OF h i sc tr]
    show ?thesis
    proof (cases outcome)
      case (Duplicate ln)
      then show ?thesis using exec dup acc by simp
    next
      case Applied
      then obtain y c where y: "en_session_write V m' = Some y"
         "map_of (st_tree s) (meta_file (session_dir sid False)) = Some c"
         "validate_append (en_ext V) th (session_message V es reply_to handler body) (st_users s0)
           [qs_created_by m', qs_agent_id m'] = Inr ()"
         and x: "x = Inr \<lparr>su_located = \<lparr>lq_rel_dir = session_dir sid False, lq_archived = False\<rparr>, su_meta = m',
              su_next_line = next_line_of es, su_old_meta = c, su_new_meta = y, su_old_thread = th,
              su_message = session_message V es reply_to handler body\<rparr>" using app by blast
      have th: "map_of (st_tree s) (thread_file_of (session_dir sid False)) = Some th"
        using i by (simp add: session_inputs_def load_thread_Inr read_file_Inr)
      from commit_session_update_effect [OF exec [unfolded x sum.case] run(2)] th y Applied show ?thesis
        using acc refused by (auto simp: duplicate_response_def)
    qed
  qed
qed
text \<open>The same for a transition of the metadata alone.\<close>

lemma meta_update_Inr:
  assumes "meta_update V s sid t = Inr (m', x)"
  obtains m outcome where "validate_quick_session_id sid = Inr ()"
    "load_meta V s \<lparr>lq_rel_dir = session_dir sid False, lq_archived = False\<rparr> = Inr m"
    "apply_quick_session_transition m t = Inr (outcome, m')" "outcome \<noteq> Applied \<longrightarrow> x = None"
    "outcome = Applied \<longrightarrow> (\<exists>y c. en_session_write V m' = Some y
       \<and> map_of (st_tree s) (meta_file (session_dir sid False)) = Some c
       \<and> x = Some (meta_file (session_dir sid False), c, y))"
proof -
  let ?l = "\<lparr>lq_rel_dir = session_dir sid False, lq_archived = False\<rparr>"
  obtain m where m: "active_session V s sid = Inr (?l, m)"
    using assms by (auto simp: meta_update_def active_session_Inr)
  obtain outcome m1 where o: "apply_quick_session_transition m t = Inr (outcome, m1)"
    using assms m by (auto simp: meta_update_def)
  have v: "validate_quick_session_id sid = Inr ()" "load_meta V s ?l = Inr m" using m by (auto simp: active_session_Inr)
  have "m1 = m'" using assms m o by (cases outcome) (auto simp: meta_update_def)
  show ?thesis
    by (rule that [OF v o [unfolded \<open>m1 = m'\<close>]]; cases outcome)
      (use assms m o in \<open>auto simp: meta_update_def session_yaml_Inr read_file_Inr\<close>)
qed

lemma apply_meta_effect:
  assumes run: "apply_meta_transition V sid author t op s = (r, s')" "rollback_ok V"
  obtains (refused) e where "r = Inl e" "s' = s"
  | (accepted) m outcome m' where "validate_quick_session_id sid = Inr ()"
      "load_meta V s \<lparr>lq_rel_dir = session_dir sid False, lq_archived = False\<rparr> = Inr m"
      "apply_quick_session_transition m t = Inr (outcome, m')"
      "r = Inr (m', outcome = Applied)" "outcome \<noteq> Applied \<longrightarrow> s' = s"
      "outcome = Applied \<longrightarrow> (\<exists>y. en_session_write V m' = Some y
         \<and> st_tree s' = AList.update (meta_file (session_dir sid False)) y (st_tree s))"
proof (cases "meta_update V s sid t")
  case (Inl e)
  then show ?thesis using run(1) refused by (auto simp: apply_meta_transition_def)
next
  case (Inr y)
  obtain m' x where mx: "meta_update V s sid t = Inr (m', x)" using Inr by (cases y) auto
  let ?p = "meta_file (session_dir sid False)"
  from mx show ?thesis
  proof (rule meta_update_Inr)
    fix m outcome
    assume v: "validate_quick_session_id sid = Inr ()" and l: "load_meta V s \<lparr>lq_rel_dir = session_dir sid False, lq_archived = False\<rparr> = Inr m"
      and o: "apply_quick_session_transition m t = Inr (outcome, m')" and dup: "outcome \<noteq> Applied \<longrightarrow> x = None"
      and app: "outcome = Applied \<longrightarrow> (\<exists>y c. en_session_write V m' = Some y \<and> map_of (st_tree s) ?p = Some c \<and> x = Some (?p, c, y))"
    note acc = accepted [OF v l o]
    show ?thesis
    proof (cases "outcome = Applied")
      case False
      then show ?thesis using run(1) mx dup acc by (simp add: apply_meta_transition_def)
    next
      case True
      then obtain y c where y: "en_session_write V m' = Some y" "map_of (st_tree s) ?p = Some c" "x = Some (?p, c, y)"
        using app by blast
      obtain r1 s1 where w: "atomic_write_file V ?p y s = (r1, s1)" by force
      obtain r2 s2 where c: "add_and_commit_as V [?p] (''session: '' @ op @ '' '' @ sid @ '' by @'' @ author) author s1 = (r2, s2)"
        by force
      have undo: "restore_files V [(?p, c)] s1 = s"
        using restore_one(1) [OF run(2) y(2)] atomic_write_file_frame [OF w] by auto
      show ?thesis
      proof (cases r1)
        case Inl
        then have "(\<exists>e. r = Inl e) \<and> s' = s"
          using run(1) mx y(3) w atomic_write_file_frame [OF w] by (auto simp: apply_meta_transition_def)
        then show ?thesis using refused by blast
      next
        case Inr
        then have "(\<exists>e. r = Inl e) \<and> s' = s \<or> r = Inr (m', True) \<and> st_tree s' = AList.update ?p y (st_tree s)"
          using run(1) mx y(3) w c undo atomic_write_file_frame [OF w] add_and_commit_frame [OF c]
          by (cases r2) (auto simp: apply_meta_transition_def)
        then show ?thesis using refused acc True y(1) by auto
      qed
    qed
  qed
qed
subsection \<open>What a stored session promises\<close>

definition message_at :: "ext \<Rightarrow> string \<Rightarrow> (message \<Rightarrow> bool) \<Rightarrow> bool" where
  "message_at E th P \<longleftrightarrow> (\<exists>f m. parse_thread E th = Inr f \<and> EMessage m \<in> set (entries f) \<and> P m)"

text \<open>The metadata describes the discussion: the last human line and the line being processed are messages of
  the creator, and the last completed line is a message of the agent that answers the completed input.\<close>

definition describes :: "ext \<Rightarrow> quick_session_meta \<Rightarrow> string \<Rightarrow> bool" where
  "describes E m th \<longleftrightarrow>
     (\<forall>h. qs_last_human_line m = Some h \<longrightarrow>
        message_at E th (\<lambda>x. msg_line_number x = h \<and> as_str (msg_author x) = qs_created_by m))
     \<and> (\<forall>i. qs_processing_input_line m = Some i \<longrightarrow>
        message_at E th (\<lambda>x. msg_line_number x = i \<and> as_str (msg_author x) = qs_created_by m))
     \<and> (\<forall>i out. qs_last_completed_input_line m = Some i \<longrightarrow> qs_last_completed_line m = Some out \<longrightarrow>
        message_at E th (\<lambda>x. msg_line_number x = out \<and> as_str (msg_author x) = qs_agent_id m \<and> msg_point_to x = i))"

definition stored_session ::
  "ext \<Rightarrow> (string \<Rightarrow> quick_session_meta option) \<Rightarrow> string list \<Rightarrow> string \<Rightarrow> bool \<Rightarrow> string \<Rightarrow> string \<Rightarrow> bool" where
  "stored_session E R U sid archived c th \<longleftrightarrow>
     clean E U th
     \<and> (\<exists>m. R c = Some m \<and> qs_valid m \<and> qs_id m = sid \<and> (qs_status m = Archived \<longleftrightarrow> archived) \<and> describes E m th)"

lemma describes_mono: "describes E m th \<Longrightarrow> (\<And>P. message_at E th P \<Longrightarrow> message_at E th' P) \<Longrightarrow> describes E m th'"
  unfolding describes_def by blast

lemma message_at_append:
  assumes "message_at E th P" "clean E U th" "validate_append E th new users allowed = Inr ()"
  shows "message_at E (th @ new) P"
proof -
  obtain fb where "parse_thread E new = Inr fb" using assms(3) by (auto simp: validate_append_def)
  moreover obtain fa m where "parse_thread E th = Inr fa" "EMessage m \<in> set (entries fa)" "P m"
    using assms(1) by (auto simp: message_at_def)
  ultimately show ?thesis
    using parse_thread_append [of E th fa new fb] assms(2) by (auto simp: message_at_def clean_def)
qed

lemma next_line_le: "next_line_of es \<le> u64_max"
  using u64_add_le by (simp add: next_line_of_def)

lemma message_at_new:
  assumes "validate_append E th (format_message E n pt h ts body) users allowed = Inr ()" "clean E U th"
    "n \<le> u64_max" "pt \<le> u64_max" "entry_handler h" "compact_timestamp ts"
  shows "message_at E (th @ format_message E n pt h ts body)
    (\<lambda>x. msg_line_number x = n \<and> msg_point_to x = pt \<and> msg_author x = h)"
proof -
  obtain fa fb where f: "parse_thread E th = Inr fa" "parse_thread E (format_message E n pt h ts body) = Inr fb"
    using assms(1) by (auto simp: validate_append_def)
  have "entries fb \<noteq> [] \<and> head_is n pt h (hd (entries fb))" using parse_format_head [OF f(2) assms(3-6)] .
  then obtain m where "EMessage m \<in> set (entries fb)" "msg_line_number m = n" "msg_point_to m = pt" "msg_author m = h"
    by (cases "entries fb"; cases "hd (entries fb)") auto
  then show ?thesis
    using parse_thread_append [OF f] assms(2) by (auto simp: message_at_def clean_def)
qed

subsection \<open>Transitions and the lines they record\<close>

lemma transition_lines:
  assumes "apply_transition m t = Inr (Applied, m')"
  shows "qs_id m' = qs_id m \<and> qs_created_by m' = qs_created_by m \<and> qs_agent_id m' = qs_agent_id m"
    and "qs_last_human_line m' = (case t of HumanMessage _ l _ _ _ \<Rightarrow> Some l | _ \<Rightarrow> qs_last_human_line m)"
    and "qs_last_completed_input_line m' = (case t of AgentReply _ i _ _ _ _ \<Rightarrow> Some i | _ \<Rightarrow> qs_last_completed_input_line m)"
    and "qs_last_completed_line m' = (case t of AgentReply _ _ _ out _ _ \<Rightarrow> Some out | _ \<Rightarrow> qs_last_completed_line m)"
    and "qs_processing_input_line m' = None \<or> qs_processing_input_line m' = qs_processing_input_line m
       \<or> qs_processing_input_line m' = qs_last_human_line m"
  using assms
  by (cases t; auto simp: human_message_def claim_def set_title_def set_summary_def agent_reply_def mark_error_def
      archive_session_def unarchive_session_def qs_steps split: if_splits)+

lemma transition_status:
  assumes "qs_valid m" "apply_transition m t = Inr (Applied, m')"
  shows "qs_status m' = Archived \<longleftrightarrow> (\<exists>a now. t = Archive a now)"
proof (cases t)
  case (Unarchive a now)
  then show ?thesis
    using assms by (auto simp: unarchive_session_def qs_steps qs_valid_iff validate_archive_Inr split: if_splits)
qed (use assms in \<open>auto simp: human_message_def claim_def set_title_def set_summary_def agent_reply_def mark_error_def
      archive_session_def qs_steps split: if_splits\<close>)

lemma describes_meta:
  assumes "describes E m th" "apply_transition m t = Inr (Applied, m')"
    "\<And>a l r p n. t \<noteq> HumanMessage a l r p n" "\<And>a i att out p n. t \<noteq> AgentReply a i att out p n"
  shows "describes E m' th"
proof -
  note f = transition_lines [OF assms(2)]
  have "qs_last_human_line m' = qs_last_human_line m" "qs_last_completed_input_line m' = qs_last_completed_input_line m"
      "qs_last_completed_line m' = qs_last_completed_line m" using f(2-4) assms(3,4) by (cases t; simp)+
  then show ?thesis using f(1,5) assms(1) by (elim disjE) (auto simp: describes_def)
qed

lemma describes_message:
  assumes "describes E m th" and t: "apply_transition m (message_transition m author l body reply_to rid att now) = Inr (Applied, m')"
    and new: "message_at E th (\<lambda>x. msg_line_number x = l \<and> msg_point_to x = reply_line reply_to \<and> msg_author x = h)"
    and h: "as_str h = author"
  shows "describes E m' th"
proof (cases "author = qs_created_by m")
  case True
  have "message_at E th (\<lambda>x. msg_line_number x = l \<and> as_str (msg_author x) = qs_created_by m)"
    using new h True by (auto simp: message_at_def)
  then show ?thesis
    using transition_lines(5) [OF t] transition_lines(1-4) [OF t] True assms(1)
    by (elim disjE) (auto simp: describes_def message_transition_def)
next
  case False
  then have "author = qs_agent_id m" using t by (auto simp: message_transition_def agent_reply_def require_agent_def)
  then have "message_at E th (\<lambda>x. msg_line_number x = l \<and> as_str (msg_author x) = qs_agent_id m \<and> msg_point_to x = reply_line reply_to)"
    using new h by (auto simp: message_at_def)
  then show ?thesis
    using transition_lines(5) [OF t] transition_lines(1-4) [OF t] False assms(1)
    by (elim disjE) (auto simp: describes_def message_transition_def)
qed
subsection \<open>Files of a session\<close>

lemma in_dir_files [simp]: "in_dir d (meta_file d)" "in_dir d (thread_file_of d)"
  by (simp_all add: in_dir_def)

subsection \<open>Session directories\<close>

lemma valid_id_no_slash: "validate_quick_session_id sid = Inr () \<Longrightarrow> CHR ''/'' \<notin> set sid"
proof -
  assume "validate_quick_session_id sid = Inr ()"
  then obtain v where "sid = ''qs-'' @ v" "list_all opaque_byte v"
    by (auto simp: validate_quick_session_id_def validate_opaque_id_def quick_session_id_prefix_def split: option.splits)
  moreover have "\<not> opaque_byte (CHR ''/'')" by code_simp
  ultimately show ?thesis by (auto simp: list_all_iff)
qed

lemma session_dir_unique:
  assumes "validate_quick_session_id sid = Inr ()" "validate_quick_session_id sid' = Inr ()"
    and "in_dir (session_dir sid a) p" "in_dir (session_dir sid' a') p"
  shows "sid = sid' \<and> a = a'"
proof -
  obtain y y' where y: "p = session_dir sid a @ y" "y = [] \<or> hd y = CHR ''/''"
      "p = session_dir sid' a' @ y'" "y' = [] \<or> hd y' = CHR ''/''"
    using assms(3,4) by (fastforce simp: in_dir_def below_iff)
  then have "a = a'" by (auto simp: session_dir_def split: if_splits)
  moreover have "sid = sid'"
    using y \<open>a = a'\<close> valid_id_no_slash [OF assms(1)] valid_id_no_slash [OF assms(2)] no_slash_split [of sid y sid' y']
    by (auto simp: session_dir_def split: if_splits)
  ultimately show ?thesis by simp
qed

lemma session_dirs_apart:
  "validate_quick_session_id sid = Inr () \<Longrightarrow> \<not> (\<exists>p. in_dir (session_dir sid a) p \<and> in_dir (session_dir sid (\<not> a)) p)"
  using session_dir_unique by metis

definition dir_ok ::
  "ext \<Rightarrow> (string \<Rightarrow> quick_session_meta option) \<Rightarrow> string list \<Rightarrow> tree \<Rightarrow> string \<Rightarrow> bool \<Rightarrow> bool" where
  "dir_ok E R U t sid a \<longleftrightarrow>
     (\<forall>p. in_dir (session_dir sid a) p \<and> map_of t p \<noteq> None \<longrightarrow>
        p = meta_file (session_dir sid a) \<or> p = thread_file_of (session_dir sid a))
     \<and> (map_of t (meta_file (session_dir sid a)) = None \<longleftrightarrow> map_of t (thread_file_of (session_dir sid a)) = None)
     \<and> (\<forall>c th. map_of t (meta_file (session_dir sid a)) = Some c \<and> map_of t (thread_file_of (session_dir sid a)) = Some th \<longrightarrow>
          stored_session E R U sid a c th)"

definition sessions_ok :: "ext \<Rightarrow> (string \<Rightarrow> quick_session_meta option) \<Rightarrow> string list \<Rightarrow> tree \<Rightarrow> bool" where
  "sessions_ok E R U t \<longleftrightarrow>
     distinct (map fst t)
     \<and> (\<forall>sid. validate_quick_session_id sid = Inr () \<longrightarrow>
          (\<forall>a. dir_ok E R U t sid a)
          \<and> (\<exists>a. map_of t (meta_file (session_dir sid a)) = None))"

lemma dir_ok_cong:
  assumes "\<And>p. in_dir (session_dir sid a) p \<Longrightarrow> map_of t' p = map_of t p"
  shows "dir_ok E R U t' sid a = dir_ok E R U t sid a"
  using assms by (auto simp: dir_ok_def)

lemma sessions_ok_change:
  assumes ok: "sessions_ok E R U t" and v: "validate_quick_session_id sid = Inr ()" and d: "distinct (map fst t')"
    and same: "\<And>p. (\<And>a. \<not> in_dir (session_dir sid a) p) \<Longrightarrow> map_of t' p = map_of t p"
    and new: "\<And>a. dir_ok E R U t' sid a" "\<exists>a. map_of t' (meta_file (session_dir sid a)) = None"
  shows "sessions_ok E R U t'"
  unfolding sessions_ok_def
proof (intro conjI allI impI d)
  fix sid' assume v': "validate_quick_session_id sid' = Inr ()"
  have other: "map_of t' p = map_of t p" if "sid' \<noteq> sid" "in_dir (session_dir sid' a) p" for p a
    using same session_dir_unique [OF v v'] that by metis
  show "\<exists>a. map_of t' (meta_file (session_dir sid' a)) = None"
  proof (cases "sid' = sid")
    case False
    then show ?thesis using other [OF False in_dir_files(1)] ok v' by (auto simp: sessions_ok_def)
  qed (use new(2) in simp)
  fix a show "dir_ok E R U t' sid' a"
  proof (cases "sid' = sid")
    case False
    then have "dir_ok E R U t' sid' a = dir_ok E R U t sid' a" by (intro dir_ok_cong other)
    then show ?thesis using ok v' by (simp add: sessions_ok_def)
  qed (use new in simp)
qed

lemma dir_ok_absent: "dir_ok E R U t sid a \<Longrightarrow> map_of t (meta_file (session_dir sid a)) = None \<Longrightarrow> \<not> tree_has t (session_dir sid a)"
  by (auto simp: dir_ok_def tree_has_iff)

lemma dir_ok_empty: "\<not> tree_has t (session_dir sid a) \<Longrightarrow> dir_ok E R U t sid a"
  by (force simp: dir_ok_def tree_has_iff)

lemma dir_ok_files:
  "dir_ok E R U t sid a \<Longrightarrow> stored_session E R U sid a c th \<Longrightarrow> dir_ok E R U (session_files (session_dir sid a) c th t) sid a"
  by (auto simp: dir_ok_def session_files_def update_conv')

lemma sessions_ok_files:
  assumes "sessions_ok E R U t" "validate_quick_session_id sid = Inr ()" "stored_session E R U sid False c th"
    "map_of t (meta_file (session_dir sid True)) = None"
  shows "sessions_ok E R U (session_files (session_dir sid False) c th t)"
proof (rule sessions_ok_change [OF assms(1,2)])
  let ?t = "session_files (session_dir sid False) c th t"
  have far: "map_of ?t p = map_of t p" if "\<not> in_dir (session_dir sid False) p" for p
    using that by (auto simp: session_files_def update_conv')
  show "distinct (map fst ?t)" using assms(1) by (simp add: session_files_def sessions_ok_def distinct_update)
  show "map_of ?t p = map_of t p" if "\<And>a. \<not> in_dir (session_dir sid a) p" for p using far that .
  have arch: "map_of ?t p = map_of t p" if "in_dir (session_dir sid True) p" for p
    using far session_dirs_apart [OF assms(2), of True] that by auto
  show "\<exists>a. map_of ?t (meta_file (session_dir sid a)) = None" using arch assms(4) by (intro exI [of _ True]) simp
  fix a show "dir_ok E R U ?t sid a"
  proof (cases a)
    case True
    have "dir_ok E R U ?t sid True = dir_ok E R U t sid True" by (intro dir_ok_cong arch)
    then show ?thesis using True assms(1,2) by (simp add: sessions_ok_def)
  next
    case False
    then show ?thesis using dir_ok_files assms by (simp add: sessions_ok_def)
  qed
qed
subsection \<open>Every request keeps the sessions\<close>

text \<open>What the requests need of the environment: the YAML library reads what it printed, the clock prints
  compact timestamps, \<^verbatim>\<open>git mv\<close> behaves as documented, and rollbacks succeed.\<close>

definition session_env :: "ext \<Rightarrow> (string \<Rightarrow> quick_session_meta option) \<Rightarrow> env \<Rightarrow> bool" where
  "session_env E R V \<longleftrightarrow>
     en_ext V = E \<and> en_session_read V = R \<and> (\<forall>m c. en_session_write V m = Some c \<longrightarrow> R c = Some m)
     \<and> compact_timestamp (en_now V) \<and> git_ok V \<and> rollback_ok V"

lemma session_env_rollback: "session_env E R V \<Longrightarrow> rollback_ok V"
  by (simp add: session_env_def)

lemma stored_at:
  assumes "sessions_ok E R U t" "validate_quick_session_id sid = Inr ()" "map_of t (meta_file (session_dir sid a)) = Some c"
  obtains m th where "R c = Some m" "qs_valid m" "qs_id m = sid" "qs_status m = Archived \<longleftrightarrow> a"
    "map_of t (thread_file_of (session_dir sid a)) = Some th" "clean E U th" "describes E m th"
    "map_of t (meta_file (session_dir sid (\<not> a))) = None"
proof -
  have d: "dir_ok E R U t sid a" "\<exists>a. map_of t (meta_file (session_dir sid a)) = None" using assms(1,2) by (auto simp: sessions_ok_def)
  then obtain th where th: "map_of t (thread_file_of (session_dir sid a)) = Some th" using assms(3) by (auto simp: dir_ok_def)
  obtain b where b: "map_of t (meta_file (session_dir sid b)) = None" using d(2) by blast
  then have "b = (\<not> a)" using assms(3) by (cases a; cases b) auto
  then have "map_of t (meta_file (session_dir sid (\<not> a))) = None" using b by simp
  then show ?thesis using d(1) assms(3) th that by (auto simp: dir_ok_def stored_session_def)
qed

lemma active_user_handler: "ensure_active_user s0 author role = Inr h \<Longrightarrow> handler_new author = Inr h \<and> entry_handler h \<and> as_str h = author"
  by (auto simp: ensure_active_user_def entry_handler_def handler_new_Inr split: if_splits)

lemma send_session_keeps:
  assumes run: "handle_send_quick_session_message V s0 sid body reply_to rid att author s = (r, s')"
    and env: "session_env E R V" "set (st_users s0) \<subseteq> set U" "reply_line reply_to \<le> u64_max"
    and ok: "sessions_ok E R U (st_tree s)"
  shows "sessions_ok E R U (st_tree s') \<and> ((\<exists>e. r = Inl e) \<longrightarrow> s' = s)"
  using run session_env_rollback [OF env(1)]
proof (cases rule: send_session_effect)
  case (accepted handler m th es outcome m')
  show ?thesis
  proof (cases "outcome = Applied")
    case True
    let ?msg = "session_message V es reply_to handler body"
    obtain y where y: "en_session_write V m' = Some y"
        "validate_append E th ?msg (st_users s0) [qs_created_by m', qs_agent_id m'] = Inr ()"
        "st_tree s' = session_files (session_dir sid False) y (th @ ?msg) (st_tree s)"
      using accepted(7) True env(1) by (auto simp: session_env_def)
    have v: "validate_quick_session_id sid = Inr ()" using accepted(2) by (simp add: session_inputs_def)
    have h: "entry_handler handler" "as_str handler = author"
      using accepted(1) active_user_handler [of s0 author] by (auto simp: send_session_checks_def)
    have tr: "qs_valid m" "qs_valid m'" "apply_transition m
        (message_transition m author (next_line_of es) body reply_to rid att (en_now V)) = Inr (Applied, m')"
      using apply_qs_valid [OF accepted(4)] True by auto
    obtain c where c: "map_of (st_tree s) (meta_file (session_dir sid False)) = Some c" "R c = Some m"
        "map_of (st_tree s) (thread_file_of (session_dir sid False)) = Some th"
      using accepted(2) env(1) by (auto simp: session_inputs_def load_meta_Inr load_thread_Inr read_file_Inr session_env_def)
    from ok v c(1) show ?thesis
    proof (rule stored_at)
      fix m1 th1 assume s1: "R c = Some m1" "qs_id m1 = sid" "map_of (st_tree s) (thread_file_of (session_dir sid False)) = Some th1"
        "clean E U th1" "describes E m1 th1" "map_of (st_tree s) (meta_file (session_dir sid (\<not> False))) = None"
      then have st: "qs_id m = sid" "clean E U th" "describes E m th" using c by auto
      have cl: "clean E U (th @ ?msg)"
        using clean_append [OF st(2) y(2) env(2)] format_message_ended unfolding session_message_def by blast
      have "describes E m (th @ ?msg)" using st(3) by (rule describes_mono) (rule message_at_append [OF _ st(2) y(2)])
      moreover have "message_at E (th @ ?msg)
          (\<lambda>x. msg_line_number x = next_line_of es \<and> msg_point_to x = reply_line reply_to \<and> msg_author x = handler)"
        using y(2) st(2) next_line_le env(1,3) h(1) unfolding session_message_def session_env_def
        by (auto intro: message_at_new)
      ultimately have "describes E m' (th @ ?msg)" using describes_message [OF _ tr(3) _ h(2)] by blast
      moreover have "qs_status m' \<noteq> Archived" using transition_status [OF tr(1,3)] by (auto simp: message_transition_def)
      ultimately have "stored_session E R U sid False y (th @ ?msg)"
        using cl tr(2) st(1) transition_lines(1) [OF tr(3)] y(1) env(1) by (auto simp: stored_session_def session_env_def)
      then show ?thesis using sessions_ok_files [OF ok v] s1(6) y(3) accepted(5) by simp
    qed
  qed (use accepted ok in auto)
qed (use ok in auto)
lemma apply_meta_keeps:
  assumes run: "apply_meta_transition V sid author t op s = (r, s')" and env: "session_env E R V"
    and ok: "sessions_ok E R U (st_tree s)"
    and t: "\<And>a l r p n. t \<noteq> HumanMessage a l r p n" "\<And>a i att out p n. t \<noteq> AgentReply a i att out p n"
      "\<And>a n. t \<noteq> Archive a n"
  shows "sessions_ok E R U (st_tree s') \<and> ((\<exists>e. r = Inl e) \<longrightarrow> s' = s)"
  using run session_env_rollback [OF env]
proof (cases rule: apply_meta_effect)
  case (accepted m outcome m')
  show ?thesis
  proof (cases "outcome = Applied")
    case True
    obtain y where y: "en_session_write V m' = Some y"
        "st_tree s' = AList.update (meta_file (session_dir sid False)) y (st_tree s)" using accepted(6) True by blast
    have tr: "qs_valid m" "qs_valid m'" "apply_transition m t = Inr (Applied, m')" using apply_qs_valid [OF accepted(3)] True by auto
    obtain c where c: "map_of (st_tree s) (meta_file (session_dir sid False)) = Some c" "R c = Some m"
      using accepted(2) env by (auto simp: load_meta_Inr read_file_Inr session_env_def)
    from ok accepted(1) c(1) show ?thesis
    proof (rule stored_at)
      fix m1 th assume s1: "R c = Some m1" "qs_id m1 = sid" "map_of (st_tree s) (thread_file_of (session_dir sid False)) = Some th"
        "clean E U th" "describes E m1 th" "map_of (st_tree s) (meta_file (session_dir sid (\<not> False))) = None"
      have "describes E m' th" using describes_meta [OF _ tr(3) t(1,2)] s1(1,5) c(2) by simp
      moreover have "qs_status m' \<noteq> Archived" using transition_status [OF tr(1,3)] t(3) by auto
      ultimately have "stored_session E R U sid False y th"
        using s1 c(2) tr(2) transition_lines(1) [OF tr(3)] y(1) env by (auto simp: stored_session_def session_env_def)
      moreover have "st_tree s' = session_files (session_dir sid False) y th (st_tree s)"
        using s1(3) y(2) by (simp add: session_files_def update_same update_conv')
      ultimately show ?thesis using sessions_ok_files [OF ok accepted(1)] s1(6) accepted(4) by simp
    qed
  qed (use accepted ok in auto)
qed (use ok in auto)

lemma meta_success_keeps:
  assumes "meta_transition_success (r1, s1) f = (r, s')" "P (st_tree s1) \<and> ((\<exists>e. r1 = Inl e) \<longrightarrow> s1 = s)"
  shows "P (st_tree s') \<and> ((\<exists>e. r = Inl e) \<longrightarrow> s' = s)"
  using assms by (auto simp: meta_transition_success_def split: sum.splits if_splits)

lemma claim_session_keeps:
  assumes run: "handle_claim_quick_session_turn V s0 sid i att author s = (r, s')" and env: "session_env E R V"
    and ok: "sessions_ok E R U (st_tree s)"
  shows "sessions_ok E R U (st_tree s') \<and> ((\<exists>e. r = Inl e) \<longrightarrow> s' = s)"
proof (cases "andThen (ensure_active_user s0 author ''author'') (\<lambda>_. claim_checks V s sid i att author)")
  case Inl
  then show ?thesis using run ok unfolding handle_claim_quick_session_turn_def Inl by auto
next
  case Inr
  obtain r1 s1 where a: "apply_meta_transition V sid author (Claim author i att (en_now V)) ''claim quick session'' s = (r1, s1)"
    by force
  show ?thesis
    using run apply_meta_keeps [OF a env ok] unfolding handle_claim_quick_session_turn_def Inr sum.case a
    by (intro meta_success_keeps) auto
qed

lemma mutate_session_keeps:
  assumes run: "mutate_agent_meta V s0 sid author t op f s = (r, s')" and env: "session_env E R V"
    and ok: "sessions_ok E R U (st_tree s)"
    and t: "\<And>a l r p n. set_actor author t \<noteq> HumanMessage a l r p n"
      "\<And>a i att out p n. set_actor author t \<noteq> AgentReply a i att out p n" "\<And>a n. set_actor author t \<noteq> Archive a n"
  shows "sessions_ok E R U (st_tree s') \<and> ((\<exists>e. r = Inl e) \<longrightarrow> s' = s)"
proof (cases "ensure_active_user s0 author ''author''")
  case Inl
  then show ?thesis using run ok by (auto simp: mutate_agent_meta_def)
next
  case Inr
  obtain r1 s1 where a: "apply_meta_transition V sid author (set_actor author t) op s = (r1, s1)" by force
  show ?thesis
    using run apply_meta_keeps [OF a env ok t] unfolding mutate_agent_meta_def Inr sum.case a
    by (intro meta_success_keeps) auto
qed
lemma remove_fresh:
  assumes "\<not> tree_has t d" "in_dir d p" "in_dir d q"
  shows "remove_below d t = t" "remove_below d (AList.update p c t) = t"
    "remove_below d (AList.update q c' (AList.update p c t)) = t"
proof -
  have keep: "remove_below d t = t"
    using assms(1) by (auto simp: remove_below_def tree_has_def list_ex_iff intro!: filter_True)
  have drop: "remove_below d (AList.update p c t) = remove_below d t" if "in_dir d p" for p c t
    using that by (induction t) (auto simp: remove_below_def in_dir_def)
  show "remove_below d t = t" "remove_below d (AList.update p c t) = t"
    "remove_below d (AList.update q c' (AList.update p c t)) = t" using keep drop assms(2,3) by simp_all
qed

lemma write_new_session_effect:
  assumes "write_new_session V d c th s = (r, s1)" "rollback_ok V" "\<not> tree_has (st_tree s) d"
  shows "(\<exists>e. r = Inl e) \<and> s1 = s \<or> r = Inr () \<and> s1 = s\<lparr>st_tree := session_files d c th (st_tree s)\<rparr>"
proof (cases "en_io V (IoMkdir d)")
  case None
  obtain r1 s2 where w: "atomic_write_pair V (meta_file d) c (thread_file_of d) th s = (r1, s2)" by force
  show ?thesis
    using assms None w atomic_write_pair_frame [OF w] remove_fresh [OF assms(3) in_dir_files(1,2)]
    by (auto simp: write_new_session_def remove_dir_all_def rollback_ok_def put_file_def session_files_def)
next
  case (Some e)
  then show ?thesis
    using assms remove_fresh(1) [OF assms(3) in_dir_files(1,2)]
    by (auto simp: write_new_session_def remove_dir_all_def rollback_ok_def)
qed

lemma new_session_Inr:
  assumes "new_session V users sid agent creator body author = Inr (m, th, y)"
  shows "qs_valid m \<and> qs_id m = sid \<and> qs_created_by m = author \<and> qs_status m \<noteq> Archived
    \<and> qs_last_human_line m = Some 1 \<and> qs_processing_input_line m = None \<and> qs_last_completed_input_line m = None
    \<and> th = format_message (en_ext V) 1 0 creator (en_now V) body
    \<and> validate_append (en_ext V) [] th users [author, agent] = Inr () \<and> en_session_write V m = Some y"
proof -
  let ?m0 = "quick_session_new sid agent author (en_now V)" and ?t = "HumanMessage author 1 None body (en_now V)"
  obtain out where o: "apply_quick_session_transition ?m0 ?t = Inr (out, m)"
      and rest: "th = format_message (en_ext V) 1 0 creator (en_now V) body"
        "validate_append (en_ext V) [] th users [author, agent] = Inr ()" "en_session_write V m = Some y"
    using assms by (auto simp: new_session_def session_yaml_Inr Let_def)
  note v = apply_qs_valid [OF o]
  then have "out = Applied" by (auto simp: human_message_def quick_session_new_def qs_steps split: if_splits)
  then have tr: "apply_transition ?m0 ?t = Inr (Applied, m)" using v by simp
  note f = transition_lines [OF tr]
  have "qs_processing_input_line m = None"
    using tr by (auto simp: human_message_def quick_session_new_def qs_steps split: if_splits)
  then show ?thesis
    using v f transition_status [OF _ tr] rest by (simp add: quick_session_new_def)
qed

lemma new_session_stored:
  assumes n: "new_session V users sid agent creator b author = Inr (m, th, y)"
    and env: "session_env E R V" "set users \<subseteq> set U" and h: "entry_handler creator" "as_str creator = author"
  shows "stored_session E R U sid False y th"
proof -
  note new = new_session_Inr [OF n]
  have "message_at E ([] @ th) (\<lambda>z. msg_line_number z = 1 \<and> msg_point_to z = 0 \<and> msg_author z = creator)"
    using new env(1) h(1) message_at_new [of E "[]" 1 0 creator "en_now V" b users "[author, agent]" U]
    by (auto simp: session_env_def clean_Nil)
  then have "describes E m th" using new h(2) by (auto simp: describes_def message_at_def)
  moreover have "clean E U ([] @ th)"
    using clean_append [OF clean_Nil _ env(2)] new env(1) format_message_ended by (auto simp: session_env_def)
  ultimately show ?thesis using new env(1) by (auto simp: stored_session_def session_env_def)
qed

lemma create_session_keeps:
  assumes run: "handle_create_quick_session V s0 sid agent body author s = (r, s')"
    and env: "session_env E R V" "set (st_users s0) \<subseteq> set U" and ok: "sessions_ok E R U (st_tree s)"
  shows "sessions_ok E R U (st_tree s') \<and> ((\<exists>e. r = Inl e) \<longrightarrow> s' = s)"
proof (cases "andThen (create_session_checks V s0 sid agent body author) (\<lambda>(creator, body).
           andThen (locate_session s sid) (\<lambda>located. Inr (creator, body, located)))")
  case Inl
  then show ?thesis using run ok unfolding handle_create_quick_session_def Inl by auto
next
  case (Inr x)
  obtain creator b located where x: "x = (creator, b, located)" by (cases x)
  have ch: "create_session_checks V s0 sid agent body author = Inr (creator, b)" "locate_session s sid = Inr located"
    using Inr x by auto
  show ?thesis
  proof (cases located)
    case (Some l)
    then show ?thesis using run ok unfolding handle_create_quick_session_def Inr x by auto
  next
    case None
    have v: "validate_quick_session_id sid = Inr ()" and abs: "map_of (st_tree s) (meta_file (session_dir sid a)) = None" for a
      using ch(2) None by (cases a; auto simp: locate_session_Inr file_exists_def split: if_splits)+
    have free: "\<not> tree_has (st_tree s) (session_dir sid False)"
      using ok v abs by (intro dir_ok_absent) (auto simp: sessions_ok_def)
    show ?thesis
    proof (cases "new_session V (st_users s0) sid agent creator b author")
      case (Inl e)
      then show ?thesis using run ok None unfolding handle_create_quick_session_def Inr x by auto
    next
      case n: (Inr y)
      obtain m th my where y: "y = (m, th, my)" by (cases y)
      let ?d = "session_dir sid False"
      obtain r1 s1 where w: "write_new_session V ?d my th s = (r1, s1)" by force
      note we = write_new_session_effect [OF w session_env_rollback [OF env(1)] free]
      obtain r2 s2 where c: "add_and_commit_as V [meta_file ?d, thread_file_of ?d]
          (''session: create '' @ sid @ '' for @'' @ agent @ '' by @'' @ author) author s1 = (r2, s2)" by force
      note cf = add_and_commit_frame [OF c]
      have "session_rel_dir sid False = Inr ?d" using v by (simp add: session_rel_dir_Inr)
      then have res: "(r1 = Inr () \<and> (case r2 of Inl _ \<Rightarrow> (\<exists>e. r = Inl e) \<and> s' = remove_dir_all V ?d s2
            | Inr _ \<Rightarrow> (\<exists>resp. r = Inr resp) \<and> st_tree s' = st_tree s2)) \<or> (\<exists>e. r1 = Inl e \<and> r = Inl e) \<and> s' = s1"
        using run None n y w c unfolding handle_create_quick_session_def Inr x by (auto split: sum.splits)
      have h: "entry_handler creator" "as_str creator = author"
        using ch(1) active_user_handler [of s0 author] by (auto simp: create_session_checks_def)
      note st = new_session_stored [OF n [unfolded y] env h]
      have undo: "s1 = s\<lparr>st_tree := session_files ?d my th (st_tree s)\<rparr> \<Longrightarrow> remove_dir_all V ?d s1 = s"
        using session_env_rollback [OF env(1)] remove_fresh(3) [OF free in_dir_files(1,2)]
        by (simp add: remove_dir_all_def rollback_ok_def session_files_def)
      show ?thesis
        using res we cf undo ok sessions_ok_files [OF ok v st abs] by (cases r2) auto
    qed
  qed
qed
text \<open>Moving a session between the active and the archived directory.\<close>

lemma move_session_checks_Inr:
  assumes "move_session_checks V s sid author a = Inr (d, m', c, y)"
  shows "validate_quick_session_id sid = Inr () \<and> d = session_dir sid (\<not> a) \<and> map_of (st_tree s) (meta_file d) = Some c
    \<and> en_session_write V m' = Some y
    \<and> (\<exists>m out. en_session_read V c = Some m \<and> qs_valid m
        \<and> apply_quick_session_transition m (if a then Archive author (en_now V) else Unarchive author (en_now V)) = Inr (out, m'))"
proof -
  obtain l where l: "locate_session s sid = Inr (Some l)" "lq_archived l \<noteq> a"
    using assms by (auto simp: move_session_checks_def split: option.splits if_splits)
  then have "validate_quick_session_id sid = Inr ()" "lq_rel_dir l = session_dir sid (\<not> a)"
    using locate_session_Some [OF l(1)] by (cases l; auto)+
  then show ?thesis
    using assms l by (auto simp: move_session_checks_def load_meta_Inr read_file_Inr session_yaml_Inr split: if_splits)
qed

lemma sessions_ok_move:
  assumes ok: "sessions_ok E R U t" and v: "validate_quick_session_id sid = Inr ()"
    and old: "map_of t (meta_file (session_dir sid a)) = Some c" "map_of t (thread_file_of (session_dir sid a)) = Some th"
    and st: "stored_session E R U sid (\<not> a) y th"
  defines "t1 \<equiv> AList.update (meta_file (session_dir sid a)) y t"
  shows "\<not> tree_has t1 (session_dir sid (\<not> a)) \<and> sessions_ok E R U (move_path (session_dir sid a) (session_dir sid (\<not> a)) t1)"
proof -
  let ?a = "session_dir sid a" and ?b = "session_dir sid (\<not> a)"
  let ?t = "move_path ?a ?b t1"
  note apart = session_dirs_apart [OF v, of a]
  have dok: "dir_ok E R U t sid a" using ok v by (simp add: sessions_ok_def)
  have other: "map_of t (meta_file ?b) = None" using ok v old(1) by (rule stored_at)
  then have "\<not> tree_has t ?b" using ok v by (intro dir_ok_absent) (auto simp: sessions_ok_def)
  moreover have "\<not> in_dir ?b (meta_file ?a)" using apart by auto
  ultimately have free: "\<not> tree_has t1 ?b" by (auto simp: tree_has_iff t1_def update_conv')
  have d1: "distinct (map fst t1)" using ok by (simp add: t1_def sessions_ok_def distinct_update)
  note mv = map_of_move_path [OF d1 free apart]
  have names: "moved_name ?b ?a (meta_file ?b) = meta_file ?a" "moved_name ?b ?a (thread_file_of ?b) = thread_file_of ?a"
    by (simp_all add: meta_file_def thread_file_of_def)
  have files: "map_of ?t (meta_file ?b) = Some y" "map_of ?t (thread_file_of ?b) = Some th"
    using old names unfolding mv by (simp_all add: t1_def update_conv')
  have only: "p = meta_file ?b \<or> p = thread_file_of ?b" if "in_dir ?b p" "map_of ?t p \<noteq> None" for p
  proof -
    have "map_of t1 (moved_name ?b ?a p) \<noteq> None" "in_dir ?a (moved_name ?b ?a p)"
      using that mv moved_in by auto
    then have "moved_name ?b ?a p = meta_file ?a \<or> moved_name ?b ?a p = thread_file_of ?a"
      using dok by (auto simp: t1_def update_conv' dir_ok_def split: if_splits)
    moreover have "moved_name ?a ?b (moved_name ?b ?a p) = p" using moved_in that(1) by blast
    ultimately show ?thesis by (auto simp: meta_file_def thread_file_of_def)
  qed
  have gone: "\<not> tree_has ?t ?a" using apart by (rule move_leaves_nothing)
  have "sessions_ok E R U ?t"
  proof (rule sessions_ok_change [OF ok v])
    show "distinct (map fst ?t)" using d1 free by (rule distinct_move)
    show "map_of ?t p = map_of t p" if "\<And>a. \<not> in_dir (session_dir sid a) p" for p
    proof -
      have "p \<noteq> meta_file ?a" using that in_dir_files(1) by blast
      then show ?thesis using that mv [of p] by (simp add: t1_def update_conv')
    qed
    show "\<exists>a. map_of ?t (meta_file (session_dir sid a)) = None" using gone in_dir_files(1) by (intro exI [of _ a]) (auto simp: tree_has_iff)
    fix x show "dir_ok E R U ?t sid x"
    proof (cases "x = a")
      case False
      then have "x = (\<not> a)" by auto
      then show ?thesis using only files st by (auto simp: dir_ok_def)
    qed (use gone dir_ok_empty in simp)
  qed
  then show ?thesis using free by blast
qed
lemma relocate_effect:
  assumes run: "relocate_session V sid author arch a b c y s = (r, s')"
    and env: "git_ok V" "rollback_ok V"
    and old: "map_of (st_tree s) (meta_file a) = Some c" and apart: "\<not> (\<exists>p. in_dir a p \<and> in_dir b p)"
    and free: "\<not> tree_has (AList.update (meta_file a) y (st_tree s)) b"
  shows "(\<exists>e. r = Inl e) \<and> s' = s \<or> r = Inr () \<and> st_tree s' = move_path a b (AList.update (meta_file a) y (st_tree s))"
proof -
  obtain r1 s1 where w: "atomic_write_file V (meta_file a) y s = (r1, s1)" by force
  note wf = atomic_write_file_frame [OF w]
  obtain r2 s2 where g: "git_mv V a b s1 = (r2, s2)" by force
  obtain r3 s3 where k: "add_and_commit_as V [meta_file b, thread_file_of b]
      (''session: '' @ (if arch then ''archive'' else ''unarchive'') @ '' '' @ sid @ '' by @'' @ author) author s2 = (r3, s3)" by force
  obtain r4 s4 where h: "git_mv V b a s3 = (r4, s4)" by force
  note kf = add_and_commit_frame [OF k]
  have undo: "restore_file V (meta_file a) c s1 = s"
    using restore_one(2) [OF env(2) old _ disjI2] wf restore_one(2) [OF env(2) old _ disjI1] by auto
  show ?thesis
  proof (cases "r1 = Inr () \<and> en_io V (IoMkdir (parent_dir b)) = None \<and> r2 = Inr ()")
    case False
    then show ?thesis
      using run w wf g git_mv_frame [OF env(1) g] undo
      by (cases r1; cases r2; cases "en_io V (IoMkdir (parent_dir b))") (auto simp: relocate_session_def Let_def)
  next
    case True
    then have s1: "s1 = put_file (meta_file a) y s" and f1: "\<not> tree_has (st_tree s1) b" using wf free by auto
    have "mv_target a b (st_tree s1) = b" using f1 by (rule mv_target_free)
    then have s2: "s2 = s1\<lparr>st_tree := move_path a b (st_tree s1)\<rparr>" using True git_mv_frame [OF env(1) g] by auto
    have gone: "\<not> tree_has (st_tree s2) a" using move_leaves_nothing [OF apart] s2 by simp
    show ?thesis
    proof (cases r3)
      case Inr
      then show ?thesis using run True w g k kf s1 s2 by (auto simp: relocate_session_def Let_def)
    next
      case (Inl e)
      then have "s3 = s2" using kf by simp
      have "en_mv V a b (st_tree s1) = Inr (st_tree s2)" using g True by (auto simp: git_mv_def split: sum.splits)
      then have "is_ok (en_mv V b a (st_tree s2))"
        using env(2) f1 apart unfolding rollback_ok_def in_dir_def by blast
      then have "s4 = s2\<lparr>st_tree := move_path b a (st_tree s2)\<rparr>"
        using git_mv_frame [OF env(1) h] h \<open>s3 = s2\<close> mv_target_free [OF gone, of b]
        by (auto simp: git_mv_def is_ok_iff split: sum.splits)
      then have "s4 = s1" using move_back [OF f1, of a] s2 by simp
      then show ?thesis using run True w g k h Inl undo \<open>s3 = s2\<close> by (auto simp: relocate_session_def Let_def)
    qed
  qed
qed

lemma move_session_keeps:
  assumes run: "move_session V s0 sid author arch s = (r, s')"
    and env: "session_env E R V" and ok: "sessions_ok E R U (st_tree s)"
  shows "sessions_ok E R U (st_tree s') \<and> ((\<exists>e. r = Inl e) \<longrightarrow> s' = s)"
proof (cases "andThen (ensure_active_user s0 author ''creator'') (\<lambda>_.
           andThen (move_session_checks V s sid author arch) (\<lambda>(source, meta, old_meta, new_meta).
           andThen (session_rel_dir sid arch) (\<lambda>target. Inr (source, target, meta, old_meta, new_meta))))")
  case Inl
  then show ?thesis using run ok unfolding move_session_def Inl by auto
next
  case (Inr x)
  let ?a = "session_dir sid (\<not> arch)" and ?b = "session_dir sid arch"
  let ?t = "if arch then Archive author (en_now V) else Unarchive author (en_now V)"
  obtain d m' c y where x: "x = (d, ?b, m', c, y)" and chk: "move_session_checks V s sid author arch = Inr (d, m', c, y)"
    using Inr by (auto simp: session_rel_dir_Inr)
  obtain m out where v: "validate_quick_session_id sid = Inr ()" and d: "d = ?a" and c: "map_of (st_tree s) (meta_file ?a) = Some c"
      and y: "en_session_write V m' = Some y" and m: "R c = Some m" "qs_valid m"
        "apply_quick_session_transition m ?t = Inr (out, m')"
    using move_session_checks_Inr [OF chk] env by (auto simp: session_env_def)
  note tv = apply_qs_valid [OF m(3)]
  have "out = Applied" using tv by (auto simp: archive_session_def unarchive_session_def qs_steps split: if_splits)
  then have tr: "apply_transition m ?t = Inr (Applied, m')" using tv by simp
  from ok v c show ?thesis
  proof (rule stored_at)
    fix m1 th assume s1: "R c = Some m1" "qs_id m1 = sid" "map_of (st_tree s) (thread_file_of ?a) = Some th"
      "clean E U th" "describes E m1 th"
    have "describes E m' th" using describes_meta [OF _ tr] s1(1,5) m(1) by auto
    moreover have "qs_status m' = Archived \<longleftrightarrow> arch" using transition_status [OF m(2) tr] by auto
    ultimately have st: "stored_session E R U sid (\<not> \<not> arch) y th"
      using s1 m(1) tv transition_lines(1) [OF tr] y env by (auto simp: stored_session_def session_env_def)
    obtain r1 s2 where rel: "relocate_session V sid author arch ?a ?b c y s = (r1, s2)" by force
    note mv = sessions_ok_move [OF ok v c s1(3) st]
    have "(\<exists>e. r1 = Inl e) \<and> s2 = s \<or> r1 = Inr () \<and> st_tree s2 = move_path ?a ?b (AList.update (meta_file ?a) y (st_tree s))"
      using relocate_effect [OF rel] env c session_dirs_apart [OF v, of "\<not> arch"] mv by (auto simp: session_env_def)
    then show ?thesis
      using run rel d mv ok unfolding move_session_def Inr x by auto
  qed
qed
text \<open>A request and its answer.  The users a handler checks against were read before it took the lock.\<close>

inductive session_call ::
  "ext \<Rightarrow> (string \<Rightarrow> quick_session_meta option) \<Rightarrow> string list \<Rightarrow> app_state \<Rightarrow> daemon_error + session_response \<Rightarrow> app_state \<Rightarrow> bool"
  for E R U where
  SessionCreate: "session_env E R V \<Longrightarrow> set (st_users s0) \<subseteq> set U \<Longrightarrow>
     handle_create_quick_session V s0 sid agent body author s = (r, s') \<Longrightarrow> session_call E R U s r s'"
| SessionSend: "session_env E R V \<Longrightarrow> set (st_users s0) \<subseteq> set U \<Longrightarrow> reply_line reply_to \<le> u64_max \<Longrightarrow>
     handle_send_quick_session_message V s0 sid body reply_to rid att author s = (r, s') \<Longrightarrow> session_call E R U s r s'"
| SessionClaim: "session_env E R V \<Longrightarrow>
     handle_claim_quick_session_turn V s0 sid i att author s = (r, s') \<Longrightarrow> session_call E R U s r s'"
| SessionTitle: "session_env E R V \<Longrightarrow>
     handle_set_quick_session_title V s0 sid title att author s = (r, s') \<Longrightarrow> session_call E R U s r s'"
| SessionSummary: "session_env E R V \<Longrightarrow>
     handle_set_quick_session_summary V s0 sid summary att author s = (r, s') \<Longrightarrow> session_call E R U s r s'"
| SessionMarkError: "session_env E R V \<Longrightarrow>
     handle_mark_quick_session_error V s0 sid att diagnostic author s = (r, s') \<Longrightarrow> session_call E R U s r s'"
| SessionArchive: "session_env E R V \<Longrightarrow>
     handle_archive_quick_session V s0 sid author s = (r, s') \<Longrightarrow> session_call E R U s r s'"
| SessionUnarchive: "session_env E R V \<Longrightarrow>
     handle_unarchive_quick_session V s0 sid author s = (r, s') \<Longrightarrow> session_call E R U s r s'"

lemma session_call_keeps:
  assumes "session_call E R U s r s'" "sessions_ok E R U (st_tree s)"
  shows "sessions_ok E R U (st_tree s') \<and> ((\<exists>e. r = Inl e) \<longrightarrow> s' = s)"
  using assms(1)
proof cases
  case SessionTitle
  show ?thesis
    by (rule mutate_session_keeps [OF SessionTitle(2) [unfolded handle_set_quick_session_title_def] SessionTitle(1) assms(2)]) simp_all
next
  case SessionSummary
  show ?thesis
    by (rule mutate_session_keeps [OF SessionSummary(2) [unfolded handle_set_quick_session_summary_def] SessionSummary(1) assms(2)]) simp_all
next
  case SessionMarkError
  show ?thesis
    by (rule mutate_session_keeps [OF SessionMarkError(2) [unfolded handle_mark_quick_session_error_def] SessionMarkError(1) assms(2)]) simp_all
next
  case SessionArchive
  then show ?thesis using move_session_keeps assms(2) by (simp add: handle_archive_quick_session_def)
next
  case SessionUnarchive
  then show ?thesis using move_session_keeps assms(2) by (simp add: handle_unarchive_quick_session_def)
next
  case SessionCreate
  show ?thesis by (rule create_session_keeps [OF SessionCreate(3,1,2) assms(2)])
next
  case SessionSend
  show ?thesis by (rule send_session_keeps [OF SessionSend(4,1-3) assms(2)])
next
  case SessionClaim
  show ?thesis by (rule claim_session_keeps [OF SessionClaim(2,1) assms(2)])
qed

definition session_step ::
  "ext \<Rightarrow> (string \<Rightarrow> quick_session_meta option) \<Rightarrow> string list \<Rightarrow> app_state \<Rightarrow> app_state \<Rightarrow> bool" where
  "session_step E R U s s' \<longleftrightarrow> (\<exists>r. session_call E R U s r s')"

interpretation session_machine: step_invariant "session_step E R U" "\<lambda>s. sessions_ok E R U (st_tree s)" for E R U
  by unfold_locales (use session_call_keeps in \<open>auto simp: session_step_def\<close>)

definition no_sessions :: "tree \<Rightarrow> bool" where
  "no_sessions t \<longleftrightarrow> distinct (map fst t)
     \<and> list_all (\<lambda>(p, _). \<not> in_dir ''quick-sessions'' p \<and> \<not> in_dir ''archive/quick-sessions'' p) t"

lemma no_sessions_ok: "no_sessions t \<Longrightarrow> sessions_ok E R U t"
proof -
  assume n: "no_sessions t"
  have root: "in_dir (if a then ''archive/quick-sessions'' else ''quick-sessions'') p" if "in_dir (session_dir sid a) p" for sid a p
    using that by (auto simp: in_dir_def below_iff session_dir_def)
  have "map_of t p = None" if "in_dir (if a then ''archive/quick-sessions'' else ''quick-sessions'') p" for a p
    using n that by (cases a) (auto simp: no_sessions_def list_all_iff map_of_eq_None_iff)
  from this [OF root] have free: "\<not> tree_has t (session_dir sid a)" for sid a unfolding tree_has_iff by auto
  have "map_of t (meta_file (session_dir sid a)) = None" for sid a
    using free [of sid a] in_dir_files(1) by (auto simp: tree_has_iff)
  then show ?thesis using free n by (auto simp: sessions_ok_def no_sessions_def intro: dir_ok_empty)
qed

lemma reachable_sessions: "no_sessions (st_tree s0) \<Longrightarrow> (session_step E R U)\<^sup>*\<^sup>* s0 s \<Longrightarrow> sessions_ok E R U (st_tree s)"
  using session_machine.steps_keep no_sessions_ok by blast
subsection \<open>Main results\<close>

text \<open>C8: In a repository that starts without sessions, after any sequence of session requests, every session
  that has metadata is in one place only and can be read: its metadata is valid and carries its id, it is marked archived
  exactly when it lies in the archive, its discussion is free of integrity issues, the recorded last human
  line and the claimed line are messages of the creator, and the recorded reply is a message of the agent
  that answers the recorded input.\<close>

theorem session_store_invariant:
  assumes "no_sessions (st_tree s0)" "(session_step E R U)\<^sup>*\<^sup>* s0 s"
    and "validate_quick_session_id sid = Inr ()" "map_of (st_tree s) (meta_file (session_dir sid a)) = Some c"
    and "en_ext V = E" "en_session_read V = R" "reads_ok V"
  shows "map_of (st_tree s) (meta_file (session_dir sid (\<not> a))) = None
    \<and> (\<exists>m f th. handle_read_quick_session V s sid None None
          = Inr (ReadQuickSessionResponse \<lparr>qd_meta = m, qd_entries = entries f, qd_archived = a\<rparr>)
        \<and> qs_id m = sid \<and> validate_quick_session_meta m = Inr () \<and> (qs_status m = Archived \<longleftrightarrow> a)
        \<and> map_of (st_tree s) (thread_file_of (session_dir sid a)) = Some th
        \<and> check_thread_integrity E th U = [] \<and> parse_thread E th = Inr f
        \<and> (\<forall>l. qs_last_human_line m = Some l \<or> qs_processing_input_line m = Some l \<longrightarrow>
             (\<exists>x. EMessage x \<in> set (entries f) \<and> msg_line_number x = l \<and> as_str (msg_author x) = qs_created_by m))
        \<and> (\<forall>i out. qs_last_completed_input_line m = Some i \<and> qs_last_completed_line m = Some out \<longrightarrow>
             (\<exists>x. EMessage x \<in> set (entries f) \<and> msg_line_number x = out \<and> msg_point_to x = i
                \<and> as_str (msg_author x) = qs_agent_id m)))"
proof -
  from reachable_sessions [OF assms(1,2)] assms(3,4) show ?thesis
  proof (rule stored_at)
    fix m th
    assume s: "R c = Some m" "qs_valid m" "qs_id m = sid" "qs_status m = Archived \<longleftrightarrow> a"
      "map_of (st_tree s) (thread_file_of (session_dir sid a)) = Some th" "clean E U th" "describes E m th"
      "map_of (st_tree s) (meta_file (session_dir sid (\<not> a))) = None"
    obtain f where f: "parse_thread E th = Inr f"
      using s(6) by (auto simp: clean_def check_thread_integrity_def split: sum.splits)
    let ?l = "\<lparr>lq_rel_dir = session_dir sid a, lq_archived = a\<rparr>"
    have "locate_session s sid = Inr (Some ?l)"
      using assms(3,4) s(8) by (cases a) (auto simp: locate_session_Inr file_exists_def)
    moreover have "load_meta V s ?l = Inr m"
      using assms(4-7) s(1,2) by (auto simp: load_meta_Inr read_file_Inr reads_ok_def)
    moreover have "load_thread V s ?l = Inr (th, entries f)"
      using assms(5,7) s(5) f by (auto simp: load_thread_Inr read_file_Inr reads_ok_def)
    ultimately have "handle_read_quick_session V s sid None None
        = Inr (ReadQuickSessionResponse \<lparr>qd_meta = m, qd_entries = entries f, qd_archived = a\<rparr>)"
      by (simp add: handle_read_quick_session_def detail_def bounded_entries_def)
    moreover have "check_thread_integrity E th U = []" using s(6) by (simp add: clean_def)
    ultimately show ?thesis
      using s f by (intro conjI s(8) exI [of _ m] exI [of _ f] exI [of _ th]) (auto simp: describes_def message_at_def)
  qed
qed

text \<open>C9: A session request that is answered with an error has changed nothing: whether it is refused by a check, a
  write fails half-way, or the commit is rejected after the files were written or moved, the files, the commits,
  the queue of pending messages and the events are exactly as before (given that the rollback's own writes
  succeed).\<close>

theorem session_refusal_changes_nothing:
  assumes "no_sessions (st_tree s0)" "(session_step E R U)\<^sup>*\<^sup>* s0 s" "session_call E R U s (Inl e) s'"
  shows "s' = s"
  using session_call_keeps [OF assms(3) reachable_sessions [OF assms(1,2)]] by blast
text \<open>A message that was accepted is recognised when it is sent again: the checks pass on the new metadata, and
  the transition answers with the recorded line.\<close>

definition recorded_line :: "transition_outcome \<Rightarrow> nat \<Rightarrow> nat" where
  "recorded_line outcome l = (case outcome of Duplicate (Some k) \<Rightarrow> k | _ \<Rightarrow> l)"

lemma human_message_frame:
  assumes "human_message m a l rid pv now = Inr (Applied, m')"
  shows "qs_attempt_id m' = qs_attempt_id m \<and> qs_processing_input_line m' = qs_processing_input_line m
    \<and> qs_last_completed_attempt_id m' = qs_last_completed_attempt_id m
    \<and> qs_last_completed_input_line m' = qs_last_completed_input_line m \<and> (qs_status m' = Running \<longleftrightarrow> qs_status m = Running)
    \<and> qs_last_human_request_id m' = rid \<and> qs_last_human_line m' = Some l
    \<and> qs_created_by m' = qs_created_by m \<and> qs_agent_id m' = qs_agent_id m \<and> a = qs_created_by m"
  using assms by (auto simp: human_message_def qs_steps split: if_splits)

lemma retry_creator:
  assumes "qs_valid m" "sender_checks m author reply_to rid att = Inr ()" "author = qs_created_by m"
    and "apply_transition m (message_transition m author l body reply_to rid att now) = Inr (outcome, m')"
  shows "sender_checks m' author reply_to rid att = Inr ()
    \<and> apply_transition m' (message_transition m' author l' body reply_to rid att now')
        = Inr (Duplicate (Some (recorded_line outcome l)), m')"
proof -
  have t: "human_message m author l rid body now = Inr (outcome, m')" using assms(3,4) by (simp add: message_transition_def)
  have rid: "rid \<noteq> None" using assms(2,3) by (cases rid) (auto simp: sender_checks_def Let_def)
  show ?thesis
  proof (cases outcome)
    case Applied
    note f = human_message_frame [OF t [unfolded Applied]]
    have "sender_checks m' author reply_to rid att = sender_checks m author reply_to rid att"
      by (simp only: sender_checks_def f)
    then show ?thesis
      using f rid assms(2,3) Applied
      by (simp add: message_transition_def human_message_def require_creator_def recorded_line_def)
  next
    case (Duplicate ln)
    then have d: "m' = m" "qs_last_human_request_id m = rid" "ln = qs_last_human_line m"
      using t by (auto simp: human_message_def applied_Inr Let_def split: if_splits)
    then obtain h where "qs_last_human_line m = Some h"
      using assms(1) rid by (auto simp: qs_valid_iff validate_human_lines_Inr)
    then show ?thesis
      using d rid assms(2,3) Duplicate
      by (simp add: message_transition_def human_message_def require_creator_def recorded_line_def)
  qed
qed

lemma retry_agent:
  assumes "qs_valid m" "sender_checks m author reply_to rid att = Inr ()" "author \<noteq> qs_created_by m"
    and "apply_transition m (message_transition m author l body reply_to rid att now) = Inr (outcome, m')"
  shows "sender_checks m' author reply_to rid att = Inr ()
    \<and> apply_transition m' (message_transition m' author l' body reply_to rid att now')
        = Inr (Duplicate (Some (recorded_line outcome l)), m')"
proof -
  have agent: "author = qs_agent_id m" and "\<not> is_none_or att (\<lambda>a. a = [])"
    using assms(2,3) by (auto simp: sender_checks_def Let_def)
  then obtain a where a: "att = Some a" "a \<noteq> []" by (cases att) auto
  have t: "agent_reply m author (reply_line reply_to) a l body now = Inr (outcome, m')"
    using assms(3,4) a by (simp add: message_transition_def)
  then have v: "validate_quick_session_attempt_id a = Inr ()" by (auto simp: agent_reply_def)
  show ?thesis
  proof (cases outcome)
    case Applied
    have nc: "qs_last_completed_attempt_id m \<noteq> Some a" "qs_processing_input_line m = Some (reply_line reply_to)"
      using t Applied by (auto simp: agent_reply_def applied_Inr split: if_splits)
    then have "reply_to = qs_processing_input_line m"
      using assms(2) agent a(1) by (auto simp: sender_checks_def Let_def split: if_splits)
    then have r: "reply_to = Some (reply_line reply_to)" using nc(2) by simp
    have f: "qs_created_by m' = qs_created_by m" "qs_agent_id m' = qs_agent_id m" "qs_last_completed_attempt_id m' = Some a"
        "qs_last_completed_input_line m' = Some (reply_line reply_to)" "qs_last_completed_line m' = Some l"
      using t Applied by (auto simp: agent_reply_def qs_steps split: if_splits)
    have "sender_checks m' author reply_to rid att = Inr ()"
      using f agent assms(3) a r by (simp add: sender_checks_def Let_def)
    then show ?thesis
      using f agent assms(3) a v Applied
      by (simp add: message_transition_def agent_reply_def require_agent_def recorded_line_def)
  next
    case (Duplicate ln)
    then have d: "m' = m" "qs_last_completed_attempt_id m = Some a" "ln = qs_last_completed_line m"
      using t by (auto simp: agent_reply_def applied_Inr Let_def split: if_splits)
    then obtain out where "qs_last_completed_line m = Some out"
      using assms(1) by (auto simp: qs_valid_iff validate_completion_Inr)
    then show ?thesis
      using d assms(2,3) agent a v Duplicate
      by (simp add: message_transition_def agent_reply_def require_agent_def recorded_line_def)
  qed
qed

lemma send_session_duplicate:
  assumes "send_session_checks V s0 body author = Inr h" "session_inputs V s sid m th es"
    and "sender_checks m author reply_to rid att = Inr ()"
    and "apply_quick_session_transition m
       (message_transition m author (next_line_of es) body reply_to rid att (en_now V)) = Inr (Duplicate ln, m)"
  shows "handle_send_quick_session_message V s0 sid body reply_to rid att author s
    = (Inr (duplicate_response sid es (Duplicate ln) m), s)"
proof -
  have "active_session V s sid = Inr (\<lparr>lq_rel_dir = session_dir sid False, lq_archived = False\<rparr>, m)"
    using assms(2) by (simp add: active_session_Inr session_inputs_def)
  then have "send_session_update V s (st_users s0) sid body reply_to rid att author h
      = Inr (Inl (duplicate_response sid es (Duplicate ln) m))"
    using assms(2-4) by (auto simp: send_session_update_def session_inputs_def duplicate_response_def Let_def split: option.splits)
  then show ?thesis using assms(1) by (simp add: handle_send_quick_session_message_def)
qed

text \<open>C10: Sending a message to a session is idempotent: when a message was accepted and the same request arrives
  again, at any later time and with any view of the users that still admits the author, the answer is the same
  (line, status, revision and reference), and nothing is written.\<close>

theorem session_send_retry:
  assumes "no_sessions (st_tree s0)" "(session_step E R U)\<^sup>*\<^sup>* s0 s"
    and env: "session_env E R V" "set (st_users u0) \<subseteq> set U" "reply_line reply_to \<le> u64_max"
    and first: "handle_send_quick_session_message V u0 sid body reply_to rid att author s = (Inr resp, s')"
    and later: "en_ext V' = E" "en_session_read V' = R" "reads_ok V'" "is_ok (send_session_checks V' u1 body author)"
  shows "handle_send_quick_session_message V' u1 sid body reply_to rid att author s' = (Inr resp, s')"
proof -
  note ok = reachable_sessions [OF assms(1,2)]
  have ok': "sessions_ok E R U (st_tree s')" using send_session_keeps [OF first env ok] by blast
  obtain h where h: "send_session_checks V' u1 body author = Inr h" using later(4) by (auto simp: is_ok_iff)
  from first session_env_rollback [OF env(1)] show ?thesis
  proof (cases rule: send_session_effect)
    case (accepted handler m th es outcome m')
    note tr = apply_qs_valid [OF accepted(4)]
    have retry: "sender_checks m' author reply_to rid att = Inr ()
        \<and> apply_transition m' (message_transition m' author l' body reply_to rid att now')
            = Inr (Duplicate (Some (recorded_line outcome (next_line_of es))), m')" for l' now'
    proof (cases "author = qs_created_by m")
      case True
      show ?thesis by (rule retry_creator [OF _ accepted(3) True]) (use tr in blast)+
    next
      case False
      show ?thesis by (rule retry_agent [OF _ accepted(3) False]) (use tr in blast)+
    qed
    obtain c where c: "map_of (st_tree s') (meta_file (session_dir sid False)) = Some c" "R c = Some m'"
    proof (cases "outcome = Applied")
      case True
      then show ?thesis
        using accepted(7) env(1) that unfolding session_files_def session_env_def by (auto simp: update_conv')
    next
      case False
      then have "m' = m" using tr apply_transition_duplicate by (cases outcome) auto
      then show ?thesis
        using accepted(2,6) False env(1) that by (auto simp: session_inputs_def load_meta_Inr read_file_Inr session_env_def)
    qed
    have v: "validate_quick_session_id sid = Inr ()" using accepted(2) by (simp add: session_inputs_def)
    from ok' v c(1) show ?thesis
    proof (rule stored_at)
      fix m1 th' assume s1: "map_of (st_tree s') (thread_file_of (session_dir sid False)) = Some th'" "clean E U th'"
      obtain f where f: "parse_thread E th' = Inr f"
        using s1(2) by (auto simp: clean_def check_thread_integrity_def split: sum.splits)
      have i: "session_inputs V' s' sid m' th' (entries f)"
        using v c s1 f later tr by (auto simp: session_inputs_def load_meta_Inr load_thread_Inr read_file_Inr reads_ok_def)
      have "apply_quick_session_transition m'
          (message_transition m' author (next_line_of (entries f)) body reply_to rid att (en_now V'))
          = Inr (Duplicate (Some (recorded_line outcome (next_line_of es))), m')"
        using retry apply_qs_unfold tr by simp
      then show ?thesis
        using send_session_duplicate [OF h i] retry accepted(5) by (simp add: duplicate_response_def recorded_line_def)
    qed
  qed auto
qed
subsection \<open>A session at work\<close>

definition qs_sid :: string where
  "qs_sid = ''qs-0123456789ABCDEFGHJKMNPQRS''"

definition qs_first :: quick_session_meta where
  "qs_first = (quick_session_new qs_sid ''bot'' ''ann'' ''20260101T000000Z'')
     \<lparr>qs_last_human_line := Some 1, qs_last_message_preview := ''hello'', qs_revision := 2\<rparr>"

definition qs_second :: quick_session_meta where
  "qs_second = qs_first\<lparr>qs_last_human_request_id := Some ''r1'', qs_last_human_line := Some 2, qs_revision := 3\<rparr>"

definition qs_read :: "string \<Rightarrow> quick_session_meta option" where
  "qs_read c = (if c = ''1'' then Some qs_first else if c = ''2'' then Some qs_second else None)"

definition qs_write :: "quick_session_meta \<Rightarrow> string option" where
  "qs_write m = (if m = qs_first then Some ''1'' else if m = qs_second then Some ''2'' else None)"

definition qs_env :: "git_error option \<Rightarrow> env" where
  "qs_env k = base_env\<lparr>en_session_read := qs_read, en_session_write := qs_write, en_commit := \<lambda>_ _. k\<rparr>"

definition qs_state :: app_state where
  "qs_state = base_state\<lparr>st_tree := [(''users/ann.meta.yaml'', []), (''users/bot.meta.yaml'', [])], st_users := [''ann'', ''bot'']\<rparr>"

lemma qs_env_sel:
  "en_ext (qs_env k) = ref_ext" "en_now (qs_env k) = ''20260101T000000Z''" "en_io (qs_env k) x = None"
  "en_commit (qs_env k) ps c = k" "en_head (qs_env k) = Inr ''c0ffee''"
  "en_session_read (qs_env k) = qs_read" "en_session_write (qs_env k) = qs_write"
  by (simp_all add: qs_env_def base_env_def)

lemma qs_env_ok: "session_env ref_ext qs_read (qs_env k)"
proof -
  have "compact_timestamp ''20260101T000000Z''" by code_simp
  moreover have "git_ok (qs_env k)" by (auto simp: git_ok_def qs_env_def base_env_def split: if_splits)
  moreover have "en_mv (qs_env k) = en_mv base_env" by (simp add: qs_env_def)
  then have "rollback_ok (qs_env k)" using base_mv_undo by (auto simp: rollback_ok_def qs_env_sel)
  moreover have "qs_first \<noteq> qs_second" by (simp add: qs_first_def qs_second_def quick_session_new_def)
  ultimately show ?thesis by (auto simp: session_env_def qs_env_sel qs_read_def qs_write_def)
qed

lemma qs_checks:
  "validate_quick_session_id qs_sid = Inr ()" "ensure_active_user qs_state ''ann'' role = Inr (Handler ''ann'')"
  "ensure_active_user qs_state ''bot'' role = Inr (Handler ''bot'')" "ensure_author_not_departed qs_state ''ann'' = Inr ()"
proof -
  have "validate_quick_session_id qs_sid = Inr ()" "handler_new ''ann'' = Inr (Handler ''ann'')"
      "handler_new ''bot'' = Inr (Handler ''bot'')" "file_exists qs_state (user_path ''ann'')"
      "file_exists qs_state (user_path ''bot'')" "\<not> path_exists qs_state (archived_user_path ''ann'')"
      "\<not> path_exists qs_state (archived_user_path ''bot'')" by code_simp+
  then show "validate_quick_session_id qs_sid = Inr ()" "ensure_active_user qs_state ''ann'' role = Inr (Handler ''ann'')"
      "ensure_active_user qs_state ''bot'' role = Inr (Handler ''bot'')" "ensure_author_not_departed qs_state ''ann'' = Inr ()"
    by (simp_all add: ensure_active_user_def ensure_author_not_departed_def)
qed

lemma qs_body: "validate_body ''hello'' = Inr ()"
  using demo_body(2) by (simp add: validate_body_def quick_session_message_max_bytes_def)

lemma qs_message_parsed:
  assumes "compact_timestamp ts" "n \<le> u64_max"
  shows "\<exists>m. parse_thread ref_ext (format_message ref_ext n 0 (Handler ''ann'') ts ''hello'') = Inr \<lparr>entries = [EMessage m]\<rparr>
    \<and> msg_line_number m = n \<and> msg_body m = ''hello''"
proof -
  let ?m = "\<lparr>msg_line_number = n, msg_point_to = 0, msg_author = Handler ''ann'',
      msg_timestamp = ts, msg_body = ''hello'', msg_mentions = [], msg_links = []\<rparr>"
  have "entry_handler (Handler ''ann'')" by code_simp
  then have "list_all (entry_wf ref_ext) [EMessage ?m]" using assms by simp
  from parse_thread_formatted [OF this] show ?thesis by (simp add: demo_body(1) Let_def)
qed

lemma qs_canonical: "canonical_message_body (qs_env k) (Handler ''ann'') ''hello'' = Inr ''hello''"
proof -
  have "compact_timestamp ''19700101T000000Z''" by code_simp
  from qs_message_parsed [OF this, of 1] show ?thesis by (auto simp: canonical_message_body_def qs_env_sel)
qed

lemma qs_append:
  assumes "parse_thread ref_ext th = Inr f" "n = u64_add (last_line_number f) 1"
  shows "validate_append ref_ext th (format_message ref_ext n 0 (Handler ''ann'') ''20260101T000000Z'' ''hello'')
    [''ann'', ''bot''] [''ann'', ''bot''] = Inr ()"
proof -
  have "entry_handler (Handler ''ann'')" "compact_timestamp ''20260101T000000Z''" by code_simp+
  then show ?thesis using append_message_iff [OF assms, of "Handler ''ann''" "''20260101T000000Z''" "''hello''" 0] demo_body by simp
qed

lemma qs_new:
  "new_session (qs_env k) [''ann'', ''bot''] qs_sid ''bot'' (Handler ''ann'') ''hello'' ''ann''
   = Inr (qs_first, format_message ref_ext 1 0 (Handler ''ann'') ''20260101T000000Z'' ''hello'', ''1'')"
proof -
  have v: "qs_valid (quick_session_new qs_sid ''bot'' ''ann'' ''20260101T000000Z'')" by code_simp
  have p: "truncate_quick_session_preview ''hello'' = ''hello''" by code_simp
  have "apply_quick_session_transition (quick_session_new qs_sid ''bot'' ''ann'' ''20260101T000000Z'')
      (HumanMessage ''ann'' 1 None ''hello'' ''20260101T000000Z'') = Inr (Applied, qs_first)"
    unfolding apply_qs_unfold [OF v]
    by (simp add: human_message_def require_creator_def applied_def finish_def p)
      (simp add: qs_first_def quick_session_new_def)
  moreover have "parse_thread ref_ext [] = Inr \<lparr>entries = []\<rparr>" by (simp add: parse_thread_def)
  then have "validate_append ref_ext [] (format_message ref_ext 1 0 (Handler ''ann'') ''20260101T000000Z'' ''hello'')
      [''ann'', ''bot''] [''ann'', ''bot''] = Inr ()"
    using u64_add_exact [of 0 1] by (intro qs_append) (auto simp: last_line_number_def)
  ultimately show ?thesis by (simp add: new_session_def qs_env_sel session_yaml_def qs_write_def Let_def)
qed
definition qs_thread :: string where
  "qs_thread = format_message ref_ext 1 0 (Handler ''ann'') ''20260101T000000Z'' ''hello''"

definition qs_created :: app_state where
  "qs_created = snd (handle_create_quick_session (qs_env None) qs_state qs_sid ''bot'' ''hello'' ''ann'' qs_state)"

lemma qs_create_run:
  "handle_create_quick_session (qs_env k) qs_state qs_sid ''bot'' ''hello'' ''ann'' qs_state =
     (case write_new_session (qs_env k) (session_dir qs_sid False) ''1'' qs_thread qs_state of
        (Inl e, s1) \<Rightarrow> (Inl e, s1)
      | (Inr _, s1) \<Rightarrow>
          (case k of
             Some e \<Rightarrow> (Inl (ErrGit ''create quick session commit failed'' e), remove_dir_all (qs_env k) (session_dir qs_sid False) s1)
           | None \<Rightarrow>
               (Inr (CreateQuickSessionResponse \<lparr>qd_meta = qs_first,
                  qd_entries = (case parse_thread ref_ext qs_thread of Inr f \<Rightarrow> entries f | Inl _ \<Rightarrow> []), qd_archived = False\<rparr> 1
                  (session_ref qs_first)),
                emit_changed qs_first (schedule_sync (session_pending (qs_env k) qs_sid 1
                  (snd (add_and_commit_as (qs_env k) [meta_file (session_dir qs_sid False), thread_file_of (session_dir qs_sid False)]
                    (''session: create '' @ qs_sid @ '' for @bot by @ann'') ''ann'' s1)))))))"
proof -
  have l: "locate_session qs_state qs_sid = Inr None" by code_simp
  have "create_session_checks (qs_env k) qs_state qs_sid ''bot'' ''hello'' ''ann'' = Inr (Handler ''ann'', ''hello'')"
    by (simp add: create_session_checks_def qs_body qs_checks qs_canonical)
  moreover have "st_users qs_state = [''ann'', ''bot'']" by (simp add: qs_state_def)
  moreover have "session_rel_dir qs_sid False = Inr (session_dir qs_sid False)" by (simp add: session_rel_dir_Inr qs_checks)
  ultimately show ?thesis
    using l qs_new [of k]
    by (simp add: handle_create_quick_session_def qs_env_sel qs_thread_def add_and_commit_as_def
        split: option.split sum.split prod.split)
qed

lemma qs_created_call:
  "\<exists>resp. handle_create_quick_session (qs_env None) qs_state qs_sid ''bot'' ''hello'' ''ann'' qs_state = (Inr resp, qs_created)"
  "st_tree qs_created = session_files (session_dir qs_sid False) ''1'' qs_thread (st_tree qs_state)"
  "st_users qs_created = [''ann'', ''bot'']"
  "\<exists>e s'. handle_create_quick_session (qs_env (Some k)) qs_state qs_sid ''bot'' ''hello'' ''ann'' qs_state = (Inl e, s')"
proof -
  have w: "write_new_session (qs_env k) d c th s = (Inr (), s\<lparr>st_tree := session_files d c th (st_tree s)\<rparr>)" for k d c th s
    by (simp add: write_new_session_def qs_env_sel atomic_write_pair_def atomic_write_file_def put_file_def session_files_def)
  show "\<exists>resp. handle_create_quick_session (qs_env None) qs_state qs_sid ''bot'' ''hello'' ''ann'' qs_state = (Inr resp, qs_created)"
      "\<exists>e s'. handle_create_quick_session (qs_env (Some k)) qs_state qs_sid ''bot'' ''hello'' ''ann'' qs_state = (Inl e, s')"
      "st_tree qs_created = session_files (session_dir qs_sid False) ''1'' qs_thread (st_tree qs_state)"
      "st_users qs_created = [''ann'', ''bot'']"
    unfolding qs_created_def qs_create_run w
    by (simp_all add: add_and_commit_as_def qs_env_sel emit_changed_def session_pending_def qs_state_def)
qed

lemma qs_fresh: "no_sessions (st_tree qs_state)"
  by code_simp

lemma qs_reached: "(session_step ref_ext qs_read [''ann'', ''bot''])\<^sup>*\<^sup>* qs_state qs_created"
proof -
  have "set (st_users qs_state) \<subseteq> set [''ann'', ''bot'']" by (simp add: qs_state_def)
  then have "session_step ref_ext qs_read [''ann'', ''bot''] qs_state qs_created"
    using SessionCreate [OF qs_env_ok] qs_created_call(1) unfolding session_step_def by blast
  then show ?thesis by blast
qed

lemma qs_reads: "reads_ok (qs_env k)"
  by (simp add: reads_ok_def qs_env_sel)

theorem session_store_invariant_witness:
  "\<exists>m (f :: thread_file). handle_read_quick_session (qs_env None) qs_created qs_sid None None
       = Inr (ReadQuickSessionResponse \<lparr>qd_meta = m, qd_entries = entries f, qd_archived = False\<rparr>)
     \<and> qs_last_human_line m = Some 1 \<and> (\<exists>x. EMessage x \<in> set (entries f) \<and> msg_line_number x = 1 \<and> as_str (msg_author x) = ''ann'')"
proof -
  have c: "map_of (st_tree qs_created) (meta_file (session_dir qs_sid False)) = Some ''1''"
    by (simp add: qs_created_call session_files_def update_conv')
  obtain m and f :: thread_file where m: "handle_read_quick_session (qs_env None) qs_created qs_sid None None
       = Inr (ReadQuickSessionResponse \<lparr>qd_meta = m, qd_entries = entries f, qd_archived = False\<rparr>)"
      and l: "\<forall>l. qs_last_human_line m = Some l \<or> qs_processing_input_line m = Some l \<longrightarrow>
             (\<exists>x. EMessage x \<in> set (entries f) \<and> msg_line_number x = l \<and> as_str (msg_author x) = qs_created_by m)"
    using session_store_invariant [OF qs_fresh qs_reached qs_checks(1) c qs_env_sel(1) [of None] qs_env_sel(6) qs_reads]
    by blast
  have "load_meta (qs_env None) qs_created \<lparr>lq_rel_dir = session_dir qs_sid False, lq_archived = False\<rparr> = Inr m"
    using m c by (auto simp: handle_read_quick_session_def detail_def locate_session_Inr file_exists_def split: option.splits)
  then have "m = qs_first" using c by (auto simp: load_meta_Inr read_file_Inr qs_env_sel qs_read_def)
  then show ?thesis using m l by (auto simp: qs_first_def quick_session_new_def)
qed

theorem session_refusal_changes_nothing_witness:
  "\<exists>e. handle_create_quick_session (qs_env (Some (CommandFailed ''disk''))) qs_state qs_sid ''bot'' ''hello'' ''ann'' qs_state
       = (Inl e, qs_state)"
proof -
  obtain e s' where r: "handle_create_quick_session (qs_env (Some (CommandFailed ''disk''))) qs_state qs_sid ''bot'' ''hello'' ''ann'' qs_state
       = (Inl e, s')" using qs_created_call(4) by blast
  have "set (st_users qs_state) \<subseteq> set [''ann'', ''bot'']" by (simp add: qs_state_def)
  then have "session_call ref_ext qs_read [''ann'', ''bot''] qs_state (Inl e) s'" using SessionCreate [OF qs_env_ok _ r] by blast
  then show ?thesis using session_refusal_changes_nothing [OF qs_fresh rtranclp.rtrancl_refl] r by blast
qed
lemma qs_send_applied:
  "apply_quick_session_transition qs_first (HumanMessage ''ann'' 2 (Some ''r1'') ''hello'' ''20260101T000000Z'') = Inr (Applied, qs_second)"
proof -
  have v: "qs_valid qs_first" by code_simp
  have "truncate_quick_session_preview ''hello'' = ''hello''" by code_simp
  then show ?thesis
    unfolding apply_qs_unfold [OF v]
    by (simp add: human_message_def require_creator_def applied_def finish_def)
      (simp add: qs_first_def qs_second_def quick_session_new_def)
qed

lemma qs_send_run:
  "\<exists>resp s'. handle_send_quick_session_message (qs_env None) qs_state qs_sid ''hello'' None (Some ''r1'') None ''ann'' qs_created
     = (Inr resp, s')"
proof -
  have "compact_timestamp ''20260101T000000Z''" by code_simp
  from qs_message_parsed [OF this, of 1] obtain m where
    p: "parse_thread ref_ext qs_thread = Inr \<lparr>entries = [EMessage m]\<rparr>" "msg_line_number m = 1"
    by (auto simp: qs_thread_def)
  have f: "map_of (st_tree qs_created) (meta_file (session_dir qs_sid False)) = Some ''1''"
      "map_of (st_tree qs_created) (thread_file_of (session_dir qs_sid False)) = Some qs_thread"
    by (simp_all add: qs_created_call session_files_def update_conv')
  have n: "next_line_of [EMessage m] = 2" using p(2) u64_add_exact [of 1 1] by (simp add: next_line_of_def)
  have v: "qs_valid qs_first" by code_simp
  let ?l = "\<lparr>lq_rel_dir = session_dir qs_sid False, lq_archived = False\<rparr>"
  have a: "active_session (qs_env None) qs_created qs_sid = Inr (?l, qs_first)"
    using f v by (simp add: active_session_Inr load_meta_Inr read_file_Inr qs_env_sel qs_read_def qs_checks)
  have t: "load_thread (qs_env None) qs_created ?l = Inr (qs_thread, [EMessage m])"
    using f p by (simp add: load_thread_Inr read_file_Inr qs_env_sel)
  have s: "sender_checks qs_first ''ann'' None (Some ''r1'') None = Inr ()" by code_simp
  have tr: "message_transition qs_first ''ann'' 2 ''hello'' None (Some ''r1'') None ''20260101T000000Z''
      = HumanMessage ''ann'' 2 (Some ''r1'') ''hello'' ''20260101T000000Z''"
    by (simp add: message_transition_def qs_first_def quick_session_new_def)
  have app: "validate_append ref_ext qs_thread (session_message (qs_env None) [EMessage m] None (Handler ''ann'') ''hello'')
      [''ann'', ''bot''] [qs_created_by qs_second, qs_agent_id qs_second] = Inr ()"
    using qs_append [OF p(1), of 2] n p(2) u64_add_exact [of 1 1]
    by (simp add: session_message_def qs_env_sel reply_line_def last_line_number_def qs_second_def qs_first_def quick_session_new_def)
  have "qs_first \<noteq> qs_second" by (simp add: qs_first_def qs_second_def quick_session_new_def)
  then have "\<exists>u. send_session_update (qs_env None) qs_created [''ann'', ''bot''] qs_sid ''hello'' None (Some ''r1'') None ''ann'' (Handler ''ann'')
      = Inr (Inr u)"
    using a t s n tr qs_send_applied app f
    by (simp add: send_session_update_def qs_env_sel session_yaml_def qs_write_def read_file_def Let_def)
  moreover have "send_session_checks (qs_env None) qs_state ''hello'' ''ann'' = Inr (Handler ''ann'')"
    by (simp add: send_session_checks_def qs_body qs_checks)
  moreover have "st_users qs_state = [''ann'', ''bot'']" by (simp add: qs_state_def)
  moreover have "\<exists>resp s'. commit_session_update (qs_env None) sid author u s = (Inr resp, s')" for sid author u s
    by (simp add: commit_session_update_def qs_env_sel atomic_write_pair_def atomic_write_file_def add_and_commit_as_def Let_def)
  ultimately show ?thesis by (auto simp: handle_send_quick_session_message_def)
qed

theorem session_send_retry_witness:
  "\<exists>resp s'. handle_send_quick_session_message (qs_env None) qs_state qs_sid ''hello'' None (Some ''r1'') None ''ann'' qs_created
       = (Inr resp, s')
     \<and> handle_send_quick_session_message (qs_env None) qs_state qs_sid ''hello'' None (Some ''r1'') None ''ann'' s' = (Inr resp, s')"
proof -
  obtain resp s' where r: "handle_send_quick_session_message (qs_env None) qs_state qs_sid ''hello'' None (Some ''r1'') None ''ann''
      qs_created = (Inr resp, s')" using qs_send_run by blast
  have "set (st_users qs_state) \<subseteq> set [''ann'', ''bot'']" "reply_line None \<le> u64_max"
      "is_ok (send_session_checks (qs_env None) qs_state ''hello'' ''ann'')"
    by (simp_all add: qs_state_def reply_line_def send_session_checks_def qs_body qs_checks [unfolded qs_state_def] is_ok_iff)
  then show ?thesis
    using session_send_retry [OF qs_fresh qs_reached qs_env_ok _ _ r qs_env_sel(1,6) qs_reads] r by blast
qed


end
