(* ===== verification/Daemon_Labels.thy ===== *)
theory Daemon_Labels
  imports Daemon_Channels Daemon_Store
begin

text \<open>
  The labels of users (\<^verbatim>\<open>handlers/labels.rs\<close>): a user changes its own labels, and others search the active
  users for a set of labels.  The ordered sets of the code are strictly ordered lists; the order of strings is
  the order of their bytes.  A handler takes the state \<open>s0\<close> in which the identity was checked and the
  state \<open>s\<close> under the commit lock.
\<close>

subsection \<open>Ordered sets\<close>

definition btree_set :: "string list \<Rightarrow> string list" where
  "btree_set xs = fold insort_insert xs []"

lemma fold_insort_insert:
  "fold insort_insert xs (sorted_list_of_set (set ys)) = sorted_list_of_set (set xs \<union> set ys)"
  for xs :: "'a::linorder list"
proof (induction xs arbitrary: ys)
  case (Cons x xs)
  have "insort_insert x (sorted_list_of_set (set ys)) = sorted_list_of_set (set (x # ys))"
    by (cases "x \<in> set ys") (simp_all add: insort_insert_triv insort_insert_insort insert_absorb)
  then show ?case using Cons [of "x # ys"] by simp
qed simp

lemma btree_set_eq: "btree_set xs = sorted_list_of_set (set xs)"
  using fold_insort_insert [of xs "[]"] by (simp add: btree_set_def)

lemma btree_set_simps [simp]:
  "set (btree_set xs) = set xs" "distinct (btree_set xs)" "sorted (btree_set xs)"
  by (simp_all add: btree_set_eq)

lemma btree_set_cong: "btree_set xs = btree_set ys \<longleftrightarrow> set xs = set ys"
  by (metis btree_set_eq btree_set_simps(1))

lemma fold_insert_set: "fold insort_insert xs (btree_set ys) = btree_set (xs @ ys)"
  by (simp add: btree_set_eq fold_insort_insert)

lemma fold_remove_set: "fold remove1 xs (btree_set ys) = btree_set (filter (\<lambda>y. y \<notin> set xs) ys)"
proof (induction xs arbitrary: ys)
  case (Cons x xs)
  have "remove1 x (btree_set ys) = btree_set (filter (\<lambda>y. y \<noteq> x) ys)"
  proof -
    have "sorted_list_of_set (set ys - {x}) = remove1 x (sorted_list_of_set (set ys))"
      by (rule sorted_list_of_set.sorted_key_list_of_set_remove) simp
    moreover have "set (filter (\<lambda>y. y \<noteq> x) ys) = set ys - {x}" by auto
    ultimately show ?thesis unfolding btree_set_eq by simp
  qed
  then show ?case by (simp add: Cons conj_commute)
qed simp

subsection \<open>Changing labels\<close>

definition user_meta_path :: "string \<Rightarrow> string" where
  "user_meta_path handler = ''users/'' @ handler @ ''.meta.yaml''"

definition ensure_self_and_handler :: "app_state \<Rightarrow> string \<Rightarrow> daemon_error + unit" where
  "ensure_self_and_handler s target =
     andThen (map_err (ErrInvalidHandler ''target handler'') (handler_new target)) (\<lambda>_.
       (case st_current_user s of
          Some me \<Rightarrow> if me = [] then Inl ErrNoIdentity else fail_if (me \<noteq> target) (ErrNotSelf me)
        | None \<Rightarrow> Inl ErrNoIdentity))"

definition read_user_meta :: "env \<Rightarrow> app_state \<Rightarrow> string \<Rightarrow> daemon_error + string \<times> user_meta" where
  "read_user_meta V s target =
     (case read_file V s (user_meta_path target) of
        Inl e \<Rightarrow> Inl (ErrIo ''read user meta failed'' (io_text e))
      | Inr existing \<Rightarrow>
          andThen (ok_or (ErrParseMeta ''user meta'') (en_user_read V existing)) (\<lambda>meta. Inr (existing, meta)))"

text \<open>The part the two handlers share: validate, write, commit with rollback, push.\<close>

definition store_user_meta ::
  "env \<Rightarrow> string \<Rightarrow> string \<Rightarrow> string \<Rightarrow> user_meta \<Rightarrow> app_state \<Rightarrow> string list outcome" where
  "store_user_meta V op target old_bytes meta s =
     (case check_user_meta meta of
        Inl e \<Rightarrow> (Inl (ErrUserMeta e), s)
      | Inr _ \<Rightarrow>
          (case en_user_write V meta of
             None \<Rightarrow> (Inl (ErrYaml ''user meta''), s)
           | Some new_yaml \<Rightarrow>
               (case write_file V ''write user meta failed'' (user_meta_path target) new_yaml s of
                  (Inl e, s1) \<Rightarrow> (Inl e, s1)
                | (Inr _, s1) \<Rightarrow>
                    (case add_and_commit_as V [user_meta_path target] (''user: labels '' @ op @ '' @'' @ target) target s1 of
                       (Inl e, s2) \<Rightarrow>
                         (Inl (ErrGit (''labels_'' @ op @ '' commit failed'') e),
                          restore_file V (user_meta_path target) old_bytes s2)
                     | (Inr _, s2) \<Rightarrow>
                         (case push_with_retry V (''labels_'' @ op) s2 of
                            (Inl e, s3) \<Rightarrow> (Inl e, s3)
                          | (Inr _, s3) \<Rightarrow> (Inr (um_labels meta), s3))))))"

definition handle_labels_add ::
  "env \<Rightarrow> app_state \<Rightarrow> string \<Rightarrow> string list \<Rightarrow> app_state \<Rightarrow> string list outcome" where
  "handle_labels_add V s0 target labels s =
     (let labels' = btree_set labels in
      case andThen (ensure_self_and_handler s0 target) (\<lambda>_.
           andThen (map_err ErrLabels (validate_labels labels' user_max_labels)) (\<lambda>_.
             read_user_meta V s target)) of
        Inl e \<Rightarrow> (Inl e, s)
      | Inr (old_bytes, meta) \<Rightarrow>
          (let existing_set = btree_set (um_labels meta);
               union = fold insort_insert labels' existing_set in
           if length union > user_max_labels then (Inl (ErrLabelsFull (length union)), s)
           else if union = existing_set then (Inr (um_labels meta), s)
           else store_user_meta V ''add'' target old_bytes (meta\<lparr>um_labels := union\<rparr>) s))"

definition handle_labels_remove ::
  "env \<Rightarrow> app_state \<Rightarrow> string \<Rightarrow> string list \<Rightarrow> app_state \<Rightarrow> string list outcome" where
  "handle_labels_remove V s0 target labels s =
     (case andThen (ensure_self_and_handler s0 target) (\<lambda>_. read_user_meta V s target) of
        Inl e \<Rightarrow> (Inl e, s)
      | Inr (old_bytes, meta) \<Rightarrow>
          (let existing_set = btree_set (um_labels meta);
               remaining = fold remove1 (btree_set labels) existing_set in
           if remaining = existing_set then (Inr (um_labels meta), s)
           else store_user_meta V ''remove'' target old_bytes (meta\<lparr>um_labels := remaining\<rparr>) s))"

subsection \<open>Reading and searching\<close>

definition handle_labels_list :: "env \<Rightarrow> app_state \<Rightarrow> string \<Rightarrow> daemon_error + string \<times> string list" where
  "handle_labels_list V s target =
     andThen (map_err (ErrInvalidHandler ''handler'') (handler_new target)) (\<lambda>_.
     andThen (fail_if (target \<notin> set (st_users s)) (ErrUnknownUser target)) (\<lambda>_.
     andThen (read_user_meta V s target) (\<lambda>(_, meta). Inr (target, um_labels meta))))"

definition scan_active_for_labels :: "env \<Rightarrow> app_state \<Rightarrow> string list \<Rightarrow> string list \<Rightarrow> string list" where
  "scan_active_for_labels V s active query =
     fold (\<lambda>handler matched.
             case read_user_meta V s handler of
               Inl _ \<Rightarrow> matched
             | Inr (_, meta) \<Rightarrow>
                 if set (btree_set query) \<subseteq> set (btree_set (um_labels meta)) then insort_insert handler matched else matched)
       active []"

definition handle_agents_with_labels :: "env \<Rightarrow> app_state \<Rightarrow> string list \<Rightarrow> string list" where
  "handle_agents_with_labels V s labels = (if labels = [] then [] else scan_active_for_labels V s (st_users s) labels)"

definition compute_suggested_assignees :: "env \<Rightarrow> app_state \<Rightarrow> string list \<Rightarrow> string list" where
  "compute_suggested_assignees V s labels =
     (if labels = [] then [] else scan_active_for_labels V s (st_users s) labels)"

subsection \<open>What a search finds\<close>

definition has_labels :: "env \<Rightarrow> app_state \<Rightarrow> string list \<Rightarrow> string \<Rightarrow> bool" where
  "has_labels V s query handler \<longleftrightarrow>
     (case read_user_meta V s handler of Inr (_, meta) \<Rightarrow> set query \<subseteq> set (um_labels meta) | Inl _ \<Rightarrow> False)"

lemma scan_step:
  "(case read_user_meta V s handler of
      Inl _ \<Rightarrow> matched
    | Inr (_, meta) \<Rightarrow>
        if set (btree_set query) \<subseteq> set (btree_set (um_labels meta)) then insort_insert handler matched else matched)
   = (if has_labels V s query handler then insort_insert handler matched else matched)"
  by (simp add: has_labels_def split: sum.split prod.split)

lemma fold_filter: "fold (\<lambda>x acc. if P x then f x acc else acc) xs acc = fold f (filter P xs) acc"
  by (induction xs arbitrary: acc) auto

lemma scan_active_eq: "scan_active_for_labels V s active query = btree_set (filter (has_labels V s query) active)"
  unfolding scan_active_for_labels_def scan_step fold_filter by (simp add: btree_set_def)

subsection \<open>What a change leaves behind\<close>

definition user_yaml_ok :: "env \<Rightarrow> bool" where
  "user_yaml_ok V \<longleftrightarrow> (\<forall>m y. en_user_write V m = Some y \<longrightarrow> en_user_read V y = Some m)"

definition labels_of :: "env \<Rightarrow> app_state \<Rightarrow> string \<Rightarrow> string list option" where
  "labels_of V s handler = (case read_user_meta V s handler of Inr (_, meta) \<Rightarrow> Some (um_labels meta) | Inl _ \<Rightarrow> None)"

lemma has_labels_iff: "has_labels V s query h \<longleftrightarrow> (\<exists>ls. labels_of V s h = Some ls \<and> set query \<subseteq> set ls)"
  by (auto simp: has_labels_def labels_of_def split: sum.splits prod.splits)

lemma user_meta_path_inj [simp]: "user_meta_path a = user_meta_path b \<longleftrightarrow> a = b"
  by (simp add: user_meta_path_def)

lemma user_meta_below: "CHR ''/'' \<notin> set h \<Longrightarrow> below (parent_dir (user_meta_path h)) (user_meta_path h)"
  using parent_dir_file [of "h @ ''.meta.yaml''" "''users''"] by (simp add: user_meta_path_def below_iff)

lemma labels_of_update:
  assumes "st_tree s' = AList.update (user_meta_path t) y (st_tree s)" "en_io V (IoRead (user_meta_path t)) = None"
    "en_user_read V y = Some m"
  shows "labels_of V s' h = (if h = t then Some (um_labels m) else labels_of V s h)"
  using assms by (auto simp: labels_of_def read_user_meta_def read_file_def update_conv' ok_or_def split: option.splits)

lemma read_user_metaD:
  assumes "read_user_meta V s t = Inr (old, m)"
  shows "map_of (st_tree s) (user_meta_path t) = Some old" "en_io V (IoRead (user_meta_path t)) = None"
    "en_user_read V old = Some m"
  using assms by (auto simp: read_user_meta_def read_file_def ok_or_def andThen_Inr split: option.splits sum.splits)

lemma store_user_meta_effect:
  assumes env: "user_yaml_ok V" "rollback_ok V" "no_rebase V" and old: "read_user_meta V s t = Inr (old, m0)"
    and self: "ensure_self_and_handler s0 t = Inr u" and run: "store_user_meta V op t old m s = (r, s')"
  shows "s' = s \<and> (\<exists>e. r = Inl e)
    \<or> check_user_meta m = Inr () \<and> labels_of V s' t = Some (um_labels m) \<and> (\<forall>h. h \<noteq> t \<longrightarrow> labels_of V s' h = labels_of V s h)
      \<and> st_users s' = st_users s \<and> length (st_commits s') = Suc (length (st_commits s))
      \<and> (\<forall>ls. r = Inr ls \<longrightarrow> ls = um_labels m)"
proof -
  have slash: "CHR ''/'' \<notin> set t" using self handler_name.no_slash by (auto simp: ensure_self_and_handler_def is_ok_iff)
  note rd = read_user_metaD [OF old]
  show ?thesis
  proof (cases "check_user_meta m = Inr () \<and> (\<exists>y. en_user_write V m = Some y)")
    case False
    then show ?thesis using run by (cases "check_user_meta m") (auto simp: store_user_meta_def split: option.splits)
  next
    case True
    then obtain y where y: "check_user_meta m = Inr ()" "en_user_write V m = Some y" by auto
    obtain r1 s1 where w: "write_file V ''write user meta failed'' (user_meta_path t) y s = (r1, s1)" by force
    obtain r2 s2 where c: "add_and_commit_as V [user_meta_path t] (''user: labels '' @ op @ '' @'' @ t) t s1 = (r2, s2)"
      by force
    obtain r3 s3 where q: "push_with_retry V (''labels_'' @ op) s2 = (r3, s3)" by force
    note step = run [unfolded store_user_meta_def y sum.case option.case w c q prod.case]
    from write_file_frame [OF w] consider "\<exists>e. r1 = Inl e" "s1 = s" | "r1 = Inr ()" "s1 = put_file (user_meta_path t) y s" by auto
    then show ?thesis
    proof cases
      case 1
      then show ?thesis using step by auto
    next
      case 2
      show ?thesis
      proof (cases r2)
        case (Inl e)
        then have "s2 = s1" using add_and_commit_frame [OF c] by simp
        then have "restore_file V (user_meta_path t) old s2 = s"
          using restore_one(2) [OF env(2) rd(1) user_meta_below [OF slash]] 2 by blast
        then show ?thesis using step 2 Inl by auto
      next
        case (Inr u')
        have s3: "s' = s2" using step 2 Inr push_frame [OF env(3) q] by (auto split: sum.splits)
        note f = add_and_commit_frame [OF c, unfolded Inr sum.case]
        have tree: "st_tree s' = AList.update (user_meta_path t) y (st_tree s)" using f s3 2 by simp
        have "en_user_read V y = Some m" using env(1) y(2) by (simp add: user_yaml_ok_def)
        then have "labels_of V s' h = (if h = t then Some (um_labels m) else labels_of V s h)" for h
          using labels_of_update [OF tree rd(2)] by blast
        then show ?thesis using y(1) f s3 2 step Inr by (auto split: sum.splits)
      qed
    qed
  qed
qed

text \<open>The labels a request asks for, as a function of the labels before.\<close>

datatype label_request = AddLabels "string list" | RemoveLabels "string list"

fun handle_label_request :: "env \<Rightarrow> app_state \<Rightarrow> string \<Rightarrow> label_request \<Rightarrow> app_state \<Rightarrow> string list outcome" where
  "handle_label_request V s0 target (AddLabels ls) s = handle_labels_add V s0 target ls s"
| "handle_label_request V s0 target (RemoveLabels ls) s = handle_labels_remove V s0 target ls s"

fun requested_labels :: "label_request \<Rightarrow> string set \<Rightarrow> string set" where
  "requested_labels (AddLabels ls) old = old \<union> set ls"
| "requested_labels (RemoveLabels ls) old = old - set ls"

lemma label_request_cases:
  assumes "handle_label_request V s0 t q s = (r, s')" "read_user_meta V s t = Inr (old, m)"
  shows "s' = s \<and> (\<exists>e. r = Inl e)
    \<or> ensure_self_and_handler s0 t = Inr ()
      \<and> (s' = s \<and> r = Inr (um_labels m) \<and> requested_labels q (set (um_labels m)) = set (um_labels m)
         \<or> (\<exists>op. store_user_meta V op t old (m\<lparr>um_labels := sorted_list_of_set (requested_labels q (set (um_labels m)))\<rparr>) s = (r, s')))"
proof (cases "ensure_self_and_handler s0 t")
  case (Inl e)
  then show ?thesis using assms by (cases q) (auto simp: handle_labels_add_def handle_labels_remove_def Let_def)
next
  case (Inr u)
  show ?thesis
  proof (cases q)
    case (AddLabels ls)
    have u: "fold insort_insert (btree_set ls) (btree_set (um_labels m))
        = sorted_list_of_set (requested_labels q (set (um_labels m)))"
      unfolding fold_insert_set unfolding btree_set_eq by (simp add: AddLabels Un_commute flip: btree_set_eq)
    note run = assms(1) [unfolded AddLabels handle_label_request.simps handle_labels_add_def Let_def assms(2) Inr, simplified]
    show ?thesis
    proof (cases "validate_labels (btree_set ls) user_max_labels")
      case (Inl e)
      then show ?thesis using run by auto
    next
      case valid: (Inr v)
      have same: "requested_labels q (set (um_labels m)) = set (um_labels m)"
        if "sorted_list_of_set (requested_labels q (set (um_labels m))) = btree_set (um_labels m)"
        using that AddLabels sorted_list_of_set_inject by (fastforce simp: btree_set_eq)
      show ?thesis using run valid same Inr by (auto simp: u split: if_splits)
    qed
  next
    case (RemoveLabels ls)
    have "set (filter (\<lambda>y. y \<notin> set ls) (um_labels m)) = requested_labels q (set (um_labels m))"
      using RemoveLabels by auto
    then have u: "fold remove1 (btree_set ls) (btree_set (um_labels m))
        = sorted_list_of_set (requested_labels q (set (um_labels m)))"
      by (simp only: fold_remove_set btree_set_simps) (simp only: btree_set_eq)
    show ?thesis
      using assms Inr RemoveLabels u
      by (auto simp: handle_labels_remove_def Let_def btree_set_eq split: if_splits dest!: sorted_list_of_set_inject)
  qed
qed

lemma label_request_effect:
  assumes "user_yaml_ok V" "rollback_ok V" "no_rebase V" "labels_of V s t = Some old"
    and run: "handle_label_request V s0 t q s = (r, s')"
  shows "s' = s \<or> labels_of V s' t = Some (sorted_list_of_set (requested_labels q (set old)))
      \<and> is_ok (validate_labels (sorted_list_of_set (requested_labels q (set old))) user_max_labels)
      \<and> length (st_commits s') = Suc (length (st_commits s))"
    and "st_users s' = st_users s"
    and "h \<noteq> t \<Longrightarrow> labels_of V s' h = labels_of V s h"
    and "r = Inr ls \<Longrightarrow>
      ensure_self_and_handler s0 t = Inr () \<and> labels_of V s' t = Some ls \<and> set ls = requested_labels q (set old)"
proof -
  obtain bytes m where m: "read_user_meta V s t = Inr (bytes, m)" and old: "old = um_labels m"
    using assms(4) by (auto simp: labels_of_def split: sum.splits prod.splits)
  let ?m = "m\<lparr>um_labels := sorted_list_of_set (requested_labels q (set old))\<rparr>"
  have fin: "finite (requested_labels q (set old))" by (cases q) auto
  consider (refused) "s' = s" "\<exists>e. r = Inl e"
    | (same) "ensure_self_and_handler s0 t = Inr ()" "s' = s" "r = Inr old" "requested_labels q (set old) = set old"
    | (store) op where "ensure_self_and_handler s0 t = Inr ()" "store_user_meta V op t bytes ?m s = (r, s')"
    using label_request_cases [OF run m] old by blast
  then have all: "(s' = s \<or> labels_of V s' t = Some (sorted_list_of_set (requested_labels q (set old)))
      \<and> is_ok (validate_labels (sorted_list_of_set (requested_labels q (set old))) user_max_labels)
      \<and> length (st_commits s') = Suc (length (st_commits s)))
    \<and> st_users s' = st_users s \<and> (\<forall>h. h \<noteq> t \<longrightarrow> labels_of V s' h = labels_of V s h)
    \<and> (\<forall>ls. r = Inr ls \<longrightarrow>
      ensure_self_and_handler s0 t = Inr () \<and> labels_of V s' t = Some ls \<and> set ls = requested_labels q (set old))"
  proof cases
    case store
    have "is_ok (validate_labels (um_labels ?m) user_max_labels)" if "check_user_meta ?m = Inr ()"
      using that by (auto simp: check_user_meta_def is_ok_iff split: if_splits)
    then show ?thesis using store_user_meta_effect [OF assms(1-3) m store] store(1) fin by auto
  qed (use assms(4) in auto)
  then show "s' = s \<or> labels_of V s' t = Some (sorted_list_of_set (requested_labels q (set old)))
      \<and> is_ok (validate_labels (sorted_list_of_set (requested_labels q (set old))) user_max_labels)
      \<and> length (st_commits s') = Suc (length (st_commits s))" "st_users s' = st_users s"
    "h \<noteq> t \<Longrightarrow> labels_of V s' h = labels_of V s h"
    "r = Inr ls \<Longrightarrow>
      ensure_self_and_handler s0 t = Inr () \<and> labels_of V s' t = Some ls \<and> set ls = requested_labels q (set old)"
    by blast+
qed

lemma agents_with_labels_iff:
  "a \<in> set (handle_agents_with_labels V s query) \<longleftrightarrow> query \<noteq> [] \<and> a \<in> set (st_users s) \<and> has_labels V s query a"
  by (simp add: handle_agents_with_labels_def scan_active_eq)


text \<open>An instance: an environment that reads and writes the metadata of one user with few labels.\<close>

definition sample_user :: "string list \<Rightarrow> user_meta" where
  "sample_user ls = \<lparr>um_display_name = ''Bob'', um_role = ''dev'', um_introduction = ''hi'', um_labels = ls, um_kind = UserAgent\<rparr>"

definition user_env :: env where
  "user_env = base_env
     \<lparr>en_user_write := (\<lambda>m. if m = sample_user [''go'', ''rust''] then Some ''two'' else None),
      en_user_read := (\<lambda>y. if y = ''two'' then Some (sample_user [''go'', ''rust''])
                           else if y = ''one'' then Some (sample_user [''rust'']) else None)\<rparr>"

definition user_state :: app_state where
  "user_state = base_state\<lparr>st_tree := [(''users/alice.meta.yaml'', ''one'')]\<rparr>"

lemma user_env_ok: "user_yaml_ok user_env" "rollback_ok user_env" "no_rebase user_env"
proof -
  show "user_yaml_ok user_env" by (simp add: user_yaml_ok_def user_env_def)
  show "rollback_ok user_env" by (rule rollback_ok_base) (simp_all add: user_env_def base_env_def)
  show "no_rebase user_env" by (simp add: no_rebase_def user_env_def base_env_def)
qed

lemma user_env_start: "labels_of user_env user_state ''alice'' = Some [''rust'']"
  by code_simp

lemma user_env_run:
  "fst (handle_label_request user_env user_state ''alice'' (AddLabels [''go'', ''rust'', ''go'']) user_state)
     = Inr [''go'', ''rust'']"
  by code_simp


end
