(* ===== verification/Daemon_Moves.thy ===== *)
theory Daemon_Moves
  imports Daemon_Store "HOL-Library.Multiset"
begin

text \<open>
  Groups of \<^verbatim>\<open>git mv\<close> that are one change.  Archiving a card, a channel with its cards, or a user moves several
  files and directories and commits once; when a step fails the moves made so far are undone, in an order
  that is not always the reverse one, and rewritten files are checked out again.  The lemmas show that such a
  rollback gives back exactly the tree before the change, whatever the order.
\<close>

fun do_moves ::
  "env \<Rightarrow> (string \<times> string) list \<Rightarrow> (string \<times> string) list \<Rightarrow> app_state \<Rightarrow>
   (git_error + unit) \<times> (string \<times> string) list \<times> app_state" where
  "do_moves V [] completed s = (Inr (), completed, s)"
| "do_moves V ((a, b) # ms) completed s =
     (case git_mv V a b s of
        (Inl e, s1) \<Rightarrow> (Inl e, completed, s1)
      | (Inr _, s1) \<Rightarrow> do_moves V ms (completed @ [(a, b)]) s1)"

definition undo_move :: "env \<Rightarrow> string \<times> string \<Rightarrow> app_state \<Rightarrow> app_state" where
  "undo_move V m s = snd (git_mv V (snd m) (fst m) s)"

definition undo_moves :: "env \<Rightarrow> (string \<times> string) list \<Rightarrow> app_state \<Rightarrow> app_state" where
  "undo_moves V ms s = fold (undo_move V) (rev ms) s"

text \<open>\<^verbatim>\<open>git reset HEAD\<close> and \<^verbatim>\<open>git checkout\<close> of one file; a failure is only logged.\<close>

definition restore_card_yaml :: "env \<Rightarrow> string \<Rightarrow> app_state \<Rightarrow> app_state" where
  "restore_card_yaml V p s = s\<lparr>st_tree := en_checkout V p (st_tree s)\<rparr>"

subsection \<open>Several moves at once\<close>

definition apart :: "string \<Rightarrow> string \<Rightarrow> bool" where
  "apart a b \<longleftrightarrow> \<not> in_dir a b \<and> \<not> in_dir b a"

abbreviation ends :: "(string \<times> string) list \<Rightarrow> string list" where
  "ends M \<equiv> map fst M @ map snd M"

definition moves_ok :: "(string \<times> string) list \<Rightarrow> bool" where
  "moves_ok M \<longleftrightarrow> distinct (ends M) \<and> (\<forall>a \<in> set (ends M). \<forall>b \<in> set (ends M). a \<noteq> b \<longrightarrow> apart a b)"

definition all_moved :: "(string \<times> string) list \<Rightarrow> tree \<Rightarrow> tree" where
  "all_moved M t = fold (\<lambda>(a, b). move_path a b) M t"

lemma apart_sym: "apart a b \<longleftrightarrow> apart b a"
  by (auto simp: apart_def)

lemma apart_paths: "apart a b \<Longrightarrow> in_dir a p \<Longrightarrow> \<not> in_dir b p"
  using in_dir_common by (auto simp: apart_def)

lemma apart_none: "apart a b \<Longrightarrow> \<not> (\<exists>p. in_dir a p \<and> in_dir b p)"
  using apart_paths by blast

lemma moves_okD:
  assumes "moves_ok M" "(a, b) \<in> set M"
  shows "apart a b" "(c, d) \<in> set M \<Longrightarrow> (c, d) \<noteq> (a, b) \<Longrightarrow> apart a c \<and> apart a d \<and> apart b c \<and> apart b d"
proof -
  have ne: "x \<noteq> y" if "x \<in> fst ` set M" "y \<in> snd ` set M" for x y
    using assms(1) that by (auto simp: moves_ok_def)
  have apart: "apart x y" if "x \<in> fst ` set M \<union> snd ` set M" "y \<in> fst ` set M \<union> snd ` set M" "x \<noteq> y" for x y
    using assms(1) that by (simp add: moves_ok_def)
  have ab: "a \<in> fst ` set M" "b \<in> snd ` set M" using assms(2) by force+
  show "apart a b" using apart ne ab by blast
  assume cd: "(c, d) \<in> set M" "(c, d) \<noteq> (a, b)"
  then have c: "c \<in> fst ` set M" "d \<in> snd ` set M" by force+
  have "a \<noteq> c \<and> b \<noteq> d"
    using assms cd unfolding moves_ok_def distinct_append distinct_map inj_on_def by (metis fst_conv snd_conv)
  then show "apart a c \<and> apart a d \<and> apart b c \<and> apart b d" using apart ne ab c by (metis UnCI)
qed

lemma moves_ok_perm: "mset M = mset M' \<Longrightarrow> moves_ok M \<Longrightarrow> moves_ok M'"
proof -
  assume m: "mset M = mset M'" "moves_ok M"
  then have "mset (ends M) = mset (ends M')" by (metis mset_append mset_map)
  then show ?thesis using m(2) by (metis moves_ok_def mset_eq_setD mset_eq_imp_distinct_iff)
qed

lemma moves_ok_remove: "moves_ok (m # M) \<Longrightarrow> moves_ok M"
  by (auto simp: moves_ok_def)

lemma moves_ok_prefix: "moves_ok (M @ N) \<Longrightarrow> moves_ok M"
  unfolding moves_ok_def by (simp add: ball_Un) (simp add: Int_Un_distrib)

lemma moved_commute:
  assumes "apart a b" "apart c d" "apart a c" "apart a d" "apart b c" "apart b d"
  shows "moved_name a b (moved_name c d p) = moved_name c d (moved_name a b p)"
proof -
  consider (a) "in_dir a p" | (c) "in_dir c p" | (none) "\<not> in_dir a p" "\<not> in_dir c p" by blast
  then show ?thesis
  proof cases
    case a
    then have "\<not> in_dir c p" "\<not> in_dir c (moved_name a b p)"
      using assms apart_paths moved_in by metis+
    then show ?thesis by (simp add: moved_out)
  next
    case c
    then have "\<not> in_dir a p" "\<not> in_dir a (moved_name c d p)"
      using assms apart_paths apart_sym moved_in by metis+
    then show ?thesis by (simp add: moved_out)
  next
    case none
    then show ?thesis by (simp add: moved_out)
  qed
qed

lemma all_moved_perm:
  assumes "moves_ok M" "mset M = mset M'"
  shows "all_moved M t = all_moved M' t"
proof -
  have "(\<lambda>(a, b). move_path a b) m \<circ> (\<lambda>(a, b). move_path a b) m' = (\<lambda>(a, b). move_path a b) m' \<circ> (\<lambda>(a, b). move_path a b) m"
    if "m \<in> set M" "m' \<in> set M" for m m'
  proof (cases "m = m'")
    case False
    obtain a b c d where m: "m = (a, b)" "m' = (c, d)" by (cases m, cases m')
    then have "moved_name a b (moved_name c d p) = moved_name c d (moved_name a b p)" for p
      using moved_commute moves_okD [OF assms(1)] that False by (metis (no_types))
    then show ?thesis by (auto simp: m move_path_def comp_def split_def)
  qed simp
  then show ?thesis unfolding all_moved_def by (metis fold_multiset_equiv assms(2))
qed

lemma tree_has_in: "tree_has t d \<longleftrightarrow> (\<exists>(p, c) \<in> set t. in_dir d p)"
  by (auto simp: tree_has_def list_ex_iff in_dir_def)

lemma tree_has_moved_other: "apart d a \<Longrightarrow> apart d b \<Longrightarrow> tree_has (move_path a b t) d \<longleftrightarrow> tree_has t d"
proof -
  assume d: "apart d a" "apart d b"
  have "in_dir d (moved_name a b p) \<longleftrightarrow> in_dir d p" for p
  proof (cases "in_dir a p")
    case True
    then show ?thesis using d apart_paths moved_in by metis
  qed (simp add: moved_out)
  then show ?thesis by (force simp: tree_has_in move_path_def)
qed

lemma path_exists_tree: "path_exists s p \<longleftrightarrow> tree_has (st_tree s) p"
proof
  assume "path_exists s p"
  then show "tree_has (st_tree s) p"
    by (auto simp: path_exists_def file_exists_def tree_has_in list_ex_iff in_dir_def dest: map_of_SomeD)
next
  assume "tree_has (st_tree s) p"
  then obtain q c where "(q, c) \<in> set (st_tree s)" "in_dir p q" by (auto simp: tree_has_in)
  then show "path_exists s p"
    using weak_map_of_SomeI [of q c "st_tree s"]
    by (auto simp: path_exists_def file_exists_def list_ex_iff in_dir_def)
qed

lemma tree_has_file: "map_of t p \<noteq> None \<Longrightarrow> tree_has t p"
  unfolding tree_has_def list_ex_iff by (auto dest: map_of_SomeD)

lemma in_dir_trans: "in_dir d p \<Longrightarrow> in_dir p q \<Longrightarrow> in_dir d q"
  by (auto simp: in_dir_def below_iff)

lemma tree_has_below: "tree_has t p \<Longrightarrow> in_dir d p \<Longrightarrow> tree_has t d"
  using in_dir_trans unfolding tree_has_in by fast

lemma tree_has_target: "tree_has t a \<Longrightarrow> tree_has (move_path a b t) b"
  using moved_in [of a _ b] by (force simp: tree_has_in move_path_def)

lemma all_moved_Cons [simp]: "all_moved ((a, b) # M) t = all_moved M (move_path a b t)"
  by (simp add: all_moved_def)

lemma all_moved_Nil [simp]: "all_moved [] t = t"
  by (simp add: all_moved_def)

lemma all_moved_snoc: "all_moved (M @ [(a, b)]) t = move_path a b (all_moved M t)"
  by (simp add: all_moved_def)

lemma tree_has_all_moved:
  "(\<And>a b. (a, b) \<in> set M \<Longrightarrow> apart d a \<and> apart d b) \<Longrightarrow> tree_has (all_moved M t) d \<longleftrightarrow> tree_has t d"
proof (induction M arbitrary: t)
  case (Cons m M)
  obtain a b where m: "m = (a, b)" by force
  have "tree_has (all_moved M (move_path a b t)) d \<longleftrightarrow> tree_has (move_path a b t) d"
    by (rule Cons.IH) (use Cons.prems in auto)
  then show ?case using Cons.prems [of a b] by (simp add: m tree_has_moved_other)
qed simp

lemma undo_one:
  assumes "moves_ok M" "(a, b) \<in> set M" "\<not> tree_has t b"
  shows "move_path b a (all_moved M t) = all_moved (remove1 (a, b) M) t"
    and "\<not> tree_has (all_moved M t) a"
    and "tree_has t a \<Longrightarrow> tree_has (all_moved M t) b"
proof -
  let ?M = "remove1 (a, b) M"
  have perm: "mset M = mset (?M @ [(a, b)])" using assms(2) by simp
  have M: "all_moved M t = move_path a b (all_moved ?M t)"
    using all_moved_perm [OF assms(1) perm] by (simp add: all_moved_snoc)
  have "distinct M" using assms(1) by (auto simp: moves_ok_def distinct_map)
  then have other: "apart b c \<and> apart b d \<and> apart a c \<and> apart a d" if "(c, d) \<in> set ?M" for c d
    using moves_okD(2) [OF assms(1,2)] that by auto
  have "\<not> tree_has (all_moved ?M t) b" using tree_has_all_moved [of ?M b t] other assms(3) by blast
  then show "move_path b a (all_moved M t) = all_moved ?M t" using move_back M by simp
  show "\<not> tree_has (all_moved M t) a"
    unfolding M by (rule move_leaves_nothing [OF apart_none [OF moves_okD(1) [OF assms(1,2)]]])
  show "tree_has (all_moved M t) b" if "tree_has t a"
    unfolding M using tree_has_target tree_has_all_moved [of ?M a t] other that by blast
qed

text \<open>What the rollback relies on: a move back to a free place succeeds.\<close>

definition undo_ok :: "env \<Rightarrow> (string \<Rightarrow> bool) \<Rightarrow> bool" where
  "undo_ok V from \<longleftrightarrow>
     (\<forall>a b t. from a \<and> tree_has t a \<and> \<not> tree_has t b \<and> apart a b \<longrightarrow> is_ok (en_mv V a b t))"

lemma undo_move_step:
  assumes "git_ok V" "undo_ok V from" "moves_ok M" "(a, b) \<in> set M" "\<not> tree_has t b" "tree_has t a" "from b"
  shows "undo_move V (a, b) (s\<lparr>st_tree := all_moved M t\<rparr>) = s\<lparr>st_tree := all_moved (remove1 (a, b) M) t\<rparr>"
proof -
  note u = undo_one [OF assms(3-5)]
  have "apart b a" using moves_okD(1) [OF assms(3,4)] by (simp add: apart_sym)
  then obtain t' where t': "en_mv V b a (all_moved M t) = Inr t'"
    using assms(2,7) u(2) u(3) [OF assms(6)] unfolding undo_ok_def is_ok_iff by blast
  then have "t' = move_path b (mv_target b a (all_moved M t)) (all_moved M t)" using assms(1) by (auto simp: git_ok_def)
  then have "t' = all_moved (remove1 (a, b) M) t" using mv_target_free [OF u(2)] u(1) by simp
  then show ?thesis using t' by (simp add: undo_move_def git_mv_def)
qed

definition all_movable :: "(string \<Rightarrow> bool) \<Rightarrow> (string \<times> string) list \<Rightarrow> tree \<Rightarrow> bool" where
  "all_movable from M t \<longleftrightarrow> moves_ok M \<and> (\<forall>(a, b) \<in> set M. tree_has t a \<and> \<not> tree_has t b \<and> from b)"

lemma undo_many:
  assumes "git_ok V" "undo_ok V from" "all_movable from M t" "distinct ms" "set ms \<subseteq> set M"
  shows "fold (undo_move V) ms (s\<lparr>st_tree := all_moved M t\<rparr>)
    = s\<lparr>st_tree := all_moved (fold remove1 ms M) t\<rparr> \<and> all_movable from (fold remove1 ms M) t"
  using assms(3-5)
proof (induction ms arbitrary: M)
  case (Cons m ms)
  obtain a b where m: "m = (a, b)" by force
  let ?M = "remove1 (a, b) M"
  have perm: "mset M = mset ((a, b) # ?M)" using Cons.prems(3) m by simp
  have ok: "moves_ok ?M" using moves_ok_perm [OF perm] Cons.prems(1) moves_ok_remove by (auto simp: all_movable_def)
  then have mv: "all_movable from ?M t" using Cons.prems(1) using set_remove1_subset by (fastforce simp: all_movable_def)
  have "distinct M" using Cons.prems(1) by (auto simp: all_movable_def moves_ok_def distinct_map)
  then have "set ms \<subseteq> set ?M" using Cons.prems(2,3) m by auto
  moreover have "undo_move V (a, b) (s\<lparr>st_tree := all_moved M t\<rparr>) = s\<lparr>st_tree := all_moved ?M t\<rparr>"
    using undo_move_step [OF assms(1,2)] Cons.prems(1,3) m by (auto simp: all_movable_def)
  ultimately show ?case using Cons.IH [OF mv] Cons.prems(2) m by simp
qed simp

lemma fold_remove1_all: "distinct M \<Longrightarrow> distinct ms \<Longrightarrow> set ms = set M \<Longrightarrow> fold remove1 ms M = []"
proof -
  assume "distinct M" "distinct ms" "set ms = set M"
  moreover have "mset (fold remove1 ms M) = mset M - mset ms" for ms M :: "'a list"
    by (induction ms arbitrary: M) (simp_all add: diff_union_swap2 multiset_eq_iff)
  ultimately show ?thesis by (metis cancel_comm_monoid_add_class.diff_cancel mset_zero_iff set_eq_iff_mset_eq_distinct)
qed

text \<open>Undoing all moves, in any order, gives back the tree.\<close>

lemma undo_all:
  assumes "git_ok V" "undo_ok V from" "all_movable from M t" "mset ms = mset M"
  shows "fold (undo_move V) ms (s\<lparr>st_tree := all_moved M t\<rparr>) = s\<lparr>st_tree := t\<rparr>"
proof -
  have d: "distinct M" using assms(3) by (auto simp: all_movable_def moves_ok_def distinct_map)
  have e: "distinct ms" "set ms = set M"
    using assms(4) d by (metis mset_eq_imp_distinct_iff) (metis assms(4) mset_eq_setD)
  show ?thesis using undo_many [OF assms(1-3) e(1)] e fold_remove1_all [OF d e] by simp
qed

lemma undo_moves_all:
  "git_ok V \<Longrightarrow> undo_ok V from \<Longrightarrow> all_movable from M t \<Longrightarrow> undo_moves V M (s\<lparr>st_tree := all_moved M t\<rparr>) = s\<lparr>st_tree := t\<rparr>"
  unfolding undo_moves_def by (rule undo_all) simp_all

text \<open>Running the moves: what has been done at the end, or at the first failure.\<close>

definition move_plan :: "(string \<Rightarrow> bool) \<Rightarrow> (string \<times> string) list \<Rightarrow> tree \<Rightarrow> bool" where
  "move_plan from M t \<longleftrightarrow> moves_ok M \<and> (\<forall>(a, b) \<in> set M. \<not> tree_has t b \<and> from b)"

lemma git_mv_planned:
  assumes "git_ok V" "move_plan from (M @ [(a, b)]) t" "all_movable from M t"
    and "git_mv V a b (s\<lparr>st_tree := all_moved M t\<rparr>) = (r, s')"
  shows "(\<exists>e. r = Inl e) \<and> s' = s\<lparr>st_tree := all_moved M t\<rparr>
    \<or> r = Inr () \<and> s' = s\<lparr>st_tree := all_moved (M @ [(a, b)]) t\<rparr> \<and> all_movable from (M @ [(a, b)]) t"
proof (cases "en_mv V a b (all_moved M t)")
  case (Inl e)
  then show ?thesis using assms(4) by (auto simp: git_mv_def)
next
  case (Inr t')
  have ok: "moves_ok (M @ [(a, b)])" using assms(2) by (simp add: move_plan_def)
  have other: "apart a c \<and> apart a d \<and> apart b c \<and> apart b d" if "(c, d) \<in> set M" for c d
    using moves_okD(2) [OF ok, of a b c d] that ok by (auto simp: moves_ok_def)
  have has: "tree_has (all_moved M t) a = tree_has t a" "tree_has (all_moved M t) b = tree_has t b"
    using tree_has_all_moved [of M] other by blast+
  have free: "\<not> tree_has (all_moved M t) b" using assms(2) has by (auto simp: move_plan_def)
  have "tree_has (all_moved M t) a \<and> t' = move_path a b (all_moved M t)"
    using assms(1) Inr mv_target_free [OF free, of a] by (fastforce simp: git_ok_def)
  then show ?thesis
    using assms(2-4) Inr has ok by (auto simp: git_mv_def all_moved_snoc all_movable_def move_plan_def)
qed

lemma do_moves_result:
  assumes "git_ok V" "move_plan from (M @ ms) t" "all_movable from M t"
    and "do_moves V ms M (s\<lparr>st_tree := all_moved M t\<rparr>) = (r, completed, s')"
  shows "s' = s\<lparr>st_tree := all_moved completed t\<rparr> \<and> all_movable from completed t
    \<and> (\<exists>rest. M @ ms = completed @ rest \<and> (\<forall>u. r = Inr u \<longrightarrow> rest = []))"
  using assms(2-4)
proof (induction ms arbitrary: M)
  case (Cons m ms)
  obtain a b where m: "m = (a, b)" by force
  have plan2: "move_plan from ((M @ [(a, b)]) @ ms) t" using Cons.prems(1) by (simp add: m)
  then have plan: "move_plan from (M @ [(a, b)]) t" using moves_ok_prefix unfolding move_plan_def by fastforce
  obtain r1 s1 where g: "git_mv V a b (s\<lparr>st_tree := all_moved M t\<rparr>) = (r1, s1)" by force
  from git_mv_planned [OF assms(1) plan Cons.prems(2) g] show ?case
  proof (elim disjE conjE)
    assume "r1 = Inr ()" "s1 = s\<lparr>st_tree := all_moved (M @ [(a, b)]) t\<rparr>" "all_movable from (M @ [(a, b)]) t"
    then show ?thesis using Cons.IH [OF plan2] Cons.prems(3) g by (simp add: m)
  qed (use Cons.prems g in \<open>auto simp: m\<close>)
qed auto

subsection \<open>Rewritten files\<close>

text \<open>The tree \<open>t0\<close> agrees with the last commit on the files \<open>P\<close>: checking one of them out brings back its
  content in \<open>t0\<close>.\<close>

definition head_holds :: "env \<Rightarrow> string set \<Rightarrow> tree \<Rightarrow> bool" where
  "head_holds V P t0 \<longleftrightarrow>
     (\<forall>p \<in> P. \<forall>c t. map_of t0 p = Some c \<and> map_of t p \<noteq> None \<longrightarrow> en_checkout V p t = AList.update p c t)"

text \<open>A tree that differs from \<open>t0\<close> only in the content of the files \<open>ps\<close>.\<close>

definition rewritten :: "string set \<Rightarrow> tree \<Rightarrow> tree \<Rightarrow> bool" where
  "rewritten ps t0 t \<longleftrightarrow> map fst t = map fst t0 \<and> (\<forall>p. p \<notin> ps \<longrightarrow> map_of t p = map_of t0 p)"

lemma alist_eqI: "distinct (map fst xs) \<Longrightarrow> map fst xs = map fst ys \<Longrightarrow> map_of xs = map_of ys \<Longrightarrow> xs = ys"
proof (induction xs arbitrary: ys)
  case (Cons x xs)
  obtain k v where x: "x = (k, v)" by force
  obtain w ys' where y: "ys = (k, w) # ys'" "map fst xs = map fst ys'" using Cons.prems(2) x by (cases ys) auto
  have kw: "v = w" using fun_cong [OF Cons.prems(3), of k] x y by simp
  have "map_of xs q = map_of ys' q" for q
  proof (cases "q = k")
    case True
    then show ?thesis using Cons.prems(1) x y by (metis distinct.simps(2) list.simps(9) map_of_eq_None_iff fst_conv list.set_map)
  next
    case False
    then show ?thesis using fun_cong [OF Cons.prems(3), of q] x y by simp
  qed
  then have "xs = ys'" using Cons.IH Cons.prems(1) y(2) by auto
  then show ?case using x y kw by simp
qed simp

lemma rewritten_refl: "rewritten ps t t"
  by (simp add: rewritten_def)

lemma map_fst_update: "map_of t p \<noteq> None \<Longrightarrow> map fst (AList.update p c t) = map fst t"
  by (induction t) auto

lemma rewritten_update:
  "rewritten ps t0 t \<Longrightarrow> map_of t0 p \<noteq> None \<Longrightarrow> rewritten (insert p ps) t0 (AList.update p c t)"
  unfolding rewritten_def
  by (metis (no_types, lifting) fun_upd_apply insertCI list.set_map map_fst_update map_of_eq_None_iff update_conv')

lemma rewritten_has: "rewritten ps t0 t \<Longrightarrow> tree_has t d = tree_has t0 d"
proof -
  assume "rewritten ps t0 t"
  then have "fst ` set t = fst ` set t0" by (metis rewritten_def list.set_map)
  moreover have "tree_has u d \<longleftrightarrow> (\<exists>p \<in> fst ` set u. in_dir d p)" for u by (force simp: tree_has_in)
  ultimately show ?thesis by metis
qed

lemma restore_step:
  assumes "head_holds V P t0" "p \<in> P" "map_of t0 p \<noteq> None" "rewritten ps t0 t"
  shows "rewritten (ps - {p}) t0 (en_checkout V p t)"
proof -
  obtain c where c: "map_of t0 p = Some c" using assms(3) by auto
  have keys: "map fst t = map fst t0" using assms(4) by (simp add: rewritten_def)
  then have "map_of t p \<noteq> None" by (metis assms(3) list.set_map map_of_eq_None_iff)
  then have e: "en_checkout V p t = AList.update p c t" "map fst (AList.update p c t) = map fst t0"
    using assms(1,2) c keys by (auto simp: head_holds_def map_fst_update)
  then show ?thesis using assms(4) c by (auto simp: rewritten_def update_conv')
qed

lemma restore_fold: "fold (restore_card_yaml V) qs s = s\<lparr>st_tree := fold (en_checkout V) qs (st_tree s)\<rparr>"
  by (induction qs arbitrary: s) (simp_all add: restore_card_yaml_def)

lemma restore_all:
  assumes "head_holds V P t0" "set qs \<subseteq> P" "\<forall>p \<in> set qs. map_of t0 p \<noteq> None" "rewritten ps t0 (st_tree s)" "ps \<subseteq> set qs"
    "distinct (map fst t0)"
  shows "fold (restore_card_yaml V) qs s = s\<lparr>st_tree := t0\<rparr>"
proof -
  have "rewritten (ps - set qs) t0 (fold (en_checkout V) qs t)" if "rewritten ps t0 t" for t
    using assms(2,3) that
  proof (induction qs arbitrary: t ps)
    case (Cons q qs)
    have "rewritten (ps - {q}) t0 (en_checkout V q t)"
      using restore_step [OF assms(1) _ _ Cons.prems(3)] Cons.prems(1,2) by simp
    then show ?case
      using Cons.IH [of "ps - {q}"] Cons.prems(1,2) by (simp add: Diff_insert2 [of ps q "set qs"])
  qed simp
  moreover have "ps - set qs = {}" using assms(5) by blast
  ultimately have "rewritten {} t0 (fold (en_checkout V) qs (st_tree s))" using assms(4) by metis
  then have "t0 = fold (en_checkout V) qs (st_tree s)"
    using assms(6) by (intro alist_eqI) (auto simp: rewritten_def)
  then show ?thesis by (simp add: restore_fold)
qed

subsection \<open>Looking up moved files\<close>

lemma moves_ok_last:
  assumes "moves_ok M" "(a, b) \<in> set M"
  shows "all_moved M t = move_path a b (all_moved (remove1 (a, b) M) t)" "moves_ok (remove1 (a, b) M)"
    "(c, d) \<in> set (remove1 (a, b) M) \<Longrightarrow> apart a c \<and> apart a d \<and> apart b c \<and> apart b d" "apart a b"
proof -
  let ?M = "remove1 (a, b) M"
  have perm: "mset M = mset (?M @ [(a, b)])" using assms(2) by simp
  show "all_moved M t = move_path a b (all_moved ?M t)" using all_moved_perm [OF assms(1) perm] by (simp add: all_moved_snoc)
  show "moves_ok ?M" using moves_ok_perm [OF perm assms(1)] by (rule moves_ok_prefix)
  have "distinct M" using assms(1) by (auto simp: moves_ok_def distinct_map)
  then show "apart a c \<and> apart a d \<and> apart b c \<and> apart b d" if "(c, d) \<in> set ?M"
    using moves_okD(2) [OF assms, of c d] that by auto
  show "apart a b" by (rule moves_okD(1) [OF assms])
qed

definition targets_free :: "(string \<times> string) list \<Rightarrow> tree \<Rightarrow> bool" where
  "targets_free M t \<longleftrightarrow> moves_ok M \<and> distinct (map fst t) \<and> (\<forall>(a, b) \<in> set M. \<not> tree_has t b)"

lemma targets_free_Cons:
  assumes "targets_free ((a, b) # M) t"
  shows "targets_free M (move_path a b t)" "\<not> tree_has t b" "apart a b" "distinct (map fst t)"
    "(c, d) \<in> set M \<Longrightarrow> apart a c \<and> apart a d \<and> apart b c \<and> apart b d"
proof -
  have ok: "moves_ok ((a, b) # M)" using assms by (simp add: targets_free_def)
  show free: "\<not> tree_has t b" and d: "distinct (map fst t)" using assms by (auto simp: targets_free_def)
  show "apart a b" using moves_okD(1) [OF ok] by simp
  have "distinct (map fst ((a, b) # M))" using ok unfolding moves_ok_def distinct_append by blast
  then have notin: "(a, b) \<notin> set M" by force
  show other: "apart a c \<and> apart a d \<and> apart b c \<and> apart b d" if "(c, d) \<in> set M" for c d
    using moves_okD(2) [OF ok, of a b c d] that notin by auto
  have "tree_has (move_path a b t) d = tree_has t d" if "(c, d) \<in> set M" for c d
    using tree_has_moved_other [of d a b] other [OF that] by (simp add: apart_sym)
  then show "targets_free M (move_path a b t)"
    using assms moves_ok_remove [OF ok] distinct_move [OF d free] by (auto simp: targets_free_def)
qed

lemma distinct_all_moved: "targets_free M t \<Longrightarrow> distinct (map fst (all_moved M t))"
proof (induction M arbitrary: t)
  case Nil
  then show ?case by (simp add: targets_free_def)
next
  case (Cons m M)
  then show ?case using targets_free_Cons(1) by (cases m) auto
qed

lemma lookup_outside:
  "targets_free M t \<Longrightarrow> \<forall>(a, b) \<in> set M. \<not> in_dir a p \<and> \<not> in_dir b p \<Longrightarrow> map_of (all_moved M t) p = map_of t p"
proof (induction M arbitrary: t)
  case (Cons m M)
  obtain a b where m: "m = (a, b)" by force
  note f = targets_free_Cons [OF Cons.prems(1) [unfolded m]]
  show ?case
    using Cons.IH [OF f(1)] Cons.prems(2) map_of_move_path [OF f(4,2) apart_none [OF f(3)], of p] m by simp
qed simp

lemma lookup_moved:
  assumes "targets_free M t" "(a, b) \<in> set M" "in_dir a p"
  shows "map_of (all_moved M t) (moved_name a b p) = map_of t p" "map_of (all_moved M t) p = None"
proof -
  have ok: "moves_ok M" and d: "distinct (map fst t)" and free: "\<not> tree_has t b"
    using assms(1,2) by (auto simp: targets_free_def)
  let ?M = "remove1 (a, b) M"
  note l = moves_ok_last [OF ok assms(2)]
  have M: "targets_free ?M t" using assms(1) l(2) set_remove1_subset [of "(a, b)" M] by (fastforce simp: targets_free_def)
  have free': "\<not> tree_has (all_moved ?M t) b"
    using tree_has_all_moved [of ?M b t] l(3) free by blast
  have q: "in_dir b (moved_name a b p)" "moved_name b a (moved_name a b p) = p" using moved_in [OF assms(3)] by auto
  have "map_of (all_moved ?M t) p = map_of t p"
    by (rule lookup_outside [OF M]) (use l(3) apart_paths [OF _ assms(3)] in blast)
  then show "map_of (all_moved M t) (moved_name a b p) = map_of t p"
    using map_of_move_path [OF distinct_all_moved [OF M] free' apart_none [OF l(4)]] q l(1) by simp
  show "map_of (all_moved M t) p = None"
    using map_of_move_path [OF distinct_all_moved [OF M] free' apart_none [OF l(4)], of p] apart_paths [OF l(4) assms(3)]
      assms(3) l(1) by simp
qed

end
