(* ===== verification/Daemon_Cards.thy ===== *)
theory Daemon_Cards
  imports Daemon_Labels Daemon_Moves "HOL-Library.Product_Lexorder"
begin

text \<open>
  The card handlers (\<^verbatim>\<open>card_handlers.rs\<close>): cards are created, discussed, updated, moved to the archive and back.
  A card is a directory with its metadata and its discussion; whether it is archived is told by where the
  directory lies.  Only sending a message takes the commit lock.  The other handlers read, check and write
  without it, so their checks see \<open>s0\<close> and their writes start from \<open>s\<close>, which another request may have
  changed; a run without interference has \<open>s0 = s\<close>.
\<close>

subsection \<open>Locations\<close>

definition active_card_rel :: "string \<Rightarrow> string \<Rightarrow> string" where
  "active_card_rel channel card_id = ''channels/'' @ channel @ ''/cards/'' @ card_id"

definition archived_card_rel :: "string \<Rightarrow> string \<Rightarrow> string" where
  "archived_card_rel channel card_id = ''archive/channels/'' @ channel @ ''/cards/'' @ card_id"

definition card_meta_file :: "string \<Rightarrow> string" where
  "card_meta_file d = d @ ''/card.meta.yaml''"

definition card_thread_file :: "string \<Rightarrow> string" where
  "card_thread_file d = d @ ''/discussion.thread''"

record located_card =
  lc_rel_path :: string
  lc_is_archived :: bool

definition locate_card :: "app_state \<Rightarrow> string \<Rightarrow> string \<Rightarrow> located_card option" where
  "locate_card s channel card_id =
     (let active_rel = active_card_rel channel card_id;
          archived_rel = archived_card_rel channel card_id;
          active_exists = path_exists s (card_meta_file active_rel);
          archived_exists = path_exists s (card_meta_file archived_rel) in
      if active_exists \<and> archived_exists then Some \<lparr>lc_rel_path = active_rel, lc_is_archived = False\<rparr>
      else if active_exists then Some \<lparr>lc_rel_path = active_rel, lc_is_archived = False\<rparr>
      else if archived_exists then Some \<lparr>lc_rel_path = archived_rel, lc_is_archived = True\<rparr>
      else None)"

text \<open>The time stamp and the random digits of \<^verbatim>\<open>generate_card_id\<close>.\<close>

definition generate_card_id :: "string \<Rightarrow> string \<Rightarrow> string" where
  "generate_card_id ts rand_hex = ts @ ''-'' @ rand_hex"

definition channel_thread_exists :: "app_state \<Rightarrow> string \<Rightarrow> bool" where
  "channel_thread_exists s channel = path_exists s (channel_thread_path channel)"

definition ensure_known_card_user :: "app_state \<Rightarrow> string \<Rightarrow> daemon_error + unit" where
  "ensure_known_card_user s handler = fail_if (handler \<notin> set (st_users s)) (ErrUnknownUser handler)"

definition read_card_meta :: "env \<Rightarrow> app_state \<Rightarrow> string \<Rightarrow> string \<Rightarrow> daemon_error + card_meta" where
  "read_card_meta V s card_id rel =
     (case read_file V s (card_meta_file rel) of
        Inl _ \<Rightarrow> Inl (ErrCard card_id)
      | Inr c \<Rightarrow> ok_or (ErrParseMeta ''card meta'') (en_card_read V c))"

subsection \<open>Creating\<close>

definition parse_status :: "string option \<Rightarrow> daemon_error + card_status option" where
  "parse_status status =
     (case status of
        None \<Rightarrow> Inr None
      | Some t \<Rightarrow> andThen (map_err ErrCardInvalid (card_status_parse t)) (\<lambda>v. Inr (Some v)))"

definition check_assignee :: "app_state \<Rightarrow> string option \<Rightarrow> daemon_error + unit" where
  "check_assignee s assignee = (case assignee of None \<Rightarrow> Inr () | Some a \<Rightarrow> ensure_known_card_user s a)"

definition create_card_checks ::
  "env \<Rightarrow> app_state \<Rightarrow> string \<Rightarrow> string \<Rightarrow> string list option \<Rightarrow> string option \<Rightarrow> string option \<Rightarrow> string \<Rightarrow>
   daemon_error + channel_name \<times> card_meta" where
  "create_card_checks V s channel title labels assignee status author =
     andThen (ensure_author_not_departed s author) (\<lambda>_.
     andThen (ensure_known_card_user s author) (\<lambda>_.
     andThen (map_err ErrInvalidChannel (channel_name_new channel)) (\<lambda>ch_name.
     andThen (fail_if (\<not> channel_thread_exists s (channel_str ch_name)) (ErrNoChannel channel)) (\<lambda>_.
     andThen (fail_if (trim title = []) (ErrCardInvalid CardEmptyTitle)) (\<lambda>_.
     let labels_vec = (case labels of Some ls \<Rightarrow> ls | None \<Rightarrow> []) in
     andThen (map_err ErrLabels (validate_labels labels_vec card_max_labels)) (\<lambda>_.
     andThen (parse_status status) (\<lambda>st.
     andThen (check_assignee s assignee) (\<lambda>_.
       Inr (ch_name,
            \<lparr>card_title = title, card_channel = channel_str ch_name,
             card_status = (case st of Some v \<Rightarrow> v | None \<Rightarrow> Todo), card_labels = labels_vec,
             card_assignee = assignee, card_created_by = author, card_created_at = en_now V,
             card_updated_at = en_now V, card_archived_via = None\<rparr>)))))))))"

record create_card_response =
  ccr_channel :: string
  ccr_card_id :: string
  ccr_title :: string
  ccr_ref :: string
  ccr_suggested_assignees :: "string list"

text \<open>\<open>card_id\<close> is the generated identifier.\<close>

definition handle_create_card ::
  "env \<Rightarrow> app_state \<Rightarrow> string \<Rightarrow> string \<Rightarrow> string \<Rightarrow> string list option \<Rightarrow> string option \<Rightarrow> string option \<Rightarrow> string \<Rightarrow>
   app_state \<Rightarrow> create_card_response outcome" where
  "handle_create_card V s0 card_id channel title labels assignee status author s =
     (case create_card_checks V s0 channel title labels assignee status author of
        Inl e \<Rightarrow> (Inl e, s)
      | Inr (ch_name, meta) \<Rightarrow>
          (let rel = active_card_rel (channel_str ch_name) card_id in
           case make_dir V ''failed to create card dir'' rel of
             Inl e \<Rightarrow> (Inl e, s)
           | Inr _ \<Rightarrow>
          (case en_card_write V meta of
             None \<Rightarrow> (Inl (ErrYaml ''card meta''), s)
           | Some meta_str \<Rightarrow>
          (case write_file V ''failed to write card meta'' (card_meta_file rel) meta_str s of
             (Inl e, s1) \<Rightarrow> (Inl e, s1)
           | (Inr _, s1) \<Rightarrow>
          (case write_file V ''failed to write card thread'' (card_thread_file rel) [] s1 of
             (Inl e, s2) \<Rightarrow> (Inl e, s2)
           | (Inr _, s2) \<Rightarrow>
          (case add_and_commit_as V [card_meta_file rel, card_thread_file rel]
                  (''card: create '' @ card_id @ '' in '' @ channel @ '' by @'' @ author) author s2 of
             (Inl e, s3) \<Rightarrow> (Inl (ErrGit ''create_card commit failed'' e), s3)
           | (Inr _, s3) \<Rightarrow>
          (case push_with_retry V ''create_card'' s3 of
             (Inl e, s4) \<Rightarrow> (Inl e, s4)
           | (Inr _, s4) \<Rightarrow>
               (let s5 = send_event (CardCreated (channel_str ch_name) card_id) s4 in
                (Inr \<lparr>ccr_channel = channel_str ch_name, ccr_card_id = card_id, ccr_title = title,
                      ccr_ref = ''<#'' @ channel_str ch_name @ ''/'' @ card_id @ ''>'',
                      ccr_suggested_assignees = compute_suggested_assignees V s5 (card_labels meta)\<rparr>,
                 s5)))))))))"

subsection \<open>Moving to the archive and back\<close>

definition is_card_owner :: "card_meta \<Rightarrow> string \<Rightarrow> bool" where
  "is_card_owner meta author \<longleftrightarrow> card_created_by meta = author \<or> card_assignee meta = Some author"

definition archive_card_checks ::
  "env \<Rightarrow> app_state \<Rightarrow> string \<Rightarrow> string \<Rightarrow> string \<Rightarrow> daemon_error + channel_name \<times> string \<times> card_meta" where
  "archive_card_checks V s channel card_id author =
     andThen (ensure_author_not_departed s author) (\<lambda>_.
     andThen (ensure_known_card_user s author) (\<lambda>_.
     andThen (map_err ErrInvalidChannel (channel_name_new channel)) (\<lambda>ch_name.
     andThen (map_err ErrCardInvalid (validate_card_id card_id)) (\<lambda>_.
     andThen (ok_or (ErrCard card_id) (locate_card s (channel_str ch_name) card_id)) (\<lambda>located.
     andThen (fail_if (lc_is_archived located) (ErrAlreadyArchived card_id)) (\<lambda>_.
     andThen (read_card_meta V s card_id (lc_rel_path located)) (\<lambda>meta.
     andThen (fail_if (\<not> is_card_owner meta author) ErrNotCardOwner) (\<lambda>_.
       Inr (ch_name, lc_rel_path located, meta\<lparr>card_archived_via := Some ViaManual\<rparr>)))))))))"

definition unarchive_card_checks ::
  "env \<Rightarrow> app_state \<Rightarrow> string \<Rightarrow> string \<Rightarrow> string \<Rightarrow> daemon_error + channel_name \<times> string \<times> card_meta" where
  "unarchive_card_checks V s channel card_id author =
     andThen (ensure_known_card_user s author) (\<lambda>_.
     andThen (map_err ErrInvalidChannel (channel_name_new channel)) (\<lambda>ch_name.
     andThen (map_err ErrCardInvalid (validate_card_id card_id)) (\<lambda>_.
     andThen (ok_or (ErrCard card_id) (locate_card s (channel_str ch_name) card_id)) (\<lambda>located.
     andThen (fail_if (\<not> lc_is_archived located) (ErrCardNotArchived card_id)) (\<lambda>_.
     andThen (fail_if (\<not> channel_thread_exists s (channel_str ch_name)) (ErrNoChannel channel)) (\<lambda>_.
     andThen (read_card_meta V s card_id (lc_rel_path located)) (\<lambda>meta.
     andThen (fail_if (\<not> is_card_owner meta author) ErrNotCardOwner) (\<lambda>_.
       Inr (ch_name, lc_rel_path located, meta\<lparr>card_archived_via := None\<rparr>)))))))))"

text \<open>The part the two handlers share: rewrite the metadata, move the directory, commit; a failure after the
  rewrite moves the directory back and checks the metadata out.\<close>

definition relocate_card ::
  "env \<Rightarrow> string \<Rightarrow> string \<Rightarrow> string \<Rightarrow> string \<Rightarrow> string \<Rightarrow> string \<Rightarrow> card_meta \<Rightarrow> app_state \<Rightarrow> unit outcome" where
  "relocate_card V op mkdir_context from_rel to_rel message author meta s =
     (case en_card_write V meta of
        None \<Rightarrow> (Inl (ErrYaml ''card meta''), s)
      | Some yaml \<Rightarrow>
     (case write_file V ''failed to write card meta'' (card_meta_file from_rel) yaml s of
        (Inl e, s1) \<Rightarrow> (Inl e, s1)
      | (Inr _, s1) \<Rightarrow>
     (case make_dir V mkdir_context (parent_dir to_rel) of
        Inl e \<Rightarrow> (Inl e, restore_card_yaml V (card_meta_file from_rel) s1)
      | Inr _ \<Rightarrow>
     (case git_mv V from_rel to_rel s1 of
        (Inl e, s2) \<Rightarrow> (Inl (ErrGit ''git mv failed'' e), restore_card_yaml V (card_meta_file from_rel) s2)
      | (Inr _, s2) \<Rightarrow>
     (case add_and_commit_as V [card_meta_file to_rel, card_thread_file to_rel] message author s2 of
        (Inl e, s3) \<Rightarrow>
          (Inl (ErrGit (op @ '' commit failed'') e),
           restore_card_yaml V (card_meta_file from_rel) (undo_move V (from_rel, to_rel) s3))
      | (Inr _, s3) \<Rightarrow> push_with_retry V op s3)))))"

definition handle_archive_card ::
  "env \<Rightarrow> app_state \<Rightarrow> string \<Rightarrow> string \<Rightarrow> string \<Rightarrow> app_state \<Rightarrow> unit outcome" where
  "handle_archive_card V s0 channel card_id author s =
     (case archive_card_checks V s0 channel card_id author of
        Inl e \<Rightarrow> (Inl e, s)
      | Inr (ch_name, from_rel, meta) \<Rightarrow>
          (case relocate_card V ''archive_card'' ''failed to create archive dir'' from_rel
                  (archived_card_rel (channel_str ch_name) card_id)
                  (''card: archive '' @ card_id @ '' in '' @ channel @ '' by @'' @ author) author meta s of
             (Inl e, s1) \<Rightarrow> (Inl e, s1)
           | (Inr _, s1) \<Rightarrow> (Inr (), send_event (CardArchived (channel_str ch_name) card_id author) s1)))"

definition handle_unarchive_card ::
  "env \<Rightarrow> app_state \<Rightarrow> string \<Rightarrow> string \<Rightarrow> string \<Rightarrow> app_state \<Rightarrow> unit outcome" where
  "handle_unarchive_card V s0 channel card_id author s =
     (case unarchive_card_checks V s0 channel card_id author of
        Inl e \<Rightarrow> (Inl e, s)
      | Inr (ch_name, from_rel, meta) \<Rightarrow>
          (case relocate_card V ''unarchive_card'' ''failed to create cards dir'' from_rel
                  (active_card_rel (channel_str ch_name) card_id)
                  (''card: unarchive '' @ card_id @ '' in '' @ channel @ '' by @'' @ author) author meta s of
             (Inl e, s1) \<Rightarrow> (Inl e, s1)
           | (Inr _, s1) \<Rightarrow> (Inr (), send_event (CardUnarchived (channel_str ch_name) card_id author) s1)))"
subsection \<open>Listing and reading\<close>

record card_summary =
  cs_card_id :: string
  cs_channel :: string
  cs_title :: string
  cs_status :: string
  cs_labels :: "string list"
  cs_assignee :: "string option"
  cs_created_by :: string
  cs_created_at :: string
  cs_updated_at :: string

definition card_summary_of :: "string \<Rightarrow> card_meta \<Rightarrow> card_summary" where
  "card_summary_of card_id meta =
     \<lparr>cs_card_id = card_id, cs_channel = card_channel meta, cs_title = card_title meta,
      cs_status = card_status_str (card_status meta), cs_labels = card_labels meta, cs_assignee = card_assignee meta,
      cs_created_by = card_created_by meta, cs_created_at = card_created_at meta, cs_updated_at = card_updated_at meta\<rparr>"

definition is_dir :: "app_state \<Rightarrow> string \<Rightarrow> bool" where
  "is_dir s d \<longleftrightarrow> list_ex (\<lambda>(q, _). below d q) (st_tree s)"

text \<open>The subdirectories of a directory; one that cannot be listed counts as empty.\<close>

definition sub_dirs :: "env \<Rightarrow> app_state \<Rightarrow> string \<Rightarrow> string list" where
  "sub_dirs V s d =
     (case en_io V (IoRead d) of
        Some _ \<Rightarrow> []
      | None \<Rightarrow> filter (\<lambda>n. is_dir s (d @ ''/'' @ n)) (read_dir V s d))"

definition channels_to_scan :: "env \<Rightarrow> app_state \<Rightarrow> string \<Rightarrow> string option \<Rightarrow> daemon_error + string list" where
  "channels_to_scan V s root channel =
     (case channel of
        Some c \<Rightarrow> andThen (map_err ErrInvalidChannel (channel_name_new c)) (\<lambda>name. Inr [channel_str name])
      | None \<Rightarrow> Inr (sub_dirs V s root))"

definition card_entry :: "env \<Rightarrow> app_state \<Rightarrow> (card_meta \<Rightarrow> bool) \<Rightarrow> string \<Rightarrow> string \<Rightarrow> card_summary option" where
  "card_entry V s keep cards_dir name =
     (case read_file V s (card_meta_file (cards_dir @ ''/'' @ name)) of
        Inl _ \<Rightarrow> None
      | Inr content \<Rightarrow>
          (case en_card_read V content of
             None \<Rightarrow> None
           | Some meta \<Rightarrow> if keep meta then Some (card_summary_of name meta) else None))"

definition scan_cards :: "env \<Rightarrow> app_state \<Rightarrow> (card_meta \<Rightarrow> bool) \<Rightarrow> string \<Rightarrow> string list \<Rightarrow> card_summary list" where
  "scan_cards V s keep root channels =
     sort_key (\<lambda>c. (cs_channel c, cs_card_id c))
       (concat (map (\<lambda>ch. let cards_dir = root @ ''/'' @ ch @ ''/cards'' in
                            if \<not> path_exists s cards_dir then []
                            else List.map_filter (card_entry V s keep cards_dir) (sub_dirs V s cards_dir))
          channels))"

definition card_filter ::
  "card_status option \<Rightarrow> string list \<Rightarrow> string option \<Rightarrow> card_meta \<Rightarrow> bool" where
  "card_filter status_filter label_filter assignee meta \<longleftrightarrow>
     (case status_filter of Some st \<Rightarrow> card_status meta = st | None \<Rightarrow> True)
     \<and> list_all (\<lambda>l. l \<in> set (card_labels meta)) label_filter
     \<and> (case assignee of Some a \<Rightarrow> card_assignee meta = Some a | None \<Rightarrow> True)"

definition handle_list_cards ::
  "env \<Rightarrow> app_state \<Rightarrow> string option \<Rightarrow> string list option \<Rightarrow> string option \<Rightarrow> string option \<Rightarrow>
   daemon_error + card_summary list" where
  "handle_list_cards V s channel labels status assignee =
     andThen (parse_status status) (\<lambda>status_filter.
     andThen (channels_to_scan V s ''channels'' channel) (\<lambda>channels.
       Inr (scan_cards V s
              (card_filter status_filter (case labels of Some ls \<Rightarrow> ls | None \<Rightarrow> []) assignee) ''channels'' channels)))"

definition handle_list_archived_cards :: "env \<Rightarrow> app_state \<Rightarrow> string option \<Rightarrow> daemon_error + card_summary list" where
  "handle_list_archived_cards V s channel =
     andThen (channels_to_scan V s ''archive/channels'' channel) (\<lambda>channels.
       Inr (scan_cards V s (\<lambda>_. True) ''archive/channels'' channels))"

record read_card_response =
  rcr_channel :: string
  rcr_card_id :: string
  rcr_archived :: bool
  rcr_meta :: card_meta
  rcr_entries :: "thread_entry list"

definition handle_read_card ::
  "env \<Rightarrow> app_state \<Rightarrow> string \<Rightarrow> string \<Rightarrow> nat option \<Rightarrow> nat option \<Rightarrow> daemon_error + read_card_response" where
  "handle_read_card V s channel card_id limit since =
     andThen (map_err ErrInvalidChannel (channel_name_new channel)) (\<lambda>ch_name.
     andThen (map_err ErrCardInvalid (validate_card_id card_id)) (\<lambda>_.
     andThen (ok_or (ErrCard card_id) (locate_card s (channel_str ch_name) card_id)) (\<lambda>located.
     andThen (read_card_meta V s card_id (lc_rel_path located)) (\<lambda>meta.
     andThen (map_err ErrParseThread
               (read_thread_entries (en_ext V) (read_or_default V s (card_thread_file (lc_rel_path located))) limit since))
       (\<lambda>es. Inr \<lparr>rcr_channel = channel_str ch_name, rcr_card_id = card_id, rcr_archived = lc_is_archived located,
                    rcr_meta = meta, rcr_entries = es\<rparr>)))))"

subsection \<open>Discussing and updating\<close>

definition card_message_checks ::
  "app_state \<Rightarrow> string \<Rightarrow> string \<Rightarrow> string \<Rightarrow> daemon_error + handler \<times> channel_name \<times> string" where
  "card_message_checks s channel card_id author =
     andThen (map_err ErrInvalidAuthor (handler_new author)) (\<lambda>handler.
     andThen (ensure_author_not_departed s author) (\<lambda>_.
     andThen (ensure_known_card_user s author) (\<lambda>_.
     andThen (map_err ErrInvalidChannel (channel_name_new channel)) (\<lambda>ch_name.
     andThen (map_err ErrCardInvalid (validate_card_id card_id)) (\<lambda>_.
     andThen (ok_or (ErrCard card_id) (locate_card s (channel_str ch_name) card_id)) (\<lambda>located.
     andThen (fail_if (lc_is_archived located) (ErrCardArchived card_id)) (\<lambda>_.
       Inr (handler, ch_name, lc_rel_path located))))))))"

definition handle_send_card_message ::
  "env \<Rightarrow> app_state \<Rightarrow> string \<Rightarrow> string \<Rightarrow> string \<Rightarrow> nat option \<Rightarrow> string \<Rightarrow> app_state \<Rightarrow> response outcome" where
  "handle_send_card_message V s0 channel card_id body reply_to author s =
     (case card_message_checks s0 channel card_id author of
        Inl e \<Rightarrow> (Inl e, s)
      | Inr (handler, ch_name, rel) \<Rightarrow>
          (let existing = read_or_default V s (card_thread_file rel) in
           case append_message_to_thread (en_ext V) existing handler (en_now V) body reply_to of
             Inl e \<Rightarrow> (Inl (ErrParseThread e), s)
           | Inr (next_line, content) \<Rightarrow>
               (case append_file V (card_thread_file rel) (drop (length existing) content) s of
                  (Inl e, s1) \<Rightarrow> (Inl e, s1)
                | (Inr _, s1) \<Rightarrow>
                    (let ((status, commit_id), s2) =
                           commit_message V (card_thread_file rel)
                             (''card-msg: @'' @ author @ '' -> '' @ channel_str ch_name @ ''/'' @ card_id @ '' ''
                               @ line_label next_line)
                             rel next_line author s1;
                         s3 = send_event (CardMessageAppended (channel_str ch_name) card_id [next_line]) s2
                     in (Inr (SendResponse next_line (channel_str ch_name @ ''/'' @ card_id) status commit_id),
                         schedule_sync s3)))))"

definition update_card_checks ::
  "env \<Rightarrow> app_state \<Rightarrow> string \<Rightarrow> string \<Rightarrow> string option \<Rightarrow> string list option \<Rightarrow> string option \<Rightarrow> string \<Rightarrow>
   daemon_error + channel_name \<times> string \<times> card_status \<times> card_meta" where
  "update_card_checks V s channel card_id status labels assignee author =
     andThen (ensure_author_not_departed s author) (\<lambda>_.
     andThen (ensure_known_card_user s author) (\<lambda>_.
     andThen (map_err ErrInvalidChannel (channel_name_new channel)) (\<lambda>ch_name.
     andThen (map_err ErrCardInvalid (validate_card_id card_id)) (\<lambda>_.
     andThen (fail_if (status = None \<and> labels = None \<and> assignee = None) ErrNoFields) (\<lambda>_.
     andThen (ok_or (ErrCard card_id) (locate_card s (channel_str ch_name) card_id)) (\<lambda>located.
     andThen (fail_if (lc_is_archived located) (ErrCardArchived card_id)) (\<lambda>_.
     andThen (read_card_meta V s card_id (lc_rel_path located)) (\<lambda>meta.
     andThen (parse_status status) (\<lambda>st.
     andThen (case labels of None \<Rightarrow> Inr () | Some ls \<Rightarrow> map_err ErrLabels (validate_labels ls card_max_labels)) (\<lambda>_.
     andThen (check_assignee s assignee) (\<lambda>_.
       Inr (ch_name, lc_rel_path located, card_status meta,
            meta\<lparr>card_status := (case st of Some v \<Rightarrow> v | None \<Rightarrow> card_status meta),
                 card_labels := (case labels of Some ls \<Rightarrow> ls | None \<Rightarrow> card_labels meta),
                 card_assignee := (case assignee of Some a \<Rightarrow> Some a | None \<Rightarrow> card_assignee meta),
                 card_updated_at := en_now V\<rparr>))))))))))))"

definition handle_update_card ::
  "env \<Rightarrow> app_state \<Rightarrow> string \<Rightarrow> string \<Rightarrow> string option \<Rightarrow> string list option \<Rightarrow> string option \<Rightarrow> string \<Rightarrow>
   app_state \<Rightarrow> card_meta outcome" where
  "handle_update_card V s0 channel card_id status labels assignee author s =
     (case update_card_checks V s0 channel card_id status labels assignee author of
        Inl e \<Rightarrow> (Inl e, s)
      | Inr (ch_name, rel, old_status, meta) \<Rightarrow>
          (case en_card_write V meta of
             None \<Rightarrow> (Inl (ErrYaml ''card meta''), s)
           | Some meta_str \<Rightarrow>
          (case write_file V ''failed to write card meta'' (card_meta_file rel) meta_str s of
             (Inl e, s1) \<Rightarrow> (Inl e, s1)
           | (Inr _, s1) \<Rightarrow>
          (case add_and_commit_as V [card_meta_file rel]
                  (''card: update '' @ card_id @ '' in '' @ channel @ '' by @'' @ author) author s1 of
             (Inl e, s2) \<Rightarrow> (Inl (ErrGit ''update_card commit failed'' e), s2)
           | (Inr _, s2) \<Rightarrow>
          (case push_with_retry V ''update_card'' s2 of
             (Inl e, s3) \<Rightarrow> (Inl e, s3)
           | (Inr _, s3) \<Rightarrow>
               (Inr meta,
                if status \<noteq> None \<and> old_status \<noteq> card_status meta
                then send_event (CardStatusChanged (channel_str ch_name) card_id (card_status_str old_status)
                                   (card_status_str (card_status meta)) author) s3
                else s3))))))"

subsection \<open>Moving a card is all or nothing\<close>

lemma relocate_card_effect:
  assumes env: "git_ok V" "undo_ok V (\<lambda>p. p = to)" "no_rebase V" "head_holds V {card_meta_file from} (st_tree s)"
    and tree: "distinct (map fst (st_tree s))" "map_of (st_tree s) (card_meta_file from) \<noteq> None"
      "\<not> tree_has (st_tree s) to" "apart from to"
    and run: "relocate_card V op ctx from to msg author meta s = (r, s')"
  shows "s' = s \<and> (\<exists>e. r = Inl e)
    \<or> (\<exists>y. en_card_write V meta = Some y
          \<and> st_tree s' = move_path from to (AList.update (card_meta_file from) y (st_tree s)))
      \<and> st_users s' = st_users s \<and> length (st_commits s') = Suc (length (st_commits s))"
proof (cases "en_card_write V meta")
  case None
  then show ?thesis using run by (auto simp: relocate_card_def)
next
  case (Some y)
  let ?p = "card_meta_file from"
  obtain r1 s1 where w: "write_file V ''failed to write card meta'' ?p y s = (r1, s1)" by force
  from write_file_frame [OF w] consider (bad) "\<exists>e. r1 = Inl e" "s1 = s" | (ok) "r1 = Inr ()" "s1 = put_file ?p y s" by auto
  then show ?thesis
  proof cases
    case bad
    then show ?thesis using run Some w by (auto simp: relocate_card_def)
  next
    case ok
    let ?t = "AList.update ?p y (st_tree s)"
    have s1: "s1 = s\<lparr>st_tree := ?t\<rparr>" using ok by (simp add: put_file_def)
    have rw: "rewritten {?p} (st_tree s) ?t" using rewritten_update [OF rewritten_refl tree(2), of "{}"] by simp
    have restored: "restore_card_yaml V ?p (s\<lparr>st_tree := ?t\<rparr>) = s"
      using restore_all [OF env(4), of "[?p]" "{?p}" "s\<lparr>st_tree := ?t\<rparr>"] tree(1,2) rw by simp
    have plan: "move_plan (\<lambda>p. p = to) ([] @ [(from, to)]) ?t" "all_movable (\<lambda>p. p = to) [] ?t"
      using tree(3,4) rewritten_has [OF rw] by (auto simp: move_plan_def all_movable_def moves_ok_def apart_def in_dir_def)
    obtain r2 s2 where g: "git_mv V from to s1 = (r2, s2)" by force
    show ?thesis
    proof (cases "make_dir V ctx (parent_dir to)")
      case (Inl e)
      then show ?thesis
        using run [unfolded relocate_card_def Some option.case w ok(1) prod.case sum.case Inl] restored s1 by (metis Pair_inject)
    next
      case (Inr u)
      note step = run [unfolded relocate_card_def Some option.case w ok(1) prod.case sum.case Inr g]
      have "git_mv V from to (s\<lparr>st_tree := all_moved [] ?t\<rparr>) = (r2, s2)" using g s1 by simp
      from git_mv_planned [OF env(1) plan this] consider
        (stay) "\<exists>e. r2 = Inl e" "s2 = s\<lparr>st_tree := ?t\<rparr>"
        | (moved) "r2 = Inr ()" "s2 = s\<lparr>st_tree := all_moved [(from, to)] ?t\<rparr>" "all_movable (\<lambda>p. p = to) [(from, to)] ?t"
        by auto
      then show ?thesis
      proof cases
        case stay
        then show ?thesis using step restored by auto
      next
        case moved
        obtain r3 s3 where c: "add_and_commit_as V [card_meta_file to, card_thread_file to] msg author s2 = (r3, s3)" by force
        obtain r4 s4 where q: "push_with_retry V op s3 = (r4, s4)" by force
        show ?thesis
        proof (cases r3)
          case (Inl e)
          then have "s3 = s2" using add_and_commit_frame [OF c] by simp
          then have "undo_move V (from, to) s3 = s\<lparr>st_tree := ?t\<rparr>"
            using undo_all [OF env(1,2) moved(3), of "[(from, to)]"] moved(2) by simp
          then show ?thesis using step moved(1) c Inl restored by auto
        next
          case (Inr u')
          have "s' = s3" using step moved(1) c Inr q push_frame [OF env(3) q] by auto
          then show ?thesis using add_and_commit_frame [OF c] Inr moved(2) Some by simp
        qed
      qed
    qed
  qed
qed

lemma relocate_card_success:
  assumes "git_ok V" "no_rebase V" "map_of (st_tree s) (card_meta_file from) \<noteq> None" "\<not> tree_has (st_tree s) to"
    and run: "relocate_card V op ctx from to msg author meta s = (Inr u, s')"
  shows "\<exists>y. en_card_write V meta = Some y
      \<and> st_tree s' = move_path from to (AList.update (card_meta_file from) y (st_tree s))"
    and "st_users s' = st_users s"
proof -
  obtain y where y: "en_card_write V meta = Some y" using run by (auto simp: relocate_card_def split: option.splits)
  let ?p = "card_meta_file from"
  obtain r1 s1 where w: "write_file V ''failed to write card meta'' ?p y s = (r1, s1)" by force
  obtain r2 s2 where g: "git_mv V from to s1 = (r2, s2)" by force
  obtain r3 s3 where c: "add_and_commit_as V [card_meta_file to, card_thread_file to] msg author s2 = (r3, s3)" by force
  have ok: "r1 = Inr ()" "r2 = Inr ()" "push_with_retry V op s3 = (Inr u, s')"
    using run by (auto simp: relocate_card_def y w g c split: sum.splits)
  have s1: "s1 = put_file ?p y s" using write_file_frame [OF w] ok(1) by auto
  then have "\<not> tree_has (st_tree s1) to"
    using rewritten_has [OF rewritten_update [OF rewritten_refl assms(3), of "{}" y]] assms(4) by simp
  then have s2: "s2 = s1\<lparr>st_tree := move_path from to (st_tree s1)\<rparr>"
    using git_mv_frame [OF assms(1) g] ok(2) mv_target_free by auto
  have "s' = s3" by (rule push_frame [OF assms(2) ok(3)])
  then show "\<exists>y. en_card_write V meta = Some y
      \<and> st_tree s' = move_path from to (AList.update (card_meta_file from) y (st_tree s))"
    "st_users s' = st_users s"
    using add_and_commit_frame [OF c] s2 s1 y by auto
qed

lemma card_dirs_apart [simp]:
  "apart (active_card_rel ch i) (archived_card_rel ch' i')" "apart (archived_card_rel ch i) (active_card_rel ch' i')"
  by (auto simp: apart_def in_dir_def below_iff active_card_rel_def archived_card_rel_def)

lemma card_meta_in_dir [simp]: "in_dir d (card_meta_file d)" "in_dir d (card_thread_file d)"
  by (auto simp: in_dir_def below_iff card_meta_file_def card_thread_file_def)

lemma card_files_moved [simp]:
  "moved_name a b (card_meta_file a) = card_meta_file b" "moved_name a b (card_thread_file a) = card_thread_file b"
  by (simp_all add: card_meta_file_def card_thread_file_def)

lemma locate_cases:
  assumes "locate_card s ch i = Some l"
  shows "\<not> lc_is_archived l \<Longrightarrow> lc_rel_path l = active_card_rel ch i"
    and "lc_is_archived l \<Longrightarrow> lc_rel_path l = archived_card_rel ch i \<and> \<not> path_exists s (card_meta_file (active_card_rel ch i))"
  using assms by (auto simp: locate_card_def Let_def split: if_splits)

lemma read_card_metaD:
  assumes "read_card_meta V s i d = Inr m"
  shows "\<exists>c. map_of (st_tree s) (card_meta_file d) = Some c \<and> en_card_read V c = Some m
    \<and> en_io V (IoRead (card_meta_file d)) = None"
  using assms by (auto simp: read_card_meta_def read_file_def split: sum.splits option.splits)

lemma archive_checksD:
  assumes "archive_card_checks V s ch i a = Inr (n, d, m)"
  shows "channel_name_new ch = Inr n" "d = active_card_rel (channel_str n) i" "a \<in> set (st_users s)"
    "\<exists>m0. read_card_meta V s i d = Inr m0 \<and> m = m0\<lparr>card_archived_via := Some ViaManual\<rparr> \<and> is_card_owner m0 a"
    "validate_card_id i = Inr ()"
  using assms locate_cases(1)
  by (auto simp: archive_card_checks_def ensure_known_card_user_def)

lemma unarchive_checksD:
  assumes "unarchive_card_checks V s ch i a = Inr (n, d, m)"
  shows "channel_name_new ch = Inr n" "d = archived_card_rel (channel_str n) i" "a \<in> set (st_users s)"
    "\<exists>m0. read_card_meta V s i d = Inr m0 \<and> m = m0\<lparr>card_archived_via := None\<rparr> \<and> is_card_owner m0 a"
    "validate_card_id i = Inr ()" "\<not> path_exists s (card_meta_file (active_card_rel (channel_str n) i))"
  using assms locate_cases(2)
  by (auto simp: unarchive_card_checks_def ensure_known_card_user_def)

text \<open>The YAML library reads back what it wrote.\<close>

definition card_yaml_ok :: "env \<Rightarrow> bool" where
  "card_yaml_ok V \<longleftrightarrow> (\<forall>m y. en_card_write V m = Some y \<longrightarrow> en_card_read V y = Some m)"

text \<open>What moving a card does to the tree.\<close>

definition card_moved :: "string \<Rightarrow> string \<Rightarrow> string \<Rightarrow> tree \<Rightarrow> tree" where
  "card_moved from to y t = move_path from to (AList.update (card_meta_file from) y t)"

lemma card_moved_lookup:
  assumes "distinct (map fst t)" "\<not> tree_has t to" "apart from to" "map_of t (card_meta_file from) \<noteq> None"
  shows "map_of (card_moved from to y t) (card_meta_file to) = Some y"
    and "in_dir from q \<Longrightarrow> q \<noteq> card_meta_file from \<Longrightarrow> map_of (card_moved from to y t) (moved_name from to q) = map_of t q"
    and "in_dir from q \<Longrightarrow> map_of (card_moved from to y t) q = None"
    and "\<not> in_dir from q \<Longrightarrow> \<not> in_dir to q \<Longrightarrow> map_of (card_moved from to y t) q = map_of t q"
    and "distinct (map fst (card_moved from to y t))" "\<not> tree_has (card_moved from to y t) from"
proof -
  let ?t = "AList.update (card_meta_file from) y t"
  have keys: "map fst ?t = map fst t" by (rule map_fst_update [OF assms(4)])
  have d: "distinct (map fst ?t)" using assms(1) keys by simp
  have free: "\<not> tree_has ?t to"
    using rewritten_has [OF rewritten_update [OF rewritten_refl assms(4), of "{}" y]] assms(2) by simp
  note look = map_of_move_path [OF d free apart_none [OF assms(3)]]
  have returns: "moved_name to from (moved_name from to q) = q \<and> in_dir to (moved_name from to q)" if "in_dir from q" for q
    using moved_in that by blast
  show "map_of (card_moved from to y t) (card_meta_file to) = Some y"
    unfolding card_moved_def look by (simp add: update_conv')
  show "map_of (card_moved from to y t) (moved_name from to q) = map_of t q" if "in_dir from q" "q \<noteq> card_meta_file from"
    unfolding card_moved_def look using returns [OF that(1)] that(2) by (simp add: update_conv')
  show "map_of (card_moved from to y t) q = None" if "in_dir from q"
    unfolding card_moved_def look using apart_paths [OF assms(3) that] that by simp
  show "map_of (card_moved from to y t) q = map_of t q" if "\<not> in_dir from q" "\<not> in_dir to q"
    unfolding card_moved_def look using that by (auto simp: update_conv')
  show "distinct (map fst (card_moved from to y t))" unfolding card_moved_def by (rule distinct_move [OF d free])
  show "\<not> tree_has (card_moved from to y t) from"
    unfolding card_moved_def by (rule move_leaves_nothing [OF apart_none [OF assms(3)]])
qed

lemma card_moved_back:
  assumes "distinct (map fst t)" "\<not> tree_has t to" "map_of t (card_meta_file from) = Some c"
  shows "card_moved to from c (card_moved from to y t) = t"
proof -
  let ?t = "AList.update (card_meta_file from) y t"
  have free: "\<not> tree_has ?t to"
    using rewritten_has [OF rewritten_update [OF rewritten_refl, of t _ "{}" y]] assms(2,3) by simp
  have upd: "AList.update (card_meta_file to) c (move_path from to u) = move_path from to (AList.update (card_meta_file from) c u)"
    if "\<not> tree_has u to" for u
    using that
  proof (induction u)
    case (Cons x u)
    obtain k v where x: "x = (k, v)" by force
    have k: "\<not> in_dir to k" "\<not> tree_has u to" using Cons.prems by (auto simp: tree_has_in x)
    have "moved_name from to k = card_meta_file to \<longleftrightarrow> k = card_meta_file from"
    proof (cases "in_dir from k")
      case True
      then show ?thesis using moved_in [of "from" k to] by (metis card_files_moved(1))
    next
      case False
      then show ?thesis using k(1) by (metis card_meta_in_dir(1) moved_out)
    qed
    then show ?case using Cons.IH k by (simp add: move_path_def x)
  qed (simp add: move_path_def)
  have "AList.update (card_meta_file to) c (move_path from to ?t) = move_path from to (AList.update (card_meta_file from) c ?t)"
    by (rule upd [OF free])
  also have "AList.update (card_meta_file from) c ?t = t" using assms(3) by (simp add: update_same)
  finally show ?thesis unfolding card_moved_def using move_back [OF assms(2)] by simp
qed

lemma tree_has_card_moved:
  assumes "map_of t (card_meta_file from) \<noteq> None" "apart p from" "apart p to"
  shows "tree_has (card_moved from to y t) p \<longleftrightarrow> tree_has t p"
  using tree_has_moved_other [OF assms(2,3)] rewritten_has [OF rewritten_update [OF rewritten_refl assms(1), of "{}" y]]
  by (simp add: card_moved_def)

lemma channel_thread_apart [simp]:
  "apart (channel_thread_path ch) (active_card_rel ch i)" "apart (channel_thread_path ch) (archived_card_rel ch i)"
  by (auto simp: apart_def in_dir_def below_iff active_card_rel_def archived_card_rel_def channel_thread_path_def)

lemma archive_card_success:
  assumes "git_ok V" "no_rebase V" "\<not> tree_has (st_tree s) (archived_card_rel ch i)"
    and run: "handle_archive_card V s ch i a s = (Inr u, s1)"
  shows "\<exists>m0 y. read_card_meta V s i (active_card_rel ch i) = Inr m0 \<and> is_card_owner m0 a
      \<and> en_card_write V (m0\<lparr>card_archived_via := Some ViaManual\<rparr>) = Some y
      \<and> st_tree s1 = card_moved (active_card_rel ch i) (archived_card_rel ch i) y (st_tree s)
      \<and> st_users s1 = st_users s \<and> a \<in> set (st_users s) \<and> is_ok (channel_name_new ch) \<and> validate_card_id i = Inr ()"
proof -
  obtain n d m where chk: "archive_card_checks V s ch i a = Inr (n, d, m)"
    using run by (auto simp: handle_archive_card_def split: sum.splits)
  note c = archive_checksD [OF chk]
  have n: "channel_str n = ch" using c(1) by (auto simp: channel_name_new_Inr)
  obtain s2 where r: "relocate_card V ''archive_card'' ''failed to create archive dir'' d (archived_card_rel ch i)
      (''card: archive '' @ i @ '' in '' @ ch @ '' by @'' @ a) a m s = (Inr (), s2)"
    and s1: "s1 = send_event (CardArchived ch i a) s2"
    using run chk n by (auto simp: handle_archive_card_def split: sum.splits prod.splits)
  obtain m0 where m0: "read_card_meta V s i d = Inr m0" "m = m0\<lparr>card_archived_via := Some ViaManual\<rparr>" "is_card_owner m0 a"
    using c(4) by blast
  have present: "map_of (st_tree s) (card_meta_file d) \<noteq> None" using read_card_metaD [OF m0(1)] by auto
  show ?thesis
    using relocate_card_success [OF assms(1,2) present assms(3) r] m0 s1 c n by (auto simp: card_moved_def is_ok_iff)
qed

lemma unarchive_card_success:
  assumes "git_ok V" "no_rebase V" "\<not> tree_has (st_tree s) (active_card_rel ch i)"
    and run: "handle_unarchive_card V s ch i a s = (Inr u, s1)"
  shows "\<exists>m0 y. read_card_meta V s i (archived_card_rel ch i) = Inr m0 \<and> is_card_owner m0 a
      \<and> en_card_write V (m0\<lparr>card_archived_via := None\<rparr>) = Some y
      \<and> st_tree s1 = card_moved (archived_card_rel ch i) (active_card_rel ch i) y (st_tree s)
      \<and> st_users s1 = st_users s"
proof -
  obtain n d m where chk: "unarchive_card_checks V s ch i a = Inr (n, d, m)"
    using run by (auto simp: handle_unarchive_card_def split: sum.splits)
  note c = unarchive_checksD [OF chk]
  have n: "channel_str n = ch" using c(1) by (auto simp: channel_name_new_Inr)
  obtain s2 where r: "relocate_card V ''unarchive_card'' ''failed to create cards dir'' d (active_card_rel ch i)
      (''card: unarchive '' @ i @ '' in '' @ ch @ '' by @'' @ a) a m s = (Inr (), s2)"
    and s1: "s1 = send_event (CardUnarchived ch i a) s2"
    using run chk n by (auto simp: handle_unarchive_card_def split: sum.splits prod.splits)
  obtain m0 where m0: "read_card_meta V s i d = Inr m0" "m = m0\<lparr>card_archived_via := None\<rparr>" "is_card_owner m0 a"
    using c(4) by blast
  have present: "map_of (st_tree s) (card_meta_file d) \<noteq> None" using read_card_metaD [OF m0(1)] by auto
  show ?thesis
    using relocate_card_success [OF assms(1,2) present assms(3) r] m0 s1 c n by (auto simp: card_moved_def)
qed

text \<open>C14: Archiving a card and restoring it are inverse.  An archive request that succeeds came from the creator
  or the assignee, moved the whole directory, left every other file alone, and stamped the metadata; the
  discussion is read as before.  Nothing but a failure of the system stands in the way of restoring the card, and a
  restore that succeeds gives back exactly the tree before the archiving.\<close>

theorem card_archive_roundtrip:
  assumes env: "git_ok V" "no_rebase V" "card_yaml_ok V" "en_io V (IoRead (card_meta_file (archived_card_rel ch i))) = None"
    and tree: "distinct (map fst (st_tree s))" "\<not> tree_has (st_tree s) (archived_card_rel ch i)" "channel_thread_exists s ch"
    and card: "map_of (st_tree s) (card_meta_file (active_card_rel ch i)) = Some c" "en_card_write V m = Some c"
      "card_archived_via m = None"
    and run: "handle_archive_card V s ch i a s = (Inr (), s1)"
  shows "is_card_owner m a
    \<and> locate_card s1 ch i = Some \<lparr>lc_rel_path = archived_card_rel ch i, lc_is_archived = True\<rparr>
    \<and> read_card_meta V s1 i (archived_card_rel ch i) = Inr (m\<lparr>card_archived_via := Some ViaManual\<rparr>)
    \<and> map_of (st_tree s1) (card_thread_file (archived_card_rel ch i)) = map_of (st_tree s) (card_thread_file (active_card_rel ch i))
    \<and> (\<forall>p. \<not> in_dir (active_card_rel ch i) p \<and> \<not> in_dir (archived_card_rel ch i) p \<longrightarrow>
          map_of (st_tree s1) p = map_of (st_tree s) p)
    \<and> is_ok (unarchive_card_checks V s1 ch i a)
    \<and> (\<forall>s2. handle_unarchive_card V s1 ch i a s1 = (Inr (), s2) \<longrightarrow> st_tree s2 = st_tree s)"
proof -
  let ?A = "active_card_rel ch i" and ?Z = "archived_card_rel ch i"
  obtain m0 y where e: "read_card_meta V s i ?A = Inr m0" "is_card_owner m0 a"
      "en_card_write V (m0\<lparr>card_archived_via := Some ViaManual\<rparr>) = Some y" "st_tree s1 = card_moved ?A ?Z y (st_tree s)"
      "st_users s1 = st_users s" "a \<in> set (st_users s)" "is_ok (channel_name_new ch)" "validate_card_id i = Inr ()"
    using archive_card_success [OF env(1,2) tree(2) run] by blast
  have m0: "m0 = m"
    using read_card_metaD [OF e(1)] card(1,2) env(3) by (auto simp: card_yaml_ok_def)
  have present: "map_of (st_tree s) (card_meta_file ?A) \<noteq> None" using card(1) by simp
  note look = card_moved_lookup [OF tree(1,2) card_dirs_apart(1) present, where y = y, folded e(4)]
  have y: "en_card_read V y = Some (m\<lparr>card_archived_via := Some ViaManual\<rparr>)"
    using e(3) env(3) m0 by (auto simp: card_yaml_ok_def)
  have gone: "\<not> path_exists s1 (card_meta_file ?A)"
    using look(6) tree_has_below [of "st_tree s1" "card_meta_file ?A" ?A] by (auto simp: path_exists_tree)
  have loc: "locate_card s1 ch i = Some \<lparr>lc_rel_path = ?Z, lc_is_archived = True\<rparr>"
    using gone tree_has_file [of "st_tree s1"] look(1) by (simp add: locate_card_def path_exists_tree)
  have rd: "read_card_meta V s1 i ?Z = Inr (m\<lparr>card_archived_via := Some ViaManual\<rparr>)"
    using look(1) env(4) y by (simp add: read_card_meta_def read_file_def)
  have thr: "map_of (st_tree s1) (card_thread_file ?Z) = map_of (st_tree s) (card_thread_file ?A)"
    using look(2) [OF card_meta_in_dir(2)] by (simp add: card_thread_file_def card_meta_file_def)
  have chan: "channel_thread_exists s1 ch"
    using tree(3) tree_has_card_moved [OF present channel_thread_apart, where y = y] e(4)
    by (simp add: channel_thread_exists_def path_exists_tree)
  obtain n where n: "channel_name_new ch = Inr n" "channel_str n = ch"
    using e(7) by (auto simp: is_ok_iff channel_name_new_Inr)
  have "is_card_owner (m\<lparr>card_archived_via := Some ViaManual\<rparr>) a" using e(2) m0 by (simp add: is_card_owner_def)
  then have ok: "is_ok (unarchive_card_checks V s1 ch i a)"
    using rd loc chan n e(5,6,8) by (simp add: unarchive_card_checks_def ensure_known_card_user_def is_ok_iff)
  have restored: "st_tree s2 = st_tree s" if un: "handle_unarchive_card V s1 ch i a s1 = (Inr (), s2)" for s2
  proof -
    obtain m1 y1 where u: "read_card_meta V s1 i ?Z = Inr m1" "en_card_write V (m1\<lparr>card_archived_via := None\<rparr>) = Some y1"
        "st_tree s2 = card_moved ?Z ?A y1 (st_tree s1)"
      using unarchive_card_success [OF env(1,2) look(6) un] by blast
    have "m1\<lparr>card_archived_via := None\<rparr> = m" using rd u(1) card(3) by simp
    then have "y1 = c" using u(2) card(2) by simp
    then show ?thesis using u(3) e(4) card_moved_back [OF tree(1,2) card(1)] by simp
  qed
  show ?thesis using e(2) m0 loc rd thr look(4) ok restored by blast
qed

subsection \<open>Stored cards are well formed\<close>

abbreviation no_slash :: "string \<Rightarrow> bool" where
  "no_slash s \<equiv> CHR ''/'' \<notin> set s"

text \<open>What the metadata file of a card must hold: a card that can be read, is valid, names its channel, and is
  stamped as archived exactly when it lies in the archive.\<close>

definition card_good :: "(string \<Rightarrow> card_meta option) \<Rightarrow> string \<Rightarrow> string \<Rightarrow> bool" where
  "card_good R p c \<longleftrightarrow>
     (\<forall>ch i. no_slash ch \<and> no_slash i \<and>
        (p = card_meta_file (active_card_rel ch i) \<or> p = card_meta_file (archived_card_rel ch i)) \<longrightarrow>
        (\<exists>m. R c = Some m \<and> validate_card_meta m = Inr () \<and> card_channel m = ch
           \<and> (card_archived_via m = None \<longleftrightarrow> p = card_meta_file (active_card_rel ch i))))"

interpretation cards: file_store
  "\<lambda>p. \<exists>ch i. no_slash ch \<and> no_slash i \<and> (p = card_meta_file (active_card_rel ch i) \<or> p = card_meta_file (archived_card_rel ch i))"
  "card_good R" for R
  by unfold_locales (auto simp: card_good_def)

lemma card_dir_unique:
  assumes "no_slash ch" "no_slash i" "no_slash ch'" "no_slash i'"
  shows "in_dir (active_card_rel ch i) (card_meta_file (active_card_rel ch' i')) \<Longrightarrow> ch = ch' \<and> i = i'"
    and "in_dir (archived_card_rel ch i) (card_meta_file (archived_card_rel ch' i')) \<Longrightarrow> ch = ch' \<and> i = i'"
    and "\<not> in_dir (active_card_rel ch i) (card_meta_file (archived_card_rel ch' i'))"
    and "\<not> in_dir (archived_card_rel ch i) (card_meta_file (active_card_rel ch' i'))"
proof -
  have core: "ch = ch' \<and> i = i'"
    if e: "ch' @ ''/cards/'' @ i' @ ''/card.meta.yaml'' = ch @ ''/cards/'' @ i @ y" "y = [] \<or> hd y = CHR ''/''" for y
  proof -
    have "ch = ch'" using no_slash_split [OF e(1)] assms by simp
    then have "i' @ ''/card.meta.yaml'' = i @ y" using e(1) by simp
    then have "i = i'" using no_slash_split [of i' _ i y] assms e(2) by fastforce
    then show ?thesis using \<open>ch = ch'\<close> by simp
  qed
  have inD: "\<exists>y. p = d @ y \<and> (y = [] \<or> hd y = CHR ''/'')" if "in_dir d p" for d p
    using that by (fastforce simp: in_dir_def below_iff)
  show "ch = ch' \<and> i = i'" if "in_dir (active_card_rel ch i) (card_meta_file (active_card_rel ch' i'))"
    using inD [OF that] core by (auto simp: active_card_rel_def card_meta_file_def)
  show "ch = ch' \<and> i = i'" if "in_dir (archived_card_rel ch i) (card_meta_file (archived_card_rel ch' i'))"
    using inD [OF that] core by (auto simp: archived_card_rel_def card_meta_file_def)
  show "\<not> in_dir (active_card_rel ch i) (card_meta_file (archived_card_rel ch' i'))"
    "\<not> in_dir (archived_card_rel ch i) (card_meta_file (active_card_rel ch' i'))"
    by (auto simp: in_dir_def below_iff active_card_rel_def archived_card_rel_def card_meta_file_def)
qed

definition card_dir_pair :: "string \<Rightarrow> string \<Rightarrow> string \<Rightarrow> string \<Rightarrow> bool" where
  "card_dir_pair ch i from to \<longleftrightarrow> no_slash ch \<and> no_slash i
     \<and> (from = active_card_rel ch i \<and> to = archived_card_rel ch i \<or> from = archived_card_rel ch i \<and> to = active_card_rel ch i)"

lemma card_moved_keeps:
  assumes pair: "card_dir_pair ch i from to" and ok: "cards.store_ok R t" and new: "card_good R (card_meta_file to) y"
    and tree: "distinct (map fst t)" "\<not> tree_has t to" "map_of t (card_meta_file from) \<noteq> None"
  shows "cards.store_ok R (card_moved from to y t)"
  unfolding cards.store_ok_def
proof clarify
  fix q c assume "(q, c) \<in> set (card_moved from to y t)"
  have ap: "apart from to" using pair by (auto simp: card_dir_pair_def)
  note look = card_moved_lookup [OF tree(1,2) ap tree(3), where y = y]
  have q: "map_of (card_moved from to y t) q = Some c" using look(5) \<open>(q, c) \<in> _\<close> by simp
  consider (new) "q = card_meta_file to" | (inside) "in_dir to q" "q \<noteq> card_meta_file to" | (outside) "\<not> in_dir to q" by blast
  then show "card_good R q c"
  proof cases
    case new
    then show ?thesis using look(1) q assms(3) by simp
  next
    case inside
    then have "q \<noteq> card_meta_file (active_card_rel ch' i') \<and> q \<noteq> card_meta_file (archived_card_rel ch' i')"
      if "no_slash ch'" "no_slash i'" for ch' i'
      using pair card_dir_unique [of ch i ch' i'] that by (auto simp: card_dir_pair_def)
    then show ?thesis by (auto simp: card_good_def)
  next
    case outside
    then have "\<not> in_dir from q" using look(3) [of q] q by auto
    then have "map_of t q = Some c" using look(4) outside q by simp
    then show ?thesis using cards.store_okD [OF ok] by blast
  qed
qed

lemma validate_card_meta_Inr:
  "validate_card_meta m = Inr () \<longleftrightarrow> trim (card_title m) \<noteq> [] \<and> is_ok (channel_name_new (card_channel m))
     \<and> is_ok (handler_new (card_created_by m)) \<and> (\<forall>a. card_assignee m = Some a \<longrightarrow> is_ok (handler_new a))
     \<and> validate_labels (card_labels m) card_max_labels = Inr () \<and> compact_timestamp (card_created_at m)
     \<and> compact_timestamp (card_updated_at m)"
  by (auto simp: validate_card_meta_def run_checks_Inr check_card_handler_def card_validate_timestamp_def is_ok_iff
      split: option.splits)

definition users_ok :: "app_state \<Rightarrow> bool" where
  "users_ok s \<longleftrightarrow> (\<forall>u \<in> set (st_users s). is_ok (handler_new u))"

text \<open>No card lies in both places.\<close>

definition exclusive :: "tree \<Rightarrow> bool" where
  "exclusive t \<longleftrightarrow> (\<forall>ch i. no_slash ch \<and> no_slash i \<longrightarrow> \<not> (tree_has t (active_card_rel ch i) \<and> tree_has t (archived_card_rel ch i)))"

lemma other_card_apart:
  assumes "no_slash ch" "no_slash i" "no_slash ch'" "no_slash i'" "(ch, i) \<noteq> (ch', i')"
  shows "apart (active_card_rel ch i) (active_card_rel ch' i')" "apart (archived_card_rel ch i) (archived_card_rel ch' i')"
proof -
  have core: "(ch, i) = (ch', i')" if "no_slash ch" "no_slash i" "no_slash ch'" "no_slash i'"
      "ch @ ''/cards/'' @ i @ y = ch' @ ''/cards/'' @ i'" "y = [] \<or> hd y = CHR ''/''" for ch i ch' i' y
  proof -
    have "ch = ch'" using no_slash_split [OF that(5)] that(1,3) by simp
    then have "i @ y = i' @ []" using that(5) by simp
    then show ?thesis using no_slash_split [of i y i' "[]"] that \<open>ch = ch'\<close> by simp
  qed
  have inD: "\<exists>y. p = d @ y \<and> (y = [] \<or> hd y = CHR ''/'')" if "in_dir d p" for d p
    using that by (fastforce simp: in_dir_def below_iff)
  have eq: "(ch, i) = (ch', i')"
    if dirs: "in_dir (active_card_rel ch i) (active_card_rel ch' i') \<or> in_dir (archived_card_rel ch i) (archived_card_rel ch' i')"
      and "no_slash ch" "no_slash i" "no_slash ch'" "no_slash i'" for ch i ch' i'
    using dirs
  proof
    assume "in_dir (active_card_rel ch i) (active_card_rel ch' i')"
    from inD [OF this] show ?thesis using core [of ch i ch' i'] that(2-5) by (auto simp: active_card_rel_def)
  next
    assume "in_dir (archived_card_rel ch i) (archived_card_rel ch' i')"
    from inD [OF this] show ?thesis using core [of ch i ch' i'] that(2-5) by (auto simp: archived_card_rel_def)
  qed
  show "apart (active_card_rel ch i) (active_card_rel ch' i')" "apart (archived_card_rel ch i) (archived_card_rel ch' i')"
    using eq [of ch i ch' i'] eq [of ch' i' ch i] assms unfolding apart_def by blast+
qed

lemma tree_has_update: "tree_has (AList.update p c t) d \<longleftrightarrow> tree_has t d \<or> in_dir d p"
  by (auto simp: tree_has_iff update_conv')

lemma exclusive_write:
  assumes "exclusive t" "no_slash ch" "no_slash i" "in_dir (active_card_rel ch i) p"
    "tree_has t (active_card_rel ch i) \<or> \<not> tree_has t (archived_card_rel ch i)"
  shows "exclusive (AList.update p c t)"
  unfolding exclusive_def tree_has_update
proof (intro allI impI)
  fix ch' i' assume ns: "no_slash ch' \<and> no_slash i'"
  have "\<not> in_dir (archived_card_rel ch' i') p" using assms(4) apart_paths card_dirs_apart(1) by blast
  moreover have "(ch', i') = (ch, i)" if "in_dir (active_card_rel ch' i') p"
    using other_card_apart(1) [of ch i ch' i'] apart_paths assms(2-4) ns that by blast
  ultimately show "\<not> ((tree_has t (active_card_rel ch' i') \<or> in_dir (active_card_rel ch' i') p)
      \<and> (tree_has t (archived_card_rel ch' i') \<or> in_dir (archived_card_rel ch' i') p))"
    using assms(1,5) ns unfolding exclusive_def by blast
qed

lemma exclusive_moved:
  assumes ex: "exclusive t" and pair: "card_dir_pair ch i from to" and present: "map_of t (card_meta_file from) \<noteq> None"
  shows "exclusive (card_moved from to y t)" "\<not> tree_has t to"
proof -
  have ns: "no_slash ch" "no_slash i" using pair by (auto simp: card_dir_pair_def)
  have "tree_has t from" using tree_has_below [OF tree_has_file [OF present]] by simp
  then show free: "\<not> tree_has t to" using ex pair ns by (auto simp: exclusive_def card_dir_pair_def)
  have ap: "apart from to" using pair by (auto simp: card_dir_pair_def)
  have gone: "\<not> tree_has (card_moved from to y t) from"
    unfolding card_moved_def by (rule move_leaves_nothing [OF apart_none [OF ap]])
  show "exclusive (card_moved from to y t)"
    unfolding exclusive_def
  proof (intro allI impI)
    fix ch' i' assume ns': "no_slash ch' \<and> no_slash i'"
    show "\<not> (tree_has (card_moved from to y t) (active_card_rel ch' i') \<and> tree_has (card_moved from to y t) (archived_card_rel ch' i'))"
    proof (cases "(ch', i') = (ch, i)")
      case True
      then show ?thesis using gone pair by (auto simp: card_dir_pair_def)
    next
      case False
      then have "apart (active_card_rel ch' i') from \<and> apart (active_card_rel ch' i') to
          \<and> apart (archived_card_rel ch' i') from \<and> apart (archived_card_rel ch' i') to"
        using pair other_card_apart [of ch' i' ch i] ns ns' by (auto simp: card_dir_pair_def)
      then show ?thesis using tree_has_card_moved [OF present] ex ns' by (auto simp: exclusive_def)
    qed
  qed
qed

definition cards_inv :: "(string \<Rightarrow> card_meta option) \<Rightarrow> app_state \<Rightarrow> bool" where
  "cards_inv R s \<longleftrightarrow> cards.store_ok R (st_tree s) \<and> exclusive (st_tree s) \<and> distinct (map fst (st_tree s)) \<and> users_ok s"

text \<open>What a request relies on: git, the clock and the YAML library work as documented, and the last commit
  holds the tree.\<close>

definition card_world :: "(string \<Rightarrow> card_meta option) \<Rightarrow> env \<Rightarrow> app_state \<Rightarrow> bool" where
  "card_world R V s \<longleftrightarrow> en_card_read V = R \<and> git_ok V \<and> undo_ok V (\<lambda>_. True) \<and> no_rebase V \<and> card_yaml_ok V
     \<and> compact_timestamp (en_now V) \<and> head_holds V UNIV (st_tree s)"

lemma undo_ok_weaken: "undo_ok V (\<lambda>_. True) \<Longrightarrow> undo_ok V P"
  by (auto simp: undo_ok_def)

lemma head_holds_weaken: "head_holds V UNIV t \<Longrightarrow> head_holds V P t"
  by (auto simp: head_holds_def)

lemma relocate_card_keeps:
  assumes world: "card_world R V s" and inv: "cards_inv R s" and pair: "card_dir_pair ch i from to"
    and rd: "read_card_meta V s i from = Inr m0"
    and m: "m = m0\<lparr>card_archived_via := via\<rparr>" "via = None \<longleftrightarrow> to = active_card_rel ch i"
    and run: "relocate_card V op ctx from to msg author m s = (r, s')"
  shows "cards_inv R s'"
    and "s' = s \<and> (\<exists>e. r = Inl e) \<or> length (st_commits s') = Suc (length (st_commits s)) \<and> tree_has (st_tree s') to"
proof -
  obtain c where c: "map_of (st_tree s) (card_meta_file from) = Some c" "R c = Some m0"
    using read_card_metaD [OF rd] world by (auto simp: card_world_def)
  have present: "map_of (st_tree s) (card_meta_file from) \<noteq> None" using c by simp
  have ex: "exclusive (st_tree s)" "distinct (map fst (st_tree s))" "cards.store_ok R (st_tree s)"
    using inv by (auto simp: cards_inv_def)
  note mv = exclusive_moved [OF ex(1) pair present]
  have ns: "no_slash ch" "no_slash i" using pair by (auto simp: card_dir_pair_def)
  have "card_good R (card_meta_file from) c" using cards.store_okD [OF ex(3) c(1)] .
  then have m0: "validate_card_meta m0 = Inr ()" "card_channel m0 = ch"
    using pair ns c(2) unfolding card_good_def card_dir_pair_def by fastforce+
  have ap: "apart from to" using pair by (auto simp: card_dir_pair_def)
  have w: "git_ok V" "undo_ok V (\<lambda>p. p = to)" "no_rebase V" "head_holds V {card_meta_file from} (st_tree s)"
    using world undo_ok_weaken head_holds_weaken by (auto simp: card_world_def)
  from relocate_card_effect [OF w ex(2) present mv(2) ap run]
  have eff: "s' = s \<and> (\<exists>e. r = Inl e) \<or> (\<exists>y. en_card_write V m = Some y \<and> st_tree s' = card_moved from to y (st_tree s))
      \<and> st_users s' = st_users s \<and> length (st_commits s') = Suc (length (st_commits s))"
    by (simp add: card_moved_def)
  have good: "card_good R (card_meta_file to) y" if "en_card_write V m = Some y" for y
  proof -
    have "R y = Some m" using that world by (auto simp: card_world_def card_yaml_ok_def)
    moreover have "validate_card_meta m = Inr ()" "card_channel m = ch" using m0 m(1) by (simp_all add: validate_card_meta_Inr)
    moreover have "card_archived_via m = via" using m(1) by simp
    moreover have "(ch', i') = (ch, i)" if "no_slash ch'" "no_slash i'"
        "card_meta_file to = card_meta_file (active_card_rel ch' i') \<or> card_meta_file to = card_meta_file (archived_card_rel ch' i')" for ch' i'
      using pair that card_dir_unique [OF ns that(1,2)] card_meta_in_dir(1) [of to] unfolding card_dir_pair_def by metis
    moreover have "via = None \<longleftrightarrow> card_meta_file to = card_meta_file (active_card_rel ch i)"
      using m(2) by (simp add: card_meta_file_def)
    ultimately show ?thesis unfolding card_good_def by auto
  qed
  show "cards_inv R s'"
    using eff inv mv(1) card_moved_keeps [OF pair ex(3) good ex(2) mv(2) present]
      card_moved_lookup(5) [OF ex(2) mv(2) ap present]
    by (auto simp: cards_inv_def users_ok_def)
  show "s' = s \<and> (\<exists>e. r = Inl e) \<or> length (st_commits s') = Suc (length (st_commits s)) \<and> tree_has (st_tree s') to"
    using eff tree_has_below [OF tree_has_file card_meta_in_dir(1) [of to]] card_moved_lookup(1) [OF ex(2) mv(2) ap present]
    by auto
qed

lemma thread_not_meta [simp]: "card_thread_file d \<noteq> card_meta_file d'"
proof
  assume "card_thread_file d = card_meta_file d'"
  then have "last (card_thread_file d) = last (card_meta_file d')" by simp
  then show False by (simp add: card_thread_file_def card_meta_file_def)
qed

lemma card_id_no_slash: "validate_card_id i = Inr () \<Longrightarrow> no_slash i"
  using card_id.no_slash [of i] by (simp add: is_ok_iff)

lemma channel_no_slash: "channel_name_new ch = Inr n \<Longrightarrow> channel_str n = ch \<and> no_slash ch"
  using channel.no_slash [of ch] by (auto simp: is_ok_iff channel_name_new_Inr)

lemma distinct_update_keys: "distinct (map fst t) \<Longrightarrow> distinct (map fst (AList.update p c t))"
  by (rule distinct_update)

text \<open>The writes of the handlers in the directory of an active card.\<close>

lemma write_meta_keeps:
  assumes "cards_inv R s" "no_slash ch" "no_slash i"
    "tree_has (st_tree s) (active_card_rel ch i) \<or> \<not> tree_has (st_tree s) (archived_card_rel ch i)"
    and m: "R y = Some m" "validate_card_meta m = Inr ()" "card_channel m = ch" "card_archived_via m = None"
    and s': "st_tree s' = AList.update (card_meta_file (active_card_rel ch i)) y (st_tree s)" "st_users s' = st_users s"
  shows "cards_inv R s'"
proof -
  have "(ch', i') = (ch, i)" if "no_slash ch'" "no_slash i'"
      "card_meta_file (active_card_rel ch i) = card_meta_file (active_card_rel ch' i')
       \<or> card_meta_file (active_card_rel ch i) = card_meta_file (archived_card_rel ch' i')" for ch' i'
    using that card_dir_unique [OF assms(2,3) that(1,2)] card_meta_in_dir(1) [of "active_card_rel ch i"] by metis
  then have "card_good R (card_meta_file (active_card_rel ch i)) y" unfolding card_good_def using m by blast
  then have "cards.store_ok R (st_tree s')" using assms(1) s' by (simp add: cards_inv_def cards.store_ok_update)
  moreover have "exclusive (st_tree s')"
    using assms(1) s' by (simp add: cards_inv_def exclusive_write [OF _ assms(2,3) _ assms(4)])
  ultimately show ?thesis using assms(1) s' by (simp add: cards_inv_def users_ok_def distinct_update)
qed

lemma write_thread_keeps:
  assumes "cards_inv R s" "no_slash ch" "no_slash i"
    "tree_has (st_tree s) (active_card_rel ch i) \<or> \<not> tree_has (st_tree s) (archived_card_rel ch i)"
    and s': "st_tree s' = AList.update (card_thread_file (active_card_rel ch i)) y (st_tree s)" "st_users s' = st_users s"
  shows "cards_inv R s'"
proof -
  have "cards.store_ok R (st_tree s')" using assms(1) s' by (auto simp: cards_inv_def intro!: cards.store_ok_outside)
  moreover have "exclusive (st_tree s')"
    using assms(1) s' by (simp add: cards_inv_def exclusive_write [OF _ assms(2,3) _ assms(4)])
  ultimately show ?thesis using assms(1) s' by (simp add: cards_inv_def users_ok_def distinct_update)
qed

lemma cards_inv_cong: "cards_inv R s \<Longrightarrow> st_tree s' = st_tree s \<Longrightarrow> st_users s' = st_users s \<Longrightarrow> cards_inv R s'"
  by (simp add: cards_inv_def users_ok_def)

lemma create_checksD:
  assumes "create_card_checks V s ch title labels assignee status a = Inr (n, m)" "users_ok s" "compact_timestamp (en_now V)"
  shows "channel_name_new ch = Inr n" "validate_card_meta m = Inr ()" "card_channel m = ch" "card_archived_via m = None"
proof -
  show n: "channel_name_new ch = Inr n" using assms(1) by (auto simp: create_card_checks_def Let_def)
  then have "is_ok (channel_name_new (channel_str n))" "channel_str n = ch" using channel_no_slash by (auto simp: is_ok_iff)
  then show "validate_card_meta m = Inr ()" "card_channel m = ch" "card_archived_via m = None"
    using assms
    by (auto simp: create_card_checks_def Let_def validate_card_meta_Inr users_ok_def ensure_known_card_user_def check_assignee_def
        split: option.splits)
qed

lemma create_card_keeps:
  assumes world: "card_world R V s" and inv: "cards_inv R s" and i: "validate_card_id i = Inr ()"
    and fresh: "\<forall>ch. \<not> tree_has (st_tree s) (archived_card_rel ch i)"
    and run: "handle_create_card V s i ch title labels assignee status a s = (r, s')"
  shows "cards_inv R s'"
proof (cases "create_card_checks V s ch title labels assignee status a")
  case (Inl e)
  then show ?thesis using run inv by (simp add: handle_create_card_def)
next
  case (Inr nm)
  obtain n m where nm: "nm = (n, m)" by force
  have w: "compact_timestamp (en_now V)" "no_rebase V" "en_card_write V m = Some y \<Longrightarrow> R y = Some m" for y
    using world by (auto simp: card_world_def card_yaml_ok_def)
  note c = create_checksD [OF Inr [unfolded nm] _ w(1)]
  have c: "channel_str n = ch" "no_slash ch" "validate_card_meta m = Inr ()" "card_channel m = ch" "card_archived_via m = None"
    using c channel_no_slash inv by (auto simp: cards_inv_def)
  have ns: "no_slash i" using card_id_no_slash [OF i] .
  let ?d = "active_card_rel ch i"
  show ?thesis
  proof (cases "is_ok (make_dir V ''failed to create card dir'' ?d) \<and> (\<exists>y. en_card_write V m = Some y)")
    case False
    then show ?thesis
      using run Inr nm c(1) inv
      by (cases "make_dir V ''failed to create card dir'' ?d") (auto simp: handle_create_card_def Let_def split: option.splits)
  next
    case True
    then obtain y where y: "en_card_write V m = Some y" and d: "make_dir V ''failed to create card dir'' ?d = Inr ()"
      by (auto simp: is_ok_iff)
    obtain r1 s1 where w1: "write_file V ''failed to write card meta'' (card_meta_file ?d) y s = (r1, s1)" by force
    obtain r2 s2 where w2: "write_file V ''failed to write card thread'' (card_thread_file ?d) [] s1 = (r2, s2)" by force
    obtain r3 s3 where w3: "add_and_commit_as V [card_meta_file ?d, card_thread_file ?d]
        (''card: create '' @ i @ '' in '' @ ch @ '' by @'' @ a) a s2 = (r3, s3)" by force
    obtain r4 s4 where w4: "push_with_retry V ''create_card'' s3 = (r4, s4)" by force
    note step = run [unfolded handle_create_card_def Inr nm sum.case prod.case c(1) Let_def d y option.case w1 w2 w3 w4]
    have i1: "cards_inv R s1 \<and> (r1 = Inr () \<longrightarrow> tree_has (st_tree s1) ?d)"
      using write_file_frame [OF w1] inv write_meta_keeps [OF inv c(2) ns _ w(3) [OF y] c(3-5)] fresh
      by (auto simp: tree_has_update)
    have i2: "cards_inv R s2" if "r1 = Inr ()"
      using write_file_frame [OF w2] i1 that write_thread_keeps [OF _ c(2) ns, of R s1 s2 "[]"] by auto
    have i4: "st_tree s4 = st_tree s2" "st_users s4 = st_users s2" "st_tree s3 = st_tree s2" "st_users s3 = st_users s2"
      using add_and_commit_frame [OF w3] push_frame [OF w(2) w4] by auto
    have "s' = s1 \<or> r1 = Inr () \<and> st_tree s' = st_tree s2 \<and> st_users s' = st_users s2"
      using step i4 by (auto split: sum.splits)
    then show ?thesis using i1 i2 cards_inv_cong by blast
  qed
qed

lemma located_active:
  assumes "locate_card s ch i = Some l" "\<not> lc_is_archived l"
  shows "lc_rel_path l = active_card_rel ch i" "tree_has (st_tree s) (active_card_rel ch i)"
proof -
  show "lc_rel_path l = active_card_rel ch i" by (rule locate_cases(1) [OF assms])
  have "path_exists s (card_meta_file (active_card_rel ch i))"
    using assms by (auto simp: locate_card_def Let_def split: if_splits)
  then show "tree_has (st_tree s) (active_card_rel ch i)"
    using tree_has_below by (auto simp: path_exists_tree)
qed

lemma update_checksD:
  assumes chk: "update_card_checks V s ch i status labels assignee a = Inr (n, d, st, m)"
    and inv: "cards_inv R s" "compact_timestamp (en_now V)" "en_card_read V = R"
  shows "channel_str n = ch" "no_slash ch" "no_slash i" "d = active_card_rel ch i" "tree_has (st_tree s) d"
    "validate_card_meta m = Inr ()" "card_channel m = ch" "card_archived_via m = None"
proof -
  obtain l m0 where l: "channel_name_new ch = Inr n" "validate_card_id i = Inr ()" "locate_card s (channel_str n) i = Some l"
      "\<not> lc_is_archived l" "d = lc_rel_path l" "read_card_meta V s i (lc_rel_path l) = Inr m0"
    using chk by (auto simp: update_card_checks_def)
  show n: "channel_str n = ch" "no_slash ch" "no_slash i" using channel_no_slash [OF l(1)] card_id_no_slash [OF l(2)] by auto
  show d: "d = active_card_rel ch i" "tree_has (st_tree s) d" using located_active [OF l(3,4)] l(5) n(1) by auto
  obtain c where c: "map_of (st_tree s) (card_meta_file (active_card_rel ch i)) = Some c" "R c = Some m0"
    using read_card_metaD [OF l(6)] l(5) d(1) inv(3) by auto
  have "card_good R (card_meta_file (active_card_rel ch i)) c"
    using cards.store_okD [OF _ c(1)] inv(1) by (auto simp: cards_inv_def)
  then have m0: "validate_card_meta m0 = Inr ()" "card_channel m0 = ch" "card_archived_via m0 = None"
    using n(2,3) c(2) unfolding card_good_def by force+
  show "validate_card_meta m = Inr ()" "card_channel m = ch" "card_archived_via m = None"
    using chk m0 l inv(1,2)
    by (auto simp: update_card_checks_def validate_card_meta_Inr cards_inv_def users_ok_def ensure_known_card_user_def
        check_assignee_def split: option.splits)
qed

lemma update_card_keeps:
  assumes world: "card_world R V s" and inv: "cards_inv R s"
    and run: "handle_update_card V s ch i status labels assignee a s = (r, s')"
  shows "cards_inv R s'"
proof (cases "update_card_checks V s ch i status labels assignee a")
  case (Inl e)
  then show ?thesis using run inv by (simp add: handle_update_card_def)
next
  case (Inr nm)
  obtain n d st m where nm: "nm = (n, d, st, m)" by (cases nm)
  have w: "compact_timestamp (en_now V)" "en_card_read V = R" "no_rebase V" "en_card_write V m = Some y \<Longrightarrow> R y = Some m" for y
    using world by (auto simp: card_world_def card_yaml_ok_def)
  note c = update_checksD [OF Inr [unfolded nm] inv w(1,2)]
  show ?thesis
  proof (cases "en_card_write V m")
    case None
    then show ?thesis using run Inr nm inv by (auto simp: handle_update_card_def)
  next
    case (Some y)
    obtain r1 s1 where w1: "write_file V ''failed to write card meta'' (card_meta_file d) y s = (r1, s1)" by force
    obtain r2 s2 where w2: "add_and_commit_as V [card_meta_file d]
        (''card: update '' @ i @ '' in '' @ ch @ '' by @'' @ a) a s1 = (r2, s2)" by force
    obtain r3 s3 where w3: "push_with_retry V ''update_card'' s2 = (r3, s3)" by force
    note step = run [unfolded handle_update_card_def Inr nm sum.case prod.case Some option.case w1 w2 w3]
    have "cards_inv R s1"
      using write_file_frame [OF w1] inv write_meta_keeps [OF inv c(2,3) _ w(4) [OF Some] c(6-8)] c(4,5) by auto
    moreover have "st_tree s' = st_tree s1 \<and> st_users s' = st_users s1"
      using step add_and_commit_frame [OF w2] push_frame [OF w(3) w3] by (auto split: sum.splits if_splits)
    ultimately show ?thesis using cards_inv_cong by blast
  qed
qed

lemma send_card_keeps:
  assumes inv: "cards_inv R s" and run: "handle_send_card_message V s ch i body reply a s = (r, s')"
  shows "cards_inv R s'"
proof (cases "card_message_checks s ch i a")
  case (Inl e)
  then show ?thesis using run inv by (simp add: handle_send_card_message_def)
next
  case (Inr x)
  obtain h n d where x: "x = (h, n, d)" by (cases x)
  obtain l where l: "channel_name_new ch = Inr n" "validate_card_id i = Inr ()" "locate_card s (channel_str n) i = Some l"
      "\<not> lc_is_archived l" "d = lc_rel_path l"
    using Inr x by (auto simp: card_message_checks_def)
  have n: "channel_str n = ch" "no_slash ch" "no_slash i" using channel_no_slash [OF l(1)] card_id_no_slash [OF l(2)] by auto
  have d: "d = active_card_rel ch i" "tree_has (st_tree s) (active_card_rel ch i)" using located_active [OF l(3,4)] l(5) n(1) by auto
  let ?old = "read_or_default V s (card_thread_file d)"
  show ?thesis
  proof (cases "append_message_to_thread (en_ext V) ?old h (en_now V) body reply")
    case (Inl e)
    then show ?thesis using run Inr x inv by (simp add: handle_send_card_message_def Let_def)
  next
    case app: (Inr lc)
    obtain ln content where lc: "lc = (ln, content)" by force
    obtain r1 s1 where w1: "append_file V (card_thread_file d) (drop (length ?old) content) s = (r1, s1)" by force
    obtain st ci s2 where w2: "commit_message V (card_thread_file d)
        (''card-msg: @'' @ a @ '' -> '' @ ch @ ''/'' @ i @ '' '' @ line_label ln) d ln a s1 = ((st, ci), s2)"
      by (metis prod.exhaust)
    note step = run [unfolded handle_send_card_message_def Inr x sum.case prod.case Let_def app lc w1 n(1) w2]
    have "cards_inv R s1"
      using append_file_frame [OF w1] inv d write_thread_keeps [OF inv n(2,3), of s1] by auto
    moreover have "st_tree s' = st_tree s1 \<and> st_users s' = st_users s1"
      using step commit_message_frame [OF w2] by (auto split: sum.splits)
    ultimately show ?thesis using cards_inv_cong by blast
  qed
qed

lemma archive_card_keeps:
  assumes world: "card_world R V s" and inv: "cards_inv R s" and run: "handle_archive_card V s ch i a s = (r, s')"
  shows "cards_inv R s'" and "s' = s \<or> length (st_commits s') = Suc (length (st_commits s)) \<and> tree_has (st_tree s') (archived_card_rel ch i)"
proof -
  have "cards_inv R s' \<and> (s' = s \<or> length (st_commits s') = Suc (length (st_commits s)) \<and> tree_has (st_tree s') (archived_card_rel ch i))"
  proof (cases "archive_card_checks V s ch i a")
    case (Inl e)
    then show ?thesis using run inv by (simp add: handle_archive_card_def)
  next
    case (Inr x)
    obtain n d m where x: "x = (n, d, m)" by (cases x)
    note c = archive_checksD [OF Inr [unfolded x]]
    have n: "channel_str n = ch" "no_slash ch" "no_slash i" using channel_no_slash [OF c(1)] card_id_no_slash [OF c(5)] by auto
    obtain m0 where m0: "read_card_meta V s i d = Inr m0" "m = m0\<lparr>card_archived_via := Some ViaManual\<rparr>" using c(4) by blast
    obtain r1 s1 where rel: "relocate_card V ''archive_card'' ''failed to create archive dir'' d (archived_card_rel ch i)
        (''card: archive '' @ i @ '' in '' @ ch @ '' by @'' @ a) a m s = (r1, s1)" by force
    have pair: "card_dir_pair ch i d (archived_card_rel ch i)" using c(2) n by (simp add: card_dir_pair_def)
    have via: "(Some ViaManual = None) = (archived_card_rel ch i = active_card_rel ch i)"
      by (simp add: archived_card_rel_def active_card_rel_def)
    note keep = relocate_card_keeps [OF world inv pair m0 via rel]
    have "s' = s1 \<and> (\<exists>e. r1 = Inl e) \<or> s' = send_event (CardArchived ch i a) s1 \<and> r1 = Inr ()"
      using run Inr x n(1) rel by (auto simp: handle_archive_card_def split: sum.splits)
    then show ?thesis using keep cards_inv_cong [OF keep(1)] by auto
  qed
  then show "cards_inv R s'" "s' = s \<or> length (st_commits s') = Suc (length (st_commits s)) \<and> tree_has (st_tree s') (archived_card_rel ch i)"
    by auto
qed

lemma unarchive_card_keeps:
  assumes world: "card_world R V s" and inv: "cards_inv R s" and run: "handle_unarchive_card V s ch i a s = (r, s')"
  shows "cards_inv R s'" and "s' = s \<or> length (st_commits s') = Suc (length (st_commits s)) \<and> tree_has (st_tree s') (active_card_rel ch i)"
proof -
  have "cards_inv R s' \<and> (s' = s \<or> length (st_commits s') = Suc (length (st_commits s)) \<and> tree_has (st_tree s') (active_card_rel ch i))"
  proof (cases "unarchive_card_checks V s ch i a")
    case (Inl e)
    then show ?thesis using run inv by (simp add: handle_unarchive_card_def)
  next
    case (Inr x)
    obtain n d m where x: "x = (n, d, m)" by (cases x)
    note c = unarchive_checksD [OF Inr [unfolded x]]
    have n: "channel_str n = ch" "no_slash ch" "no_slash i" using channel_no_slash [OF c(1)] card_id_no_slash [OF c(5)] by auto
    obtain m0 where m0: "read_card_meta V s i d = Inr m0" "m = m0\<lparr>card_archived_via := None\<rparr>" using c(4) by blast
    obtain r1 s1 where rel: "relocate_card V ''unarchive_card'' ''failed to create cards dir'' d (active_card_rel ch i)
        (''card: unarchive '' @ i @ '' in '' @ ch @ '' by @'' @ a) a m s = (r1, s1)" by force
    have pair: "card_dir_pair ch i d (active_card_rel ch i)" using c(2) n by (simp add: card_dir_pair_def)
    have via: "((None :: archived_via option) = None) = (active_card_rel ch i = active_card_rel ch i)" by simp
    note keep = relocate_card_keeps [OF world inv pair m0 via rel]
    have "s' = s1 \<and> (\<exists>e. r1 = Inl e) \<or> s' = send_event (CardUnarchived ch i a) s1 \<and> r1 = Inr ()"
      using run Inr x n(1) rel by (auto simp: handle_unarchive_card_def split: sum.splits)
    then show ?thesis using keep cards_inv_cong [OF keep(1)] by auto
  qed
  then show "cards_inv R s'" "s' = s \<or> length (st_commits s') = Suc (length (st_commits s)) \<and> tree_has (st_tree s') (active_card_rel ch i)"
    by auto
qed

inductive card_step :: "(string \<Rightarrow> card_meta option) \<Rightarrow> app_state \<Rightarrow> app_state \<Rightarrow> bool" for R where
  CardCreate: "card_world R V s \<Longrightarrow> validate_card_id i = Inr () \<Longrightarrow>
     \<forall>ch. \<not> tree_has (st_tree s) (archived_card_rel ch i) \<Longrightarrow>
     handle_create_card V s i ch title labels assignee status a s = (r, s') \<Longrightarrow> card_step R s s'"
| CardArchive: "card_world R V s \<Longrightarrow> handle_archive_card V s ch i a s = (r, s') \<Longrightarrow> card_step R s s'"
| CardUnarchive: "card_world R V s \<Longrightarrow> handle_unarchive_card V s ch i a s = (r, s') \<Longrightarrow> card_step R s s'"
| CardMessage: "handle_send_card_message V s ch i body reply a s = (r, s') \<Longrightarrow> card_step R s s'"
| CardUpdate: "card_world R V s \<Longrightarrow> handle_update_card V s ch i status labels assignee a s = (r, s') \<Longrightarrow> card_step R s s'"

interpretation card_machine: step_invariant "card_step R" "cards_inv R" for R
proof unfold_locales
  fix s s' assume "card_step R s s'" "cards_inv R s"
  then show "cards_inv R s'"
    by (cases rule: card_step.cases)
      (auto intro: create_card_keeps archive_card_keeps(1) unarchive_card_keeps(1) send_card_keeps update_card_keeps)
qed

text \<open>A repository without cards whose users have valid names.\<close>

definition no_cards :: "app_state \<Rightarrow> bool" where
  "no_cards s \<longleftrightarrow> distinct (map fst (st_tree s)) \<and> users_ok s
     \<and> (\<forall>p \<in> fst ` set (st_tree s). \<forall>ch i. \<not> in_dir (active_card_rel ch i) p \<and> \<not> in_dir (archived_card_rel ch i) p)"

lemma no_cards_inv: "no_cards s \<Longrightarrow> cards_inv R s"
proof -
  assume n: "no_cards s"
  have out: "\<not> in_dir (active_card_rel ch i) p \<and> \<not> in_dir (archived_card_rel ch i) p" if "(p, c) \<in> set (st_tree s)" for p c ch i
    using n that by (force simp: no_cards_def)
  have "cards.store_ok R (st_tree s)" by (rule cards.store_ok_fresh) (metis out card_meta_in_dir(1))
  moreover have "exclusive (st_tree s)" using n by (force simp: exclusive_def no_cards_def tree_has_in)
  ultimately show ?thesis using n by (simp add: cards_inv_def no_cards_def)
qed


subsection \<open>An instance\<close>

definition sample_card :: "archived_via option \<Rightarrow> card_meta" where
  "sample_card via = \<lparr>card_title = ''Fix'', card_channel = ''general'', card_status = Todo, card_labels = [], card_assignee = None,
     card_created_by = ''alice'', card_created_at = ''20260101T000000Z'', card_updated_at = ''20260101T000000Z'',
     card_archived_via = via\<rparr>"

definition sample_card_read :: "string \<Rightarrow> card_meta option" where
  "sample_card_read y = (if y = ''open'' then Some (sample_card None)
     else if y = ''filed'' then Some (sample_card (Some ViaManual)) else None)"

definition sample_card_write :: "card_meta \<Rightarrow> string option" where
  "sample_card_write m = (if m = sample_card None then Some ''open''
     else if m = sample_card (Some ViaManual) then Some ''filed'' else None)"

definition card_start :: app_state where
  "card_start = base_state\<lparr>st_tree := [(''channels/general.thread'', [])]\<rparr>"

definition card_env :: env where
  "card_env = base_env\<lparr>en_card_read := sample_card_read, en_card_write := sample_card_write,
     en_checkout := (\<lambda>p t. case map_of (st_tree card_start) p of Some c \<Rightarrow> AList.update p c t | None \<Rightarrow> t)\<rparr>"

definition card_created :: app_state where
  "card_created = snd (handle_create_card card_env card_start ''20260101-000000-abc'' ''general'' ''Fix'' None None None ''alice'' card_start)"

lemma git_ok_base: "en_mv V = en_mv base_env \<Longrightarrow> git_ok V"
  by (auto simp: git_ok_def base_env_def split: if_splits)

lemma undo_ok_base: "en_mv V = en_mv base_env \<Longrightarrow> undo_ok V P"
  by (auto simp: undo_ok_def base_env_def mv_target_free)

lemma sample_card_neq: "sample_card None \<noteq> sample_card (Some v)"
  by (simp add: sample_card_def)

lemma card_env_ok:
  "git_ok card_env" "undo_ok card_env P" "no_rebase card_env" "card_yaml_ok card_env" "en_io card_env = (\<lambda>_. None)"
  "head_holds card_env UNIV (st_tree card_start)" "en_card_read card_env = sample_card_read"
proof -
  have mv: "en_mv card_env = en_mv base_env" by (simp add: card_env_def)
  show "git_ok card_env" "undo_ok card_env P" by (rule git_ok_base [OF mv], rule undo_ok_base [OF mv])
  show "no_rebase card_env" "en_io card_env = (\<lambda>_. None)" by (simp_all add: no_rebase_def card_env_def base_env_def)
  show "card_yaml_ok card_env"
    by (auto simp: card_yaml_ok_def card_env_def sample_card_read_def sample_card_write_def split: if_splits)
  show "head_holds card_env UNIV (st_tree card_start)" by (auto simp: head_holds_def card_env_def split: option.splits)
  show "en_card_read card_env = sample_card_read" by (simp add: card_env_def)
qed

lemma card_start_empty: "no_cards card_start"
proof -
  have "\<not> in_dir (active_card_rel ch i) ''channels/general.thread''" for ch i
  proof
    assume "in_dir (active_card_rel ch i) ''channels/general.thread''"
    then obtain y where "ch @ ''/cards/'' @ i @ y = ''general.thread''" by (auto simp: in_dir_def below_iff active_card_rel_def)
    then have "CHR ''/'' \<in> set ''general.thread''" by (metis in_set_conv_decomp append_Cons append_assoc)
    then show False by simp
  qed
  moreover have "\<not> in_dir (archived_card_rel ch i) ''channels/general.thread''" for ch i
    by (auto simp: in_dir_def below_iff archived_card_rel_def)
  moreover have "is_ok (handler_new ''alice'')" "is_ok (handler_new ''bob'')" by code_simp+
  ultimately show ?thesis by (simp add: no_cards_def users_ok_def card_start_def base_state_def)
qed

lemma card_create_step: "card_step sample_card_read card_start card_created"
proof (rule CardCreate)
  show "card_world sample_card_read card_env card_start"
  proof -
    have "compact_timestamp (en_now card_env)" by code_simp
    then show ?thesis using card_env_ok by (simp add: card_world_def)
  qed
  show "validate_card_id ''20260101-000000-abc'' = Inr ()" by code_simp
  show "\<forall>ch. \<not> tree_has (st_tree card_start) (archived_card_rel ch ''20260101-000000-abc'')"
    by (simp add: card_start_def tree_has_in in_dir_def below_iff archived_card_rel_def)
  show "handle_create_card card_env card_start ''20260101-000000-abc'' ''general'' ''Fix'' None None None ''alice'' card_start
      = (fst (handle_create_card card_env card_start ''20260101-000000-abc'' ''general'' ''Fix'' None None None ''alice'' card_start), card_created)"
    by (simp add: card_created_def)
qed

lemma card_created_file:
  "map_of (st_tree card_created) (card_meta_file (active_card_rel ''general'' ''20260101-000000-abc'')) = Some ''open''"
  by code_simp

lemma card_created_reached: "(card_step sample_card_read)\<^sup>*\<^sup>* card_start card_created"
  using card_create_step by (rule r_into_rtranclp)


lemma card_archive_run:
  "fst (handle_archive_card card_env card_created ''general'' ''20260101-000000-abc'' ''alice'' card_created) = Inr ()"
  by code_simp

theorem card_archive_roundtrip_witness:
  "\<exists>s1. handle_archive_card card_env card_created ''general'' ''20260101-000000-abc'' ''alice'' card_created = (Inr (), s1)
     \<and> is_ok (unarchive_card_checks card_env s1 ''general'' ''20260101-000000-abc'' ''alice'')"
proof -
  obtain s1 where run: "handle_archive_card card_env card_created ''general'' ''20260101-000000-abc'' ''alice'' card_created = (Inr (), s1)"
    using card_archive_run by (metis prod.collapse)
  have tree: "distinct (map fst (st_tree card_created))"
    "\<not> tree_has (st_tree card_created) (archived_card_rel ''general'' ''20260101-000000-abc'')"
    "channel_thread_exists card_created ''general''" by code_simp+
  have card: "en_card_write card_env (sample_card None) = Some ''open''" "card_archived_via (sample_card None) = None"
    by code_simp+
  have io: "en_io card_env (IoRead (card_meta_file (archived_card_rel ''general'' ''20260101-000000-abc''))) = None"
    by (simp add: card_env_ok(5))
  have "is_ok (unarchive_card_checks card_env s1 ''general'' ''20260101-000000-abc'' ''alice'')"
    using card_archive_roundtrip [OF card_env_ok(1,3,4) io tree card_created_file card run] by (elim conjE)
  then show ?thesis using run by blast
qed

subsection \<open>Updates that are refused\<close>

text \<open>An update that is refused because its commit failed is not undone: the request is answered with an error and
  the metadata file keeps the new values, which later reads see.\<close>

lemma failed_update_stays:
  assumes "update_card_checks V s ch i status labels assignee a = Inr (n, d, st, m)" "en_card_write V m = Some y"
    "en_io V (IoWrite (card_meta_file d)) = None" "en_io V (IoRead (card_meta_file d)) = None" "card_yaml_ok V"
    "en_commit V [card_meta_file d] (''card: update '' @ i @ '' in '' @ ch @ '' by @'' @ a) = Some e"
  shows "handle_update_card V s ch i status labels assignee a s
      = (Inl (ErrGit ''update_card commit failed'' e), put_file (card_meta_file d) y s)"
    and "read_card_meta V (put_file (card_meta_file d) y s) i d = Inr m"
  using assms
  by (simp_all add: handle_update_card_def write_file_def add_and_commit_as_def read_card_meta_def read_file_def
      update_conv' card_yaml_ok_def)

text \<open>The handler reads and checks outside the commit lock.  Two updates of different fields that both read before
  either writes are both accepted, and the first is lost.\<close>

lemma concurrent_update_lost:
  assumes "update_card_checks V s0 ch i status None None a = Inr (n, d, st, m)" "en_card_write V m = Some y"
    "handle_update_card V s0 ch i status None None a s = (Inr m', s')" "no_rebase V"
  shows "map_of (st_tree s') (card_meta_file d) = Some y"
proof -
  obtain r1 s1 where w1: "write_file V ''failed to write card meta'' (card_meta_file d) y s = (r1, s1)" by force
  obtain r2 s2 where w2: "add_and_commit_as V [card_meta_file d]
      (''card: update '' @ i @ '' in '' @ ch @ '' by @'' @ a) a s1 = (r2, s2)" by force
  obtain r3 s3 where w3: "push_with_retry V ''update_card'' s2 = (r3, s3)" by force
  note step = assms(3) [unfolded handle_update_card_def assms(1,2) sum.case prod.case option.case w1 w2 w3]
  have "r1 = Inr ()" "st_tree s' = st_tree s1"
    using step write_file_frame [OF w1] add_and_commit_frame [OF w2] push_frame [OF assms(4) w3]
    by (auto split: sum.splits if_splits)
  then show ?thesis using write_file_frame [OF w1] by (auto simp: update_conv')
qed

end
