(* ===== verification/Daemon_Archive.thy ===== *)
theory Daemon_Archive
  imports Daemon_Cards
begin

text \<open>
  Archiving a channel and restoring it (\<^verbatim>\<open>handlers/channel.rs\<close>).  The cards of the channel follow it: every card is
  stamped, every card directory, the thread and the metadata are moved, and one commit records the whole.  A
  restore takes back only the cards the channel took along.  The two handlers run the same steps with the
  directories exchanged; \<open>stamp_cards\<close> and \<open>move_channel\<close> are these steps.  Each failure undoes what was done,
  in the order of the code.
\<close>

definition cards_dir :: "string \<Rightarrow> string \<Rightarrow> string" where
  "cards_dir root ch = root @ ''/'' @ ch @ ''/cards''"

definition card_dir :: "string \<Rightarrow> string \<Rightarrow> string \<Rightarrow> string" where
  "card_dir root ch card_id = cards_dir root ch @ ''/'' @ card_id"

definition root_thread :: "string \<Rightarrow> string \<Rightarrow> string" where
  "root_thread root ch = root @ ''/'' @ ch @ ''.thread''"

definition root_meta :: "string \<Rightarrow> string \<Rightarrow> string" where
  "root_meta root ch = root @ ''/'' @ ch @ ''.meta.yaml''"

definition restore_cards :: "env \<Rightarrow> string \<Rightarrow> string \<Rightarrow> string list \<Rightarrow> app_state \<Rightarrow> app_state" where
  "restore_cards V root ch ids s = fold (restore_card_yaml V) (map (\<lambda>i. card_meta_file (card_dir root ch i)) ids) s"

text \<open>The entries of the card directory, when there is one.\<close>

definition card_entries :: "env \<Rightarrow> string \<Rightarrow> app_state \<Rightarrow> string \<Rightarrow> daemon_error + string list" where
  "card_entries V context s dir =
     (if \<not> path_exists s dir then Inr []
      else case en_io V (IoRead dir) of Some e \<Rightarrow> Inl (ErrIo context e) | None \<Rightarrow> Inr (read_dir V s dir))"

text \<open>One entry of that directory.  \<open>stamp\<close> gives the new metadata of a card, or nothing when the card is left
  alone; the result says whether the card was rewritten.\<close>

definition stamp_card ::
  "env \<Rightarrow> (card_meta \<Rightarrow> card_meta option) \<Rightarrow> string \<Rightarrow> string \<Rightarrow> string \<Rightarrow> app_state \<Rightarrow> bool outcome" where
  "stamp_card V stamp root ch card_id s =
     (let dir = card_dir root ch card_id; meta_file = card_meta_file dir in
      case en_io V (IoRead dir) of
        Some e \<Rightarrow> (Inl (ErrIo ''failed to read dir entry'' e), s)
      | None \<Rightarrow>
     (if \<not> is_dir s dir \<or> \<not> path_exists s meta_file then (Inr False, s)
      else case read_file V s meta_file of
        Inl e \<Rightarrow> (Inl (ErrIo (''failed to read card meta '' @ card_id) (io_text e)), s)
      | Inr yaml \<Rightarrow>
     (case en_card_read V yaml of
        None \<Rightarrow> (Inl (ErrParseMeta (''card meta '' @ card_id)), s)
      | Some meta \<Rightarrow>
     (case stamp meta of
        None \<Rightarrow> (Inr False, s)
      | Some meta' \<Rightarrow>
     (case en_card_write V meta' of
        None \<Rightarrow> (Inl (ErrYaml (''card meta '' @ card_id)), s)
      | Some new_yaml \<Rightarrow>
     (case write_file V (''failed to write card meta '' @ card_id) meta_file new_yaml s of
        (Inl e, s1) \<Rightarrow> (Inl e, s1)
      | (Inr _, s1) \<Rightarrow> (Inr True, s1)))))))"

text \<open>The loop over the entries; \<open>stamped\<close> lists the cards rewritten so far.\<close>

fun stamp_cards ::
  "env \<Rightarrow> (card_meta \<Rightarrow> card_meta option) \<Rightarrow> string \<Rightarrow> string \<Rightarrow> string list \<Rightarrow> string list \<Rightarrow> app_state \<Rightarrow> string list outcome" where
  "stamp_cards V stamp root ch [] stamped s = (Inr stamped, s)"
| "stamp_cards V stamp root ch (card_id # ids) stamped s =
     (case stamp_card V stamp root ch card_id s of
        (Inl e, s1) \<Rightarrow> (Inl e, restore_cards V root ch stamped s1)
      | (Inr took, s1) \<Rightarrow> stamp_cards V stamp root ch ids (if took then stamped @ [card_id] else stamped) s1)"

definition card_moves :: "string \<Rightarrow> string \<Rightarrow> string \<Rightarrow> string list \<Rightarrow> (string \<times> string) list" where
  "card_moves from to ch ids = map (\<lambda>i. (card_dir from ch i, card_dir to ch i)) ids"

definition thread_move :: "string \<Rightarrow> string \<Rightarrow> string \<Rightarrow> string \<times> string" where
  "thread_move from to ch = (root_thread from ch, root_thread to ch)"

definition meta_move :: "string \<Rightarrow> string \<Rightarrow> string \<Rightarrow> string \<times> string" where
  "meta_move from to ch = (root_meta from ch, root_meta to ch)"

text \<open>The single commit, with the rollback of all moves and all stamps, and the push.\<close>

definition commit_channel ::
  "env \<Rightarrow> string \<Rightarrow> string \<Rightarrow> string \<Rightarrow> string \<Rightarrow> string \<Rightarrow> string \<Rightarrow> string \<Rightarrow> string list \<Rightarrow> app_state \<Rightarrow> unit outcome" where
  "commit_channel V op context from to ch message author stamped s =
     (let card_files = concat (map (\<lambda>i. [card_meta_file (card_dir to ch i), card_thread_file (card_dir to ch i)]) stamped) in
      case add_and_commit_as V (snd (thread_move from to ch) # snd (meta_move from to ch) # card_files) message author s of
        (Inl e, s1) \<Rightarrow>
          (Inl (ErrGit context e),
           restore_cards V from ch stamped
             (undo_move V (thread_move from to ch)
               (undo_move V (meta_move from to ch) (undo_moves V (card_moves from to ch stamped) s1))))
      | (Inr _, s1) \<Rightarrow> push_with_retry V op s1)"

text \<open>The moves of the thread and the metadata, after the cards have moved.\<close>

definition move_channel_files ::
  "env \<Rightarrow> string \<Rightarrow> string \<Rightarrow> string \<Rightarrow> string \<Rightarrow> string \<Rightarrow> string \<Rightarrow> string \<Rightarrow> string list \<Rightarrow> app_state \<Rightarrow> unit outcome" where
  "move_channel_files V op context from to ch message author stamped s =
     (case git_mv V (fst (thread_move from to ch)) (snd (thread_move from to ch)) s of
        (Inl e, s1) \<Rightarrow>
          (Inl (ErrGit ''git mv thread failed'' e),
           restore_cards V from ch stamped (undo_moves V (card_moves from to ch stamped) s1))
      | (Inr _, s1) \<Rightarrow>
     (case git_mv V (fst (meta_move from to ch)) (snd (meta_move from to ch)) s1 of
        (Inl e, s2) \<Rightarrow>
          (Inl (ErrGit ''git mv meta failed'' e),
           restore_cards V from ch stamped
             (undo_moves V (card_moves from to ch stamped) (undo_move V (thread_move from to ch) s2)))
      | (Inr _, s2) \<Rightarrow> commit_channel V op context from to ch message author stamped s2))"

text \<open>From the card moves to the push.\<close>

definition move_channel ::
  "env \<Rightarrow> string \<Rightarrow> string \<Rightarrow> string \<Rightarrow> string \<Rightarrow> string \<Rightarrow> string \<Rightarrow> string \<Rightarrow> string \<Rightarrow> string list \<Rightarrow> app_state \<Rightarrow> unit outcome" where
  "move_channel V op mkdir_context commit_context from to ch message author stamped s =
     (case (if stamped = [] then Inr () else make_dir V mkdir_context (cards_dir to ch)) of
        Inl e \<Rightarrow> (Inl e, restore_cards V from ch stamped s)
      | Inr _ \<Rightarrow>
     (case do_moves V (card_moves from to ch stamped) [] s of
        (Inl e, completed, s1) \<Rightarrow>
          (Inl (ErrGit ''git mv card failed'' e), restore_cards V from ch stamped (undo_moves V completed s1))
      | (Inr _, _, s1) \<Rightarrow> move_channel_files V op commit_context from to ch message author stamped s1))"

subsection \<open>Archiving\<close>

definition archive_channel_checks :: "env \<Rightarrow> app_state \<Rightarrow> app_state \<Rightarrow> string \<Rightarrow> string \<Rightarrow> daemon_error + channel_name" where
  "archive_channel_checks V s0 s channel author =
     andThen (map_err ErrInvalidChannel (channel_name_new channel)) (\<lambda>name.
     andThen (ensure_author_not_departed s0 author) (\<lambda>_.
     andThen (fail_if (author \<notin> set (st_users s0)) (ErrUnknownUser author)) (\<lambda>_.
     andThen (map_err (\<lambda>_. ErrNoChannel channel) (read_file V s (root_meta ''channels'' (channel_str name)))) (\<lambda>meta_str.
     andThen (ok_or (ErrParseMeta ''channel meta'') (en_channel_read V meta_str)) (\<lambda>meta.
     andThen (fail_if (cm_created_by meta \<noteq> author) ErrNotCreator) (\<lambda>_.
     andThen (make_dir V ''failed to create archive dir'' ''archive/channels'') (\<lambda>_. Inr name)))))))"

definition handle_archive_channel :: "env \<Rightarrow> app_state \<Rightarrow> string \<Rightarrow> string \<Rightarrow> app_state \<Rightarrow> unit outcome" where
  "handle_archive_channel V s0 channel author s =
     (case andThen (archive_channel_checks V s0 s channel author) (\<lambda>name.
           andThen (card_entries V ''failed to read cards dir'' s (cards_dir ''channels'' (channel_str name))) (\<lambda>ids.
             Inr (channel_str name, ids))) of
        Inl e \<Rightarrow> (Inl e, s)
      | Inr (ch, ids) \<Rightarrow>
          (case stamp_cards V (\<lambda>m. Some (m\<lparr>card_archived_via := Some ViaChannel\<rparr>)) ''channels'' ch ids [] s of
             (Inl e, s1) \<Rightarrow> (Inl e, s1)
           | (Inr stamped, s1) \<Rightarrow>
               move_channel V ''archive_channel'' ''failed to create archive cards dir'' ''archive commit failed''
                 ''channels'' ''archive/channels'' ch (''archive: #'' @ channel @ '' by @'' @ author) author stamped s1))"

subsection \<open>Restoring\<close>

definition unarchive_channel_checks :: "env \<Rightarrow> app_state \<Rightarrow> app_state \<Rightarrow> string \<Rightarrow> string \<Rightarrow> daemon_error + channel_name" where
  "unarchive_channel_checks V s0 s channel author =
     andThen (map_err ErrInvalidChannel (channel_name_new channel)) (\<lambda>name.
     andThen (fail_if (author \<notin> set (st_users s0)) (ErrUnknownUser author)) (\<lambda>_.
     andThen (map_err (\<lambda>_. ErrNoArchive channel) (read_file V s (root_meta ''archive/channels'' (channel_str name)))) (\<lambda>meta_str.
     andThen (ok_or (ErrParseMeta ''archive channel meta'') (en_channel_read V meta_str)) (\<lambda>meta.
     andThen (fail_if (cm_created_by meta \<noteq> author) ErrNotCreator) (\<lambda>_.
     andThen (fail_if (path_exists s (root_meta ''channels'' (channel_str name))) (ErrActiveExists channel)) (\<lambda>_.
     andThen (make_dir V ''failed to create channels dir'' ''channels'') (\<lambda>_. Inr name)))))))"

definition handle_unarchive_channel :: "env \<Rightarrow> app_state \<Rightarrow> string \<Rightarrow> string \<Rightarrow> app_state \<Rightarrow> unit outcome" where
  "handle_unarchive_channel V s0 channel author s =
     (case andThen (unarchive_channel_checks V s0 s channel author) (\<lambda>name.
           andThen (card_entries V ''failed to read archive cards dir'' s (cards_dir ''archive/channels'' (channel_str name))) (\<lambda>ids.
             Inr (channel_str name, ids))) of
        Inl e \<Rightarrow> (Inl e, s)
      | Inr (ch, ids) \<Rightarrow>
          (case stamp_cards V (\<lambda>m. if card_archived_via m \<noteq> Some ViaChannel then None else Some (m\<lparr>card_archived_via := None\<rparr>))
                  ''archive/channels'' ch ids [] s of
             (Inl e, s1) \<Rightarrow> (Inl e, s1)
           | (Inr stamped, s1) \<Rightarrow>
               (case move_channel V ''unarchive_channel'' ''failed to create active cards dir'' ''unarchive_channel commit failed''
                       ''archive/channels'' ''channels'' ch (''unarchive: #'' @ channel @ '' by @'' @ author) author stamped s1 of
                  (Inl e, s2) \<Rightarrow> (Inl e, s2)
                | (Inr _, s2) \<Rightarrow> (Inr (), send_event (ChannelUnarchived ch author (en_now V)) s2))))"

subsection \<open>The stamps\<close>

abbreviation card_file :: "string \<Rightarrow> string \<Rightarrow> string \<Rightarrow> string" where
  "card_file root ch i \<equiv> card_meta_file (card_dir root ch i)"

lemma card_file_inj [simp]: "card_file root ch i = card_file root ch j \<longleftrightarrow> i = j"
  by (simp add: card_meta_file_def card_dir_def)

text \<open>The new content of the metadata of a card that is stamped.\<close>

definition stamps :: "env \<Rightarrow> (card_meta \<Rightarrow> card_meta option) \<Rightarrow> string \<Rightarrow> string \<Rightarrow> tree \<Rightarrow> string \<Rightarrow> string \<Rightarrow> bool" where
  "stamps V stamp root ch t i y \<longleftrightarrow>
     (\<exists>c m m'. map_of t (card_file root ch i) = Some c \<and> en_card_read V c = Some m \<and> stamp m = Some m' \<and> en_card_write V m' = Some y)"

definition stamped_tree :: "env \<Rightarrow> (card_meta \<Rightarrow> card_meta option) \<Rightarrow> string \<Rightarrow> string \<Rightarrow> tree \<Rightarrow> string list \<Rightarrow> tree \<Rightarrow> bool" where
  "stamped_tree V stamp root ch t0 ids t \<longleftrightarrow>
     rewritten (card_file root ch ` set ids) t0 t
     \<and> (\<forall>i \<in> set ids. \<exists>y. stamps V stamp root ch t0 i y \<and> map_of t (card_file root ch i) = Some y)"

lemma stamped_present: "stamped_tree V f root ch t0 ids t \<Longrightarrow> i \<in> set ids \<Longrightarrow> map_of t0 (card_file root ch i) \<noteq> None"
  by (auto simp: stamped_tree_def stamps_def)

lemma stamped_restore:
  assumes "head_holds V UNIV t0" "distinct (map fst t0)" "stamped_tree V f root ch t0 ids t"
  shows "restore_cards V root ch ids (s\<lparr>st_tree := t\<rparr>) = s\<lparr>st_tree := t0\<rparr>"
proof -
  have "rewritten (card_file root ch ` set ids) t0 (st_tree (s\<lparr>st_tree := t\<rparr>))" using assms(3) by (simp add: stamped_tree_def)
  from restore_all [OF assms(1) _ _ this] show ?thesis
    using stamped_present [OF assms(3)] assms(2) by (simp add: restore_cards_def)
qed

lemma stamped_add:
  assumes "stamped_tree V f root ch t0 ids t" "i \<notin> set ids" "stamps V f root ch t0 i y"
  shows "stamped_tree V f root ch t0 (ids @ [i]) (AList.update (card_file root ch i) y t)"
proof -
  have "map_of t0 (card_file root ch i) \<noteq> None" using assms(3) by (auto simp: stamps_def)
  then have "rewritten (card_file root ch ` set (ids @ [i])) t0 (AList.update (card_file root ch i) y t)"
    using rewritten_update assms(1) by (simp add: stamped_tree_def)
  then show ?thesis using assms by (auto simp: stamped_tree_def update_conv')
qed

lemma is_dir_below: "is_dir s d \<longleftrightarrow> (\<exists>p c. (p, c) \<in> set (st_tree s) \<and> below d p)"
  by (auto simp: is_dir_def list_ex_iff)

lemma card_file_dir: "map_of (st_tree s) (card_meta_file d) \<noteq> None \<Longrightarrow> is_dir s d \<and> path_exists s (card_meta_file d)"
  by (auto simp: is_dir_below path_exists_def file_exists_def below_iff card_meta_file_def dest: map_of_SomeD)

lemma stamp_card_result:
  assumes "stamp_card V f root ch i s = (r, s')"
  shows "(\<exists>e. r = Inl e) \<and> s' = s \<or> r = Inr False \<and> s' = s \<and> \<not> (\<exists>y. stamps V f root ch (st_tree s) i y)
    \<or> (\<exists>y. r = Inr True \<and> s' = put_file (card_file root ch i) y s \<and> stamps V f root ch (st_tree s) i y)"
proof (cases "en_io V (IoRead (card_dir root ch i)) = None \<and> is_dir s (card_dir root ch i) \<and> path_exists s (card_file root ch i)")
  case False
  then show ?thesis
    using assms card_file_dir [of s "card_dir root ch i"]
    by (auto simp: stamp_card_def Let_def stamps_def split: option.splits if_splits)
next
  case True
  then show ?thesis
    using assms
    by (auto simp: stamp_card_def Let_def stamps_def read_file_def write_file_def split: option.splits sum.splits)
qed

lemma stamps_cong: "map_of t (card_file root ch i) = map_of t0 (card_file root ch i) \<Longrightarrow> stamps V f root ch t i y = stamps V f root ch t0 i y"
  by (simp add: stamps_def)

lemma stamp_cards_result:
  assumes head: "head_holds V UNIV t0" "distinct (map fst t0)"
    and "stamped_tree V f root ch t0 stamped t" "distinct (stamped @ ids)"
    and "stamp_cards V f root ch ids stamped (s\<lparr>st_tree := t\<rparr>) = (r, s')"
  shows "(\<exists>e. r = Inl e) \<and> s' = s\<lparr>st_tree := t0\<rparr>
    \<or> (\<exists>t'. s' = s\<lparr>st_tree := t'\<rparr> \<and> r = Inr (stamped @ filter (\<lambda>i. \<exists>y. stamps V f root ch t0 i y) ids)
         \<and> stamped_tree V f root ch t0 (stamped @ filter (\<lambda>i. \<exists>y. stamps V f root ch t0 i y) ids) t')"
  using assms(3-5)
proof (induction ids arbitrary: stamped t)
  case (Cons i ids)
  let ?p = "card_file root ch i" and ?s = "s\<lparr>st_tree := t\<rparr>"
  have new: "i \<notin> set stamped" "distinct (stamped @ ids)" "distinct ((stamped @ [i]) @ ids)" using Cons.prems(2) by auto
  have "?p \<notin> card_file root ch ` set stamped" using new(1) by auto
  then have "map_of t ?p = map_of t0 ?p" using Cons.prems(1) by (auto simp: stamped_tree_def rewritten_def)
  note same = stamps_cong [OF this, of V f]
  obtain r1 s1 where one: "stamp_card V f root ch i ?s = (r1, s1)" by force
  from stamp_card_result [OF one] consider (bad) "\<exists>e. r1 = Inl e" "s1 = ?s"
    | (skip) "r1 = Inr False" "s1 = ?s" "\<not> (\<exists>y. stamps V f root ch t0 i y)"
    | (yes) y where "r1 = Inr True" "s1 = s\<lparr>st_tree := AList.update ?p y t\<rparr>" "stamps V f root ch t0 i y"
    using same by (auto simp: put_file_def)
  then show ?case
  proof cases
    case bad
    then show ?thesis using Cons.prems(3) one stamped_restore [OF head Cons.prems(1)] by auto
  next
    case skip
    then show ?thesis using Cons.IH [OF Cons.prems(1) new(2)] Cons.prems(3) one by auto
  next
    case yes
    then have "stamp_cards V f root ch ids (stamped @ [i]) (s\<lparr>st_tree := AList.update ?p y t\<rparr>) = (r, s')"
      using Cons.prems(3) one by simp
    from Cons.IH [OF stamped_add [OF Cons.prems(1) new(1) yes(3)] new(3) this] show ?thesis using yes(3) by auto
  qed
qed auto

subsection \<open>The moves\<close>

definition roots :: "string \<Rightarrow> string \<Rightarrow> bool" where
  "roots from to \<longleftrightarrow> from = ''channels'' \<and> to = ''archive/channels'' \<or> from = ''archive/channels'' \<and> to = ''channels''"

definition channel_moves :: "string \<Rightarrow> string \<Rightarrow> string \<Rightarrow> string list \<Rightarrow> (string \<times> string) list" where
  "channel_moves from to ch ids =
     card_moves from to ch ids @ [thread_move from to ch, meta_move from to ch]"

lemma moves_ok_Nil [simp]: "moves_ok []"
  by (simp add: moves_ok_def)

lemma apart_neq: "apart a b \<Longrightarrow> a \<noteq> b"
  by (auto simp: apart_def in_dir_def)

lemma moves_ok_snoc:
  assumes "moves_ok M" "apart a b" "\<And>c d. (c, d) \<in> set M \<Longrightarrow> apart a c \<and> apart a d \<and> apart b c \<and> apart b d"
  shows "moves_ok (M @ [(a, b)])"
proof -
  have new: "apart a x \<and> apart b x" if "x \<in> set (ends M)" for x using assms(3) that by force
  have e: "set (ends (M @ [(a, b)])) = insert a (insert b (set (ends M)))" by auto
  have "apart x y" if "x \<in> insert a (insert b (set (ends M)))" "y \<in> insert a (insert b (set (ends M)))" "x \<noteq> y" for x y
  proof -
    have "apart x y" if "x \<in> set (ends M)" "y \<in> set (ends M)" using assms(1) that \<open>x \<noteq> y\<close> by (simp add: moves_ok_def)
    then show ?thesis using that new assms(2) apart_sym by (metis insert_iff)
  qed
  moreover have "distinct (ends (M @ [(a, b)]))"
  proof -
    have "a \<notin> set (ends M)" "b \<notin> set (ends M)" "a \<noteq> b" using new assms(2) apart_neq by blast+
    moreover have "distinct (ends M)" using assms(1) by (simp only: moves_ok_def)
    ultimately show ?thesis by auto
  qed
  ultimately show ?thesis unfolding moves_ok_def e by blast
qed

lemmas path_defs = apart_def in_dir_def below_iff card_dir_def cards_dir_def root_thread_def root_meta_def

lemma root_files_apart:
  assumes "roots from to"
  shows "apart (root_thread from ch) (root_thread to ch)" "apart (root_meta from ch) (root_meta to ch)"
    "apart (root_meta from ch) (root_thread from ch)" "apart (root_meta from ch) (root_thread to ch)"
    "apart (root_meta to ch) (root_thread from ch)" "apart (root_meta to ch) (root_thread to ch)"
    "apart (root_thread from ch) (card_dir from ch i)" "apart (root_thread from ch) (card_dir to ch i)"
    "apart (root_thread to ch) (card_dir from ch i)" "apart (root_thread to ch) (card_dir to ch i)"
    "apart (root_meta from ch) (card_dir from ch i)" "apart (root_meta from ch) (card_dir to ch i)"
    "apart (root_meta to ch) (card_dir from ch i)" "apart (root_meta to ch) (card_dir to ch i)"
    "apart (card_dir from ch i) (card_dir to ch j)"
  using assms by (auto simp: path_defs roots_def)

lemma card_dirs_of_channel_apart:
  assumes "no_slash i" "no_slash j" "i \<noteq> j"
  shows "apart (card_dir root ch i) (card_dir root ch j)"
proof -
  have "i = j" if "i @ y = j" "y = [] \<or> hd y = CHR ''/''" "no_slash i" "no_slash j" for i j y
    using no_slash_split [of i y j "[]"] that by simp
  then show ?thesis using assms by (auto simp: path_defs)
qed

lemma channel_moves_ok:
  assumes "roots from to" "distinct ids" "\<forall>i \<in> set ids. no_slash i"
  shows "moves_ok (channel_moves from to ch ids)"
proof -
  note ap = root_files_apart [OF assms(1)]
  have cards: "moves_ok (card_moves from to ch ids)"
    using assms(2,3)
  proof (induction ids rule: rev_induct)
    case (snoc i ids)
    have "moves_ok (card_moves from to ch ids @ [(card_dir from ch i, card_dir to ch i)])"
    proof (rule moves_ok_snoc)
      fix c d assume "(c, d) \<in> set (card_moves from to ch ids)"
      then obtain j where j: "c = card_dir from ch j" "d = card_dir to ch j" "j \<in> set ids" by (auto simp: card_moves_def)
      then have "apart (card_dir root ch i) (card_dir root ch j)" for root
        using snoc.prems by (intro card_dirs_of_channel_apart) auto
      then show "apart (card_dir from ch i) c \<and> apart (card_dir from ch i) d \<and> apart (card_dir to ch i) c \<and> apart (card_dir to ch i) d"
        using j ap(15) [of ch i j] ap(15) [of ch j i] apart_sym by metis
    qed (use snoc ap in auto)
    then show ?case by (simp add: card_moves_def)
  qed (simp add: card_moves_def)
  have one: "moves_ok (card_moves from to ch ids @ [(root_thread from ch, root_thread to ch)])"
    by (rule moves_ok_snoc [OF cards ap(1)]) (use ap in \<open>auto simp: card_moves_def\<close>)
  have "moves_ok ((card_moves from to ch ids @ [(root_thread from ch, root_thread to ch)]) @ [(root_meta from ch, root_meta to ch)])"
    by (rule moves_ok_snoc [OF one ap(2)]) (use ap in \<open>auto simp: card_moves_def\<close>)
  then show ?thesis by (simp add: channel_moves_def thread_move_def meta_move_def)
qed

text \<open>What a move of a channel relies on: git works as documented, a move back succeeds, the last commit holds the
  tree, and the places the channel moves to are free.\<close>

definition archive_world :: "env \<Rightarrow> app_state \<Rightarrow> bool" where
  "archive_world V s \<longleftrightarrow> git_ok V \<and> undo_ok V (\<lambda>_. True) \<and> no_rebase V \<and> head_holds V UNIV (st_tree s)
     \<and> distinct (map fst (st_tree s)) \<and> (\<forall>l. mset (en_order V l) = mset l)"

definition channel_free :: "string \<Rightarrow> string \<Rightarrow> tree \<Rightarrow> bool" where
  "channel_free root ch t \<longleftrightarrow> \<not> tree_has t (root_thread root ch) \<and> \<not> tree_has t (root_meta root ch)"

lemma channel_plan:
  assumes "roots from to" "distinct ids" "\<forall>i \<in> set ids. no_slash i" "channel_free to ch t"
    "\<forall>i \<in> set ids. \<not> tree_has t (card_dir to ch i)"
  shows "move_plan (\<lambda>_. True) (channel_moves from to ch ids) t"
  using assms channel_moves_ok by (auto simp: move_plan_def channel_moves_def card_moves_def channel_free_def thread_move_def meta_move_def)

lemma move_plan_prefix: "move_plan P (M @ N) t \<Longrightarrow> move_plan P M t"
  using moves_ok_prefix [of M N] by (auto simp: move_plan_def)

text \<open>The outcome of the moves: refused with everything as before, or one commit with everything moved.\<close>

definition channel_outcome ::
  "(string \<times> string) list \<Rightarrow> tree \<Rightarrow> tree \<Rightarrow> app_state \<Rightarrow> 'a + unit \<Rightarrow> app_state \<Rightarrow> bool" where
  "channel_outcome M t0 t s r s' \<longleftrightarrow>
     (\<exists>e. r = Inl e) \<and> s' = s\<lparr>st_tree := t0\<rparr>
     \<or> st_tree s' = all_moved M t \<and> length (st_commits s') = Suc (length (st_commits s)) \<and> st_users s' = st_users s"

lemma commit_channel_effect:
  assumes env: "git_ok V" "undo_ok V (\<lambda>_. True)" "no_rebase V" "head_holds V UNIV t0" "distinct (map fst t0)"
    and st: "stamped_tree V f from ch t0 ids t" and mv: "all_movable (\<lambda>_. True) (channel_moves from to ch ids) t"
    and run: "commit_channel V op c from to ch msg a ids (s\<lparr>st_tree := all_moved (channel_moves from to ch ids) t\<rparr>) = (r, s')"
  shows "channel_outcome (channel_moves from to ch ids) t0 t s r s'"
proof -
  let ?C = "card_moves from to ch ids" and ?T = "thread_move from to ch" and ?M = "meta_move from to ch"
  let ?s = "s\<lparr>st_tree := all_moved (channel_moves from to ch ids) t\<rparr>"
  obtain r1 s1 where c: "add_and_commit_as V (snd ?T # snd ?M
      # concat (map (\<lambda>i. [card_meta_file (card_dir to ch i), card_thread_file (card_dir to ch i)]) ids)) msg a ?s = (r1, s1)" by force
  note run1 = run [unfolded commit_channel_def Let_def c prod.case]
  show ?thesis
  proof (cases r1)
    case (Inl e)
    then have "s1 = ?s" using add_and_commit_frame [OF c] by simp
    then have "undo_move V ?T (undo_move V ?M (undo_moves V ?C s1)) = s\<lparr>st_tree := t\<rparr>"
      using undo_all [OF env(1,2) mv, of "rev ?C @ [?M, ?T]" s] by (simp add: undo_moves_def channel_moves_def)
    then show ?thesis using run1 Inl stamped_restore [OF env(4,5) st] by (auto simp: channel_outcome_def)
  next
    case (Inr u)
    have "s' = s1" using run1 Inr push_frame [OF env(3), of op s1 r s'] by auto
    then show ?thesis using add_and_commit_frame [OF c, unfolded Inr sum.case] by (simp add: channel_outcome_def)
  qed
qed

lemma move_channel_files_effect:
  assumes env: "git_ok V" "undo_ok V (\<lambda>_. True)" "no_rebase V" "head_holds V UNIV t0" "distinct (map fst t0)"
    and st: "stamped_tree V f from ch t0 ids t" and plan: "move_plan (\<lambda>_. True) (channel_moves from to ch ids) t"
    and mv: "all_movable (\<lambda>_. True) (card_moves from to ch ids) t"
    and run: "move_channel_files V op c from to ch msg a ids (s\<lparr>st_tree := all_moved (card_moves from to ch ids) t\<rparr>) = (r, s')"
  shows "channel_outcome (channel_moves from to ch ids) t0 t s r s'"
proof -
  let ?C = "card_moves from to ch ids" and ?T = "thread_move from to ch" and ?M = "meta_move from to ch"
  note restored = stamped_restore [OF env(4,5) st]
  have plan3: "move_plan (\<lambda>_. True) (((?C @ [?T]) @ [(fst ?M, snd ?M)])) t" using plan by (simp add: channel_moves_def)
  have plan2: "move_plan (\<lambda>_. True) (?C @ [(fst ?T, snd ?T)]) t" using move_plan_prefix [OF plan3] by simp
  obtain r2 s2 where g2: "git_mv V (fst ?T) (snd ?T) (s\<lparr>st_tree := all_moved ?C t\<rparr>) = (r2, s2)" by force
  obtain r3 s3 where g3: "git_mv V (fst ?M) (snd ?M) s2 = (r3, s3)" by force
  note run2 = run [unfolded move_channel_files_def g2 g3 prod.case]
  from git_mv_planned [OF env(1) plan2 mv g2]
  consider (bad) "\<exists>e. r2 = Inl e" "s2 = s\<lparr>st_tree := all_moved ?C t\<rparr>"
    | (ok) "r2 = Inr ()" "s2 = s\<lparr>st_tree := all_moved (?C @ [?T]) t\<rparr>" "all_movable (\<lambda>_. True) (?C @ [?T]) t" by auto
  then show ?thesis
  proof cases
    case bad
    then have "undo_moves V ?C s2 = s\<lparr>st_tree := t\<rparr>" using undo_moves_all [OF env(1,2) mv] by simp
    then show ?thesis using run2 bad(1) restored by (auto simp: channel_outcome_def)
  next
    case ok
    note g = g3 [unfolded ok(2)]
    from git_mv_planned [OF env(1) plan3 ok(3) g]
    consider (bad) "\<exists>e. r3 = Inl e" "s3 = s\<lparr>st_tree := all_moved (?C @ [?T]) t\<rparr>"
      | (ok3) "r3 = Inr ()" "s3 = s\<lparr>st_tree := all_moved (channel_moves from to ch ids) t\<rparr>"
        "all_movable (\<lambda>_. True) (channel_moves from to ch ids) t"
      by (auto simp: channel_moves_def)
    then show ?thesis
    proof cases
      case bad
      have "undo_moves V ?C (undo_move V ?T s3) = s\<lparr>st_tree := t\<rparr>"
        using undo_all [OF env(1,2) ok(3), of "?T # rev ?C" s] bad(2) by (simp add: undo_moves_def)
      then show ?thesis using run2 ok(1) bad(1) restored by (auto simp: channel_outcome_def)
    next
      case ok3
      then have "commit_channel V op c from to ch msg a ids (s\<lparr>st_tree := all_moved (channel_moves from to ch ids) t\<rparr>) = (r, s')"
        using run2 ok(1) by simp
      then show ?thesis by (rule commit_channel_effect [OF env st ok3(3)])
    qed
  qed
qed

lemma move_channel_effect:
  assumes env: "git_ok V" "undo_ok V (\<lambda>_. True)" "no_rebase V" "head_holds V UNIV t0" "distinct (map fst t0)"
    and st: "stamped_tree V f from ch t0 ids t" and plan: "move_plan (\<lambda>_. True) (channel_moves from to ch ids) t"
    and run: "move_channel V op c1 c2 from to ch msg a ids (s\<lparr>st_tree := t\<rparr>) = (r, s')"
  shows "channel_outcome (channel_moves from to ch ids) t0 t s r s'"
proof (cases "if ids = [] then Inr () else make_dir V c1 (cards_dir to ch)")
  case (Inl e)
  then show ?thesis
    using run [unfolded move_channel_def Inl sum.case] stamped_restore [OF env(4,5) st]
    unfolding channel_outcome_def by (metis Pair_inject)
next
  case (Inr u)
  let ?C = "card_moves from to ch ids"
  have plan': "move_plan (\<lambda>_. True) ([] @ ?C) t" using plan move_plan_prefix by (simp add: channel_moves_def)
  have start: "all_movable (\<lambda>_. True) [] t" by (simp add: all_movable_def)
  obtain r1 done1 s1 where d: "do_moves V ?C [] (s\<lparr>st_tree := all_moved [] t\<rparr>) = (r1, done1, s1)" by (metis prod_cases3)
  from do_moves_result [OF env(1) plan' start d]
  have D: "s1 = s\<lparr>st_tree := all_moved done1 t\<rparr>" "all_movable (\<lambda>_. True) done1 t" "r1 = Inr u1 \<Longrightarrow> done1 = ?C" for u1 by auto
  note run1 = run [unfolded move_channel_def Inr sum.case d [simplified] prod.case]
  show ?thesis
  proof (cases r1)
    case (Inl e)
    have "undo_moves V done1 s1 = s\<lparr>st_tree := t\<rparr>" using undo_moves_all [OF env(1,2) D(2)] D(1) by simp
    then show ?thesis using run1 Inl stamped_restore [OF env(4,5) st] by (auto simp: channel_outcome_def)
  next
    case ok: (Inr u1)
    then have "done1 = ?C" using D(3) by blast
    then show ?thesis using move_channel_files_effect [OF env st plan] run1 ok D by simp
  qed
qed

subsection \<open>All or nothing\<close>

lemma in_map_filter: "x \<in> set xs \<Longrightarrow> f x = Some y \<Longrightarrow> y \<in> set (List.map_filter f xs)"
  by (force simp: List.map_filter_def)

lemma read_dir_names:
  assumes "\<forall>l. mset (en_order V l) = mset l"
  shows "distinct (read_dir V s d)" "i \<in> set (read_dir V s d) \<Longrightarrow> no_slash i"
    "no_slash i \<Longrightarrow> (d @ ''/'' @ i @ ''/'' @ r, c) \<in> set (st_tree s) \<Longrightarrow> i \<in> set (read_dir V s d)"
proof -
  let ?f = "\<lambda>(p, _). map_option (takeWhile (\<lambda>c. c \<noteq> CHR ''/'')) (strip_prefix (d @ ''/'') p)"
  let ?l = "remdups (List.map_filter ?f (st_tree s))"
  have eq: "mset (read_dir V s d) = mset ?l" using assms by (simp add: read_dir_def)
  have set: "set (read_dir V s d) = set (List.map_filter ?f (st_tree s))" using mset_eq_setD [OF eq] by simp
  show "distinct (read_dir V s d)" using eq by (metis distinct_remdups mset_eq_imp_distinct_iff)
  have strip: "strip_prefix (d @ ''/'') (d @ CHR ''/'' # z) = Some z" for z by simp
  show "no_slash i" if "i \<in> set (read_dir V s d)"
    using that unfolding set by (auto simp: List.map_filter_def strip dest: set_takeWhileD)
  show "i \<in> set (read_dir V s d)" if "no_slash i" "(d @ ''/'' @ i @ ''/'' @ r, c) \<in> set (st_tree s)"
  proof -
    have s: "strip_prefix (d @ ''/'') ((d @ ''/'') @ (i @ ''/'' @ r)) = Some (i @ ''/'' @ r)" by simp
    have t: "takeWhile (\<lambda>c. c \<noteq> CHR ''/'') (i @ CHR ''/'' # r) = i"
      using that(1) by (subst takeWhile_tail, simp) (auto simp: takeWhile_eq_all_conv)
    have "?f (d @ ''/'' @ i @ ''/'' @ r, c) = Some i" using s t by simp
    then show ?thesis unfolding set by (rule in_map_filter [OF that(2)])
  qed
qed

text \<open>A channel and its cards have moved, in one commit: \<open>ids\<close> are exactly the cards \<open>stamp\<close> selects.\<close>

definition relocated ::
  "env \<Rightarrow> (card_meta \<Rightarrow> card_meta option) \<Rightarrow> string \<Rightarrow> string \<Rightarrow> string \<Rightarrow> app_state \<Rightarrow> app_state \<Rightarrow> bool" where
  "relocated V stamp from to ch s s' \<longleftrightarrow>
     (\<exists>ids t. distinct ids \<and> (\<forall>i. i \<in> set ids \<longleftrightarrow> no_slash i \<and> (\<exists>y. stamps V stamp from ch (st_tree s) i y))
        \<and> stamped_tree V stamp from ch (st_tree s) ids t \<and> move_plan (\<lambda>_. True) (channel_moves from to ch ids) t
        \<and> st_tree s' = all_moved (channel_moves from to ch ids) t
        \<and> st_users s' = st_users s \<and> length (st_commits s') = Suc (length (st_commits s)))"

lemma card_rel_dir: "active_card_rel ch i = card_dir ''channels'' ch i" "archived_card_rel ch i = card_dir ''archive/channels'' ch i"
  by (simp_all add: active_card_rel_def archived_card_rel_def card_dir_def cards_dir_def)

definition channel_exclusive :: "string \<Rightarrow> tree \<Rightarrow> bool" where
  "channel_exclusive ch t \<longleftrightarrow>
     (\<forall>i. no_slash i \<longrightarrow> \<not> (tree_has t (card_dir ''channels'' ch i) \<and> tree_has t (card_dir ''archive/channels'' ch i)))"

lemma exclusive_channel: "exclusive t \<Longrightarrow> no_slash ch \<Longrightarrow> channel_exclusive ch t"
  by (auto simp: exclusive_def channel_exclusive_def card_rel_dir)

lemma exclusive_roots:
  "channel_exclusive ch t \<Longrightarrow> roots from to \<Longrightarrow> no_slash i \<Longrightarrow> tree_has t (card_dir from ch i) \<Longrightarrow> \<not> tree_has t (card_dir to ch i)"
  by (auto simp: channel_exclusive_def roots_def)

lemma relocate_channel_effect:
  assumes world: "archive_world V s" and dirs: "roots from to" "channel_exclusive ch (st_tree s)" "channel_free to ch (st_tree s)"
    and ids: "card_entries V ctx s (cards_dir from ch) = Inr ids"
    and st: "stamp_cards V f from ch ids [] s = (Inr stamped, s1)"
    and mv: "move_channel V op c1 c2 from to ch msg a stamped s1 = (r, s')"
  shows "(\<exists>e. r = Inl e) \<and> s' = s \<or> relocated V f from to ch s s'"
proof -
  let ?sel = "\<lambda>i. \<exists>y. stamps V f from ch (st_tree s) i y"
  have w: "git_ok V" "undo_ok V (\<lambda>_. True)" "no_rebase V" "head_holds V UNIV (st_tree s)" "distinct (map fst (st_tree s))"
    "\<forall>l. mset (en_order V l) = mset l" using world by (auto simp: archive_world_def)
  have d: "distinct ids" "\<forall>i \<in> set ids. no_slash i"
    using ids read_dir_names [OF w(6)] by (auto simp: card_entries_def split: if_splits option.splits)
  have all: "i \<in> set ids" if i: "no_slash i" and sel: "?sel i" for i
  proof -
    obtain c where c: "(card_file from ch i, c) \<in> set (st_tree s)" using sel by (auto simp: stamps_def dest: map_of_SomeD)
    then have "path_exists s (cards_dir from ch)"
      by (auto simp: path_exists_def list_ex_iff below_iff card_meta_file_def card_dir_def)
    then have "ids = read_dir V s (cards_dir from ch)" using ids by (auto simp: card_entries_def split: option.splits)
    then show ?thesis using read_dir_names(3) [OF w(6) i] c by (simp add: card_meta_file_def card_dir_def)
  qed
  have "stamped_tree V f from ch (st_tree s) [] (st_tree s)" by (simp add: stamped_tree_def rewritten_refl)
  from stamp_cards_result [OF w(4,5) this, of ids s] st d(1)
  obtain t where t: "s1 = s\<lparr>st_tree := t\<rparr>" "stamped = filter ?sel ids" "stamped_tree V f from ch (st_tree s) stamped t" by auto
  have free: "\<not> tree_has t (card_dir to ch i)" if "i \<in> set stamped" for i
  proof -
    have "tree_has (st_tree s) (card_dir from ch i)"
      using stamped_present [OF t(3) that] tree_has_file tree_has_below card_meta_in_dir(1) by blast
    then have "\<not> tree_has (st_tree s) (card_dir to ch i)" using exclusive_roots dirs d(2) that t(2) by auto
    then show ?thesis using t(3) rewritten_has by (auto simp: stamped_tree_def)
  qed
  have "channel_free to ch t" using dirs(3) t(3) rewritten_has by (auto simp: stamped_tree_def channel_free_def)
  then have plan: "move_plan (\<lambda>_. True) (channel_moves from to ch stamped) t"
    using channel_plan [OF dirs(1)] d t(2) free by auto
  have ids': "distinct stamped" "\<forall>i. i \<in> set stamped \<longleftrightarrow> no_slash i \<and> ?sel i" using t(2) d all by auto
  from move_channel_effect [OF w(1-5) t(3) plan mv [unfolded t(1)]] show ?thesis
    unfolding channel_outcome_def relocated_def using t(3) plan ids' by auto
qed

lemma stamp_cards_refused:
  assumes "archive_world V s" "card_entries V ctx s (cards_dir from ch) = Inr ids" "stamp_cards V f from ch ids [] s = (Inl e, s1)"
  shows "s1 = s"
proof -
  have w: "head_holds V UNIV (st_tree s)" "distinct (map fst (st_tree s))" "\<forall>l. mset (en_order V l) = mset l"
    using assms(1) by (auto simp: archive_world_def)
  have d: "distinct ids"
    using assms(2) read_dir_names(1) [OF w(3)] by (auto simp: card_entries_def split: if_splits option.splits)
  have "stamped_tree V f from ch (st_tree s) [] (st_tree s)" by (simp add: stamped_tree_def rewritten_refl)
  from stamp_cards_result [OF w(1,2) this, of ids s] assms(3) d show ?thesis by auto
qed

definition stamp_channel :: "card_meta \<Rightarrow> card_meta option" where
  "stamp_channel m = Some (m\<lparr>card_archived_via := Some ViaChannel\<rparr>)"

definition unstamp_channel :: "card_meta \<Rightarrow> card_meta option" where
  "unstamp_channel m = (if card_archived_via m \<noteq> Some ViaChannel then None else Some (m\<lparr>card_archived_via := None\<rparr>))"

lemma stamp_fold: "(\<lambda>m. Some (m\<lparr>card_archived_via := Some ViaChannel\<rparr>)) = stamp_channel"
  "(\<lambda>m. if card_archived_via m \<noteq> Some ViaChannel then None else Some (m\<lparr>card_archived_via := None\<rparr>)) = unstamp_channel"
  by (simp_all add: fun_eq_iff stamp_channel_def unstamp_channel_def)

lemma archive_channel_effect:
  assumes world: "archive_world V s" "channel_exclusive ch (st_tree s)"
    and run: "handle_archive_channel V s0 ch a s = (r, s')" and free: "channel_free ''archive/channels'' ch (st_tree s)"
  shows "(\<exists>e. r = Inl e) \<and> s' = s
    \<or> is_ok (archive_channel_checks V s0 s ch a) \<and> relocated V stamp_channel ''channels'' ''archive/channels'' ch s s'"
proof (cases "archive_channel_checks V s0 s ch a")
  case (Inl e)
  then show ?thesis using run by (auto simp: handle_archive_channel_def)
next
  case (Inr n)
  have "channel_name_new ch = Inr n" using Inr by (auto simp: archive_channel_checks_def)
  then have n: "channel_str n = ch" "no_slash ch" using channel_no_slash by auto
  show ?thesis
  proof (cases "card_entries V ''failed to read cards dir'' s (cards_dir ''channels'' ch)")
    case (Inl e)
    then show ?thesis using run Inr n(1) by (auto simp: handle_archive_channel_def)
  next
    case ids: (Inr ids)
    obtain r1 s1 where st: "stamp_cards V stamp_channel ''channels'' ch ids [] s = (r1, s1)" by force
    note run1 = run [unfolded handle_archive_channel_def Inr stamp_fold, simplified, unfolded n(1) ids, simplified, unfolded st prod.case]
    show ?thesis
    proof (cases r1)
      case (Inl e)
      then show ?thesis using run1 stamp_cards_refused [OF world(1) ids st [unfolded Inl]] by auto
    next
      case ok: (Inr stamped)
      have "roots ''channels'' ''archive/channels''" by (simp add: roots_def)
      from relocate_channel_effect [OF world(1) this world(2) free ids st [unfolded ok]] run1 ok Inr
      show ?thesis by auto
    qed
  qed
qed

lemma relocated_event: "relocated V f from to ch s s' \<Longrightarrow> relocated V f from to ch s (send_event e s')"
  by (simp add: relocated_def)

lemma unarchive_channel_effect:
  assumes world: "archive_world V s" "channel_exclusive ch (st_tree s)"
    and run: "handle_unarchive_channel V s0 ch a s = (r, s')" and free: "channel_free ''channels'' ch (st_tree s)"
  shows "(\<exists>e. r = Inl e) \<and> s' = s
    \<or> is_ok (unarchive_channel_checks V s0 s ch a) \<and> relocated V unstamp_channel ''archive/channels'' ''channels'' ch s s'"
proof (cases "unarchive_channel_checks V s0 s ch a")
  case (Inl e)
  then show ?thesis using run by (auto simp: handle_unarchive_channel_def)
next
  case (Inr n)
  have "channel_name_new ch = Inr n" using Inr by (auto simp: unarchive_channel_checks_def)
  then have n: "channel_str n = ch" "no_slash ch" using channel_no_slash by auto
  show ?thesis
  proof (cases "card_entries V ''failed to read archive cards dir'' s (cards_dir ''archive/channels'' ch)")
    case (Inl e)
    then show ?thesis using run Inr n(1) by (auto simp: handle_unarchive_channel_def)
  next
    case ids: (Inr ids)
    obtain r1 s1 where st: "stamp_cards V unstamp_channel ''archive/channels'' ch ids [] s = (r1, s1)" by force
    note run1 = run [unfolded handle_unarchive_channel_def Inr stamp_fold, simplified, unfolded n(1) ids, simplified, unfolded st prod.case]
    show ?thesis
    proof (cases r1)
      case (Inl e)
      then show ?thesis using run1 stamp_cards_refused [OF world(1) ids st [unfolded Inl]] by auto
    next
      case ok: (Inr stamped)
      have "roots ''archive/channels'' ''channels''" by (simp add: roots_def)
      from relocate_channel_effect [OF world(1) this world(2) free ids st [unfolded ok]] run1 ok Inr
      show ?thesis by (fastforce split: sum.splits prod.splits intro: relocated_event)
    qed
  qed
qed

text \<open>C11: Archiving a channel is all or nothing.  A request by the creator moves the thread, the metadata and every
  card of the channel to the archive, stamping each card, in one commit; a request that is refused or fails at
  any step (a card that cannot be read, a failed write, move or commit) leaves the whole state as it was.
  The same holds for restoring a channel, which takes back exactly the cards the channel took along.\<close>

theorem channel_archive_atomic:
  assumes "archive_world V s" "channel_exclusive ch (st_tree s)"
  shows "(\<forall>r s'. handle_archive_channel V s0 ch a s = (r, s') \<and> channel_free ''archive/channels'' ch (st_tree s) \<longrightarrow>
      (\<exists>e. r = Inl e) \<and> s' = s
      \<or> is_ok (archive_channel_checks V s0 s ch a) \<and> relocated V stamp_channel ''channels'' ''archive/channels'' ch s s')
    \<and> (\<forall>r s'. handle_unarchive_channel V s0 ch a s = (r, s') \<and> channel_free ''channels'' ch (st_tree s) \<longrightarrow>
      (\<exists>e. r = Inl e) \<and> s' = s
      \<or> is_ok (unarchive_channel_checks V s0 s ch a) \<and> relocated V unstamp_channel ''archive/channels'' ''channels'' ch s s')"
  using archive_channel_effect [OF assms] unarchive_channel_effect [OF assms] by blast

subsection \<open>Archiving and restoring are inverse\<close>

lemma plan_targets_free: "move_plan P M t \<Longrightarrow> distinct (map fst t) \<Longrightarrow> targets_free M t"
  by (auto simp: move_plan_def targets_free_def)

lemma stamped_keys: "stamped_tree V f root ch t0 ids t \<Longrightarrow> distinct (map fst t0) \<Longrightarrow> distinct (map fst t)"
  by (simp add: stamped_tree_def rewritten_def)

lemma stamped_other: "stamped_tree V f root ch t0 ids t \<Longrightarrow> p \<notin> card_file root ch ` set ids \<Longrightarrow> map_of t p = map_of t0 p"
  by (simp add: stamped_tree_def rewritten_def)

lemma channel_moves_iff:
  "(a, b) \<in> set (channel_moves from to ch ids) \<longleftrightarrow>
     (\<exists>i \<in> set ids. a = card_dir from ch i \<and> b = card_dir to ch i)
     \<or> a = root_thread from ch \<and> b = root_thread to ch \<or> a = root_meta from ch \<and> b = root_meta to ch"
  by (auto simp: channel_moves_def card_moves_def thread_move_def meta_move_def)

lemma channel_moves_flip: "set ids = set ids' \<Longrightarrow> (a, b) \<in> set (channel_moves from to ch ids) \<longleftrightarrow> (b, a) \<in> set (channel_moves to from ch ids')"
  by (auto simp: channel_moves_iff)

text \<open>A file is rewritten when its channel is archived exactly when its moved name is rewritten when it is restored.\<close>

lemma card_file_moved:
  assumes "roots from to" "(a, b) \<in> set (channel_moves from to ch ids)" "in_dir a q" "i \<in> set ids" "\<forall>i \<in> set ids. no_slash i"
  shows "moved_name a b q = card_file to ch i \<longleftrightarrow> q = card_file from ch i"
proof -
  note ap = root_files_apart [OF assms(1)]
  have in_to: "in_dir b (moved_name a b q)" "moved_name b a (moved_name a b q) = q" using moved_in [OF assms(3)] by auto
  consider (card) j where "j \<in> set ids" "a = card_dir from ch j" "b = card_dir to ch j"
    | (plain) "a = root_thread from ch \<and> b = root_thread to ch \<or> a = root_meta from ch \<and> b = root_meta to ch"
    using assms(2) by (auto simp: channel_moves_iff)
  then show ?thesis
  proof cases
    case card
    show ?thesis
    proof (cases "j = i")
      case True
      then show ?thesis using in_to card by (metis card_files_moved(1))
    next
      case False
      then have "apart (card_dir root ch j) (card_dir root ch i)" for root
        using card_dirs_of_channel_apart assms(4,5) card(1) by blast
      then have "\<not> in_dir a (card_file from ch i)" "\<not> in_dir b (card_file to ch i)"
        using card apart_paths [OF _ card_meta_in_dir(1)] apart_sym by metis+
      then show ?thesis using assms(3) in_to(1) by auto
    qed
  next
    case plain
    then have "\<not> in_dir a (card_file from ch i)" "\<not> in_dir b (card_file to ch i)"
      using ap apart_paths [OF _ card_meta_in_dir(1)] apart_sym by metis+
    then show ?thesis using assms(3) in_to(1) by auto
  qed
qed

lemma relocated_back:
  assumes r: "roots from to"
    and one: "stamped_tree V f from ch (st_tree s) ids t" "targets_free (channel_moves from to ch ids) t"
      "st_tree s1 = all_moved (channel_moves from to ch ids) t"
    and two: "stamped_tree W g to ch (st_tree s1) ids' t'" "targets_free (channel_moves to from ch ids') t'"
      "st_tree s2 = all_moved (channel_moves to from ch ids') t'"
    and ids: "set ids' = set ids" "\<forall>i \<in> set ids. no_slash i"
    and cards: "\<And>i. i \<in> set ids \<Longrightarrow> map_of t' (card_file to ch i) = map_of (st_tree s) (card_file from ch i)"
  shows "map_of (st_tree s2) q = map_of (st_tree s) q"
proof -
  let ?M = "channel_moves from to ch ids" and ?N = "channel_moves to from ch ids'"
  have flip: "(a, b) \<in> set ?M \<longleftrightarrow> (b, a) \<in> set ?N" for a b using channel_moves_flip ids(1) by metis
  consider (src) a b where "(a, b) \<in> set ?M" "in_dir a q" | (dst) a b where "(a, b) \<in> set ?M" "in_dir b q"
    | (other) "\<forall>(a, b) \<in> set ?M. \<not> in_dir a q \<and> \<not> in_dir b q" by blast
  then show ?thesis
  proof cases
    case src
    let ?q = "moved_name a b q"
    have q: "in_dir b ?q" "moved_name b a ?q = q" using moved_in [OF src(2)] by auto
    have look: "map_of (st_tree s2) q = map_of t' ?q" "map_of (st_tree s1) ?q = map_of t q"
      using lookup_moved(1) [OF two(2) _ q(1), of a] flip src(1) q(2) two(3) lookup_moved(1) [OF one(2) src] one(3) by auto
    show ?thesis
    proof (cases "\<exists>i \<in> set ids. q = card_file from ch i")
      case True
      then obtain i where i: "i \<in> set ids" "q = card_file from ch i" by blast
      then have "?q = card_file to ch i" using card_file_moved [OF r src i(1) ids(2)] by simp
      then show ?thesis using look(1) cards [OF i(1)] i(2) by simp
    next
      case False
      then have "?q \<notin> card_file to ch ` set ids'" "q \<notin> card_file from ch ` set ids"
        using card_file_moved [OF r src _ ids(2)] ids(1) by auto
      then show ?thesis using look stamped_other [OF two(1)] stamped_other [OF one(1)] by auto
    qed
  next
    case dst
    have "map_of (st_tree s2) q = None" using lookup_moved(2) [OF two(2) _ dst(2), of a] flip dst(1) two(3) by auto
    moreover have "\<not> tree_has t b" using one(2) dst(1) by (auto simp: targets_free_def)
    then have "\<not> tree_has (st_tree s) b" using one(1) rewritten_has by (auto simp: stamped_tree_def)
    then have "map_of (st_tree s) q = None" using dst(2) by (auto simp: tree_has_iff)
    ultimately show ?thesis by simp
  next
    case other
    have "\<not> in_dir (card_dir from ch i) q \<and> \<not> in_dir (card_dir to ch i) q" if "i \<in> set ids" for i
      using other that channel_moves_iff by blast
    then have "q \<notin> card_file from ch ` set ids" "q \<notin> card_file to ch ` set ids'"
      using ids(1) card_meta_in_dir(1) by blast+
    moreover have "\<forall>(a, b) \<in> set ?N. \<not> in_dir a q \<and> \<not> in_dir b q" using other flip by blast
    ultimately show ?thesis
      using lookup_outside [OF one(2) other] lookup_outside [OF two(2)] one(3) two(3) stamped_other [OF one(1)] stamped_other [OF two(1)]
      by simp
  qed
qed

lemma apart_symD: "apart a b \<Longrightarrow> apart b a"
  by (simp add: apart_def)

lemmas root_files_apart_rev = root_files_apart [THEN apart_symD]

lemma card_end_apart:
  assumes r: "roots from to" and i: "i \<notin> set ids" "\<forall>i \<in> set ids. no_slash i" "no_slash i"
    and m: "(a, b) \<in> set (channel_moves from to ch ids)" and root: "root = from \<or> root = to"
  shows "apart (card_dir root ch i) a \<and> apart (card_dir root ch i) b"
proof -
  have j: "apart (card_dir root ch i) (card_dir root ch j)" if "j \<in> set ids" for j root
    using card_dirs_of_channel_apart i that by metis
  then show ?thesis
    using m root root_files_apart [OF r] root_files_apart_rev [OF r] by (auto simp: channel_moves_iff)
qed

lemma relocated_exclusive:
  assumes "roots ''channels'' to" "channel_exclusive ch t" "move_plan P (channel_moves ''channels'' to ch ids) t" "\<forall>i \<in> set ids. no_slash i"
  shows "channel_exclusive ch (all_moved (channel_moves ''channels'' to ch ids) t)"
    and "channel_free ''channels'' ch (all_moved (channel_moves ''channels'' to ch ids) t)"
proof -
  let ?M = "channel_moves ''channels'' to ch ids"
  have to: "to = ''archive/channels''" using assms(1) by (auto simp: roots_def)
  have ok: "moves_ok ?M" "\<And>a b. (a, b) \<in> set ?M \<Longrightarrow> \<not> tree_has t b" using assms(3) by (auto simp: move_plan_def)
  have gone: "\<not> tree_has (all_moved ?M t) a" if "(a, b) \<in> set ?M" for a b
    using undo_one(2) [OF ok(1) that ok(2) [OF that]] .
  show "channel_free ''channels'' ch (all_moved ?M t)" using gone by (auto simp: channel_free_def channel_moves_iff)
  show "channel_exclusive ch (all_moved ?M t)"
    unfolding channel_exclusive_def
  proof (intro allI impI)
    fix i assume i: "no_slash i"
    show "\<not> (tree_has (all_moved ?M t) (card_dir ''channels'' ch i) \<and> tree_has (all_moved ?M t) (card_dir ''archive/channels'' ch i))"
    proof (cases "i \<in> set ids")
      case True
      then show ?thesis using gone by (auto simp: channel_moves_iff)
    next
      case False
      have "tree_has (all_moved ?M t) (card_dir r ch i) = tree_has t (card_dir r ch i)"
        if "r = ''channels'' \<or> r = ''archive/channels''" for r
        by (rule tree_has_all_moved) (use card_end_apart [OF assms(1) False assms(4) i] that to in blast)
      then show ?thesis using assms(2) i by (auto simp: channel_exclusive_def)
    qed
  qed
qed

definition canonical_cards :: "env \<Rightarrow> string \<Rightarrow> tree \<Rightarrow> bool" where
  "canonical_cards V ch t \<longleftrightarrow>
     (\<forall>i c m. no_slash i \<and> map_of t (card_file ''channels'' ch i) = Some c \<and> en_card_read V c = Some m \<longrightarrow>
        en_card_write V m = Some c \<and> card_archived_via m = None)
     \<and> (\<forall>i c m. no_slash i \<and> map_of t (card_file ''archive/channels'' ch i) = Some c \<and> en_card_read V c = Some m \<longrightarrow>
        card_archived_via m \<noteq> Some ViaChannel)"

lemma unstamp_stamped:
  assumes yaml: "card_yaml_ok V" "en_card_read W = en_card_read V" "en_card_write W = en_card_write V" and can: "canonical_cards V ch t0"
    and i: "no_slash i" "stamps V stamp_channel ''channels'' ch t0 i y" "map_of t1 (card_file ''archive/channels'' ch i) = Some y"
  shows "stamps W unstamp_channel ''archive/channels'' ch t1 i y' \<longleftrightarrow> map_of t0 (card_file ''channels'' ch i) = Some y'"
proof -
  obtain c m where c: "map_of t0 (card_file ''channels'' ch i) = Some c" "en_card_read V c = Some m"
      "en_card_write V (m\<lparr>card_archived_via := Some ViaChannel\<rparr>) = Some y"
    using i(2) by (auto simp: stamps_def stamp_channel_def)
  have m: "en_card_write V m = Some c" "card_archived_via m = None" using can i(1) c unfolding canonical_cards_def by blast+
  have "en_card_read V y = Some (m\<lparr>card_archived_via := Some ViaChannel\<rparr>)" using yaml(1) c(3) by (auto simp: card_yaml_ok_def)
  moreover have "m\<lparr>card_archived_via := None\<rparr> = m" using m(2) by simp
  ultimately show ?thesis using i(3) c(1) m(1) yaml(2,3) by (auto simp: stamps_def unstamp_channel_def)
qed

lemma other_card_outside:
  assumes "roots from to" "i \<notin> set ids" "\<forall>i \<in> set ids. no_slash i" "no_slash i"
  shows "\<forall>(a, b) \<in> set (channel_moves from to ch ids). \<not> in_dir a (card_file to ch i) \<and> \<not> in_dir b (card_file to ch i)"
proof -
  have "\<not> in_dir a (card_file to ch i) \<and> \<not> in_dir b (card_file to ch i)"
    if "(a, b) \<in> set (channel_moves from to ch ids)" for a b
    using card_end_apart [OF assms that, of to] apart_paths [OF _ card_meta_in_dir(1)] by blast
  then show ?thesis by blast
qed

lemma lookup_root_files:
  assumes "roots from to" "targets_free (channel_moves from to ch ids) t" "stamped_tree V f from ch t0 ids t"
  shows "map_of (all_moved (channel_moves from to ch ids) t) (root_thread to ch) = map_of t0 (root_thread from ch)"
    and "map_of (all_moved (channel_moves from to ch ids) t) (root_meta to ch) = map_of t0 (root_meta from ch)"
proof -
  have self: "in_dir d d" for d by (simp add: in_dir_def)
  have "root_thread from ch \<notin> card_file from ch ` set ids" "root_meta from ch \<notin> card_file from ch ` set ids"
    by (auto simp: root_thread_def root_meta_def card_meta_file_def card_dir_def cards_dir_def)
  note same = this [THEN stamped_other [OF assms(3)]]
  have m: "(root_thread from ch, root_thread to ch) \<in> set (channel_moves from to ch ids)"
    "(root_meta from ch, root_meta to ch) \<in> set (channel_moves from to ch ids)" by (auto simp: channel_moves_iff)
  show "map_of (all_moved (channel_moves from to ch ids) t) (root_thread to ch) = map_of t0 (root_thread from ch)"
    using lookup_moved(1) [OF assms(2) m(1) self] same(1) by simp
  show "map_of (all_moved (channel_moves from to ch ids) t) (root_meta to ch) = map_of t0 (root_meta from ch)"
    using lookup_moved(1) [OF assms(2) m(2) self] same(2) by simp
qed

text \<open>The restore takes along exactly the cards the archiving took, and gives each its old content.\<close>

lemma restored_cards:
  assumes yaml: "card_yaml_ok V" "en_card_read W = en_card_read V" "en_card_write W = en_card_write V" "canonical_cards V ch t0"
    and one: "\<forall>i. i \<in> set ids \<longleftrightarrow> no_slash i \<and> (\<exists>y. stamps V stamp_channel ''channels'' ch t0 i y)"
      "stamped_tree V stamp_channel ''channels'' ch t0 ids t" "targets_free (channel_moves ''channels'' ''archive/channels'' ch ids) t"
      "t1 = all_moved (channel_moves ''channels'' ''archive/channels'' ch ids) t"
    and two: "\<forall>i. i \<in> set ids' \<longleftrightarrow> no_slash i \<and> (\<exists>y. stamps W unstamp_channel ''archive/channels'' ch t1 i y)"
      "stamped_tree W unstamp_channel ''archive/channels'' ch t1 ids' t'"
  shows "set ids' = set ids"
    and "i \<in> set ids \<Longrightarrow> map_of t' (card_file ''archive/channels'' ch i) = map_of t0 (card_file ''channels'' ch i)"
proof -
  let ?C = "''channels''" and ?A = "''archive/channels''"
  have r: "roots ?C ?A" by (simp add: roots_def)
  have ns: "\<forall>i \<in> set ids. no_slash i" using one(1) by blast
  have stamped: "\<exists>y. stamps V stamp_channel ?C ch t0 i y \<and> map_of t1 (card_file ?A ch i) = Some y" if "i \<in> set ids" for i
  proof -
    have "(card_dir ?C ch i, card_dir ?A ch i) \<in> set (channel_moves ?C ?A ch ids)" using that by (auto simp: channel_moves_iff)
    from lookup_moved(1) [OF one(3) this card_meta_in_dir(1)] show ?thesis using one(2,4) that by (auto simp: stamped_tree_def)
  qed
  have same: "stamps W unstamp_channel ?A ch t1 i y' \<longleftrightarrow> map_of t0 (card_file ?C ch i) = Some y'" if "i \<in> set ids" for i y'
    using unstamp_stamped [OF yaml] stamped [OF that] ns that by blast
  show ids: "set ids' = set ids"
  proof (intro equalityI subsetI)
    fix i assume "i \<in> set ids"
    then show "i \<in> set ids'" using two(1) same ns stamped_present [OF one(2)] by blast
  next
    fix i assume i: "i \<in> set ids'"
    then obtain c m where c: "map_of t1 (card_file ?A ch i) = Some c" "en_card_read V c = Some m" "card_archived_via m = Some ViaChannel"
      using two(1) yaml(2) by (auto simp: stamps_def unstamp_channel_def split: if_splits)
    show "i \<in> set ids"
    proof (rule ccontr)
      assume out: "i \<notin> set ids"
      have "map_of t1 (card_file ?A ch i) = map_of t (card_file ?A ch i)"
        unfolding one(4) by (rule lookup_outside [OF one(3)]) (use other_card_outside [OF r out ns] two(1) i in auto)
      moreover have "card_file ?A ch i \<notin> card_file ?C ch ` set ids"
        by (auto simp: card_meta_file_def card_dir_def cards_dir_def)
      ultimately have "map_of t0 (card_file ?A ch i) = Some c" using c(1) stamped_other [OF one(2)] by simp
      then show False using yaml(4) c(2,3) two(1) i unfolding canonical_cards_def by blast
    qed
  qed
  show "map_of t' (card_file ?A ch i) = map_of t0 (card_file ?C ch i)" if "i \<in> set ids"
    using two(2) same [OF that] that ids by (auto simp: stamped_tree_def)
qed

text \<open>C12: A channel that is archived and restored comes back unchanged.  While it is archived, the thread and the
  metadata are found unchanged in the archive and nothing of them is left among the active channels; after the restore every
  file of the repository has the content it had before, the cards archived by hand earlier included.  Other requests
  may use different views of the user list; the two requests may come from different daemons with the same YAML
  library.\<close>

theorem channel_archive_roundtrip:
  assumes world: "archive_world V s" "channel_exclusive ch (st_tree s)" "channel_free ''archive/channels'' ch (st_tree s)"
      "card_yaml_ok V" "canonical_cards V ch (st_tree s)"
    and again: "archive_world W s1" "en_card_read W = en_card_read V" "en_card_write W = en_card_write V"
    and run: "handle_archive_channel V s0 ch a s = (Inr (), s1)" "handle_unarchive_channel W s0' ch a' s1 = (Inr (), s2)"
  shows "map_of (st_tree s1) (root_thread ''archive/channels'' ch) = map_of (st_tree s) (root_thread ''channels'' ch)
    \<and> map_of (st_tree s1) (root_meta ''archive/channels'' ch) = map_of (st_tree s) (root_meta ''channels'' ch)
    \<and> channel_free ''channels'' ch (st_tree s1)
    \<and> map_of (st_tree s2) = map_of (st_tree s)"
proof -
  let ?C = "''channels''" and ?A = "''archive/channels''"
  have r: "roots ?C ?A" "roots ?A ?C" by (simp_all add: roots_def)
  obtain ids t where one: "\<forall>i. i \<in> set ids \<longleftrightarrow> no_slash i \<and> (\<exists>y. stamps V stamp_channel ?C ch (st_tree s) i y)"
      "stamped_tree V stamp_channel ?C ch (st_tree s) ids t" "move_plan (\<lambda>_. True) (channel_moves ?C ?A ch ids) t"
      "st_tree s1 = all_moved (channel_moves ?C ?A ch ids) t"
    using archive_channel_effect [OF world(1,2) run(1) world(3)] by (auto simp: relocated_def)
  have ns: "\<forall>i \<in> set ids. no_slash i" using one(1) by blast
  have d: "distinct (map fst t)" using stamped_keys [OF one(2)] world(1) by (simp add: archive_world_def)
  note tf = plan_targets_free [OF one(3) d]
  have "channel_exclusive ch t" using world(2) rewritten_has one(2) by (auto simp: stamped_tree_def channel_exclusive_def)
  note ex = relocated_exclusive [OF r(1) this one(3) ns, folded one(4)]
  obtain ids' t' where two: "\<forall>i. i \<in> set ids' \<longleftrightarrow> no_slash i \<and> (\<exists>y. stamps W unstamp_channel ?A ch (st_tree s1) i y)"
      "stamped_tree W unstamp_channel ?A ch (st_tree s1) ids' t'" "move_plan (\<lambda>_. True) (channel_moves ?A ?C ch ids') t'"
      "st_tree s2 = all_moved (channel_moves ?A ?C ch ids') t'"
    using unarchive_channel_effect [OF again(1) ex(1) run(2) ex(2)] by (auto simp: relocated_def)
  have tf': "targets_free (channel_moves ?A ?C ch ids') t'"
    using plan_targets_free [OF two(3)] stamped_keys [OF two(2)] again(1) by (simp add: archive_world_def)
  note rc = restored_cards [OF world(4) again(2,3) world(5) one(1,2) tf one(4) two(1,2)]
  have "map_of (st_tree s2) q = map_of (st_tree s) q" for q
    by (rule relocated_back [OF r(1) one(2) tf one(4) two(2) tf' two(4) rc(1) ns rc(2)])
  moreover have "map_of (st_tree s1) (root_thread ?A ch) = map_of (st_tree s) (root_thread ?C ch)"
    "map_of (st_tree s1) (root_meta ?A ch) = map_of (st_tree s) (root_meta ?C ch)"
    using lookup_root_files [OF r(1) tf one(2)] one(4) by auto
  ultimately show ?thesis using ex(2) by auto
qed

subsection \<open>An instance\<close>

definition taken_card_read :: "string \<Rightarrow> card_meta option" where
  "taken_card_read y = (if y = ''open'' then Some (sample_card None)
     else if y = ''taken'' then Some (sample_card (Some ViaChannel)) else None)"

definition taken_card_write :: "card_meta \<Rightarrow> string option" where
  "taken_card_write m = (if m = sample_card None then Some ''open''
     else if m = sample_card (Some ViaChannel) then Some ''taken'' else None)"

definition sample_channel :: channel_meta where
  "sample_channel = \<lparr>cm_display_name = ''General'', cm_created_by = ''alice'', cm_created_at = ''20260101T000000Z'',
     cm_introduction = [], cm_members = [''alice''], cm_project = None\<rparr>"

definition archive_env :: "tree \<Rightarrow> env" where
  "archive_env t = base_env\<lparr>en_card_read := taken_card_read, en_card_write := taken_card_write,
     en_channel_read := (\<lambda>y. if y = ''meta'' then Some sample_channel else None),
     en_checkout := (\<lambda>p u. case map_of t p of Some c \<Rightarrow> AList.update p c u | None \<Rightarrow> u)\<rparr>"

definition archive_start :: app_state where
  "archive_start = base_state\<lparr>st_tree :=
     [(''channels/general.thread'', ''hello''), (''channels/general.meta.yaml'', ''meta''),
      (''channels/general/cards/1a/card.meta.yaml'', ''open''), (''channels/general/cards/1a/discussion.thread'', [])]\<rparr>"

definition archive_mid :: app_state where
  "archive_mid = snd (handle_archive_channel (archive_env (st_tree archive_start)) archive_start ''general'' ''alice'' archive_start)"

definition archive_end :: app_state where
  "archive_end = snd (handle_unarchive_channel (archive_env (st_tree archive_mid)) archive_mid ''general'' ''alice'' archive_mid)"

lemma archive_env_world: "distinct (map fst (st_tree s)) \<Longrightarrow> archive_world (archive_env (st_tree s)) s"
proof -
  assume d: "distinct (map fst (st_tree s))"
  let ?V = "archive_env (st_tree s)"
  have mv: "en_mv ?V = en_mv base_env" by (simp add: archive_env_def)
  have "no_rebase ?V" "\<forall>l. mset (en_order ?V l) = mset l" by (simp_all add: no_rebase_def archive_env_def base_env_def)
  moreover have "head_holds ?V UNIV (st_tree s)" by (auto simp: head_holds_def archive_env_def split: option.splits)
  ultimately show ?thesis using d git_ok_base [OF mv] undo_ok_base [OF mv] by (simp add: archive_world_def)
qed

lemma archive_runs:
  "fst (handle_archive_channel (archive_env (st_tree archive_start)) archive_start ''general'' ''alice'' archive_start) = Inr ()"
  "fst (handle_unarchive_channel (archive_env (st_tree archive_mid)) archive_mid ''general'' ''alice'' archive_mid) = Inr ()"
  by code_simp+

lemma archive_start_ok:
  "distinct (map fst (st_tree archive_start))" "distinct (map fst (st_tree archive_mid))"
  "channel_exclusive ''general'' (st_tree archive_start)" "channel_free ''archive/channels'' ''general'' (st_tree archive_start)"
  "card_yaml_ok (archive_env t)" "canonical_cards (archive_env t) ''general'' (st_tree archive_start)"
proof -
  have tree: "st_tree archive_start = [(''channels/general.thread'', ''hello''), (''channels/general.meta.yaml'', ''meta''),
      (''channels/general/cards/1a/card.meta.yaml'', ''open''), (''channels/general/cards/1a/discussion.thread'', [])]"
    by (simp add: archive_start_def)
  show "distinct (map fst (st_tree archive_start))" "distinct (map fst (st_tree archive_mid))"
    "channel_free ''archive/channels'' ''general'' (st_tree archive_start)" by code_simp+
  show "channel_exclusive ''general'' (st_tree archive_start)"
    by (simp add: channel_exclusive_def tree tree_has_in in_dir_def below_iff card_dir_def cards_dir_def)
  show "card_yaml_ok (archive_env t)"
    by (auto simp: card_yaml_ok_def archive_env_def taken_card_read_def taken_card_write_def split: if_splits)
  have "c \<in> {''hello'', ''meta'', ''open'', []}" if "map_of (st_tree archive_start) p = Some c" for p c
    using map_of_SomeD [OF that] by (auto simp: tree)
  then have open_only: "m = sample_card None \<and> c = ''open''"
    if "map_of (st_tree archive_start) p = Some c" "taken_card_read c = Some m" for p c m
    using that by (fastforce simp: taken_card_read_def split: if_splits)
  have none: "map_of (st_tree archive_start) (card_file ''archive/channels'' ''general'' i) = None" for i
    by (simp add: tree card_meta_file_def card_dir_def cards_dir_def)
  have "en_card_read (archive_env t) = taken_card_read" "en_card_write (archive_env t) (sample_card None) = Some ''open''"
    "card_archived_via (sample_card None) = None"
    by (simp_all add: archive_env_def taken_card_write_def sample_card_def)
  then show "canonical_cards (archive_env t) ''general'' (st_tree archive_start)"
    using open_only none by (auto simp: canonical_cards_def)
qed

lemma archive_run_eqs:
  "handle_archive_channel (archive_env (st_tree archive_start)) archive_start ''general'' ''alice'' archive_start = (Inr (), archive_mid)"
  "handle_unarchive_channel (archive_env (st_tree archive_mid)) archive_mid ''general'' ''alice'' archive_mid = (Inr (), archive_end)"
  using archive_runs by (simp_all add: archive_mid_def archive_end_def prod_eq_iff)

theorem channel_archive_atomic_witness:
  "relocated (archive_env (st_tree archive_start)) stamp_channel ''channels'' ''archive/channels'' ''general'' archive_start archive_mid"
  using channel_archive_atomic [OF archive_env_world [OF archive_start_ok(1)] archive_start_ok(3), of archive_start "''alice''"]
    archive_run_eqs(1) archive_start_ok(4) by fastforce

theorem channel_archive_roundtrip_witness:
  "map_of (st_tree archive_end) = map_of (st_tree archive_start) \<and> channel_free ''channels'' ''general'' (st_tree archive_mid)"
proof -
  have same: "en_card_read (archive_env t) = en_card_read (archive_env t')" "en_card_write (archive_env t) = en_card_write (archive_env t')" for t t'
    by (simp_all add: archive_env_def)
  show ?thesis
    using channel_archive_roundtrip [OF archive_env_world [OF archive_start_ok(1)] archive_start_ok(3-6)
        archive_env_world [OF archive_start_ok(2)] same archive_run_eqs] by blast
qed

end
