(* ===== verification/Daemon_Users.thy ===== *)
theory Daemon_Users
  imports Daemon_Cards Daemon_Invariants
begin

text \<open>
  Users are registered, change their profile, and are archived and restored (\<^verbatim>\<open>handlers/user.rs\<close>).  Registering
  and updating do not take the commit lock; archiving and restoring do, after their checks.
\<close>

subsection \<open>Registering and updating\<close>

definition add_user :: "string \<Rightarrow> app_state \<Rightarrow> app_state" where
  "add_user handler s =
     (if handler \<in> set (st_users s) then s else s\<lparr>st_users := sort (st_users s @ [handler])\<rparr>)"

definition drop_user :: "string \<Rightarrow> app_state \<Rightarrow> app_state" where
  "drop_user handler s = s\<lparr>st_users := filter (\<lambda>h. h \<noteq> handler) (st_users s)\<rparr>"

text \<open>\<^verbatim>\<open>std::fs::remove_file\<close> with its result ignored.\<close>

definition discard_file :: "env \<Rightarrow> string \<Rightarrow> app_state \<Rightarrow> app_state" where
  "discard_file V p s =
     (case en_io V (IoRemove p) of Some _ \<Rightarrow> s | None \<Rightarrow> s\<lparr>st_tree := AList.delete p (st_tree s)\<rparr>)"

record register_user_response =
  ru_handler :: string
  ru_exists :: bool

definition handle_register_user ::
  "env \<Rightarrow> app_state \<Rightarrow> string \<Rightarrow> string \<Rightarrow> string \<Rightarrow> string \<Rightarrow> user_kind \<Rightarrow> app_state \<Rightarrow> register_user_response outcome" where
  "handle_register_user V s0 handler display_name role introduction kind s =
     (case andThen (map_err (ErrInvalidHandler ''handler'') (handler_new handler)) (\<lambda>_.
             fail_if (path_exists s0 (archived_user_path handler)) (ErrReserved handler)) of
        Inl e \<Rightarrow> (Inl e, s)
      | Inr _ \<Rightarrow>
          if path_exists s0 (user_meta_path handler)
          then (Inr \<lparr>ru_handler = handler, ru_exists = True\<rparr>, add_user handler s)
          else case en_user_write V \<lparr>um_display_name = display_name, um_role = role, um_introduction = introduction,
                                     um_labels = [], um_kind = kind\<rparr> of
             None \<Rightarrow> (Inl (ErrYaml ''user meta''), s)
           | Some meta_str \<Rightarrow>
               (case write_file V ''failed to write user meta'' (user_meta_path handler) meta_str s of
                  (Inl e, s1) \<Rightarrow> (Inl e, s1)
                | (Inr _, s1) \<Rightarrow>
                    (case add_and_commit_as V [user_meta_path handler] (''user: register @'' @ handler) handler
                            (add_user handler s1) of
                       (Inl e, s2) \<Rightarrow>
                         (Inl (ErrGit ''register_user commit failed'' e),
                          drop_user handler (discard_file V (user_meta_path handler) s2))
                     | (Inr _, s2) \<Rightarrow> (Inr \<lparr>ru_handler = handler, ru_exists = False\<rparr>, s2))))"

definition update_user_checks ::
  "env \<Rightarrow> app_state \<Rightarrow> string \<Rightarrow> string option \<Rightarrow> string option \<Rightarrow> daemon_error + user_meta" where
  "update_user_checks V s handler display_name introduction =
     andThen (map_err (ErrInvalidHandler ''handler'') (handler_new handler)) (\<lambda>_.
     andThen (fail_if (case display_name of Some name \<Rightarrow> trim name = [] \<or> length name > 64 | None \<Rightarrow> False)
                (ErrProfile ''display_name'')) (\<lambda>_.
     andThen (fail_if (case introduction of Some intro \<Rightarrow> length intro > max_introduction_len | None \<Rightarrow> False)
                (ErrProfile ''introduction'')) (\<lambda>_.
     andThen (fail_if (\<not> path_exists s (user_meta_path handler)) (ErrNoUser handler)) (\<lambda>_.
     andThen (read_user_meta V s handler) (\<lambda>(_, meta). Inr meta)))))"

definition profile_subject :: "bool \<Rightarrow> bool \<Rightarrow> string \<Rightarrow> string" where
  "profile_subject display_name_changed introduction_changed handler =
     (if display_name_changed \<and> introduction_changed then ''user: update profile @''
      else if display_name_changed then ''user: update display_name @''
      else ''user: update introduction @'') @ handler"

definition handle_update_user ::
  "env \<Rightarrow> app_state \<Rightarrow> string \<Rightarrow> string option \<Rightarrow> string option \<Rightarrow> app_state \<Rightarrow> register_user_response outcome" where
  "handle_update_user V s0 handler display_name introduction s =
     (case update_user_checks V s0 handler display_name introduction of
        Inl e \<Rightarrow> (Inl e, s)
      | Inr old \<Rightarrow>
          (let name = (case display_name of Some n \<Rightarrow> n | None \<Rightarrow> um_display_name old);
               intro = (case introduction of Some i \<Rightarrow> i | None \<Rightarrow> um_introduction old);
               display_name_changed = (name \<noteq> um_display_name old);
               introduction_changed = (intro \<noteq> um_introduction old) in
           if \<not> display_name_changed \<and> \<not> introduction_changed
           then (Inr \<lparr>ru_handler = handler, ru_exists = True\<rparr>, s)
           else case en_user_write V (old\<lparr>um_display_name := name, um_introduction := intro\<rparr>) of
             None \<Rightarrow> (Inl (ErrYaml ''user meta''), s)
           | Some meta_str \<Rightarrow>
               (case write_file V ''failed to write user meta'' (user_meta_path handler) meta_str s of
                  (Inl e, s1) \<Rightarrow> (Inl e, s1)
                | (Inr _, s1) \<Rightarrow>
                    (case add_and_commit_as V [user_meta_path handler]
                            (profile_subject display_name_changed introduction_changed handler) handler s1 of
                       (Inl e, s2) \<Rightarrow> (Inl (ErrGit ''update_user commit failed'' e), s2)
                     | (Inr _, s2) \<Rightarrow> (Inr \<lparr>ru_handler = handler, ru_exists = True\<rparr>, s2)))))"

subsection \<open>Archiving and restoring a user\<close>

definition user_board :: "string \<Rightarrow> string" where
  "user_board handler = ''showboards/'' @ handler @ ''/board.md''"

definition archived_board :: "string \<Rightarrow> string" where
  "archived_board handler = ''archive/showboards/'' @ handler @ ''/board.md''"

text \<open>The board follows the user, when there is one; a failure undoes the move of the metadata.  The result says
  whether a board was moved.\<close>

definition move_board ::
  "env \<Rightarrow> string \<Rightarrow> string \<times> string \<Rightarrow> string \<times> string \<Rightarrow> app_state \<Rightarrow> bool outcome" where
  "move_board V op meta_mv board_mv s =
     (if \<not> path_exists s (fst board_mv) then (Inr False, s)
      else case make_dir V (op @ '': failed to create showboards dir'') (parent_dir (snd board_mv)) of
        Inl e \<Rightarrow> (Inl e, undo_move V meta_mv s)
      | Inr _ \<Rightarrow>
          (case git_mv V (fst board_mv) (snd board_mv) s of
             (Inl e, s1) \<Rightarrow> (Inl (ErrGit (op @ '': board git mv failed'') e), undo_move V meta_mv s1)
           | (Inr _, s1) \<Rightarrow> (Inr True, s1)))"

definition move_user ::
  "env \<Rightarrow> string \<Rightarrow> string \<times> string \<Rightarrow> string \<times> string \<Rightarrow> string \<Rightarrow> string \<Rightarrow> app_state \<Rightarrow> unit outcome" where
  "move_user V op meta_mv board_mv message author s =
     (case git_mv V (fst meta_mv) (snd meta_mv) s of
        (Inl e, s1) \<Rightarrow> (Inl (ErrGit (op @ '': git mv failed'') e), s1)
      | (Inr _, s1) \<Rightarrow>
     (case move_board V op meta_mv board_mv s1 of
        (Inl e, s2) \<Rightarrow> (Inl e, s2)
      | (Inr board_moved, s2) \<Rightarrow>
     (case add_and_commit_as V (snd meta_mv # (if board_moved then [snd board_mv] else [])) message author s2 of
        (Inl e, s3) \<Rightarrow>
          (Inl (ErrGit (op @ '' commit failed'') e),
           undo_move V meta_mv (if board_moved then undo_move V board_mv s3 else s3))
      | (Inr _, s3) \<Rightarrow> push_with_retry V op s3)))"

definition archive_user_checks :: "env \<Rightarrow> app_state \<Rightarrow> string \<Rightarrow> string \<Rightarrow> daemon_error + unit" where
  "archive_user_checks V s handler author =
     andThen (map_err (ErrInvalidHandler ''handler'') (handler_new handler)) (\<lambda>_.
     andThen (ensure_author_not_departed s author) (\<lambda>_.
     andThen (fail_if (author \<notin> set (st_users s)) (ErrUnknownUser author)) (\<lambda>_.
     andThen (fail_if (path_exists s (archived_user_path handler)) (ErrAlreadyArchived handler)) (\<lambda>_.
     andThen (fail_if (\<not> path_exists s (user_meta_path handler)) (ErrNoUser handler)) (\<lambda>_.
       make_dir V ''failed to create archive/users dir'' ''archive/users'')))))"

definition handle_archive_user :: "env \<Rightarrow> app_state \<Rightarrow> string \<Rightarrow> string \<Rightarrow> app_state \<Rightarrow> unit outcome" where
  "handle_archive_user V s0 handler author s =
     (case archive_user_checks V s0 handler author of
        Inl e \<Rightarrow> (Inl e, s)
      | Inr _ \<Rightarrow>
          (case move_user V ''archive_user'' (user_meta_path handler, archived_user_path handler)
                  (user_board handler, archived_board handler) (''archive: depart user @'' @ handler) author s of
             (Inl e, s1) \<Rightarrow> (Inl e, s1)
           | (Inr _, s1) \<Rightarrow> (Inr (), send_event (UserArchived handler author (en_now V)) (drop_user handler s1))))"

definition unarchive_user_checks :: "env \<Rightarrow> app_state \<Rightarrow> string \<Rightarrow> string \<Rightarrow> daemon_error + unit" where
  "unarchive_user_checks V s handler author =
     andThen (map_err (ErrInvalidHandler ''handler'') (handler_new handler)) (\<lambda>_.
     andThen (fail_if (author \<notin> set (st_users s)) (ErrUnknownUser author)) (\<lambda>_.
     andThen (fail_if (\<not> path_exists s (archived_user_path handler)) (ErrNoArchive handler)) (\<lambda>_.
     andThen (fail_if (path_exists s (user_meta_path handler)) (ErrActiveExists handler)) (\<lambda>_.
       make_dir V ''failed to create users dir'' ''users''))))"

definition handle_unarchive_user :: "env \<Rightarrow> app_state \<Rightarrow> string \<Rightarrow> string \<Rightarrow> app_state \<Rightarrow> unit outcome" where
  "handle_unarchive_user V s0 handler author s =
     (case unarchive_user_checks V s0 handler author of
        Inl e \<Rightarrow> (Inl e, s)
      | Inr _ \<Rightarrow>
          (case move_user V ''unarchive_user'' (archived_user_path handler, user_meta_path handler)
                  (archived_board handler, user_board handler) (''archive: restore user @'' @ handler) author s of
             (Inl e, s1) \<Rightarrow> (Inl e, s1)
           | (Inr _, s1) \<Rightarrow> (Inr (), send_event (UserUnarchived handler author (en_now V)) (add_user handler s1))))"
subsection \<open>Moving a user is all or nothing\<close>

lemma add_user_simps [simp]:
  "st_tree (add_user h s) = st_tree s" "set (st_users (add_user h s)) = insert h (set (st_users s))"
  "st_commits (add_user h s) = st_commits s"
  by (auto simp: add_user_def)

lemma drop_user_simps [simp]:
  "st_tree (drop_user h s) = st_tree s" "set (st_users (drop_user h s)) = set (st_users s) - {h}"
  "st_commits (drop_user h s) = st_commits s"
  by (auto simp: drop_user_def)

definition user_mv :: "string \<Rightarrow> string \<times> string" where
  "user_mv h = (user_meta_path h, archived_user_path h)"

definition board_mv :: "string \<Rightarrow> string \<times> string" where
  "board_mv h = (user_board h, archived_board h)"

lemma user_moves_ok: "moves_ok [user_mv h, board_mv h]" "moves_ok [prod.swap (user_mv h), prod.swap (board_mv h)]"
  by (auto simp: moves_ok_def apart_def in_dir_def below_iff user_mv_def board_mv_def user_meta_path_def
      archived_user_path_def user_board_def archived_board_def)

text \<open>The moves that are made: the board is left out when there is none.\<close>

definition moves_of :: "string \<times> string \<Rightarrow> string \<times> string \<Rightarrow> tree \<Rightarrow> (string \<times> string) list" where
  "moves_of mm bm t = (if tree_has t (fst bm) then [mm, bm] else [mm])"

lemma moves_ok_first: "moves_ok [m, n] \<Longrightarrow> moves_ok [m]"
  using moves_ok_prefix [of "[m]" "[n]"] by simp

lemma move_user_effect:
  assumes env: "git_ok V" "undo_ok V (\<lambda>_. True)" "no_rebase V" and ok: "moves_ok [mm, bm]"
    and free: "\<not> tree_has (st_tree s) (snd mm)" "\<not> tree_has (st_tree s) (snd bm)"
    and run: "move_user V op mm bm msg a s = (r, s')"
  shows "s' = s \<and> (\<exists>e. r = Inl e)
    \<or> st_tree s' = all_moved (moves_of mm bm (st_tree s)) (st_tree s) \<and> tree_has (st_tree s) (fst mm)
      \<and> st_users s' = st_users s \<and> length (st_commits s') = Suc (length (st_commits s))"
proof -
  let ?t = "st_tree s"
  obtain x y c d where m: "mm = (x, y)" "bm = (c, d)" by (cases mm, cases bm)
  have plan2: "move_plan (\<lambda>_. True) [(x, y), (c, d)] ?t" using ok free by (simp add: move_plan_def m)
  have plan1: "move_plan (\<lambda>_. True) [(x, y)] ?t" using moves_ok_first [OF ok] free by (simp add: move_plan_def m)
  have none: "all_movable (\<lambda>_. True) [] ?t" by (simp add: all_movable_def moves_ok_def)
  have ap: "apart c x" "apart c y" using moves_okD(2) [OF ok, of c d x y] ok m by (auto simp: moves_ok_def)
  obtain r1 s1 where g1: "git_mv V x y s = (r1, s1)" by force
  from git_mv_planned [OF env(1) _ none, of x y s r1 s1] plan1 g1
  consider "\<exists>e. r1 = Inl e" "s1 = s"
    | "r1 = Inr ()" "s1 = s\<lparr>st_tree := all_moved [(x, y)] ?t\<rparr>" "all_movable (\<lambda>_. True) [(x, y)] ?t" by auto
  then show ?thesis
  proof cases
    case 1
    then show ?thesis using run g1 by (auto simp: move_user_def m)
  next
    case moved: 2
    have src: "tree_has ?t x" using moved(3) by (simp add: all_movable_def)
    have undone: "undo_move V (x, y) s1 = s"
      using undo_moves_all [OF env(1,2) moved(3), of s] moved(2) by (simp add: undo_moves_def)
    have seen: "path_exists s1 c \<longleftrightarrow> tree_has ?t c"
      using tree_has_moved_other [OF ap] moved(2) by (simp add: path_exists_tree)
    obtain r2 s2 where b: "move_board V op mm bm s1 = (r2, s2)" by force
    have board: "(\<exists>e. r2 = Inl e) \<and> s2 = s
      \<or> (\<exists>M. r2 = Inr (tree_has ?t c) \<and> M = moves_of mm bm ?t \<and> s2 = s\<lparr>st_tree := all_moved M ?t\<rparr>
            \<and> all_movable (\<lambda>_. True) M ?t)"
    proof (cases "tree_has ?t c")
      case False
      then show ?thesis using b moved seen by (auto simp: move_board_def m moves_of_def)
    next
      case True
      obtain r3 s3 where g2: "git_mv V c d s1 = (r3, s3)" by force
      have "(\<exists>e. r3 = Inl e) \<and> s3 = s1
        \<or> r3 = Inr () \<and> s3 = s\<lparr>st_tree := all_moved [(x, y), (c, d)] ?t\<rparr> \<and> all_movable (\<lambda>_. True) [(x, y), (c, d)] ?t"
        using git_mv_planned [OF env(1) _ moved(3), of c d s r3 s3] plan2 g2 moved(2) by auto
      then show ?thesis
        using b g2 seen True undone by (cases "en_io V (IoMkdir (parent_dir d))") (auto simp: move_board_def m moves_of_def make_dir_def)
    qed
    note step = run [unfolded move_user_def m prod.sel g1 prod.case moved(1) sum.case b [unfolded m]]
    from board show ?thesis
    proof (elim disjE conjE exE)
      fix M assume M: "r2 = Inr (tree_has ?t c)" "M = moves_of mm bm ?t" "s2 = s\<lparr>st_tree := all_moved M ?t\<rparr>"
        "all_movable (\<lambda>_. True) M ?t"
      have undo: "undo_move V (x, y) (if tree_has ?t c then undo_move V (c, d) s2 else s2) = s"
        using undo_moves_all [OF env(1,2) M(4), of s] M(2,3) m by (auto simp: undo_moves_def moves_of_def split: if_splits)
      obtain r4 s4 where q: "add_and_commit_as V (y # (if tree_has ?t c then [d] else [])) msg a s2 = (r4, s4)" by force
      show ?thesis
      proof (cases r4)
        case (Inl e)
        then show ?thesis using step q M(1) undo add_and_commit_frame [OF q] by auto
      next
        case (Inr u)
        then have "s' = s4" using step q M(1) push_frame [OF env(3)] by auto
        then show ?thesis using add_and_commit_frame [OF q] Inr M(2,3) src m by auto
      qed
    qed (use step in auto)
  qed
qed
definition user_world :: "env \<Rightarrow> bool" where
  "user_world V \<longleftrightarrow> git_ok V \<and> undo_ok V (\<lambda>_. True) \<and> no_rebase V"

lemma archive_user_effect:
  assumes "user_world V" "\<not> tree_has (st_tree s) (archived_board h)" "handle_archive_user V s h a s = (r, s')"
  shows "s' = s \<and> (\<exists>e. r = Inl e)
    \<or> archive_user_checks V s h a = Inr () \<and> st_tree s' = all_moved (moves_of (user_mv h) (board_mv h) (st_tree s)) (st_tree s)
      \<and> tree_has (st_tree s) (user_meta_path h) \<and> length (st_commits s') = Suc (length (st_commits s))
      \<and> set (st_users s') = (if is_ok r then set (st_users s) - {h} else set (st_users s))"
proof (cases "archive_user_checks V s h a")
  case (Inl e)
  then have "r = Inl e \<and> s' = s" using assms(3) by (simp add: handle_archive_user_def)
  then show ?thesis by simp
next
  case (Inr u)
  then have free: "\<not> tree_has (st_tree s) (archived_user_path h)"
    by (auto simp: archive_user_checks_def path_exists_tree)
  obtain r1 s1 where m: "move_user V ''archive_user'' (user_mv h) (board_mv h) (''archive: depart user @'' @ h) a s = (r1, s1)"
    by force
  have "s1 = s \<and> (\<exists>e. r1 = Inl e)
    \<or> st_tree s1 = all_moved (moves_of (user_mv h) (board_mv h) (st_tree s)) (st_tree s) \<and> tree_has (st_tree s) (user_meta_path h)
      \<and> st_users s1 = st_users s \<and> length (st_commits s1) = Suc (length (st_commits s))"
    using move_user_effect [OF _ _ _ user_moves_ok(1) _ _ m] assms(1,2) free by (simp add: user_world_def user_mv_def board_mv_def)
  moreover have "(\<exists>e. r1 = Inl e \<and> r = Inl e) \<and> s' = s1 \<or> r1 = Inr () \<and> r = Inr () \<and> s' = send_event (UserArchived h a (en_now V)) (drop_user h s1)"
    using assms(3) m Inr by (cases r1) (auto simp: handle_archive_user_def user_mv_def board_mv_def)
  ultimately show ?thesis using Inr by auto
qed

lemma unarchive_user_effect:
  assumes "user_world V" "\<not> tree_has (st_tree s) (user_board h)" "handle_unarchive_user V s h a s = (r, s')"
  shows "s' = s \<and> (\<exists>e. r = Inl e)
    \<or> st_tree s' = all_moved (moves_of (prod.swap (user_mv h)) (prod.swap (board_mv h)) (st_tree s)) (st_tree s)
      \<and> length (st_commits s') = Suc (length (st_commits s))
      \<and> set (st_users s') = (if is_ok r then insert h (set (st_users s)) else set (st_users s))"
proof (cases "unarchive_user_checks V s h a")
  case (Inl e)
  then have "r = Inl e \<and> s' = s" using assms(3) by (simp add: handle_unarchive_user_def)
  then show ?thesis by simp
next
  case (Inr u)
  then have free: "\<not> tree_has (st_tree s) (user_meta_path h)"
    by (auto simp: unarchive_user_checks_def path_exists_tree)
  obtain r1 s1 where m: "move_user V ''unarchive_user'' (prod.swap (user_mv h)) (prod.swap (board_mv h))
      (''archive: restore user @'' @ h) a s = (r1, s1)" by force
  have "s1 = s \<and> (\<exists>e. r1 = Inl e)
    \<or> st_tree s1 = all_moved (moves_of (prod.swap (user_mv h)) (prod.swap (board_mv h)) (st_tree s)) (st_tree s)
      \<and> st_users s1 = st_users s \<and> length (st_commits s1) = Suc (length (st_commits s))"
    using move_user_effect [OF _ _ _ user_moves_ok(2) _ _ m] assms(1,2) free by (auto simp: user_world_def user_mv_def board_mv_def)
  moreover have "(\<exists>e. r1 = Inl e \<and> r = Inl e) \<and> s' = s1 \<or> r1 = Inr () \<and> r = Inr () \<and> s' = send_event (UserUnarchived h a (en_now V)) (add_user h s1)"
    using assms(3) m Inr by (cases r1) (auto simp: handle_unarchive_user_def user_mv_def board_mv_def)
  ultimately show ?thesis using Inr by auto
qed

lemma moves_of_back:
  assumes "moves_ok [mm, bm]" "\<not> tree_has t (snd mm)" "\<not> tree_has t (snd bm)"
  shows "all_moved (moves_of (prod.swap mm) (prod.swap bm) (all_moved (moves_of mm bm t) t)) (all_moved (moves_of mm bm t) t) = t"
    and "\<not> tree_has (all_moved (moves_of mm bm t) t) (fst mm)" "\<not> tree_has (all_moved (moves_of mm bm t) t) (fst bm)"
proof -
  obtain x y c d where m: "mm = (x, y)" "bm = (c, d)" by (cases mm, cases bm)
  have ap: "apart x y" "apart c d" "apart c x" "apart c y" "apart d x" "apart d y"
    using moves_okD [OF assms(1), of c d] moves_okD(1) [OF assms(1), of x y] assms(1) m by (auto simp: moves_ok_def)
  have o: "moves_ok [(x, y), (c, d)]" using assms(1) m by simp
  have one: "tree_has (move_path x y t) c = tree_has t c" "\<not> tree_has (move_path x y t) d"
    using tree_has_moved_other ap assms(3) m by auto
  have u: "move_path y x (all_moved [(x, y), (c, d)] t) = move_path c d t" "\<not> tree_has (all_moved [(x, y), (c, d)] t) x"
    "\<not> tree_has (all_moved [(x, y), (c, d)] t) c"
    using undo_one [OF o, of x y t] undo_one(2) [OF o, of c d t] assms(2,3) m by auto
  have gone: "\<not> tree_has (move_path x y t) x" using move_leaves_nothing [OF apart_none [OF ap(1)]] .
  have has: "tree_has (all_moved [(x, y), (c, d)] t) d" if "tree_has t c"
    using undo_one(3) [OF o, of c d t] assms(3) m that by simp
  show "all_moved (moves_of (prod.swap mm) (prod.swap bm) (all_moved (moves_of mm bm t) t)) (all_moved (moves_of mm bm t) t) = t"
    using one u(1) has move_back assms(2,3) by (auto simp: m moves_of_def)
  show "\<not> tree_has (all_moved (moves_of mm bm t) t) (fst mm)" "\<not> tree_has (all_moved (moves_of mm bm t) t) (fst bm)"
    using u(2,3) gone one(1) by (auto simp: m moves_of_def)
qed

lemma user_moves_free:
  assumes "distinct (map fst t)" "\<not> tree_has t (archived_user_path h)" "\<not> tree_has t (archived_board h)"
  shows "targets_free (moves_of (user_mv h) (board_mv h) t) t"
  using assms user_moves_ok(1) [of h] moves_ok_first [OF user_moves_ok(1), of h]
  by (auto simp: targets_free_def moves_of_def user_mv_def board_mv_def)

lemma user_files_apart: "user_meta_path h \<noteq> user_board h" "archived_user_path h \<noteq> archived_board h"
  by (simp_all add: user_meta_path_def user_board_def archived_user_path_def archived_board_def)

lemma archived_user_here:
  assumes "tree_has t (user_meta_path h)" "\<not> tree_has t (archived_user_path h)"
  shows "tree_has (all_moved (moves_of (user_mv h) (board_mv h) t) t) (archived_user_path h)"
  using undo_one(3) [of "moves_of (user_mv h) (board_mv h) t" "user_meta_path h" "archived_user_path h" t]
    user_moves_ok(1) [of h] moves_ok_first [OF user_moves_ok(1), of h] assms
  by (auto simp: moves_of_def user_mv_def)

lemma archived_user_tree:
  assumes "distinct (map fst t)" "\<not> tree_has t (archived_user_path h)" "\<not> tree_has t (archived_board h)"
    and t': "t' = all_moved (moves_of (user_mv h) (board_mv h) t) t"
  shows "map_of t' (archived_user_path h) = map_of t (user_meta_path h)"
    and "map_of t' (archived_board h) = map_of t (user_board h)"
    and "(\<forall>d \<in> {user_meta_path h, archived_user_path h, user_board h, archived_board h}. \<not> in_dir d p) \<Longrightarrow>
      map_of t' p = map_of t p"
proof -
  let ?M = "moves_of (user_mv h) (board_mv h) t"
  note tf = user_moves_free [OF assms(1-3)]
  show "map_of t' (archived_user_path h) = map_of t (user_meta_path h)"
    using lookup_moved(1) [OF tf, of "user_meta_path h" "archived_user_path h" "user_meta_path h"] t'
    by (simp add: moves_of_def user_mv_def in_dir_def)
  show "map_of t' p = map_of t p" if "\<forall>d \<in> {user_meta_path h, archived_user_path h, user_board h, archived_board h}. \<not> in_dir d p"
    using lookup_outside [OF tf, of p] t' that by (auto simp: moves_of_def user_mv_def board_mv_def)
  show "map_of t' (archived_board h) = map_of t (user_board h)"
  proof (cases "tree_has t (user_board h)")
    case True
    then show ?thesis
      using lookup_moved(1) [OF tf, of "user_board h" "archived_board h" "user_board h"] t'
      by (simp add: moves_of_def board_mv_def in_dir_def)
  next
    case False
    then have "map_of t (user_board h) = None" "map_of t (archived_board h) = None"
      using assms(3) tree_has_file by blast+
    moreover have "map_of t' (archived_board h) = map_of t (archived_board h)"
      by (subst t', rule lookup_outside [OF tf])
        (use False in \<open>auto simp: moves_of_def user_mv_def board_mv_def in_dir_def below_iff user_meta_path_def
          archived_user_path_def archived_board_def\<close>)
    ultimately show ?thesis by simp
  qed
qed

text \<open>C16: Archiving a user is all or nothing and can be undone.  A request that fails at any step leaves the whole state
  as it was.  One that goes through moves exactly the metadata and the board of the user, in one commit; when it is
  answered with success the user is off the list, may not author anything, and the name cannot be registered
  again.  Restoring the user gives back every file and the entry in the user list.\<close>

theorem user_archive_roundtrip:
  assumes "user_world V" "distinct (map fst (st_tree s))" "\<not> tree_has (st_tree s) (archived_board h)"
    and "handle_archive_user V s h a s = (r, s1)"
  shows "(\<exists>e. r = Inl e) \<and> s1 = s
    \<or> length (st_commits s1) = Suc (length (st_commits s))
      \<and> map_of (st_tree s1) (archived_user_path h) = map_of (st_tree s) (user_meta_path h)
      \<and> map_of (st_tree s1) (archived_board h) = map_of (st_tree s) (user_board h)
      \<and> (\<forall>p. (\<forall>d \<in> {user_meta_path h, archived_user_path h, user_board h, archived_board h}. \<not> in_dir d p) \<longrightarrow>
            map_of (st_tree s1) p = map_of (st_tree s) p)
      \<and> \<not> path_exists s1 (user_meta_path h) \<and> \<not> path_exists s1 (user_board h)
      \<and> ensure_author_not_departed s1 h = Inl (ErrDeparted h)
      \<and> fst (handle_register_user V s1 h n ro i k s1) = Inl (ErrReserved h)
      \<and> (r = Inr () \<longrightarrow> h \<notin> set (st_users s1))
      \<and> (\<forall>b s2. handle_unarchive_user V s1 h b s1 = (Inr (), s2) \<longrightarrow>
            st_tree s2 = st_tree s \<and> set (st_users s2) = insert h (set (st_users s1)))"
proof -
  let ?t = "st_tree s" and ?t1 = "all_moved (moves_of (user_mv h) (board_mv h) (st_tree s)) (st_tree s)"
  from archive_user_effect [OF assms(1,3,4)] show ?thesis
  proof (elim disjE conjE)
    assume c: "archive_user_checks V s h a = Inr ()" and t1: "st_tree s1 = ?t1" and src: "tree_has ?t (user_meta_path h)"
      and n: "length (st_commits s1) = Suc (length (st_commits s))"
      and us: "set (st_users s1) = (if is_ok r then set (st_users s) - {h} else set (st_users s))"
    have free: "\<not> tree_has ?t (archived_user_path h)" and hn: "is_ok (handler_new h)"
      using c by (auto simp: archive_user_checks_def path_exists_tree is_ok_iff)
    note files = archived_user_tree [OF assms(2) free assms(3) t1]
    note undo = moves_of_back [OF user_moves_ok(1), of ?t h, folded t1]
    have gone: "\<not> tree_has (st_tree s1) (user_meta_path h)" "\<not> tree_has (st_tree s1) (user_board h)"
      using undo(2,3) free assms(3) by (simp_all add: user_mv_def board_mv_def)
    have here: "tree_has (st_tree s1) (archived_user_path h)" using archived_user_here [OF src free] t1 by simp
    have restored: "st_tree s2 = ?t \<and> set (st_users s2) = insert h (set (st_users s1))"
      if "handle_unarchive_user V s1 h b s1 = (Inr (), s2)" for b s2
      using unarchive_user_effect [OF assms(1) gone(2) that] undo(1) free assms(3)
      by (auto simp: user_mv_def board_mv_def)
    have "ensure_author_not_departed s1 h = Inl (ErrDeparted h)"
      using here by (simp add: ensure_author_not_departed_def path_exists_tree fail_if_def)
    moreover have "fst (handle_register_user V s1 h n ro i k s1) = Inl (ErrReserved h)"
      using here hn by (auto simp: handle_register_user_def path_exists_tree is_ok_iff fail_if_def)
    moreover have "r = Inr () \<longrightarrow> h \<notin> set (st_users s1)" using us by simp
    ultimately show ?thesis using n files gone restored by (auto simp: path_exists_tree)
  qed auto
qed

text \<open>An instance: a user with a board leaves and comes back.\<close>

definition bob_state :: app_state where
  "bob_state = base_state\<lparr>st_tree := [(''users/bob.meta.yaml'', ''m''), (''showboards/bob/board.md'', ''b'')]\<rparr>"

lemma base_user_world: "user_world base_env"
  using git_ok_base [of base_env] undo_ok_base [of base_env] by (simp add: user_world_def no_rebase_def base_env_def)

lemma bob_state_ok: "distinct (map fst (st_tree bob_state))" "\<not> tree_has (st_tree bob_state) (archived_board ''bob'')"
  by code_simp+

lemma bob_archived: "fst (handle_archive_user base_env bob_state ''bob'' ''alice'' bob_state) = Inr ()"
  by code_simp

lemma bob_restored:
  "(let s1 = snd (handle_archive_user base_env bob_state ''bob'' ''alice'' bob_state)
    in fst (handle_unarchive_user base_env s1 ''bob'' ''alice'' s1)) = Inr ()"
  by code_simp

theorem user_archive_roundtrip_witness:
  "\<exists>s1 s2. handle_archive_user base_env bob_state ''bob'' ''alice'' bob_state = (Inr (), s1)
    \<and> ''bob'' \<notin> set (st_users s1) \<and> handle_unarchive_user base_env s1 ''bob'' ''alice'' s1 = (Inr (), s2)
    \<and> st_tree s2 = st_tree bob_state"
proof -
  obtain s1 where s1: "handle_archive_user base_env bob_state ''bob'' ''alice'' bob_state = (Inr (), s1)"
    using bob_archived by (metis prod.collapse)
  obtain s2 where s2: "handle_unarchive_user base_env s1 ''bob'' ''alice'' s1 = (Inr (), s2)"
    using bob_restored s1 by (metis prod.collapse snd_conv)
  show ?thesis
    using s1 s2 user_archive_roundtrip [OF base_user_world bob_state_ok s1] by auto
qed

end
