(* ===== verification/Daemon_Depart.thy ===== *)
theory Daemon_Depart
  imports Daemon_Users
begin

text \<open>
  Departing (\<^verbatim>\<open>handlers/depart.rs\<close>) is a sequence of small commits in four phases: mark every thread the user
  spoke in, archive the direct messages, leave every channel, archive the user.  A step of a phase reads once
  before it takes the lock (\<open>s0\<close>) and again under it (\<open>s\<close>); the phases run their steps one after the other, each
  from the state the previous one left.  A failure leaves the commits made so far in place, and a retry is meant to
  resume: the locale \<open>resumable\<close> states what a phase needs for that, and each phase interprets it.
\<close>

subsection \<open>The handler\<close>

text \<open>A loop over steps that may fail; each step says whether it made a commit, and the commits are counted.\<close>

fun run_steps :: "('a \<Rightarrow> app_state \<Rightarrow> bool outcome) \<Rightarrow> 'a list \<Rightarrow> nat \<Rightarrow> app_state \<Rightarrow> nat outcome" where
  "run_steps f [] commits s = (Inr commits, s)"
| "run_steps f (x # xs) commits s =
     (case f x s of
        (Inl e, s1) \<Rightarrow> (Inl e, s1)
      | (Inr committed, s1) \<Rightarrow> run_steps f xs (if committed then Suc commits else commits) s1)"

definition is_already_departed :: "app_state \<Rightarrow> string \<Rightarrow> bool" where
  "is_already_departed s handler \<longleftrightarrow> path_exists s (archived_user_path handler)"

text \<open>The names in a directory; one that is missing or cannot be listed counts as empty.\<close>

definition dir_names :: "env \<Rightarrow> app_state \<Rightarrow> string \<Rightarrow> string list" where
  "dir_names V s d = (if is_dir s d \<and> en_io V (IoRead d) = None then read_dir V s d else [])"

text \<open>A file name has the extension \<^verbatim>\<open>thread\<close> when something stands before the last dot.\<close>

definition collect_thread_paths :: "env \<Rightarrow> app_state \<Rightarrow> string \<Rightarrow> string list" where
  "collect_thread_paths V s dir =
     map (\<lambda>n. dir @ ''/'' @ n) (filter (\<lambda>n. ends_with ''.thread'' n \<and> n \<noteq> ''.thread'') (dir_names V s dir))"

definition thread_has_author :: "thread_entry list \<Rightarrow> handler \<Rightarrow> bool" where
  "thread_has_author es handler = list_ex (\<lambda>e. as_str (entry_author e) = as_str handler) es"

definition last_entry_is_leave_workspace :: "thread_entry list \<Rightarrow> handler \<Rightarrow> bool" where
  "last_entry_is_leave_workspace es handler =
     (case rev es of
        EEvent ev # _ \<Rightarrow> ev_event_type ev = ''leave-workspace'' \<and> as_str (ev_author ev) = as_str handler
      | _ \<Rightarrow> False)"

text \<open>What the pre-read decides: nothing is to be done when the file cannot be read or parsed, when the user never
  spoke in it, or when its last entry already tells that the user left.\<close>

definition leave_recorded :: "env \<Rightarrow> app_state \<Rightarrow> handler \<Rightarrow> string \<Rightarrow> bool" where
  "leave_recorded V s handler path =
     (case read_file V s path of
        Inl _ \<Rightarrow> True
      | Inr pre \<Rightarrow>
          (case parse_thread (en_ext V) pre of
             Inl _ \<Rightarrow> True
           | Inr parsed \<Rightarrow>
               \<not> thread_has_author (entries parsed) handler \<or> last_entry_is_leave_workspace (entries parsed) handler))"

definition append_leave_event_to_thread ::
  "env \<Rightarrow> app_state \<Rightarrow> handler \<Rightarrow> string \<Rightarrow> app_state \<Rightarrow> bool outcome" where
  "append_leave_event_to_thread V s0 handler path s =
     (if leave_recorded V s0 handler path then (Inr False, s)
      else let cur = read_or_default V s path in
      case parse_thread (en_ext V) cur of
        Inl e \<Rightarrow> (Inl (ErrParseThread e), s)
      | Inr parsed \<Rightarrow>
     (if \<not> thread_has_author (entries parsed) handler \<or> last_entry_is_leave_workspace (entries parsed) handler
      then (Inr False, s)
      else let next_line = u64_add (last_line_number parsed) 1;
               event_line = format_event (en_ext V) next_line handler (en_now V) ''leave-workspace'' (JObject []) in
      case append_file V path event_line s of
        (Inl e, s1) \<Rightarrow> (Inl e, s1)
      | (Inr _, s1) \<Rightarrow>
     (case add_and_commit_as V [path] (''event: @'' @ as_str handler @ '' leave-workspace'') (as_str handler) s1 of
        (Inl e, s2) \<Rightarrow> (Inl (ErrGit ''phase1: commit failed'' e), restore_file V path cur s2)
      | (Inr _, s2) \<Rightarrow>
          (case push_with_retry V ''phase1'' s2 of
             (Inl e, s3) \<Rightarrow> (Inl e, s3)
           | (Inr _, s3) \<Rightarrow> (Inr True, s3)))))"

definition phase1_write_leave_events :: "env \<Rightarrow> string \<Rightarrow> app_state \<Rightarrow> nat outcome" where
  "phase1_write_leave_events V handler s =
     (let thread_paths = sort (collect_thread_paths V s ''channels'' @ collect_thread_paths V s ''dm'') in
      case handler_new handler of
        Inl e \<Rightarrow> (Inl (ErrInvalidHandler ''handler'' e), s)
      | Inr handler_h \<Rightarrow> run_steps (\<lambda>path s1. append_leave_event_to_thread V s1 handler_h path s1) thread_paths 0 s)"

definition dm_targets :: "env \<Rightarrow> string \<Rightarrow> app_state \<Rightarrow> string list" where
  "dm_targets V handler s =
     sort (List.map_filter
       (\<lambda>fname. Option.bind (strip_suffix ''.thread'' fname) (\<lambda>stem.
          Option.bind (parse_dm_filename stem) (\<lambda>(a, b). if a = handler \<or> b = handler then Some stem else None)))
       (dir_names V s ''dm''))"

definition archive_dm_of :: "env \<Rightarrow> app_state \<Rightarrow> string \<Rightarrow> string \<Rightarrow> app_state \<Rightarrow> bool outcome" where
  "archive_dm_of V s0 handler stem s =
     (if path_exists s0 (archived_dm_path stem) \<or> \<not> path_exists s0 (dm_thread_path stem) then (Inr False, s)
      else case git_mv V (dm_thread_path stem) (archived_dm_path stem) s of
        (Inl e, s1) \<Rightarrow> (Inl (ErrGit ''phase2: git mv failed'' e), s1)
      | (Inr _, s1) \<Rightarrow>
     (case add_and_commit_as V [archived_dm_path stem] (''archive: dm '' @ stem) handler s1 of
        (Inl e, s2) \<Rightarrow>
          (Inl (ErrGit ''phase2: commit failed'' e), undo_move V (dm_thread_path stem, archived_dm_path stem) s2)
      | (Inr _, s2) \<Rightarrow>
          (case push_with_retry V ''phase2'' s2 of
             (Inl e, s3) \<Rightarrow> (Inl e, s3)
           | (Inr _, s3) \<Rightarrow> (Inr True, s3))))"

definition phase2_archive_dms :: "env \<Rightarrow> string \<Rightarrow> app_state \<Rightarrow> nat outcome" where
  "phase2_archive_dms V handler s =
     (let targets = dm_targets V handler s in
      case (if targets = [] then Inr () else make_dir V ''phase2: failed to create archive/dm dir'' ''archive/dm'') of
        Inl e \<Rightarrow> (Inl e, s)
      | Inr _ \<Rightarrow> run_steps (\<lambda>stem s1. archive_dm_of V s1 handler stem s1) targets 0 s)"

definition channel_targets :: "env \<Rightarrow> app_state \<Rightarrow> string list" where
  "channel_targets V s = sort (List.map_filter (strip_suffix ''.meta.yaml'') (dir_names V s ''channels''))"

definition is_member :: "env \<Rightarrow> app_state \<Rightarrow> string \<Rightarrow> string \<Rightarrow> bool" where
  "is_member V s handler ch =
     (case read_file V s (channel_meta_path ch) of
        Inl _ \<Rightarrow> False
      | Inr meta_str \<Rightarrow>
          (case en_channel_read V meta_str of None \<Rightarrow> False | Some meta \<Rightarrow> handler \<in> set (cm_members meta)))"

definition remove_member :: "env \<Rightarrow> app_state \<Rightarrow> string \<Rightarrow> string \<Rightarrow> app_state \<Rightarrow> bool outcome" where
  "remove_member V s0 handler ch s =
     (if \<not> is_member V s0 handler ch then (Inr False, s)
      else case read_file V s (channel_meta_path ch) of
        Inl e \<Rightarrow> (Inl (ErrIo ''phase3: read under lock'' (io_text e)), s)
      | Inr cur_str \<Rightarrow>
     (case en_channel_read V cur_str of
        None \<Rightarrow> (Inl (ErrParseMeta ''channel meta''), s)
      | Some cur_meta \<Rightarrow>
     (if handler \<notin> set (cm_members cur_meta) then (Inr False, s)
      else case en_channel_write V (cur_meta\<lparr>cm_members := filter (\<lambda>m. m \<noteq> handler) (cm_members cur_meta)\<rparr>) of
        None \<Rightarrow> (Inl (ErrYaml ''channel meta''), s)
      | Some new_yaml \<Rightarrow>
     (case write_file V ''phase3: write failed'' (channel_meta_path ch) new_yaml s of
        (Inl e, s1) \<Rightarrow> (Inl e, s1)
      | (Inr _, s1) \<Rightarrow>
     (case add_and_commit_as V [channel_meta_path ch]
             (''channel: remove @'' @ handler @ '' from #'' @ ch @ '' members'') handler s1 of
        (Inl e, s2) \<Rightarrow> (Inl (ErrGit ''phase3: commit failed'' e), restore_file V (channel_meta_path ch) cur_str s2)
      | (Inr _, s2) \<Rightarrow>
          (case push_with_retry V ''phase3'' s2 of
             (Inl e, s3) \<Rightarrow> (Inl e, s3)
           | (Inr _, s3) \<Rightarrow> (Inr True, s3)))))))"

definition phase3_clean_channel_members :: "env \<Rightarrow> string \<Rightarrow> app_state \<Rightarrow> nat outcome" where
  "phase3_clean_channel_members V handler s =
     run_steps (\<lambda>ch s1. remove_member V s1 handler ch s1) (channel_targets V s) 0 s"

definition phase4_archive_user :: "env \<Rightarrow> string \<Rightarrow> app_state \<Rightarrow> nat outcome" where
  "phase4_archive_user V handler s =
     (if path_exists s (archived_user_path handler) then (Inr 0, s)
      else if \<not> path_exists s (user_meta_path handler) then (Inl (ErrNoUser handler), s)
      else case make_dir V ''phase4: failed to create archive/users dir'' ''archive/users'' of
        Inl e \<Rightarrow> (Inl e, s)
      | Inr _ \<Rightarrow>
          (case move_user V ''phase4'' (user_meta_path handler, archived_user_path handler)
                  (user_board handler, archived_board handler) (''archive: depart user @'' @ handler) handler s of
             (Inl e, s1) \<Rightarrow> (Inl e, s1)
           | (Inr _, s1) \<Rightarrow> (Inr 1, send_event (UserArchived handler handler (en_now V)) (drop_user handler s1))))"

record depart_user_response =
  du_handler :: string
  du_commits :: nat
  du_already_departed :: bool

definition depart_phases :: "env \<Rightarrow> string \<Rightarrow> app_state \<Rightarrow> nat outcome" where
  "depart_phases V handler s =
     (case phase1_write_leave_events V handler s of
        (Inl e, s1) \<Rightarrow> (Inl e, s1)
      | (Inr n1, s1) \<Rightarrow>
     (case phase2_archive_dms V handler s1 of
        (Inl e, s2) \<Rightarrow> (Inl e, s2)
      | (Inr n2, s2) \<Rightarrow>
     (case phase3_clean_channel_members V handler s2 of
        (Inl e, s3) \<Rightarrow> (Inl e, s3)
      | (Inr n3, s3) \<Rightarrow>
     (case phase4_archive_user V handler s3 of
        (Inl e, s4) \<Rightarrow> (Inl e, s4)
      | (Inr n4, s4) \<Rightarrow> (Inr (n1 + n2 + n3 + n4), s4)))))"

definition handle_depart_user :: "env \<Rightarrow> string \<Rightarrow> app_state \<Rightarrow> depart_user_response outcome" where
  "handle_depart_user V handler s =
     (case map_err (ErrInvalidHandler ''handler'') (handler_new handler) of
        Inl e \<Rightarrow> (Inl e, s)
      | Inr _ \<Rightarrow>
          if is_already_departed s handler then
            (case push_with_retry V ''depart_user(terminal-resync)'' s of
               (Inl e, s1) \<Rightarrow> (Inl e, s1)
             | (Inr _, s1) \<Rightarrow> (Inr \<lparr>du_handler = handler, du_commits = 0, du_already_departed = True\<rparr>, s1))
          else if \<not> path_exists s (user_meta_path handler) then (Inl (ErrNoUser handler), s)
          else (case depart_phases V handler s of
                  (Inl e, s1) \<Rightarrow> (Inl e, s1)
                | (Inr total_commits, s1) \<Rightarrow>
                    (Inr \<lparr>du_handler = handler, du_commits = total_commits, du_already_departed = False\<rparr>, s1)))"
subsection \<open>Resumable loops\<close>

lemma run_steps_rel:
  assumes "run_steps f xs n s = (r, s')" "\<And>s. Q s s" "\<And>s1 s2 s3. Q s1 s2 \<Longrightarrow> Q s2 s3 \<Longrightarrow> Q s1 s3"
    and "\<And>x s r s'. x \<in> set xs \<Longrightarrow> f x s = (r, s') \<Longrightarrow> Q s s'"
  shows "Q s s'"
  using assms(1,4)
proof (induction xs arbitrary: n s)
  case Nil
  then show ?case using assms(2) by simp
next
  case (Cons x xs)
  obtain r1 s1 where f: "f x s = (r1, s1)" by force
  have "Q s s1" using Cons.prems(2) [OF _ f] by simp
  moreover have "Q s1 s'" if "r1 = Inr b" for b
    by (rule Cons.IH [of "if b then Suc n else n"]) (use Cons.prems f that in auto)
  ultimately show ?case using Cons.prems(1) f assms(3) by (cases r1) auto
qed

text \<open>A step does the work of an item unless it is settled; it settles it, and no step unsettles another item.\<close>

locale resumable =
  fixes step :: "'a \<Rightarrow> app_state \<Rightarrow> bool outcome" and settled :: "'a \<Rightarrow> app_state \<Rightarrow> bool"
    and inv :: "app_state \<Rightarrow> bool" and item :: "'a \<Rightarrow> bool"
  assumes skip: "inv s \<Longrightarrow> settled x s \<Longrightarrow> step x s = (Inr False, s)"
    and settle: "inv s \<Longrightarrow> item x \<Longrightarrow> step x s = (Inr b, s') \<Longrightarrow> settled x s'"
    and stay: "inv s \<Longrightarrow> settled y s \<Longrightarrow> step x s = (r, s') \<Longrightarrow> settled y s'"
    and keep: "inv s \<Longrightarrow> step x s = (r, s') \<Longrightarrow> inv s'"
    and count: "inv s \<Longrightarrow> step x s = (Inr b, s') \<Longrightarrow> length (st_commits s') = length (st_commits s) + of_bool b"
begin

lemma run_keeps: "run_steps step xs n s = (r, s') \<Longrightarrow> inv s \<Longrightarrow> inv s' \<and> (\<forall>y. settled y s \<longrightarrow> settled y s')"
proof (induction xs arbitrary: n s)
  case (Cons x xs)
  obtain r1 s1 where f: "step x s = (r1, s1)" by force
  have "inv s1" "\<forall>y. settled y s \<longrightarrow> settled y s1" using keep stay f Cons.prems(2) by blast+
  then show ?case using Cons.IH [of _ s1] Cons.prems(1) f by (cases r1) auto
qed simp

lemma run_settles:
  assumes "run_steps step xs n s = (Inr k, s')" "inv s" "\<forall>x \<in> set xs. item x"
  shows "\<forall>x \<in> set xs. settled x s'" and "k \<le> n + length (filter (\<lambda>x. \<not> settled x s) xs)"
    and "length (st_commits s') + n = length (st_commits s) + k"
proof -
  have "(\<forall>x \<in> set xs. settled x s') \<and> k \<le> n + length (filter (\<lambda>x. \<not> settled x s) xs)
    \<and> length (st_commits s') + n = length (st_commits s) + k"
    using assms
  proof (induction xs arbitrary: n s)
    case (Cons x xs)
    obtain r1 s1 where f: "step x s = (r1, s1)" by force
    obtain b where b: "r1 = Inr b" using Cons.prems(1) f by (cases r1) auto
    let ?n = "if b then Suc n else n"
    have rest: "run_steps step xs ?n s1 = (Inr k, s')" using Cons.prems(1) f b by simp
    have i: "inv s1" using keep f Cons.prems(2) by blast
    have IH: "(\<forall>x \<in> set xs. settled x s') \<and> k \<le> ?n + length (filter (\<lambda>x. \<not> settled x s1) xs)
      \<and> length (st_commits s') + ?n = length (st_commits s1) + k"
      using Cons.IH [OF rest i] Cons.prems(3) by simp
    have "settled x s1" using settle f b Cons.prems(2,3) by auto
    then have "settled x s'" using run_keeps [OF rest i] by blast
    moreover have "length (filter (\<lambda>x. \<not> settled x s1) xs) \<le> length (filter (\<lambda>x. \<not> settled x s) xs)"
      using stay [OF Cons.prems(2) _ f] by (induction xs) auto
    moreover have "\<not> settled x s" if b using skip Cons.prems(2) f b that by auto
    ultimately show ?case using IH count [OF Cons.prems(2)] f b by (auto split: if_splits)
  qed simp
  then show "\<forall>x \<in> set xs. settled x s'" and "k \<le> n + length (filter (\<lambda>x. \<not> settled x s) xs)"
    and "length (st_commits s') + n = length (st_commits s) + k" by blast+
qed

end
subsection \<open>Marking the threads\<close>

definition leave_line :: "env \<Rightarrow> handler \<Rightarrow> thread_file \<Rightarrow> string" where
  "leave_line V h f = format_event (en_ext V) (u64_add (last_line_number f) 1) h (en_now V) ''leave-workspace'' (JObject [])"

definition threads_ended :: "tree \<Rightarrow> bool" where
  "threads_ended t \<longleftrightarrow> (\<forall>p c. message_thread p \<and> map_of t p = Some c \<longrightarrow> c = [] \<or> last c = newline)"

lemma read_file_ok: "reads_ok V \<Longrightarrow> read_file V s p = (case map_of (st_tree s) p of None \<Rightarrow> Inl None | Some c \<Rightarrow> Inr c)"
  by (auto simp: read_file_def reads_ok_def split: option.splits)

lemma leave_recorded_cong:
  "map_of (st_tree s) p = map_of (st_tree s') p \<Longrightarrow> leave_recorded V s h p = leave_recorded V s' h p"
  by (simp add: leave_recorded_def read_file_def)

lemma leave_step:
  assumes "reads_ok V" "no_rebase V" "append_leave_event_to_thread V s h p s = (r, s')" "\<not> leave_recorded V s h p"
  obtains c f where "map_of (st_tree s) p = Some c" "parse_thread (en_ext V) c = Inr f" "st_users s' = st_users s"
    "(\<exists>e. r = Inl e) \<and> st_tree s' = st_tree s
     \<or> st_tree s' = AList.update p (c @ leave_line V h f) (st_tree s)
       \<and> ((\<exists>e. r = Inl e) \<or> r = Inr True \<and> length (st_commits s') = Suc (length (st_commits s)))"
proof -
  obtain c f where c: "map_of (st_tree s) p = Some c" "parse_thread (en_ext V) c = Inr f"
      "thread_has_author (entries f) h" "\<not> last_entry_is_leave_workspace (entries f) h"
    using assms(1,4) by (auto simp: leave_recorded_def read_file_ok split: option.splits sum.splits)
  have cur: "read_or_default V s p = c" using c(1) assms(1) by (simp add: read_or_default_ok)
  obtain r1 s1 where w: "append_file V p (leave_line V h f) s = (r1, s1)" by force
  obtain r2 s2 where q: "add_and_commit_as V [p] (''event: @'' @ as_str h @ '' leave-workspace'') (as_str h) s1 = (r2, s2)"
    by force
  obtain r3 s3 where u: "push_with_retry V ''phase1'' s2 = (r3, s3)" by force
  note step = assms(3) [unfolded append_leave_event_to_thread_def Let_def cur c(2) sum.case
      leave_line_def [symmetric] w q u prod.case]
  from append_file_frame [OF w] consider "\<exists>e. r1 = Inl e" "s1 = s" | "r1 = Inr ()" "s1 = put_file p (c @ leave_line V h f) s"
    using c(1) by auto
  then show ?thesis
  proof cases
    case 1
    then show ?thesis using step assms(4) c by (intro that) auto
  next
    case 2
    show ?thesis
    proof (cases r2)
      case (Inl e)
      then have "s2 = s1" using add_and_commit_frame [OF q] by simp
      then have "restore_file V p c s2 = s1 \<or> restore_file V p c s2 = s"
        using 2 put_file_back [OF c(1)] by (auto simp: restore_file_def)
      then show ?thesis using step assms(4) c 2 Inl by (intro that) auto
    next
      case (Inr x)
      have "s3 = s2" using push_frame [OF assms(2) u] .
      then show ?thesis
        using step assms(4) c 2 Inr add_and_commit_frame [OF q] by (intro that [OF c(1,2)]) (auto split: sum.splits)
    qed
  qed
qed

lemma leave_line_parse:
  assumes "env_ok E R V" "json_ok E" "handler_new n = Inr h" "parse_thread E c = Inr f" "c = [] \<or> last c = newline"
  shows "\<exists>ev. parse_thread E (c @ leave_line V h f) = Inr \<lparr>entries = entries f @ [EEvent ev]\<rparr>
    \<and> ev_event_type ev = ''leave-workspace'' \<and> ev_author ev = h"
proof -
  let ?ev = "\<lparr>ev_line_number = u64_add (last_line_number f) 1, ev_point_to = 0, ev_author = h, ev_timestamp = en_now V,
    ev_event_type = ''leave-workspace'', ev_meta = JObject []\<rparr>"
  have "entry_handler h" using assms(3) by (auto simp: handler_new_Inr entry_handler_def)
  moreover have "event_name ''leave-workspace''" by code_simp
  moreover have "one_line (json_to_string E (JObject [])) \<and> json_from_str E (json_to_string E (JObject [])) = Some (JObject [])"
    using assms(2) unfolding json_ok_def by (metis empty_iff list.set(1) targets_json_def)
  ultimately have "entry_wf E (EEvent ?ev)" using assms(1) u64_add_le by (simp add: env_ok_def)
  then have "parse_thread E (leave_line V h f) = Inr \<lparr>entries = [EEvent ?ev]\<rparr>"
    using parse_thread_formatted [of E "[EEvent ?ev]"] assms(1) by (simp add: leave_line_def env_ok_def)
  from parse_thread_append [OF assms(4) this assms(5)] show ?thesis by auto
qed

lemma leave_marked: "ev_event_type ev = ''leave-workspace'' \<Longrightarrow> ev_author ev = h \<Longrightarrow> last_entry_is_leave_workspace (es @ [EEvent ev]) h"
  by (simp add: last_entry_is_leave_workspace_def)

definition phase1_inv :: "ext \<Rightarrow> (string \<Rightarrow> channel_meta option) \<Rightarrow> env \<Rightarrow> handler \<Rightarrow> app_state \<Rightarrow> bool" where
  "phase1_inv E R V h s \<longleftrightarrow> env_ok E R V \<and> json_ok E \<and> handler_new (as_str h) = Inr h \<and> threads_ended (st_tree s)"

lemma phase1_step:
  assumes i: "phase1_inv E R V h s" and run: "append_leave_event_to_thread V s h x s = (r, s')"
  shows "phase1_inv E R V h s'" "leave_recorded V s h y \<Longrightarrow> leave_recorded V s' h y"
    "r = Inr b \<Longrightarrow> message_thread x \<Longrightarrow> leave_recorded V s' h x"
    "r = Inr b \<Longrightarrow> length (st_commits s') = length (st_commits s) + of_bool b"
proof -
  have V: "reads_ok V" "no_rebase V" "env_ok E R V" "json_ok E" "handler_new (as_str h) = Inr h" "en_ext V = E"
    "threads_ended (st_tree s)" using i by (auto simp: phase1_inv_def env_ok_def)
  have skipped: "r = Inr False \<and> s' = s" if "leave_recorded V s h x"
    using run that by (simp add: append_leave_event_to_thread_def)
  show "phase1_inv E R V h s'"
  proof (cases "leave_recorded V s h x")
    case False
    have nl: "leave_line V h f \<noteq> [] \<and> last (leave_line V h f) = newline" for f
      using format_event_ended by (simp add: leave_line_def)
    then have "threads_ended (AList.update x (c @ leave_line V h f) (st_tree s))" for c f
      using V(7) by (auto simp: threads_ended_def update_conv')
    then show ?thesis using i leave_step [OF V(1,2) run False] by (metis phase1_inv_def)
  qed (use skipped i in simp)
  show "leave_recorded V s' h y" if y: "leave_recorded V s h y"
  proof (cases "leave_recorded V s h x")
    case False
    then have "y \<noteq> x" using y by auto
    then have "map_of (st_tree s') y = map_of (st_tree s) y"
      using leave_step [OF V(1,2) run False] by (metis fun_upd_other update_conv')
    then show ?thesis using y leave_recorded_cong by blast
  qed (use skipped y in simp)
  show "leave_recorded V s' h x" if "r = Inr b" "message_thread x"
  proof (cases "leave_recorded V s h x")
    case False
    from leave_step [OF V(1,2) run False] that(1) obtain c f where c: "map_of (st_tree s) x = Some c"
        "parse_thread (en_ext V) c = Inr f" "st_tree s' = AList.update x (c @ leave_line V h f) (st_tree s)" by (metis sum.distinct(1))
    have "c = [] \<or> last c = newline" using V(7) c(1) that(2) by (auto simp: threads_ended_def)
    from leave_line_parse [OF V(3,4,5) _ this] c(2) V(6) obtain ev where
      "parse_thread E (c @ leave_line V h f) = Inr \<lparr>entries = entries f @ [EEvent ev]\<rparr>"
      "ev_event_type ev = ''leave-workspace''" "ev_author ev = h" by metis
    then show ?thesis using c(3) V(1,6) leave_marked by (simp add: leave_recorded_def read_file_ok update_conv')
  qed (use skipped in simp)
  show "length (st_commits s') = length (st_commits s) + of_bool b" if "r = Inr b"
  proof (cases "leave_recorded V s h x")
    case False
    from leave_step [OF V(1,2) run False] that show ?thesis by (metis of_bool_eq(2) Suc_eq_plus1 sum.distinct(1) sum.inject(2))
  qed (use skipped that in auto)
qed

interpretation phase1: resumable "\<lambda>p s. append_leave_event_to_thread V s h p s" "\<lambda>p s. leave_recorded V s h p"
  "phase1_inv E R V h" message_thread
  for V h E R
  by (unfold_locales, simp add: append_leave_event_to_thread_def) (blast intro: phase1_step)+
subsection \<open>Archiving the direct messages\<close>

definition dm_settled :: "tree \<Rightarrow> string \<Rightarrow> bool" where
  "dm_settled t stem \<longleftrightarrow> tree_has t (archived_dm_path stem) \<or> \<not> tree_has t (dm_thread_path stem)"

lemma dm_apart: "apart (dm_thread_path x) (archived_dm_path y)"
  by (auto simp: apart_def in_dir_def below_iff dm_thread_path_def archived_dm_path_def)

lemma dm_step:
  assumes "git_ok V" "no_rebase V" "archive_dm_of V s h x s = (r, s')" "\<not> dm_settled (st_tree s) x"
  shows "st_users s' = st_users s"
    "(\<exists>e. r = Inl e) \<and> st_tree s' = st_tree s
     \<or> st_tree s' = move_path (dm_thread_path x) (archived_dm_path x) (st_tree s)
       \<and> ((\<exists>e. r = Inl e) \<or> r = Inr True \<and> length (st_commits s') = Suc (length (st_commits s)))"
proof -
  let ?a = "dm_thread_path x" and ?b = "archived_dm_path x" and ?t = "st_tree s"
  have free: "\<not> tree_has ?t ?b" "tree_has ?t ?a" using assms(4) by (auto simp: dm_settled_def)
  obtain r1 s1 where g: "git_mv V ?a ?b s = (r1, s1)" by force
  obtain r2 s2 where q: "add_and_commit_as V [?b] (''archive: dm '' @ x) h s1 = (r2, s2)" by force
  obtain r3 s3 where u: "push_with_retry V ''phase2'' s2 = (r3, s3)" by force
  have pe: "\<not> path_exists s ?b" "path_exists s ?a" using free by (simp_all add: path_exists_tree)
  note step = assms(3) [unfolded archive_dm_of_def g q u prod.case]
  from git_mv_frame [OF assms(1) g] mv_target_free [OF free(1), of ?a]
  consider "\<exists>e. r1 = Inl e" "s1 = s" | "r1 = Inr ()" "s1 = s\<lparr>st_tree := move_path ?a ?b ?t\<rparr>" by auto
  then have "st_users s' = st_users s \<and> ((\<exists>e. r = Inl e) \<and> st_tree s' = st_tree s
     \<or> st_tree s' = move_path (dm_thread_path x) (archived_dm_path x) (st_tree s)
       \<and> ((\<exists>e. r = Inl e) \<or> r = Inr True \<and> length (st_commits s') = Suc (length (st_commits s))))"
  proof cases
    case 1
    then show ?thesis using step pe by auto
  next
    case 2
    show ?thesis
    proof (cases r2)
      case (Inl e)
      then have s2: "s2 = s1" using add_and_commit_frame [OF q] by simp
      have gone: "\<not> tree_has (st_tree s1) ?a" using move_leaves_nothing [OF apart_none [OF dm_apart]] 2 by simp
      obtain r4 s4 where m: "git_mv V ?b ?a s1 = (r4, s4)" by force
      have "s4 = s1 \<or> s4 = s"
        using git_mv_frame [OF assms(1) m] mv_target_free [OF gone, of ?b] move_back [OF free(1), of ?a] 2 by auto
      then show ?thesis using step pe 2 Inl s2 m by (auto simp: undo_move_def)
    next
      case (Inr y)
      have "s3 = s2" using push_frame [OF assms(2) u] .
      then show ?thesis using step pe 2 Inr add_and_commit_frame [OF q] by (auto split: sum.splits)
    qed
  qed
  then show "st_users s' = st_users s"
    "(\<exists>e. r = Inl e) \<and> st_tree s' = st_tree s
     \<or> st_tree s' = move_path (dm_thread_path x) (archived_dm_path x) (st_tree s)
       \<and> ((\<exists>e. r = Inl e) \<or> r = Inr True \<and> length (st_commits s') = Suc (length (st_commits s)))" by blast+
qed

lemma dm_settled_moved:
  assumes "\<not> dm_settled t x"
  shows "dm_settled t y \<Longrightarrow> dm_settled (move_path (dm_thread_path x) (archived_dm_path x) t) y"
    and "dm_settled (move_path (dm_thread_path x) (archived_dm_path x) t) x"
proof -
  let ?t' = "move_path (dm_thread_path x) (archived_dm_path x) t"
  have "\<not> tree_has ?t' (dm_thread_path x)" by (rule move_leaves_nothing [OF apart_none [OF dm_apart]])
  then show "dm_settled ?t' x" by (simp add: dm_settled_def)
  have keeps: "tree_has ?t' (archived_dm_path y)" if there: "tree_has t (archived_dm_path y)"
  proof -
    obtain p c where p: "(p, c) \<in> set t" "in_dir (archived_dm_path y) p" using there by (auto simp: tree_has_in)
    then have "\<not> in_dir (dm_thread_path x) p" using apart_paths [OF dm_apart] by blast
    then show ?thesis using p by (force simp: tree_has_in move_path_def moved_out)
  qed
  have none: "\<not> tree_has ?t' (dm_thread_path y)" if "\<not> tree_has t (dm_thread_path y)"
  proof
    assume "tree_has ?t' (dm_thread_path y)"
    then obtain p c where p: "(p, c) \<in> set t" "in_dir (dm_thread_path y) (moved_name (dm_thread_path x) (archived_dm_path x) p)"
      by (auto simp: tree_has_in move_path_def)
    then have "\<not> in_dir (dm_thread_path x) p"
      using moved_in [of "dm_thread_path x" p "archived_dm_path x"] apart_paths [OF dm_apart] by blast
    then show False using p that by (auto simp: moved_out tree_has_in)
  qed
  show "dm_settled ?t' y" if "dm_settled t y" using that keeps none by (auto simp: dm_settled_def)
qed

definition phase2_inv :: "env \<Rightarrow> app_state \<Rightarrow> bool" where
  "phase2_inv V s \<longleftrightarrow> git_ok V \<and> no_rebase V \<and> distinct (map fst (st_tree s))"

lemma archive_dm_skip: "dm_settled (st_tree s) x \<Longrightarrow> archive_dm_of V s h x s = (Inr False, s)"
  by (auto simp: archive_dm_of_def dm_settled_def path_exists_tree)

lemma phase2_step:
  assumes i: "phase2_inv V s" and run: "archive_dm_of V s h x s = (r, s')"
  shows "phase2_inv V s'" "dm_settled (st_tree s) y \<Longrightarrow> dm_settled (st_tree s') y"
    "r = Inr b \<Longrightarrow> dm_settled (st_tree s') x"
    "r = Inr b \<Longrightarrow> length (st_commits s') = length (st_commits s) + of_bool b"
proof -
  have V: "git_ok V" "no_rebase V" "distinct (map fst (st_tree s))" using i by (auto simp: phase2_inv_def)
  have d: "distinct (map fst (move_path (dm_thread_path x) (archived_dm_path x) (st_tree s)))" if "\<not> dm_settled (st_tree s) x"
    using distinct_move [OF V(3)] that by (auto simp: dm_settled_def)
  show "phase2_inv V s'" "dm_settled (st_tree s) y \<Longrightarrow> dm_settled (st_tree s') y"
    "r = Inr b \<Longrightarrow> dm_settled (st_tree s') x" "r = Inr b \<Longrightarrow> length (st_commits s') = length (st_commits s) + of_bool b"
    using archive_dm_skip [of s x V h] run dm_step(2) [OF V(1,2) run] dm_settled_moved [of "st_tree s" x] i d
    by (cases "dm_settled (st_tree s) x"; auto simp: phase2_inv_def)+
qed

interpretation phase2: resumable "\<lambda>x s. archive_dm_of V s h x s" "\<lambda>x s. dm_settled (st_tree s) x" "phase2_inv V" "\<lambda>_. True"
  for V h
  by (unfold_locales, rule archive_dm_skip, assumption) (blast intro: phase2_step)+
subsection \<open>Leaving the channels\<close>

lemma is_member_cong:
  "map_of (st_tree s) (channel_meta_path ch) = map_of (st_tree s') (channel_meta_path ch) \<Longrightarrow> is_member V s h ch = is_member V s' h ch"
  by (simp add: is_member_def read_file_def)

lemma member_step:
  assumes "env_ok E R V" "remove_member V s h ch s = (r, s')" "is_member V s h ch"
  obtains c m y where "map_of (st_tree s) (channel_meta_path ch) = Some c" "R c = Some m" "h \<in> set (cm_members m)"
    "en_channel_write V (m\<lparr>cm_members := filter (\<lambda>x. x \<noteq> h) (cm_members m)\<rparr>) = y" "st_users s' = st_users s"
    "(\<exists>e. r = Inl e) \<and> st_tree s' = st_tree s
     \<or> (\<exists>z. y = Some z \<and> st_tree s' = AList.update (channel_meta_path ch) z (st_tree s))
       \<and> ((\<exists>e. r = Inl e) \<or> r = Inr True \<and> length (st_commits s') = Suc (length (st_commits s)))"
proof -
  let ?p = "channel_meta_path ch"
  have V: "reads_ok V" "no_rebase V" "en_channel_read V = R" using assms(1) by (auto simp: env_ok_def)
  obtain c m where c: "map_of (st_tree s) ?p = Some c" "R c = Some m" "h \<in> set (cm_members m)"
    using assms(3) V by (auto simp: is_member_def read_file_ok split: option.splits sum.splits)
  have rd: "read_file V s ?p = Inr c" using c(1) V by (simp add: read_file_ok)
  let ?m = "m\<lparr>cm_members := filter (\<lambda>x. x \<noteq> h) (cm_members m)\<rparr>"
  show ?thesis
  proof (cases "en_channel_write V ?m")
    case None
    then show ?thesis using assms(2,3) rd c V by (intro that [OF c None]) (auto simp: remove_member_def)
  next
    case (Some z)
    obtain r1 s1 where w: "write_file V ''phase3: write failed'' ?p z s = (r1, s1)" by force
    obtain r2 s2 where q: "add_and_commit_as V [?p] (''channel: remove @'' @ h @ '' from #'' @ ch @ '' members'') h s1 = (r2, s2)"
      by force
    obtain r3 s3 where u: "push_with_retry V ''phase3'' s2 = (r3, s3)" by force
    note step = assms(2) [unfolded remove_member_def rd sum.case V(3) c(2) option.case Some w prod.case q u]
    from write_file_frame [OF w] consider "\<exists>e. r1 = Inl e" "s1 = s" | "r1 = Inr ()" "s1 = put_file ?p z s" by auto
    then show ?thesis
    proof cases
      case 1
      then show ?thesis using step assms(3) c(3) by (intro that [OF c Some]) auto
    next
      case 2
      show ?thesis
      proof (cases r2)
        case (Inl e)
        then have "s2 = s1" using add_and_commit_frame [OF q] by simp
        then have "restore_file V ?p c s2 = s1 \<or> restore_file V ?p c s2 = s"
          using 2 put_file_back [OF c(1)] by (auto simp: restore_file_def)
        then show ?thesis using step assms(3) c(3) 2 Inl by (intro that [OF c Some]) auto
      next
        case (Inr x)
        have "s3 = s2" using push_frame [OF V(2) u] .
        then show ?thesis
          using step assms(3) c(3) 2 Inr add_and_commit_frame [OF q] by (intro that [OF c Some]) (auto split: sum.splits)
      qed
    qed
  qed
qed

lemma member_removed:
  assumes "env_ok E R V" "en_channel_write V (m\<lparr>cm_members := filter (\<lambda>x. x \<noteq> h) (cm_members m)\<rparr>) = Some z"
    "st_tree s' = AList.update (channel_meta_path ch) z t"
  shows "\<not> is_member V s' h ch"
proof -
  have "R z = Some (m\<lparr>cm_members := filter (\<lambda>x. x \<noteq> h) (cm_members m)\<rparr>)" "reads_ok V" "en_channel_read V = R"
    using assms(1,2) by (auto simp: env_ok_def)
  then show ?thesis using assms(3) by (simp add: is_member_def read_file_ok update_conv')
qed

lemma phase3_step:
  assumes "env_ok E R V" and run: "remove_member V s h x s = (r, s')"
  shows "\<not> is_member V s h y \<Longrightarrow> \<not> is_member V s' h y" "r = Inr b \<Longrightarrow> \<not> is_member V s' h x"
    "r = Inr b \<Longrightarrow> length (st_commits s') = length (st_commits s) + of_bool b"
proof -
  have skipped: "r = Inr False \<and> s' = s" if "\<not> is_member V s h x" using run that by (simp add: remove_member_def)
  have other: "map_of (st_tree s') (channel_meta_path y) = map_of (st_tree s) (channel_meta_path y)" if "y \<noteq> x" for y
  proof (cases "is_member V s h x")
    case True
    have "st_tree s' = st_tree s \<or> (\<exists>z. st_tree s' = AList.update (channel_meta_path x) z (st_tree s))"
      by (rule member_step [OF assms(1) run True]) blast
    then show ?thesis using that by (auto simp: update_conv')
  qed (use skipped in simp)
  show "\<not> is_member V s' h y" if "\<not> is_member V s h y"
  proof (cases "y = x")
    case False
    then show ?thesis using is_member_cong [OF other] that by blast
  qed (use skipped that in simp)
  have settles: "(\<not> is_member V s' h x) \<and> length (st_commits s') = length (st_commits s) + of_bool b" if b: "r = Inr b"
  proof (cases "is_member V s h x")
    case True
    have ok: "\<not> (\<exists>e. r = Inl e)" using b by simp
    obtain m z where "en_channel_write V (m\<lparr>cm_members := filter (\<lambda>x. x \<noteq> h) (cm_members m)\<rparr>) = Some z"
        "st_tree s' = AList.update (channel_meta_path x) z (st_tree s)" and n: "r = Inr True" "length (st_commits s') = Suc (length (st_commits s))"
      using member_step [OF assms(1) run True] ok by metis
    then have "\<not> is_member V s' h x" using member_removed [OF assms(1)] by blast
    then show ?thesis using n b by simp
  qed (use skipped b in auto)
  then show "\<not> is_member V s' h x" if "r = Inr b" using that by blast
  show "length (st_commits s') = length (st_commits s) + of_bool b" if "r = Inr b" using settles that by blast
qed

interpretation phase3: resumable "\<lambda>ch s. remove_member V s h ch s" "\<lambda>ch s. \<not> is_member V s h ch" "\<lambda>s. env_ok E R V" "\<lambda>_. True"
  for V h E R
  by (unfold_locales, simp add: remove_member_def) (use phase3_step in \<open>metis\<close>)+
subsection \<open>What departing leaves behind\<close>

definition order_ok :: "env \<Rightarrow> bool" where
  "order_ok V \<longleftrightarrow> (\<forall>l. mset (en_order V l) = mset l)"

definition active_thread :: "string \<Rightarrow> bool" where
  "active_thread p \<longleftrightarrow>
     (\<exists>d \<in> {''channels'', ''dm''}. \<exists>n. p = d @ ''/'' @ n \<and> no_slash n \<and> ends_with ''.thread'' n \<and> n \<noteq> ''.thread'')"

definition dm_of :: "string \<Rightarrow> string \<Rightarrow> bool" where
  "dm_of h stem \<longleftrightarrow> (case parse_dm_filename stem of None \<Rightarrow> False | Some (a, b) \<Rightarrow> a = h \<or> b = h)"

lemma map_filter_iff: "x \<in> set (List.map_filter f xs) \<longleftrightarrow> (\<exists>y \<in> set xs. f y = Some x)"
  by (induction xs) (auto simp: map_filter_simps split: option.splits)

lemma dir_names_iff:
  assumes "order_ok V" "reads_ok V"
  shows "n \<in> set (dir_names V s d) \<Longrightarrow> no_slash n"
    and "no_slash n \<Longrightarrow> tree_has (st_tree s) (d @ ''/'' @ n) \<Longrightarrow> n \<in> set (dir_names V s d)"
proof -
  let ?f = "\<lambda>(p, _). map_option (takeWhile (\<lambda>c. c \<noteq> CHR ''/'')) (strip_prefix (d @ ''/'') p)"
  let ?l = "remdups (List.map_filter ?f (st_tree s))"
  have "mset (read_dir V s d) = mset ?l" using assms(1) by (simp add: read_dir_def order_ok_def)
  from mset_eq_setD [OF this] have set: "set (read_dir V s d) = {n. \<exists>(p, c) \<in> set (st_tree s). ?f (p, c) = Some n}"
    by (simp add: set_eq_iff map_filter_iff case_prod_beta)
  show "no_slash n" if "n \<in> set (dir_names V s d)"
    using that set by (auto simp: dir_names_def split: if_splits dest: set_takeWhileD)
  assume n: "no_slash n" "tree_has (st_tree s) (d @ ''/'' @ n)"
  then obtain p c where p: "(p, c) \<in> set (st_tree s)" "in_dir (d @ ''/'' @ n) p" by (auto simp: tree_has_in)
  then obtain r where r: "p = d @ ''/'' @ n @ r" "r = [] \<or> (\<exists>q. r = CHR ''/'' # q)" by (auto simp: in_dir_def below_iff)
  have "takeWhile (\<lambda>c. c \<noteq> CHR ''/'') (n @ r) = n"
    using n(1) r(2) by (induction n) auto
  moreover have "strip_prefix (d @ ''/'') p = Some (n @ r)" using r(1) by simp
  ultimately have "?f (p, c) = Some n" by simp
  then have "n \<in> set (read_dir V s d)" using set p(1) by blast
  moreover have "is_dir s d" using p(1) r(1) by (auto simp: is_dir_def list_ex_iff below_iff)
  ultimately show "n \<in> set (dir_names V s d)" using assms(2) by (simp add: dir_names_def reads_ok_def)
qed

lemma collected:
  assumes "order_ok V" "reads_ok V"
  shows "p \<in> set (collect_thread_paths V s ''channels'' @ collect_thread_paths V s ''dm'') \<Longrightarrow> active_thread p"
    and "active_thread p \<Longrightarrow> map_of (st_tree s) p \<noteq> None \<Longrightarrow>
      p \<in> set (collect_thread_paths V s ''channels'' @ collect_thread_paths V s ''dm'')"
proof -
  show "active_thread p" if "p \<in> set (collect_thread_paths V s ''channels'' @ collect_thread_paths V s ''dm'')"
    using that dir_names_iff(1) [OF assms] unfolding collect_thread_paths_def active_thread_def by auto
  assume "active_thread p" "map_of (st_tree s) p \<noteq> None"
  then obtain d n where p: "d \<in> {''channels'', ''dm''}" "p = d @ ''/'' @ n" "no_slash n" "ends_with ''.thread'' n" "n \<noteq> ''.thread''"
    unfolding active_thread_def by blast
  then have "n \<in> set (dir_names V s d)"
    using dir_names_iff(2) [OF assms p(3), of s d] tree_has_file \<open>map_of (st_tree s) p \<noteq> None\<close> by blast
  then show "p \<in> set (collect_thread_paths V s ''channels'' @ collect_thread_paths V s ''dm'')"
    using p unfolding collect_thread_paths_def by auto
qed

lemma dm_targets_cover:
  assumes "order_ok V" "reads_ok V" "no_slash stem" "dm_of h stem" "tree_has (st_tree s) (dm_thread_path stem)"
  shows "stem \<in> set (dm_targets V h s)"
proof -
  have "stem @ ''.thread'' \<in> set (dir_names V s ''dm'')"
    by (rule dir_names_iff(2) [OF assms(1,2)]) (use assms(3,5) in \<open>auto simp: dm_thread_path_def\<close>)
  moreover obtain a b where "parse_dm_filename stem = Some (a, b)" "a = h \<or> b = h"
    using assms(4) by (auto simp: dm_of_def split: option.splits)
  ultimately show ?thesis
    unfolding dm_targets_def set_sort map_filter_iff by (intro bexI [of _ "stem @ ''.thread''"]) (simp_all add: bind_eq_Some_conv)
qed

lemma channel_targets_cover:
  assumes "order_ok V" "reads_ok V" "no_slash ch" "map_of (st_tree s) (channel_meta_path ch) \<noteq> None"
  shows "ch \<in> set (channel_targets V s)"
proof -
  have "ch @ ''.meta.yaml'' \<in> set (dir_names V s ''channels'')"
    by (rule dir_names_iff(2) [OF assms(1,2)]) (use assms(3,4) tree_has_file in \<open>auto simp: channel_meta_path_def\<close>)
  then show ?thesis
    unfolding channel_targets_def set_sort map_filter_iff by (intro bexI [of _ "ch @ ''.meta.yaml''"]) simp_all
qed

lemma active_message: "active_thread p \<Longrightarrow> message_thread p"
  by (fastforce simp: active_thread_def message_thread_iff thread_name_def thread_dirs_def)
text \<open>Nothing is lost: a file stays where it is or lies in the archive, with its old content, behind which an active
  thread may have grown; archived files do not change.  Only the metadata of channels is rewritten.\<close>

definition kept :: "tree \<Rightarrow> tree \<Rightarrow> bool" where
  "kept t t' \<longleftrightarrow> (\<forall>p c. map_of t p = Some c \<longrightarrow>
     (below ''archive'' p \<longrightarrow> map_of t' p = Some c)
     \<and> ((\<forall>ch. p \<noteq> channel_meta_path ch) \<longrightarrow>
          (\<exists>l. (l = [] \<or> active_thread p) \<and> (map_of t' p = Some (c @ l) \<or> map_of t' (''archive/'' @ p) = Some (c @ l)))))"

lemma kept_refl: "kept t t"
  by (auto simp: kept_def)

lemma kept_trans: "kept t1 t2 \<Longrightarrow> kept t2 t3 \<Longrightarrow> kept t1 t3"
proof -
  assume k: "kept t1 t2" "kept t2 t3"
  have "\<exists>l. (l = [] \<or> active_thread p) \<and> (map_of t3 p = Some (c @ l) \<or> map_of t3 (''archive/'' @ p) = Some (c @ l))"
    if p: "map_of t1 p = Some c" and ch: "\<forall>ch. p \<noteq> channel_meta_path ch" for p c
  proof -
    obtain l where l: "l = [] \<or> active_thread p" "map_of t2 p = Some (c @ l) \<or> map_of t2 (''archive/'' @ p) = Some (c @ l)"
      using k(1) p ch unfolding kept_def by blast
    from l(2) show ?thesis
    proof
      assume "map_of t2 p = Some (c @ l)"
      then obtain l' where "l' = [] \<or> active_thread p"
          "map_of t3 p = Some ((c @ l) @ l') \<or> map_of t3 (''archive/'' @ p) = Some ((c @ l) @ l')"
        using k(2) ch unfolding kept_def by blast
      then show ?thesis using l(1) by (intro exI [of _ "l @ l'"]) auto
    next
      assume "map_of t2 (''archive/'' @ p) = Some (c @ l)"
      moreover have "below ''archive'' (''archive/'' @ p)" by (simp add: below_iff)
      ultimately have "map_of t3 (''archive/'' @ p) = Some (c @ l)" using k(2) unfolding kept_def by blast
      then show ?thesis using l(1) by blast
    qed
  qed
  then show "kept t1 t3" using k unfolding kept_def by (metis (no_types, lifting))
qed

lemma kept_append: "active_thread x \<Longrightarrow> map_of t x = Some c \<Longrightarrow> kept t (AList.update x (c @ l) t)"
proof -
  assume x: "active_thread x" "map_of t x = Some c"
  then have "\<not> below ''archive'' x" by (auto simp: active_thread_def below_iff)
  then show ?thesis using x unfolding kept_def by (auto simp: update_conv')
qed

lemma kept_meta: "kept t (AList.update (channel_meta_path ch) z t)"
proof -
  have "\<not> below ''archive'' (channel_meta_path ch)" by (auto simp: channel_meta_path_def below_iff)
  then show ?thesis unfolding kept_def by (auto simp: update_conv')
qed

lemma kept_archive:
  assumes "distinct (map fst t)" "\<not> tree_has t (''archive/'' @ a)" "a \<noteq> []" "hd a \<noteq> CHR ''a''"
  shows "kept t (move_path a (''archive/'' @ a) t)"
proof -
  let ?b = "''archive/'' @ a"
  have apart: "\<not> (\<exists>p. in_dir a p \<and> in_dir ?b p)" using assms(3,4) by (cases a) (auto simp: in_dir_def below_iff)
  note look = map_of_move_path [OF assms(1,2) apart]
  have nb: "\<not> in_dir ?b p" if "map_of t p = Some c" for p c using assms(2) that by (auto simp: tree_has_iff)
  have out: "\<not> in_dir a p" if "below ''archive'' p" for p using that assms(3,4) by (cases a) (auto simp: in_dir_def below_iff)
  have inside: "in_dir ?b (''archive/'' @ p) \<and> moved_name ?b a (''archive/'' @ p) = p" if "in_dir a p" for p
    using that moved_in [OF that, of ?b] by (auto simp: in_dir_def below_iff)
  show ?thesis
    unfolding kept_def
  proof (intro allI impI conjI)
    fix p c assume p: "map_of t p = Some c"
    show "map_of (move_path a ?b t) p = Some c" if "below ''archive'' p" using look [of p] nb [OF p] out [OF that] p by simp
    have "map_of (move_path a ?b t) p = Some c \<or> map_of (move_path a ?b t) (''archive/'' @ p) = Some c"
      using look [of p] look [of "''archive/'' @ p"] inside nb [OF p] p by (cases "in_dir a p") auto
    then show "\<exists>l. (l = [] \<or> active_thread p)
        \<and> (map_of (move_path a ?b t) p = Some (c @ l) \<or> map_of (move_path a ?b t) (''archive/'' @ p) = Some (c @ l))"
      by (intro exI [of _ "[]"]) simp
  qed
qed

lemma archive_names:
  "archived_dm_path x = ''archive/'' @ dm_thread_path x" "archived_user_path h = ''archive/'' @ user_meta_path h"
  "archived_board h = ''archive/'' @ user_board h"
  by (simp_all add: archived_dm_path_def dm_thread_path_def archived_user_path_def user_meta_path_def archived_board_def
      user_board_def)

lemma kept_user_moves:
  assumes "distinct (map fst t)" "\<not> tree_has t (archived_user_path h)" "\<not> tree_has t (archived_board h)"
  shows "kept t (all_moved (moves_of (user_mv h) (board_mv h) t) t)"
proof -
  let ?t1 = "move_path (user_meta_path h) (archived_user_path h) t"
  have one: "kept t ?t1" "distinct (map fst ?t1)"
    using kept_archive [OF assms(1), of "user_meta_path h"] distinct_move [OF assms(1,2)] assms(2)
    by (simp_all add: archive_names user_meta_path_def)
  have "apart (archived_board h) (user_meta_path h)" "apart (archived_board h) (archived_user_path h)"
    by (auto simp: apart_def in_dir_def below_iff user_meta_path_def archived_user_path_def archived_board_def)
  then have "\<not> tree_has ?t1 (archived_board h)" using tree_has_moved_other assms(3) by blast
  then have "kept ?t1 (move_path (user_board h) (archived_board h) ?t1)"
    using kept_archive [OF one(2), of "user_board h"] by (simp add: archive_names user_board_def)
  then show ?thesis using one(1) kept_trans by (auto simp: moves_of_def user_mv_def board_mv_def)
qed
subsection \<open>The phases one after the other\<close>

definition depart_env :: "ext \<Rightarrow> (string \<Rightarrow> channel_meta option) \<Rightarrow> env \<Rightarrow> bool" where
  "depart_env E R V \<longleftrightarrow> env_ok E R V \<and> json_ok E \<and> undo_ok V (\<lambda>_. True) \<and> order_ok V"

definition thread_settled :: "ext \<Rightarrow> string \<Rightarrow> tree \<Rightarrow> string \<Rightarrow> bool" where
  "thread_settled E h t p \<longleftrightarrow>
     (\<forall>c f. map_of t p = Some c \<and> parse_thread E c = Inr f \<and> thread_has_author (entries f) (Handler h) \<longrightarrow>
        last_entry_is_leave_workspace (entries f) (Handler h))"

definition member_of :: "(string \<Rightarrow> channel_meta option) \<Rightarrow> string \<Rightarrow> tree \<Rightarrow> string \<Rightarrow> bool" where
  "member_of R h t ch \<longleftrightarrow> (\<exists>c m. map_of t (channel_meta_path ch) = Some c \<and> R c = Some m \<and> h \<in> set (cm_members m))"

lemma depart_envD:
  assumes "depart_env E R V"
  shows "env_ok E R V" "json_ok E" "undo_ok V (\<lambda>_. True)" "order_ok V" "reads_ok V" "git_ok V" "no_rebase V"
    "en_ext V = E" "en_channel_read V = R"
  using assms by (auto simp: depart_env_def env_ok_def)

lemma handler_newD: "handler_new h = Inr x \<Longrightarrow> x = Handler h"
  by (cases x) (auto simp: handler_new_Inr)

lemma settled_iff: "depart_env E R V \<Longrightarrow> leave_recorded V s (Handler h) p = thread_settled E h (st_tree s) p"
  using depart_envD(5,8) [of E R V]
  by (auto simp: leave_recorded_def thread_settled_def read_file_ok split: option.splits sum.splits)

lemma member_iff: "depart_env E R V \<Longrightarrow> is_member V s h ch = member_of R h (st_tree s) ch"
  using depart_envD(5,9) [of E R V]
  by (auto simp: is_member_def member_of_def read_file_ok split: option.splits)

definition same_files :: "(string \<Rightarrow> bool) \<Rightarrow> app_state \<Rightarrow> app_state \<Rightarrow> bool" where
  "same_files P s s' \<longleftrightarrow> st_users s' = st_users s \<and> map fst (st_tree s') = map fst (st_tree s)
     \<and> kept (st_tree s) (st_tree s') \<and> (\<forall>p. \<not> P p \<longrightarrow> map_of (st_tree s') p = map_of (st_tree s) p)"

lemma same_files_refl: "same_files P s s"
  by (simp add: same_files_def kept_refl)

lemma same_files_trans: "same_files P s1 s2 \<Longrightarrow> same_files P s2 s3 \<Longrightarrow> same_files P s1 s3"
  using kept_trans by (auto simp: same_files_def)

lemma same_files_has: "same_files P s s' \<Longrightarrow> tree_has (st_tree s') d = tree_has (st_tree s) d"
  using rewritten_has [of "{p. P p}" "st_tree s" "st_tree s'"] by (simp add: same_files_def rewritten_def)

lemma phase1_run:
  assumes env: "depart_env E R V" and h: "handler_new h = Inr hh" and ended: "threads_ended (st_tree s)"
    and run: "phase1_write_leave_events V h s = (r, s')"
  shows "same_files active_thread s s'" "threads_ended (st_tree s')"
    and "r = Inr n \<Longrightarrow> length (st_commits s') = length (st_commits s) + n \<and> (\<forall>p. active_thread p \<longrightarrow> thread_settled E h (st_tree s') p)"
proof -
  note V = depart_envD [OF env]
  have hh: "hh = Handler h" using handler_newD [OF h] .
  let ?xs = "sort (collect_thread_paths V s ''channels'' @ collect_thread_paths V s ''dm'')"
  have run': "run_steps (\<lambda>p s1. append_leave_event_to_thread V s1 hh p s1) ?xs 0 s = (r, s')"
    using run h by (simp add: phase1_write_leave_events_def)
  have i: "phase1_inv E R V hh s" using V h hh ended by (simp add: phase1_inv_def)
  have act: "active_thread x" if "x \<in> set ?xs" for x using collected(1) [OF V(4,5)] that by simp
  show same: "same_files active_thread s s'"
  proof (rule run_steps_rel [OF run'])
    fix x s1 r1 s2 assume x: "x \<in> set ?xs" and f: "append_leave_event_to_thread V s1 hh x s1 = (r1, s2)"
    show "same_files active_thread s1 s2"
    proof (cases "leave_recorded V s1 hh x")
      case True
      then show ?thesis using f same_files_refl by (simp add: append_leave_event_to_thread_def)
    next
      case False
      from leave_step [OF V(5,7) f False] obtain c l where "map_of (st_tree s1) x = Some c" "st_users s2 = st_users s1"
          "st_tree s2 = st_tree s1 \<or> st_tree s2 = AList.update x (c @ l) (st_tree s1)" by metis
      then show ?thesis
        using kept_append [OF act [OF x]] act [OF x] map_fst_update [of "st_tree s1" x]
        by (auto simp: same_files_def kept_refl update_conv')
    qed
  qed (use same_files_refl same_files_trans in blast)+
  show "threads_ended (st_tree s')" using phase1.run_keeps [OF run' i] by (simp add: phase1_inv_def)
  assume n: "r = Inr n"
  have items: "\<forall>x \<in> set ?xs. message_thread x" using act active_message by blast
  note done1 = phase1.run_settles [OF run' [unfolded n] i items]
  have "thread_settled E h (st_tree s') p" if p: "active_thread p" for p
  proof (cases "map_of (st_tree s) p = None")
    case True
    then have "map_of (st_tree s') p = None" using same unfolding same_files_def by (metis list.set_map map_of_eq_None_iff)
    then show ?thesis by (simp add: thread_settled_def)
  next
    case False
    then have "p \<in> set ?xs" using collected(2) [OF V(4,5) p] by simp
    then show ?thesis using done1(1) settled_iff [OF env] hh by metis
  qed
  then show "length (st_commits s') = length (st_commits s) + n \<and> (\<forall>p. active_thread p \<longrightarrow> thread_settled E h (st_tree s') p)"
    using done1(3) by simp
qed

lemma phase3_run:
  assumes env: "depart_env E R V" and run: "phase3_clean_channel_members V h s = (r, s')"
  shows "same_files (\<lambda>p. \<exists>ch. p = channel_meta_path ch) s s'"
    and "r = Inr n \<Longrightarrow> length (st_commits s') = length (st_commits s) + n \<and> (\<forall>ch. no_slash ch \<longrightarrow> \<not> member_of R h (st_tree s') ch)"
proof -
  note V = depart_envD [OF env]
  note run' = run [unfolded phase3_clean_channel_members_def]
  show same: "same_files (\<lambda>p. \<exists>ch. p = channel_meta_path ch) s s'"
  proof (rule run_steps_rel [OF run'])
    fix x s1 r1 s2 assume f: "remove_member V s1 h x s1 = (r1, s2)"
    show "same_files (\<lambda>p. \<exists>ch. p = channel_meta_path ch) s1 s2"
    proof (cases "is_member V s1 h x")
      case False
      then show ?thesis using f same_files_refl by (simp add: remove_member_def)
    next
      case True
      from member_step [OF V(1) f True] obtain c where c: "map_of (st_tree s1) (channel_meta_path x) = Some c"
          "st_users s2 = st_users s1"
          "st_tree s2 = st_tree s1 \<or> (\<exists>z. st_tree s2 = AList.update (channel_meta_path x) z (st_tree s1))" by metis
      then show ?thesis
        using kept_meta [of "st_tree s1" x] map_fst_update [of "st_tree s1" "channel_meta_path x"]
        by (auto simp: same_files_def kept_refl update_conv')
    qed
  qed (use same_files_refl same_files_trans in blast)+
  assume n: "r = Inr n"
  note done3 = phase3.run_settles [OF run' [unfolded n] V(1)]
  have "\<not> member_of R h (st_tree s') ch" if ch: "no_slash ch" for ch
  proof (cases "map_of (st_tree s) (channel_meta_path ch) = None")
    case True
    then have "map_of (st_tree s') (channel_meta_path ch) = None"
      using same unfolding same_files_def by (metis list.set_map map_of_eq_None_iff)
    then show ?thesis by (simp add: member_of_def)
  next
    case False
    then show ?thesis using done3(1) channel_targets_cover [OF V(4,5) ch] member_iff [OF env] by metis
  qed
  then show "length (st_commits s') = length (st_commits s) + n \<and> (\<forall>ch. no_slash ch \<longrightarrow> \<not> member_of R h (st_tree s') ch)"
    using done3(3) by simp
qed
definition dms_moved :: "app_state \<Rightarrow> app_state \<Rightarrow> bool" where
  "dms_moved s s' \<longleftrightarrow> st_users s' = st_users s \<and> (distinct (map fst (st_tree s)) \<longrightarrow>
     distinct (map fst (st_tree s')) \<and> kept (st_tree s) (st_tree s') \<and> (threads_ended (st_tree s) \<longrightarrow> threads_ended (st_tree s'))
     \<and> (\<forall>p. \<not> below ''dm'' p \<and> \<not> below ''archive/dm'' p \<longrightarrow> map_of (st_tree s') p = map_of (st_tree s) p)
     \<and> (\<forall>p. below ''dm'' p \<longrightarrow> map_of (st_tree s') p = map_of (st_tree s) p \<or> map_of (st_tree s') p = None))"

lemma dms_moved_refl: "dms_moved s s"
  by (simp add: dms_moved_def kept_refl)

lemma dms_moved_trans: "dms_moved s1 s2 \<Longrightarrow> dms_moved s2 s3 \<Longrightarrow> dms_moved s1 s3"
proof -
  assume m: "dms_moved s1 s2" "dms_moved s2 s3"
  show ?thesis
    unfolding dms_moved_def
  proof (intro conjI impI)
    assume d: "distinct (map fst (st_tree s1))"
    note a = m(1) [unfolded dms_moved_def, THEN conjunct2, rule_format, OF d]
    then have "distinct (map fst (st_tree s2))" by blast
    note b = m(2) [unfolded dms_moved_def, THEN conjunct2, rule_format, OF this]
    show "distinct (map fst (st_tree s3))" using b by blast
    show "kept (st_tree s1) (st_tree s3)" using a b kept_trans by blast
    show "threads_ended (st_tree s1) \<Longrightarrow> threads_ended (st_tree s3)" using a b by blast
    show "\<forall>p. \<not> below ''dm'' p \<and> \<not> below ''archive/dm'' p \<longrightarrow> map_of (st_tree s3) p = map_of (st_tree s1) p" using a b by simp
    show "\<forall>p. below ''dm'' p \<longrightarrow> map_of (st_tree s3) p = map_of (st_tree s1) p \<or> map_of (st_tree s3) p = None" using a b by metis
  qed (use m in \<open>simp add: dms_moved_def\<close>)
qed

lemma dm_move_tree:
  assumes d: "distinct (map fst t)" and free: "\<not> tree_has t (archived_dm_path x)"
    and t': "t' = move_path (dm_thread_path x) (archived_dm_path x) t"
  shows "distinct (map fst t')" "kept t t'" "threads_ended t \<Longrightarrow> threads_ended t'"
    "\<not> below ''dm'' p \<Longrightarrow> \<not> below ''archive/dm'' p \<Longrightarrow> map_of t' p = map_of t p"
    "below ''dm'' p \<Longrightarrow> map_of t' p = map_of t p \<or> map_of t' p = None"
proof -
  note look = map_of_move_path [OF d free apart_none [OF dm_apart [of x x]], folded t']
  have dirs: "in_dir (dm_thread_path x) p \<Longrightarrow> below ''dm'' p" "in_dir (archived_dm_path x) p \<Longrightarrow> below ''archive/dm'' p" for p
    by (auto simp: in_dir_def below_iff dm_thread_path_def archived_dm_path_def)
  show "distinct (map fst t')" using distinct_move [OF d free] t' by simp
  show "kept t t'" using kept_archive [OF d, of "dm_thread_path x"] free t' by (simp add: archive_names dm_thread_path_def)
  show "\<not> below ''dm'' p \<Longrightarrow> \<not> below ''archive/dm'' p \<Longrightarrow> map_of t' p = map_of t p" using look [of p] dirs by auto
  have "\<not> in_dir (archived_dm_path x) p" if "below ''dm'' p" using that by (auto simp: in_dir_def below_iff archived_dm_path_def)
  then show "below ''dm'' p \<Longrightarrow> map_of t' p = map_of t p \<or> map_of t' p = None" using look [of p] by auto
  assume e: "threads_ended t"
  have "c = [] \<or> last c = newline" if q: "message_thread q" "map_of t' q = Some c" for q c
  proof (cases "in_dir (archived_dm_path x) q")
    case True
    then obtain z where z: "q = archived_dm_path x @ z" "moved_name (archived_dm_path x) (dm_thread_path x) q = dm_thread_path x @ z"
      using moved_below [of "archived_dm_path x" "dm_thread_path x"] by (fastforce simp: in_dir_def below_iff)
    define r where "r = x @ ''.thread'' @ z"
    have r: "q = ''archive/dm/'' @ r" "moved_name (archived_dm_path x) (dm_thread_path x) q = ''dm/'' @ r"
      using z by (simp_all add: r_def archived_dm_path_def dm_thread_path_def)
    have "thread_name r" using q(1) r(1) by (auto simp: message_thread_iff thread_dirs_def)
    then have "message_thread (''dm/'' @ r)" by (auto simp: message_thread_iff thread_dirs_def)
    then show ?thesis using e q(2) look [of q] True r(2) by (auto simp: threads_ended_def)
  next
    case False
    then show ?thesis using e q look [of q] by (auto simp: threads_ended_def split: if_splits)
  qed
  then show "threads_ended t'" by (auto simp: threads_ended_def)
qed

lemma phase2_run:
  assumes env: "depart_env E R V" and d: "distinct (map fst (st_tree s))" and run: "phase2_archive_dms V h s = (r, s')"
  shows "dms_moved s s'"
    and "r = Inr n \<Longrightarrow> length (st_commits s') = length (st_commits s) + n
      \<and> (\<forall>stem. no_slash stem \<and> dm_of h stem \<longrightarrow> dm_settled (st_tree s') stem)"
proof -
  note V = depart_envD [OF env]
  let ?xs = "dm_targets V h s"
  have cases: "s' = s \<and> (\<exists>e. r = Inl e) \<or> run_steps (\<lambda>stem s1. archive_dm_of V s1 h stem s1) ?xs 0 s = (r, s')"
    using run by (auto simp: phase2_archive_dms_def Let_def split: sum.splits if_splits)
  show moved: "dms_moved s s'"
    using cases
  proof
    assume run': "run_steps (\<lambda>stem s1. archive_dm_of V s1 h stem s1) ?xs 0 s = (r, s')"
    show ?thesis
    proof (rule run_steps_rel [OF run'])
      fix x s1 r1 s2 assume f: "archive_dm_of V s1 h x s1 = (r1, s2)"
      show "dms_moved s1 s2"
      proof (cases "dm_settled (st_tree s1) x")
        case True
        then show ?thesis using f archive_dm_skip dms_moved_refl by auto
      next
        case False
        then have "\<not> tree_has (st_tree s1) (archived_dm_path x)" by (simp add: dm_settled_def)
        note mv = dm_move_tree [OF _ this refl]
        have u: "st_users s2 = st_users s1" using dm_step(1) [OF V(6,7) f False] .
        from dm_step(2) [OF V(6,7) f False]
        consider "st_tree s2 = st_tree s1" | "st_tree s2 = move_path (dm_thread_path x) (archived_dm_path x) (st_tree s1)" by blast
        then show ?thesis
        proof cases
          case 1
          then show ?thesis using u by (simp add: dms_moved_def kept_refl)
        next
          case 2
          show ?thesis unfolding dms_moved_def 2 by (intro conjI impI allI) (use u in \<open>auto intro: mv dest: mv(5)\<close>)
        qed
      qed
    qed (use dms_moved_refl dms_moved_trans in blast)+
  qed (simp add: dms_moved_refl)
  assume n: "r = Inr n"
  then have run': "run_steps (\<lambda>stem s1. archive_dm_of V s1 h stem s1) ?xs 0 s = (Inr n, s')" using cases by auto
  have i: "phase2_inv V s" using V d by (simp add: phase2_inv_def)
  note done2 = phase2.run_settles [OF run' i]
  have "dm_settled (st_tree s') stem" if stem: "no_slash stem" "dm_of h stem" for stem
  proof (cases "tree_has (st_tree s) (dm_thread_path stem)")
    case True
    then show ?thesis using done2(1) dm_targets_cover [OF V(4,5) stem] by blast
  next
    case False
    then have "dm_settled (st_tree s) stem" by (simp add: dm_settled_def)
    then show ?thesis using phase2.run_keeps [OF run' i] by blast
  qed
  then show "length (st_commits s') = length (st_commits s) + n
      \<and> (\<forall>stem. no_slash stem \<and> dm_of h stem \<longrightarrow> dm_settled (st_tree s') stem)" using done2(3) by simp
qed

lemma phase4_run:
  assumes env: "depart_env E R V" and d: "distinct (map fst (st_tree s))"
    and free: "\<not> tree_has (st_tree s) (archived_user_path h)" "\<not> tree_has (st_tree s) (archived_board h)"
    and run: "phase4_archive_user V h s = (r, s')"
  shows "s' = s \<and> (\<exists>e. r = Inl e)
    \<or> st_tree s' = all_moved (moves_of (user_mv h) (board_mv h) (st_tree s)) (st_tree s) \<and> tree_has (st_tree s) (user_meta_path h)
      \<and> (\<forall>n. r = Inr n \<longrightarrow> h \<notin> set (st_users s') \<and> length (st_commits s') = length (st_commits s) + n)"
proof (cases "path_exists s (user_meta_path h) \<and> make_dir V ''phase4: failed to create archive/users dir'' ''archive/users'' = Inr ()")
  case False
  then have "s' = s \<and> (\<exists>e. r = Inl e)"
    using run free(1) by (auto simp: phase4_archive_user_def path_exists_tree split: sum.splits if_splits)
  then show ?thesis by blast
next
  case True
  note V = depart_envD [OF env]
  obtain r1 s1 where m: "move_user V ''phase4'' (user_mv h) (board_mv h) (''archive: depart user @'' @ h) h s = (r1, s1)" by force
  have eff: "s1 = s \<and> (\<exists>e. r1 = Inl e)
    \<or> st_tree s1 = all_moved (moves_of (user_mv h) (board_mv h) (st_tree s)) (st_tree s) \<and> tree_has (st_tree s) (user_meta_path h)
      \<and> st_users s1 = st_users s \<and> length (st_commits s1) = Suc (length (st_commits s))"
    using move_user_effect [OF V(6,3,7) user_moves_ok(1) _ _ m] free by (simp add: user_mv_def board_mv_def)
  have "(\<exists>e. r1 = Inl e \<and> r = Inl e) \<and> s' = s1
      \<or> r1 = Inr () \<and> r = Inr 1 \<and> s' = send_event (UserArchived h h (en_now V)) (drop_user h s1)"
    using run m True free(1)
    by (cases r1) (auto simp: phase4_archive_user_def path_exists_tree user_mv_def board_mv_def)
  then show ?thesis using eff by auto
qed
subsection \<open>Departing completes and can be retried\<close>

definition departed :: "ext \<Rightarrow> (string \<Rightarrow> channel_meta option) \<Rightarrow> string \<Rightarrow> tree \<Rightarrow> bool" where
  "departed E R h t \<longleftrightarrow> tree_has t (archived_user_path h) \<and> \<not> tree_has t (user_meta_path h)
     \<and> (\<forall>p. active_thread p \<longrightarrow> thread_settled E h t p)
     \<and> (\<forall>stem. no_slash stem \<and> dm_of h stem \<longrightarrow> dm_settled t stem)
     \<and> (\<forall>ch. no_slash ch \<longrightarrow> \<not> member_of R h t ch)"

text \<open>Where a departure may start: the threads end with a newline, and either nothing of the user is in the archive or
  an earlier departure has gone through.\<close>

definition depart_world :: "ext \<Rightarrow> (string \<Rightarrow> channel_meta option) \<Rightarrow> string \<Rightarrow> tree \<Rightarrow> bool" where
  "depart_world E R h t \<longleftrightarrow> distinct (map fst t) \<and> threads_ended t
     \<and> (if tree_has t (archived_user_path h) then departed E R h t else \<not> tree_has t (archived_board h))"

lemma thread_settled_less: "thread_settled E h t p \<Longrightarrow> map_of t' p = map_of t p \<or> map_of t' p = None \<Longrightarrow> thread_settled E h t' p"
  by (auto simp: thread_settled_def)

lemma tree_has_same: "(\<And>p. in_dir d p \<Longrightarrow> map_of t' p = map_of t p) \<Longrightarrow> tree_has t' d = tree_has t d"
  by (auto simp: tree_has_iff)

lemma not_meta: "message_thread p \<Longrightarrow> p \<noteq> channel_meta_path ch"
  using not_message_yaml [of "''channels/'' @ ch @ ''.meta''"] by (auto simp: channel_meta_path_def)

lemma user_places:
  "in_dir (archived_user_path h) p \<Longrightarrow> \<not> below ''dm'' p \<and> \<not> below ''archive/dm'' p"
  "in_dir (archived_board h) p \<Longrightarrow> \<not> below ''dm'' p \<and> \<not> below ''archive/dm'' p"
  by (auto simp: in_dir_def below_iff archived_user_path_def archived_board_def)

lemma user_dirs_out:
  assumes "message_thread p \<or> below ''dm'' p \<or> below ''archive/dm'' p \<or> p = channel_meta_path ch"
  shows "\<forall>d \<in> {user_meta_path h, archived_user_path h, user_board h, archived_board h}. \<not> in_dir d p"
proof -
  have "\<exists>d \<in> {''channels/'', ''dm/'', ''archive/channels/'', ''archive/dm/''}. \<exists>n. p = d @ n"
    using assms by (auto simp: message_thread_iff thread_dirs_def below_iff channel_meta_path_def)
  then show ?thesis
    by (auto simp: in_dir_def below_iff user_meta_path_def archived_user_path_def user_board_def archived_board_def)
qed

lemma user_moves_depart:
  assumes "distinct (map fst t)" "threads_ended t" "\<not> tree_has t (archived_user_path h)" "\<not> tree_has t (archived_board h)"
    "tree_has t (user_meta_path h)" and t': "t' = all_moved (moves_of (user_mv h) (board_mv h) t) t"
    and p1: "\<forall>p. active_thread p \<longrightarrow> thread_settled E h t p" and p2: "\<forall>stem. no_slash stem \<and> dm_of h stem \<longrightarrow> dm_settled t stem"
    and p3: "\<forall>ch. no_slash ch \<longrightarrow> \<not> member_of R h t ch"
  shows "departed E R h t'" "depart_world E R h t'"
proof -
  note look = archived_user_tree(3) [OF assms(1,3,4) t']
  have same: "map_of t' p = map_of t p" if "message_thread p \<or> below ''dm'' p \<or> below ''archive/dm'' p \<or> p = channel_meta_path ch" for p ch
    using look user_dirs_out [OF that] by blast
  have here: "tree_has t' (archived_user_path h)" using archived_user_here [OF assms(5,3)] t' by simp
  have gone: "\<not> tree_has t' (user_meta_path h)"
    using moves_of_back(2) [OF user_moves_ok(1), of t h] assms(3,4) t' by (simp add: user_mv_def board_mv_def)
  have dirs: "in_dir (dm_thread_path x) p \<Longrightarrow> below ''dm'' p" "in_dir (archived_dm_path x) p \<Longrightarrow> below ''archive/dm'' p" for x p
    by (auto simp: in_dir_def below_iff dm_thread_path_def archived_dm_path_def)
  have "dm_settled t' stem = dm_settled t stem" for stem
    using tree_has_same [of "dm_thread_path stem" t' t] tree_has_same [of "archived_dm_path stem" t' t] same dirs
    unfolding dm_settled_def by metis
  moreover have "member_of R h t' ch = member_of R h t ch" for ch
    using same [of "channel_meta_path ch" ch] by (simp add: member_of_def)
  moreover have "thread_settled E h t' p" if "active_thread p" for p
    using p1 that same active_message by (metis thread_settled_def)
  ultimately show dep: "departed E R h t'" using here gone p2 p3 by (simp add: departed_def)
  have "threads_ended t'" using assms(2) same unfolding threads_ended_def by metis
  moreover have "distinct (map fst t')" using distinct_all_moved [OF user_moves_free [OF assms(1,3,4)]] t' by simp
  ultimately show "depart_world E R h t'" using dep here by (simp add: depart_world_def)
qed

lemma depart_phases_run:
  assumes env: "depart_env E R V" and h: "handler_new h = Inr hh" and world: "depart_world E R h (st_tree s)"
    and new: "\<not> tree_has (st_tree s) (archived_user_path h)" and run: "depart_phases V h s = (r, s')"
  shows "depart_world E R h (st_tree s') \<and> kept (st_tree s) (st_tree s')
    \<and> (\<forall>n. r = Inr n \<longrightarrow> departed E R h (st_tree s') \<and> h \<notin> set (st_users s') \<and> length (st_commits s') = length (st_commits s) + n)"
proof -
  have w: "distinct (map fst (st_tree s))" "threads_ended (st_tree s)" "\<not> tree_has (st_tree s) (archived_board h)"
    using world new by (auto simp: depart_world_def)
  obtain r1 s1 where 1: "phase1_write_leave_events V h s = (r1, s1)" by force
  note p1 = phase1_run [OF env h w(2) 1]
  have w1: "distinct (map fst (st_tree s1))" "\<not> tree_has (st_tree s1) (archived_board h)" "\<not> tree_has (st_tree s1) (archived_user_path h)"
    using p1(1) same_files_has [OF p1(1)] w new by (simp_all add: same_files_def)
  have k1: "kept (st_tree s) (st_tree s1)" using p1(1) by (simp add: same_files_def)
  have W1: "depart_world E R h (st_tree s1)" using w1 p1(2) by (simp add: depart_world_def)
  obtain r2 s2 where 2: "phase2_archive_dms V h s1 = (r2, s2)" by force
  note p2 = phase2_run [OF env w1(1) 2]
  note m2 = p2(1) [unfolded dms_moved_def, THEN conjunct2, rule_format, OF w1(1)]
  have w2: "distinct (map fst (st_tree s2))" "threads_ended (st_tree s2)" "\<not> tree_has (st_tree s2) (archived_board h)"
      "\<not> tree_has (st_tree s2) (archived_user_path h)"
    using m2 p1(2) tree_has_same [of "archived_board h" "st_tree s2" "st_tree s1"]
      tree_has_same [of "archived_user_path h" "st_tree s2" "st_tree s1"] user_places w1 by blast+
  have k2: "kept (st_tree s) (st_tree s2)" using kept_trans [OF k1] m2 by blast
  have W2: "depart_world E R h (st_tree s2)" using w2 by (simp add: depart_world_def)
  obtain r3 s3 where 3: "phase3_clean_channel_members V h s2 = (r3, s3)" by force
  note p3 = phase3_run [OF env 3]
  have same3: "map_of (st_tree s3) p = map_of (st_tree s2) p" if "message_thread p" for p
    using p3(1) not_meta [OF that] by (auto simp: same_files_def)
  have "threads_ended (st_tree s3)" using w2(2) same3 unfolding threads_ended_def by metis
  then have w3: "distinct (map fst (st_tree s3))" "threads_ended (st_tree s3)" "\<not> tree_has (st_tree s3) (archived_board h)"
      "\<not> tree_has (st_tree s3) (archived_user_path h)"
    using p3(1) same_files_has [OF p3(1)] w2 by (simp_all add: same_files_def)
  have k3: "kept (st_tree s) (st_tree s3)" using kept_trans [OF k2] p3(1) by (simp add: same_files_def)
  have W3: "depart_world E R h (st_tree s3)" using w3 by (simp add: depart_world_def)
  obtain r4 s4 where 4: "phase4_archive_user V h s3 = (r4, s4)" by force
  note step = run [unfolded depart_phases_def 1 2 3 4 prod.case]
  show ?thesis
  proof (cases "(\<exists>e. r1 = Inl e) \<or> (\<exists>e. r2 = Inl e) \<or> (\<exists>e. r3 = Inl e)")
    case True
    then have "(s' = s1 \<or> s' = s2 \<or> s' = s3) \<and> (\<exists>e. r = Inl e)" using step by (auto split: sum.splits)
    then show ?thesis using W1 W2 W3 k1 k2 k3 by auto
  next
    case False
    then obtain n1 n2 n3 where n: "r1 = Inr n1" "r2 = Inr n2" "r3 = Inr n3" by (metis sumE)
    note c1 = p1(3) [OF n(1)] and c2 = p2(2) [OF n(2)] and c3 = p3(2) [OF n(3)]
    have settled2: "thread_settled E h (st_tree s2) p" if p: "active_thread p" for p
    proof -
      have "below ''dm'' p \<or> \<not> below ''dm'' p \<and> \<not> below ''archive/dm'' p" using p by (auto simp: active_thread_def below_iff)
      then have "map_of (st_tree s2) p = map_of (st_tree s1) p \<or> map_of (st_tree s2) p = None"
        using m2 [THEN conjunct2, THEN conjunct2, THEN conjunct2] by (elim disjE) simp_all
      then show ?thesis using thread_settled_less c1 p by blast
    qed
    have a1: "\<forall>p. active_thread p \<longrightarrow> thread_settled E h (st_tree s3) p"
      using settled2 same3 active_message thread_settled_less by metis
    have a2: "\<forall>stem. no_slash stem \<and> dm_of h stem \<longrightarrow> dm_settled (st_tree s3) stem"
      using c2 same_files_has [OF p3(1)] by (simp add: dm_settled_def)
    have s4: "s' = s4" "\<forall>n. r = Inr n \<longrightarrow> (\<exists>n4. r4 = Inr n4 \<and> n = n1 + n2 + n3 + n4)" using step n by (auto split: sum.splits)
    from phase4_run [OF env w3(1,4,3) 4] show ?thesis
    proof (elim disjE conjE exE)
      assume t4: "st_tree s4 = all_moved (moves_of (user_mv h) (board_mv h) (st_tree s3)) (st_tree s3)"
        and src: "tree_has (st_tree s3) (user_meta_path h)"
        and fin: "\<forall>n. r4 = Inr n \<longrightarrow> h \<notin> set (st_users s4) \<and> length (st_commits s4) = length (st_commits s3) + n"
      note dep = user_moves_depart [OF w3(1,2,4,3) src t4 a1 a2] c3
      have "kept (st_tree s) (st_tree s4)" using kept_trans [OF k3 kept_user_moves [OF w3(1,4,3)]] t4 by simp
      then show ?thesis using dep s4 fin c1 c2 c3 by auto
    qed (use W3 k3 s4 in auto)
  qed
qed

lemma depart_run:
  assumes env: "depart_env E R V" and world: "depart_world E R h (st_tree s)" and run: "handle_depart_user V h s = (r, s')"
  shows "depart_world E R h (st_tree s') \<and> kept (st_tree s) (st_tree s')"
    and "r = Inr d \<Longrightarrow> departed E R h (st_tree s') \<and> length (st_commits s') = length (st_commits s) + du_commits d
      \<and> (\<not> du_already_departed d \<longrightarrow> h \<notin> set (st_users s'))"
    and "tree_has (st_tree s) (archived_user_path h) \<Longrightarrow>
      s' = s \<and> (r = Inr d \<longrightarrow> d = \<lparr>du_handler = h, du_commits = 0, du_already_departed = True\<rparr>)"
proof -
  note V = depart_envD [OF env]
  have "depart_world E R h (st_tree s') \<and> kept (st_tree s) (st_tree s')
    \<and> (r = Inr d \<longrightarrow> departed E R h (st_tree s') \<and> length (st_commits s') = length (st_commits s) + du_commits d
        \<and> (\<not> du_already_departed d \<longrightarrow> h \<notin> set (st_users s')))
    \<and> (tree_has (st_tree s) (archived_user_path h) \<longrightarrow>
        s' = s \<and> (r = Inr d \<longrightarrow> d = \<lparr>du_handler = h, du_commits = 0, du_already_departed = True\<rparr>))"
  proof (cases "handler_new h")
    case (Inl e)
    then show ?thesis using run world by (auto simp: handle_depart_user_def kept_refl)
  next
    case (Inr hh)
    show ?thesis
    proof (cases "tree_has (st_tree s) (archived_user_path h)")
      case True
      obtain r1 s1 where p: "push_with_retry V ''depart_user(terminal-resync)'' s = (r1, s1)" by force
      have "s1 = s" using push_frame [OF V(7) p] .
      moreover have "departed E R h (st_tree s)" using world True by (simp add: depart_world_def)
      ultimately show ?thesis
        using run world Inr True p
        by (cases r1) (auto simp: handle_depart_user_def is_already_departed_def path_exists_tree kept_refl)
    next
      case False
      obtain r1 s1 where p: "depart_phases V h s = (r1, s1)" by force
      note ph = depart_phases_run [OF env Inr world False p]
      show ?thesis
      proof (cases "path_exists s (user_meta_path h)")
        case gone: False
        then show ?thesis
          using run world Inr False by (auto simp: handle_depart_user_def is_already_departed_def path_exists_tree kept_refl)
      next
        case True
        then show ?thesis
          using run Inr False p ph by (cases r1) (auto simp: handle_depart_user_def is_already_departed_def path_exists_tree)
      qed
    qed
  qed
  then show "depart_world E R h (st_tree s') \<and> kept (st_tree s) (st_tree s')"
    and "r = Inr d \<Longrightarrow> departed E R h (st_tree s') \<and> length (st_commits s') = length (st_commits s) + du_commits d
      \<and> (\<not> du_already_departed d \<longrightarrow> h \<notin> set (st_users s'))"
    and "tree_has (st_tree s) (archived_user_path h) \<Longrightarrow>
      s' = s \<and> (r = Inr d \<longrightarrow> d = \<lparr>du_handler = h, du_commits = 0, du_already_departed = True\<rparr>)"
    by blast+
qed

text \<open>Attempts of the same departure, each with its own failures.\<close>

inductive depart_attempt :: "ext \<Rightarrow> (string \<Rightarrow> channel_meta option) \<Rightarrow> string \<Rightarrow> app_state \<Rightarrow> app_state \<Rightarrow> bool" for E R h where
  attempt: "depart_env E R V \<Longrightarrow> handle_depart_user V h s = (r, s') \<Longrightarrow> depart_attempt E R h s s'"

inductive_cases depart_attemptE: "depart_attempt E R h s s'"

interpretation departing: step_invariant "depart_attempt E R h" "\<lambda>s. depart_world E R h (st_tree s)" for E R h
  by unfold_locales (use depart_run(1) in \<open>blast elim: depart_attemptE\<close>)

lemma attempts_kept:
  "(depart_attempt E R h)\<^sup>*\<^sup>* s s' \<Longrightarrow> depart_world E R h (st_tree s) \<Longrightarrow> kept (st_tree s) (st_tree s')"
proof (induction rule: rtranclp_induct)
  case (step y z)
  then have "depart_world E R h (st_tree y)" using departing.steps_keep by blast
  then have "kept (st_tree y) (st_tree z)" using step.hyps(2) depart_run(1) by (blast elim: depart_attemptE)
  then show ?case using step kept_trans by blast
qed (simp add: kept_refl)

text \<open>C15: A departure that is answered with success is complete, whatever failed before.  After any number of attempts,
  broken off at any step, an attempt that succeeds leaves the user archived and off the list of users, a
  leave mark at the end of every active thread the user spoke in, no channel with the user as a member, and no
  active direct message of the user unless its place in the archive was already taken.  Nothing was lost on
  the way: every file but the channel metadata is where it was or in the archive, with its content or, for
  a thread, with lines added behind it.  The answer counts the commits made; the user can author nothing any more, and a
  further request does nothing.\<close>

theorem depart_complete:
  assumes "depart_world E R h (st_tree s)" "(depart_attempt E R h)\<^sup>*\<^sup>* s s1"
    and "depart_env E R V" "handle_depart_user V h s1 = (Inr d, s')"
  shows "departed E R h (st_tree s') \<and> kept (st_tree s) (st_tree s')
    \<and> length (st_commits s') = length (st_commits s1) + du_commits d
    \<and> (\<not> du_already_departed d \<longrightarrow> h \<notin> set (st_users s'))
    \<and> ensure_author_not_departed s' h = Inl (ErrDeparted h)
    \<and> (\<forall>W d' s''. depart_env E R W \<and> handle_depart_user W h s' = (Inr d', s'') \<longrightarrow>
          s'' = s' \<and> d' = \<lparr>du_handler = h, du_commits = 0, du_already_departed = True\<rparr>)"
proof -
  have w1: "depart_world E R h (st_tree s1)" using departing.steps_keep [OF assms(2,1)] .
  note final = depart_run [OF assms(3) w1 assms(4)]
  have dep: "departed E R h (st_tree s')" using final(2) by blast
  then have here: "tree_has (st_tree s') (archived_user_path h)" by (simp add: departed_def)
  have "s'' = s' \<and> d' = \<lparr>du_handler = h, du_commits = 0, du_already_departed = True\<rparr>"
    if "depart_env E R W" "handle_depart_user W h s' = (Inr d', s'')" for W d' s''
    using depart_run(3) [OF that(1) _ that(2) here] final(1) by blast
  moreover have "ensure_author_not_departed s' h = Inl (ErrDeparted h)"
    using here by (simp add: ensure_author_not_departed_def path_exists_tree fail_if_def)
  moreover have "kept (st_tree s) (st_tree s')" using kept_trans [OF attempts_kept [OF assms(2,1)]] final(1) by blast
  ultimately show ?thesis using dep final(2) by blast
qed

text \<open>An instance: a user who is a member of a channel and has a direct message.\<close>

definition leaving_state :: app_state where
  "leaving_state = base_state\<lparr>st_tree :=
     [(''users/bob.meta.yaml'', ''m''), (''channels/general.meta.yaml'', ''General,alice,now,hi,alice,bob''),
      (''channels/general.thread'', []), (''dm/alice--bob.thread'', [])]\<rparr>"

lemma bob_departs:
  "fst (handle_depart_user sample_env ''bob'' leaving_state)
     = Inr \<lparr>du_handler = ''bob'', du_commits = 3, du_already_departed = False\<rparr>"
  by code_simp

lemma sample_depart_env: "depart_env list_ext meta_read sample_env"
  using sample_env_ok list_ext_json_ok undo_ok_base [of sample_env]
  by (simp add: depart_env_def order_ok_def sample_env_def base_env_def)

lemma leaving_state_ok:
  "distinct (map fst (st_tree leaving_state))" "threads_ended (st_tree leaving_state)"
  "\<not> tree_has (st_tree leaving_state) (archived_user_path ''bob'')" "\<not> tree_has (st_tree leaving_state) (archived_board ''bob'')"
proof -
  show "threads_ended (st_tree leaving_state)"
    using not_message_yaml [of "''users/bob.meta''"] not_message_yaml [of "''channels/general.meta''"]
    by (auto simp: threads_ended_def leaving_state_def split: if_splits)
qed code_simp+

theorem depart_complete_witness:
  "\<exists>s'. handle_depart_user sample_env ''bob'' leaving_state
      = (Inr \<lparr>du_handler = ''bob'', du_commits = 3, du_already_departed = False\<rparr>, s')
    \<and> departed list_ext meta_read ''bob'' (st_tree s') \<and> ''bob'' \<notin> set (st_users s') \<and> length (st_commits s') = 3"
proof -
  let ?d = "\<lparr>du_handler = ''bob'', du_commits = 3, du_already_departed = False\<rparr>"
  obtain s' where s': "handle_depart_user sample_env ''bob'' leaving_state = (Inr ?d, s')"
    using bob_departs by (metis prod.collapse)
  have world: "depart_world list_ext meta_read ''bob'' (st_tree leaving_state)"
    using leaving_state_ok by (simp add: depart_world_def)
  have "length (st_commits leaving_state) = 0" by (simp add: leaving_state_def base_state_def)
  then show ?thesis using depart_complete [OF world rtranclp.rtrancl_refl sample_depart_env s'] s' by auto
qed

subsection \<open>Leaving a channel of one\<close>

lemma check_new_not_member: "check_new_entry us known e \<noteq> Inl (CNotMember x)"
proof (cases e)
  case (EMessage msg)
  have "try_each (\<lambda>mention. if as_str mention \<notin> set us then Inl (CUnknownMention (as_str mention) n) else Inr ()) ms
      \<noteq> Inl (CNotMember x)" for ms n by (induction ms) auto
  then show ?thesis using EMessage by simp
qed simp

text \<open>C39: The third phase does not look at what it leaves.  When the departing user is the only member of a channel, the
  member list becomes empty, and an empty list does not restrict who may post: a message of any registered user,
  refused for membership before the departure, passes the check afterwards.\<close>

theorem departure_opens_channel:
  assumes "depart_env E R V" "remove_member V s h ch s = (Inr True, s')" "read_channel_meta V s ch = Inr m"
    and "set (cm_members m) = {h}" "strip_prefix ''dm:'' ch = None" "x \<noteq> h" "x \<in> set us"
  shows "allowed_senders V s us ch = Inr (cm_members m) \<and> allowed_senders V s' us ch = Inr []
    \<and> (\<forall>e. as_str (entry_author e) = x \<longrightarrow>
          validate_append_loop us (cm_members m) known (entry_line_number e) [e] = Inl (CNotMember x)
          \<and> validate_append_loop us [] known (entry_line_number e) [e] \<noteq> Inl (CNotMember x))"
proof -
  note V = depart_envD [OF assms(1)]
  have mem: "is_member V s h ch"
  proof (rule ccontr)
    assume "\<not> is_member V s h ch"
    then show False using assms(2) by (simp add: remove_member_def)
  qed
  from member_step [OF V(1) assms(2) mem] obtain c m' z where c: "map_of (st_tree s) (channel_meta_path ch) = Some c" "R c = Some m'"
      "en_channel_write V (m'\<lparr>cm_members := filter (\<lambda>x. x \<noteq> h) (cm_members m')\<rparr>) = Some z"
      "st_tree s' = AList.update (channel_meta_path ch) z (st_tree s)" by (metis sum.distinct(1))
  have m: "m' = m" using assms(3) c(1,2) V(5,9) by (simp add: read_channel_meta_def read_file_ok ok_or_def)
  have "filter (\<lambda>x. x \<noteq> h) (cm_members m) = []" using assms(4) by (auto simp: filter_empty_conv)
  then have z: "R z = Some (m\<lparr>cm_members := []\<rparr>)" using c(3) m V(1) by (auto simp: env_ok_def)
  have "active_channel_meta V s ch = Inr m"
    using assms(3) c(1) tree_has_file [of "st_tree s"] by (simp add: active_channel_meta_def path_exists_tree)
  moreover have "read_channel_meta V s' ch = Inr (m\<lparr>cm_members := []\<rparr>)"
    using z c(4) V(5,9) by (simp add: read_channel_meta_def read_file_ok update_conv' ok_or_def)
  then have "active_channel_meta V s' ch = Inr (m\<lparr>cm_members := []\<rparr>)"
    using c(4) tree_has_file [of "st_tree s'"] by (simp add: active_channel_meta_def path_exists_tree update_conv')
  ultimately have "allowed_senders V s us ch = Inr (cm_members m)" "allowed_senders V s' us ch = Inr []"
    using assms(5) by (simp_all add: allowed_senders_def)
  moreover have x: "x \<notin> set (cm_members m)" "cm_members m \<noteq> []"
    using assms(4,6) by (simp, metis insert_not_empty set_empty)
  have "validate_append_loop us (cm_members m) known (entry_line_number e) [e] = Inl (CNotMember x)"
    "validate_append_loop us [] known (entry_line_number e) [e] = andThen (check_new_entry us known e) (\<lambda>_. Inr ())"
    if "as_str (entry_author e) = x" for e using that assms(7) x by (simp_all add: Let_def)
  ultimately show ?thesis using check_new_not_member by (simp add: andThen_Inl)
qed

definition solo_state :: app_state where
  "solo_state = base_state\<lparr>st_tree := [(''channels/solo.meta.yaml'', ''Solo,bob,now,hi,bob'')]\<rparr>"

lemma solo_leaves: "fst (remove_member sample_env solo_state ''bob'' ''solo'' solo_state) = Inr True"
  by code_simp

lemma solo_meta:
  "(case read_channel_meta sample_env solo_state ''solo'' of Inr m \<Rightarrow> cm_members m = [''bob''] | Inl _ \<Rightarrow> False)"
  "strip_prefix ''dm:'' ''solo'' = None"
  by code_simp+

theorem departure_opens_channel_witness:
  "\<exists>s'. remove_member sample_env solo_state ''bob'' ''solo'' solo_state = (Inr True, s')
    \<and> allowed_senders sample_env solo_state [''alice'', ''bob''] ''solo'' = Inr [''bob'']
    \<and> allowed_senders sample_env s' [''alice'', ''bob''] ''solo'' = Inr []"
proof -
  obtain s' where s': "remove_member sample_env solo_state ''bob'' ''solo'' solo_state = (Inr True, s')"
    using solo_leaves by (metis prod.collapse)
  obtain m where m: "read_channel_meta sample_env solo_state ''solo'' = Inr m" "cm_members m = [''bob'']"
    using solo_meta(1) by (auto split: sum.splits)
  have "''alice'' \<noteq> ''bob''" "''alice'' \<in> set [''alice'', ''bob'']" "set (cm_members m) = {''bob''}" using m(2) by simp_all
  from departure_opens_channel [OF sample_depart_env s' m(1) this(3) solo_meta(2) this(1,2), of "{}"] show ?thesis
    using s' m(2) by auto
qed

end
