(* ===== verification/Daemon_Projects.thy ===== *)
theory Daemon_Projects
  imports Daemon_Depart
begin

text \<open>
  Projects group channels (\<^verbatim>\<open>handlers/project.rs\<close>).  Creating a project and assigning a channel read and check
  before they take the commit lock (\<open>s0\<close>) and write under it (\<open>s\<close>) what they prepared from the earlier state.
  Each served as a whole, they never leave a channel with a project that is not there; with another request in
  between, they write over what it did.
\<close>

definition project_path :: "string \<Rightarrow> string" where
  "project_path slug = ''projects/'' @ slug @ ''.meta.yaml''"

definition create_project_checks ::
  "env \<Rightarrow> app_state \<Rightarrow> string \<Rightarrow> string \<Rightarrow> string \<Rightarrow> string \<Rightarrow> daemon_error + string" where
  "create_project_checks V s slug display_name introduction author =
     andThen (map_err ErrInvalidAuthor (handler_new author)) (\<lambda>_.
     andThen (ensure_author_not_departed s author) (\<lambda>_.
     andThen (fail_if (author \<notin> set (st_users s)) (ErrUnknownUser author)) (\<lambda>_.
     andThen (map_err ErrInvalidProject (project_slug_new slug)) (\<lambda>_.
     andThen (fail_if (path_exists s (project_path slug)) (ErrProjectExists slug)) (\<lambda>_.
     andThen (make_dir V ''failed to create projects dir'' ''projects'') (\<lambda>_.
     andThen (ok_or (ErrYaml ''project meta'')
                (en_project_write V \<lparr>pm_display_name = display_name, pm_created_by = author, pm_created_at = en_now V,
                                     pm_introduction = introduction\<rparr>)) (\<lambda>yaml.
     andThen (map_err ErrValidation (validate_project_meta (en_project_read V) yaml)) (\<lambda>_. Inr yaml))))))))"

definition handle_create_project ::
  "env \<Rightarrow> app_state \<Rightarrow> string \<Rightarrow> string \<Rightarrow> string \<Rightarrow> string \<Rightarrow> app_state \<Rightarrow> string outcome" where
  "handle_create_project V s0 slug display_name introduction author s =
     (case create_project_checks V s0 slug display_name introduction author of
        Inl e \<Rightarrow> (Inl e, s)
      | Inr yaml \<Rightarrow>
     (case write_file V ''write project meta'' (project_path slug) yaml s of
        (Inl e, s1) \<Rightarrow> (Inl e, s1)
      | (Inr _, s1) \<Rightarrow>
     (case add_and_commit_as V [project_path slug] (''project: create '' @ slug @ '' by @'' @ author) author s1 of
        (Inl e, s2) \<Rightarrow> (Inl (ErrGit ''commit create_project'' e), discard_file V (project_path slug) s2)
      | (Inr _, s2) \<Rightarrow>
     (case push_with_retry V ''create_project'' s2 of
        (Inl e, s3) \<Rightarrow> (Inl e, s3)
      | (Inr _, s3) \<Rightarrow> (Inr slug, send_event (ProjectCreated slug) s3)))))"

record project_entry =
  pe_slug :: string
  pe_meta :: project_meta
  pe_channel_count :: nat

definition project_slugs :: "env \<Rightarrow> app_state \<Rightarrow> string list" where
  "project_slugs V s =
     sort (filter (\<lambda>slug. is_ok (project_slug_new slug))
       (List.map_filter (strip_suffix ''.meta.yaml'') (read_dir V s ''projects'')))"

definition channel_project :: "env \<Rightarrow> app_state \<Rightarrow> string \<Rightarrow> string option" where
  "channel_project V s cn =
     (if \<not> ends_with ''.meta.yaml'' cn then None
      else case read_file V s (''channels/'' @ cn) of
        Inl _ \<Rightarrow> None
      | Inr yaml \<Rightarrow> (case en_channel_read V yaml of None \<Rightarrow> None | Some cm \<Rightarrow> cm_project cm))"

text \<open>The counters of the source's hash map, zero where there is none.\<close>

definition slug_counts :: "env \<Rightarrow> app_state \<Rightarrow> string \<Rightarrow> nat" where
  "slug_counts V s =
     fold (\<lambda>cn counts. case channel_project V s cn of None \<Rightarrow> counts | Some p \<Rightarrow> counts(p := counts p + 1))
       (if path_exists s ''channels'' \<and> en_io V (IoRead ''channels'') = None then read_dir V s ''channels'' else []) (\<lambda>_. 0)"

definition project_entry_of :: "env \<Rightarrow> app_state \<Rightarrow> string \<Rightarrow> project_entry option" where
  "project_entry_of V s slug =
     (case read_file V s (project_path slug) of
        Inl _ \<Rightarrow> None
      | Inr yaml \<Rightarrow>
          map_option (\<lambda>meta. \<lparr>pe_slug = slug, pe_meta = meta, pe_channel_count = slug_counts V s slug\<rparr>) (en_project_read V yaml))"

definition handle_list_projects :: "env \<Rightarrow> app_state \<Rightarrow> daemon_error + project_entry list" where
  "handle_list_projects V s =
     (if \<not> path_exists s ''projects'' then Inr []
      else case en_io V (IoRead ''projects'') of
        Some e \<Rightarrow> Inl (ErrIo ''failed to read projects dir'' e)
      | None \<Rightarrow> Inr (List.map_filter (project_entry_of V s) (project_slugs V s)))"

definition check_project :: "env \<Rightarrow> app_state \<Rightarrow> string \<Rightarrow> daemon_error + unit" where
  "check_project V s p_slug =
     andThen (map_err ErrInvalidProject (project_slug_new p_slug)) (\<lambda>_.
     andThen (fail_if (\<not> path_exists s (project_path p_slug)) (ErrNoProject p_slug)) (\<lambda>_.
     andThen (map_err (\<lambda>e. ErrIo ''read project meta'' (io_text e)) (read_file V s (project_path p_slug))) (\<lambda>p_yaml.
       discard (map_err (\<lambda>_. ErrProjectCorrupt p_slug) (validate_project_meta (en_project_read V) p_yaml)))))"

text \<open>The checks of an assignment give the text read from the channel, its metadata, and the new text.\<close>

definition set_project_checks ::
  "env \<Rightarrow> app_state \<Rightarrow> string \<Rightarrow> string option \<Rightarrow> string \<Rightarrow> daemon_error + string \<times> channel_meta \<times> string" where
  "set_project_checks V s channel project author =
     andThen (map_err ErrInvalidAuthor (handler_new author)) (\<lambda>_.
     andThen (ensure_author_not_departed s author) (\<lambda>_.
     andThen (fail_if (author \<notin> set (st_users s)) (ErrUnknownUser author)) (\<lambda>_.
     andThen (map_err ErrInvalidChannel (channel_name_new channel)) (\<lambda>_.
     andThen (case project of None \<Rightarrow> Inr () | Some p_slug \<Rightarrow> check_project V s p_slug) (\<lambda>_.
     andThen (fail_if (\<not> path_exists s (channel_meta_path channel))
               (if path_exists s (archived_channel_meta_path channel) then ErrChannelArchived channel
                else ErrNoChannel channel)) (\<lambda>_.
     andThen (map_err (\<lambda>e. ErrIo ''read channel meta'' (io_text e)) (read_file V s (channel_meta_path channel))) (\<lambda>yaml.
     andThen (ok_or (ErrParseMeta ''channel meta'') (en_channel_read V yaml)) (\<lambda>meta.
     andThen (ok_or (ErrYaml ''channel meta'') (en_channel_write V (meta\<lparr>cm_project := project\<rparr>))) (\<lambda>new_yaml.
       Inr (yaml, meta, new_yaml))))))))))"

fun project_subject :: "string \<Rightarrow> string option \<Rightarrow> string option \<Rightarrow> string" where
  "project_subject ch None (Some p) = ''channel: assign #'' @ ch @ '' to project '' @ [CHR 0x27] @ p @ [CHR 0x27]"
| "project_subject ch (Some p) None = ''channel: remove #'' @ ch @ '' from project '' @ [CHR 0x27] @ p @ [CHR 0x27]"
| "project_subject ch (Some p) (Some q) =
     ''channel: move #'' @ ch @ '' from project '' @ [CHR 0x27] @ p @ [CHR 0x27] @ '' to '' @ [CHR 0x27] @ q @ [CHR 0x27]"
| "project_subject ch None None = ''channel: #'' @ ch @ '' project unchanged''"

definition handle_set_channel_project ::
  "env \<Rightarrow> app_state \<Rightarrow> string \<Rightarrow> string option \<Rightarrow> string \<Rightarrow> app_state \<Rightarrow> (string \<times> string option) outcome" where
  "handle_set_channel_project V s0 channel project author s =
     (case set_project_checks V s0 channel project author of
        Inl e \<Rightarrow> (Inl e, s)
      | Inr (yaml, meta, new_yaml) \<Rightarrow>
     (case write_file V ''write channel meta'' (channel_meta_path channel) new_yaml s of
        (Inl e, s1) \<Rightarrow> (Inl e, s1)
      | (Inr _, s1) \<Rightarrow>
     (case add_and_commit_as V [channel_meta_path channel]
             (project_subject channel (cm_project meta) project @ '' by @'' @ author) author s1 of
        (Inl e, s2) \<Rightarrow> (Inl (ErrGit ''commit set_channel_project'' e), restore_file V (channel_meta_path channel) yaml s2)
      | (Inr _, s2) \<Rightarrow>
     (case push_with_retry V ''set_channel_project'' s2 of
        (Inl e, s3) \<Rightarrow> (Inl e, s3)
      | (Inr _, s3) \<Rightarrow> (Inr (channel, project), send_event (ChannelProjectChanged channel project) s3)))))"

subsection \<open>What a project keeps\<close>

text \<open>A channel refers to a project; the reference is good when the slug is one and the project's file can be read.\<close>

definition assigned :: "(string \<Rightarrow> channel_meta option) \<Rightarrow> tree \<Rightarrow> string \<Rightarrow> string \<Rightarrow> bool" where
  "assigned CR t n p \<longleftrightarrow>
     (case map_of t (channel_meta_path n) of
        None \<Rightarrow> False | Some c \<Rightarrow> (case CR c of None \<Rightarrow> False | Some m \<Rightarrow> cm_project m = Some p))"

definition project_there :: "(string \<Rightarrow> project_meta option) \<Rightarrow> tree \<Rightarrow> string \<Rightarrow> bool" where
  "project_there PR t p \<longleftrightarrow>
     is_ok (project_slug_new p)
     \<and> (case map_of t (project_path p) of None \<Rightarrow> False | Some c \<Rightarrow> is_ok (validate_project_meta PR c))"

definition project_refs :: "(string \<Rightarrow> channel_meta option) \<Rightarrow> (string \<Rightarrow> project_meta option) \<Rightarrow> tree \<Rightarrow> bool" where
  "project_refs CR PR t \<longleftrightarrow> (\<forall>n p. assigned CR t n p \<longrightarrow> project_there PR t p)"

lemma assigned_iff:
  "assigned CR t n p \<longleftrightarrow> (\<exists>c m. map_of t (channel_meta_path n) = Some c \<and> CR c = Some m \<and> cm_project m = Some p)"
  by (auto simp: assigned_def split: option.splits)

lemma project_path_apart [simp]:
  "project_path p \<noteq> channel_meta_path n" "channel_meta_path n \<noteq> project_path p" "project_path p = project_path q \<longleftrightarrow> p = q"
  "\<not> message_thread (project_path p)"
  using not_message_yaml [of "''projects/'' @ p @ ''.meta''"] by (auto simp: project_path_def channel_meta_path_def)

lemma refs_cong: "map_of t' = map_of t \<Longrightarrow> project_refs CR PR t' = project_refs CR PR t"
  by (simp add: project_refs_def assigned_def project_there_def)

lemma refs_message:
  assumes "project_refs CR PR t" "message_thread q"
  shows "project_refs CR PR (AList.update q c t)"
proof -
  have "channel_meta_path n \<noteq> q" "project_path p \<noteq> q" for n p using assms(2) by auto
  then show ?thesis using assms(1) by (simp add: project_refs_def assigned_def project_there_def update_conv')
qed

lemma refs_meta:
  assumes "project_refs CR PR t" "CR c = Some m" "\<And>p. cm_project m = Some p \<Longrightarrow> project_there PR t p"
  shows "project_refs CR PR (AList.update (channel_meta_path n) c t)"
  using assms by (auto simp: project_refs_def assigned_iff project_there_def update_conv')

lemma refs_project:
  assumes "project_refs CR PR t" "is_ok (validate_project_meta PR c)"
  shows "project_refs CR PR (AList.update (project_path p) c t)"
  using assms by (auto simp: project_refs_def assigned_def project_there_def update_conv')

lemma map_of_move_other:
  assumes "distinct (map fst t)" "\<not> tree_has t b" "\<not> in_dir a q" "\<not> in_dir b q"
  shows "map_of (move_path a b t) q = map_of t q"
proof (cases "map_of t q")
  case (Some c)
  then have "(moved_name a b q, c) \<in> set (move_path a b t)" by (force simp: move_path_def dest: map_of_SomeD)
  then show ?thesis using Some moved_out [OF assms(3)] distinct_move [OF assms(1,2)] by (metis map_of_is_SomeI)
next
  case None
  have "map_of (move_path a b t) q \<noteq> Some c" for c
  proof
    assume "map_of (move_path a b t) q = Some c"
    then obtain p where p: "map_of t p = Some c" "q = moved_name a b p" using map_of_move [OF assms(1,2)] by blast
    have "\<not> in_dir a p" using moved_in [of a p b] p(2) assms(4) by blast
    then show False using p None moved_out by auto
  qed
  then show ?thesis using None by auto
qed

lemma refs_move:
  assumes "project_refs CR PR t" "distinct (map fst t)" "\<not> tree_has t b"
    "\<And>n. \<not> in_dir a (channel_meta_path n) \<and> \<not> in_dir b (channel_meta_path n)"
    "\<And>p. \<not> in_dir a (project_path p) \<and> \<not> in_dir b (project_path p)"
  shows "project_refs CR PR (move_path a b t)"
  using assms(1) map_of_move_other [OF assms(2,3)] assms(4,5) by (simp add: project_refs_def assigned_def project_there_def)

subsection \<open>Requests\<close>

text \<open>Sends, joins, leaves, new channels and moved direct messages, in every interleaving of their checks, together with
  the two requests about projects, each served as a whole.\<close>

definition project_env ::
  "ext \<Rightarrow> (string \<Rightarrow> channel_meta option) \<Rightarrow> (string \<Rightarrow> project_meta option) \<Rightarrow> env \<Rightarrow> bool" where
  "project_env E CR PR V \<longleftrightarrow> env_ok E CR V \<and> en_project_read V = PR"

inductive project_step ::
  "ext \<Rightarrow> (string \<Rightarrow> channel_meta option) \<Rightarrow> (string \<Rightarrow> project_meta option) \<Rightarrow> string list \<Rightarrow> app_state \<Rightarrow> app_state \<Rightarrow> bool"
  for E CR PR U where
  StepOther: "daemon_step E CR U s s' \<Longrightarrow> project_step E CR PR U s s'"
| StepCreateProject: "project_env E CR PR V \<Longrightarrow> handle_create_project V s slug dn intro author s = (r, s') \<Longrightarrow>
     project_step E CR PR U s s'"
| StepSetProject: "project_env E CR PR V \<Longrightarrow> handle_set_channel_project V s channel project author s = (r', s') \<Longrightarrow>
     project_step E CR PR U s s'"

definition project_inv ::
  "ext \<Rightarrow> (string \<Rightarrow> channel_meta option) \<Rightarrow> (string \<Rightarrow> project_meta option) \<Rightarrow> string list \<Rightarrow> tree \<Rightarrow> bool" where
  "project_inv E CR PR U t \<longleftrightarrow> tree_inv E CR U t \<and> project_refs CR PR t"

lemma project_inv_cong:
  assumes "project_inv E CR PR U t" "map_of t' = map_of t" "distinct (map fst t')"
  shows "project_inv E CR PR U t'"
  using assms(1,3) refs_cong [OF assms(2), of CR PR]
  unfolding project_inv_def tree_inv_def threads_ok_def channels_ok_def assms(2) by blast

lemma project_inv_distinct: "project_inv E CR PR U t \<Longrightarrow> distinct (map fst t)"
  by (simp add: project_inv_def tree_inv_def threads_ok_def)

lemma refs_send:
  assumes "handle_send V s0 channel body reply_to author s = (r, s')" "project_refs CR PR (st_tree s)"
  shows "project_refs CR PR (st_tree s')"
  using handle_send_tree [OF assms(1)]
proof (elim disjE exE conjE)
  fix p name line new
  assume ch: "send_checks V s0 s channel body reply_to author = Inr (p, name, line, new)"
    and t: "st_tree s' = AList.update p ((case map_of (st_tree s) p of Some c \<Rightarrow> c | None \<Rightarrow> []) @ new) (st_tree s)"
  have "message_thread p" using resolve_thread_message [OF send_checks_Inr(1) [OF ch]] .
  then show ?thesis using refs_message [OF assms(2)] t by simp
qed (use assms(2) in simp)

lemma update_members_project [simp]: "cm_project (update_members ty a m) = cm_project m"
  by (cases ty) (simp_all add: update_members_def)

lemma refs_event:
  assumes "write_channel_event V s0 channel targets author ty s = (r, s')" "env_ok E CR V" "project_refs CR PR (st_tree s)"
  shows "project_refs CR PR (st_tree s')"
  using write_channel_event_tree [OF assms(1)]
proof (elim disjE exE conjE)
  fix meta line new t1
  assume ch: "event_checks V s0 s channel targets author ty = Inr (meta, line, new)"
    and t1: "t1 = AList.update (channel_thread_path channel)
      ((case map_of (st_tree s) (channel_thread_path channel) of Some c \<Rightarrow> c | None \<Rightarrow> []) @ new) (st_tree s)"
  note c = event_checks_Inr [OF ch]
  have m: "message_thread (channel_thread_path channel)" using c(1) channel_thread_message by blast
  have ok: "project_refs CR PR t1" using refs_message [OF assms(3) m] t1 by blast
  then show "st_tree s' = t1 \<Longrightarrow> project_refs CR PR (st_tree s')" by simp
  fix d let ?m = "update_members ty (affected_users author targets) meta"
  assume d: "en_channel_write V ?m = Some d" "st_tree s' = AList.update (channel_meta_path channel) d t1"
  have R: "CR d = Some ?m" "en_channel_read V = CR" using assms(2) d(1) by (auto simp: env_ok_def)
  have "project_there PR t1 p" if "cm_project ?m = Some p" for p
  proof -
    have "channel_thread_path channel \<noteq> channel_meta_path channel" using m by auto
    then have "assigned CR t1 channel p"
      using read_channel_meta_Inr [OF c(4)] that R(2) t1 by (auto simp: assigned_iff update_conv')
    then show ?thesis using ok by (simp add: project_refs_def)
  qed
  then show "project_refs CR PR (st_tree s')" using refs_meta [OF ok R(1)] d(2) by simp
qed (use assms(3) in simp)

lemma refs_create:
  assumes "handle_create_channel V s0 name dn intro author invitees s = (r, s')" "env_ok E CR V"
    "project_refs CR PR (st_tree s)"
  shows "project_refs CR PR (st_tree s')"
proof -
  have V: "no_rebase V" using assms(2) by (simp add: env_ok_def)
  from handle_create_tree [OF assms(1) V] show ?thesis
  proof (elim disjE exE conjE)
    fix h n c let ?t1 = "AList.update (channel_meta_path name) c (st_tree s)"
    let ?m = "new_channel_meta V name dn intro author invitees"
    assume ch: "create_checks V s0 name author invitees = Inr (h, n)" and w: "en_channel_write V ?m = Some c"
      and t: "let t1 = ?t1 in st_tree s' = t1 \<or> st_tree s' = AList.update (channel_thread_path name)
        (format_event (en_ext V) 1 h (en_now V) ''join'' (targets_json (tl (push_missing [author] invitees)))) t1"
    have "project_refs CR PR ?t1"
      using refs_meta [OF assms(3), of c ?m] assms(2) w by (simp add: env_ok_def new_channel_meta_def)
    moreover have "message_thread (channel_thread_path name)" using create_checks_Inr(3) [OF ch] channel_thread_message by blast
    ultimately show ?thesis using refs_message t unfolding Let_def by metis
  qed (use assms(3) in simp)
qed

lemma dm_move_apart:
  assumes "b \<in> {dm_thread_path stem, archived_dm_path stem}"
  shows "\<not> in_dir (mv_target a b t) (channel_meta_path n)" "\<not> in_dir (mv_target a b t) (project_path p)"
    "\<not> in_dir b (channel_meta_path n)" "\<not> in_dir b (project_path p)"
  using assms by (auto simp: mv_target_def in_dir_def below_iff dm_thread_path_def archived_dm_path_def
      channel_meta_path_def project_path_def)

lemma refs_dm_move:
  assumes "move_and_commit V op a b m author s = (r, s')" "env_ok E CR V" "project_inv E CR PR U (st_tree s)"
    "CHR ''/'' \<notin> set stem" "{a, b} \<subseteq> {dm_thread_path stem, archived_dm_path stem}"
  shows "project_refs CR PR (st_tree s')"
proof -
  have ms: "message_thread a" "message_thread b" using dm_paths_message [OF assms(4)] assms(5) by auto
  have nm: "\<forall>n r. b @ r \<noteq> channel_meta_path n" "\<forall>n r. a @ r \<noteq> channel_meta_path n" using assms(5) dm_paths_not_meta by auto
  have ab: "a \<in> {dm_thread_path stem, archived_dm_path stem}" "b \<in> {dm_thread_path stem, archived_dm_path stem}"
    using assms(5) by auto
  note ap = dm_move_apart [OF ab(1)] dm_move_apart [OF ab(2)]
  have "project_inv E CR PR U (st_tree s')"
  proof (rule move_and_commit_keeps [OF assms(1)])
    fix t assume "project_inv E CR PR U t" "\<not> tree_has t (mv_target a b t)"
    then show "project_inv E CR PR U (move_path a (mv_target a b t) t)"
      using tree_inv_move [OF _ ms(1,2)] nm refs_move [of CR PR t "mv_target a b t" a] ap project_inv_distinct
      unfolding project_inv_def by metis
  next
    fix t assume "project_inv E CR PR U t" "\<not> tree_has t (mv_target b a t)"
    then show "project_inv E CR PR U (move_path b (mv_target b a t) t)"
      using tree_inv_move [OF _ ms(2,1)] nm refs_move [of CR PR t "mv_target b a t" b] ap project_inv_distinct
      unfolding project_inv_def by metis
  qed (use assms in \<open>simp_all add: env_ok_def\<close>)
  then show ?thesis by (simp add: project_inv_def)
qed

lemma daemon_step_refs:
  assumes "daemon_step E CR U s s'" "project_inv E CR PR U (st_tree s)"
  shows "project_refs CR PR (st_tree s')"
proof -
  have refs: "project_refs CR PR (st_tree s)" using assms(2) by (simp add: project_inv_def)
  from assms(1) show ?thesis
  proof cases
    case (StepArchiveDm V s0 peer author r)
    show ?thesis
    proof (cases "archive_dm_checks V s0 peer author")
      case (Inr stem)
      then have st: "CHR ''/'' \<notin> set stem" using dm_stem_no_slash by (auto simp: archive_dm_checks_def)
      obtain r1 s1 where mc: "move_and_commit V ''archive_dm'' (dm_thread_path stem) (archived_dm_path stem)
          (''archive: dm with @'' @ peer) author s = (r1, s1)" by force
      have "st_tree s' = st_tree s1" using StepArchiveDm(3) Inr mc by (auto simp: handle_archive_dm_def split: sum.splits)
      then show ?thesis using refs_dm_move [OF mc StepArchiveDm(1) assms(2) st] by simp
    qed (use StepArchiveDm(3) refs in \<open>simp add: handle_archive_dm_def\<close>)
  next
    case (StepUnarchiveDm V s0 peer author r)
    show ?thesis
    proof (cases "unarchive_dm_checks V s0 peer author")
      case (Inr stem)
      then have st: "CHR ''/'' \<notin> set stem" using dm_stem_no_slash by (auto simp: unarchive_dm_checks_def)
      obtain r1 s1 where mc: "move_and_commit V ''unarchive_dm'' (archived_dm_path stem) (dm_thread_path stem)
          (''archive: restore dm with @'' @ peer) author s = (r1, s1)" by force
      have "st_tree s' = st_tree s1" using StepUnarchiveDm(3) Inr mc by (auto simp: handle_unarchive_dm_def split: sum.splits)
      then show ?thesis using refs_dm_move [OF mc StepUnarchiveDm(1) assms(2) st] by simp
    qed (use StepUnarchiveDm(3) refs in \<open>simp add: handle_unarchive_dm_def\<close>)
  next
    case StepSend
    then show ?thesis using refs_send refs by metis
  next
    case StepJoin
    then show ?thesis using refs_event [OF _ StepJoin(1) refs] by (simp add: handle_join_channel_def)
  next
    case StepLeave
    then show ?thesis using refs_event [OF _ StepLeave(1) refs] by (simp add: handle_leave_channel_def)
  next
    case StepCreate
    then show ?thesis using refs_create [OF _ StepCreate(1) refs] by blast
  qed
qed

lemma create_project_checks_Inr:
  assumes "create_project_checks V s slug dn intro author = Inr yaml"
  shows "is_ok (project_slug_new slug)" "\<not> path_exists s (project_path slug)"
    "is_ok (validate_project_meta (en_project_read V) yaml)"
  using assms by (auto simp: create_project_checks_def is_ok_iff)

lemma discard_file_tree: "st_tree (discard_file V p s) = st_tree s \<or> st_tree (discard_file V p s) = AList.delete p (st_tree s)"
  by (simp add: discard_file_def split: option.split)

lemma create_project_tree:
  assumes "handle_create_project V s0 slug dn intro author s = (r, s')" "no_rebase V"
  shows "st_tree s' = st_tree s
    \<or> (\<exists>yaml. create_project_checks V s0 slug dn intro author = Inr yaml
         \<and> (let t1 = AList.update (project_path slug) yaml (st_tree s) in
            st_tree s' = t1 \<or> st_tree s' = AList.delete (project_path slug) t1))"
proof (cases "create_project_checks V s0 slug dn intro author")
  case (Inr yaml)
  obtain r1 s1 where w: "write_file V ''write project meta'' (project_path slug) yaml s = (r1, s1)" by force
  obtain r2 s2 where c: "add_and_commit_as V [project_path slug] (''project: create '' @ slug @ '' by @'' @ author) author s1
      = (r2, s2)" by force
  obtain r3 s3 where p: "push_with_retry V ''create_project'' s2 = (r3, s3)" by force
  have "st_tree s' \<in> {st_tree s1, st_tree s3, st_tree (discard_file V (project_path slug) s2)}" "r1 = Inl e \<Longrightarrow> s' = s1" for e
    using assms(1) Inr w c p by (auto simp: handle_create_project_def split: sum.splits)
  then show ?thesis
    using Inr write_file_frame [OF w] add_and_commit_frame [OF c] push_frame [OF assms(2) p]
      discard_file_tree [of V "project_path slug" s2] by (auto simp: Let_def)
qed (use assms in \<open>simp add: handle_create_project_def\<close>)

lemma create_project_inv:
  assumes run: "handle_create_project V s slug dn intro author s = (r, s')" and V: "project_env E CR PR V"
    and inv: "project_inv E CR PR U (st_tree s)"
  shows "project_inv E CR PR U (st_tree s')"
proof -
  have "no_rebase V" using V by (simp add: project_env_def env_ok_def)
  from create_project_tree [OF run this] show ?thesis
  proof (elim disjE exE conjE)
    fix yaml let ?p = "project_path slug" let ?t1 = "AList.update ?p yaml (st_tree s)"
    assume ch: "create_project_checks V s slug dn intro author = Inr yaml"
      and t: "let t1 = ?t1 in st_tree s' = t1 \<or> st_tree s' = AList.delete ?p t1"
    note c = create_project_checks_Inr [OF ch]
    have d: "distinct (map fst ?t1)" using project_inv_distinct [OF inv] by (simp add: distinct_update)
    have "map_of (st_tree s) ?p = None" using c(2) by (simp add: path_exists_def file_exists_def)
    then have "map_of (AList.delete ?p ?t1) = map_of (st_tree s)" by (auto simp: delete_conv' update_conv')
    then have "project_inv E CR PR U (AList.delete ?p ?t1)"
      using project_inv_cong [OF inv] d by (simp add: distinct_delete)
    moreover have "project_inv E CR PR U ?t1"
    proof -
      have "threads_ok E U ?t1" using inv threads_ok_update [of E U "st_tree s" ?p yaml] by (simp add: project_inv_def tree_inv_def)
      moreover have "channels_ok CR ?t1" using inv unfolding project_inv_def tree_inv_def channels_ok_def
        by (simp add: update_conv') blast
      ultimately show ?thesis using inv refs_project c(3) V by (simp add: project_inv_def tree_inv_def project_env_def)
    qed
    ultimately show ?thesis using t by (auto simp: Let_def)
  qed (use inv in simp)
qed

lemma read_file_value: "read_file V s p = Inr c \<longleftrightarrow> map_of (st_tree s) p = Some c \<and> en_io V (IoRead p) = None"
  by (auto simp: read_file_def split: option.splits)

lemma check_project_Inr: "check_project V s p = Inr u \<Longrightarrow> project_there (en_project_read V) (st_tree s) p"
  by (auto simp: check_project_def project_there_def read_file_value is_ok_iff split: sum.splits)

lemma set_project_checks_Inr:
  assumes "set_project_checks V s channel project author = Inr (yaml, meta, new_yaml)"
  shows "map_of (st_tree s) (channel_meta_path channel) = Some yaml" "en_channel_read V yaml = Some meta"
    "en_channel_write V (meta\<lparr>cm_project := project\<rparr>) = Some new_yaml"
    "project = Some p \<Longrightarrow> project_there (en_project_read V) (st_tree s) p"
  using assms by (auto simp: set_project_checks_def read_file_value intro: check_project_Inr split: option.splits)

lemma restore_file_tree: "st_tree (restore_file V p c s) = st_tree s \<or> st_tree (restore_file V p c s) = AList.update p c (st_tree s)"
  by (simp add: restore_file_def put_file_def)

lemma set_project_tree:
  assumes "handle_set_channel_project V s0 channel project author s = (r, s')" "no_rebase V"
  shows "(\<exists>e. r = Inl e) \<and> st_tree s' = st_tree s
    \<or> (\<exists>yaml meta new_yaml. set_project_checks V s0 channel project author = Inr (yaml, meta, new_yaml)
         \<and> (st_tree s' = AList.update (channel_meta_path channel) new_yaml (st_tree s)
            \<or> (\<exists>e. r = Inl e) \<and> st_tree s' = AList.update (channel_meta_path channel) yaml
                 (AList.update (channel_meta_path channel) new_yaml (st_tree s))))"
proof (cases "set_project_checks V s0 channel project author")
  case (Inr x)
  obtain yaml meta new_yaml where x: "x = (yaml, meta, new_yaml)" by (cases x) auto
  let ?p = "channel_meta_path channel"
  obtain r1 s1 where w: "write_file V ''write channel meta'' ?p new_yaml s = (r1, s1)" by force
  obtain r2 s2 where c: "add_and_commit_as V [?p] (project_subject channel (cm_project meta) project @ '' by @'' @ author) author s1
      = (r2, s2)" by force
  obtain r3 s3 where p: "push_with_retry V ''set_channel_project'' s2 = (r3, s3)" by force
  have "case r1 of Inl e \<Rightarrow> r = Inl e \<and> s' = s1
      | Inr _ \<Rightarrow> (case r2 of Inl e \<Rightarrow> (\<exists>e. r = Inl e) \<and> s' = restore_file V ?p yaml s2 | Inr _ \<Rightarrow> st_tree s' = st_tree s3)"
    using assms(1) Inr x w c p by (auto simp: handle_set_channel_project_def split: sum.splits)
  then show ?thesis
    using Inr x write_file_frame [OF w] add_and_commit_frame [OF c] push_frame [OF assms(2) p]
      restore_file_tree [of V ?p yaml s2] by (auto split: sum.splits)
qed (use assms in \<open>auto simp: handle_set_channel_project_def\<close>)

lemma set_project_inv:
  assumes run: "handle_set_channel_project V s channel project author s = (r, s')" and V: "project_env E CR PR V"
    and inv: "project_inv E CR PR U (st_tree s)"
  shows "project_inv E CR PR U (st_tree s')"
proof -
  let ?p = "channel_meta_path channel"
  have nr: "no_rebase V" "en_channel_read V = CR" "en_project_read V = PR" using V by (auto simp: project_env_def env_ok_def)
  consider "st_tree s' = st_tree s"
    | yaml meta new_yaml where "set_project_checks V s channel project author = Inr (yaml, meta, new_yaml)"
        "st_tree s' = AList.update ?p new_yaml (st_tree s) \<or> st_tree s' = AList.update ?p yaml (AList.update ?p new_yaml (st_tree s))"
    using set_project_tree [OF run nr(1)] by blast
  then show ?thesis
  proof cases
    case 2
    note c = set_project_checks_Inr [OF 2(1)]
    let ?m = "meta\<lparr>cm_project := project\<rparr>" let ?t1 = "AList.update ?p new_yaml (st_tree s)"
    have d: "distinct (map fst (st_tree s))" using project_inv_distinct [OF inv] .
    have m: "CR new_yaml = Some ?m" using c(3) V by (auto simp: project_env_def env_ok_def)
    have "map_of (AList.update ?p yaml ?t1) = map_of (st_tree s)" using c(1) by (auto simp: update_conv')
    then have rolled: "project_inv E CR PR U (AList.update ?p yaml ?t1)"
      using project_inv_cong [OF inv] d by (simp add: distinct_update)
    have T: "threads_ok E U (st_tree s)" "channels_ok CR (st_tree s)" "project_refs CR PR (st_tree s)"
      using inv by (simp_all add: project_inv_def tree_inv_def)
    have "cm_created_by meta \<noteq> [] \<Longrightarrow> cm_created_by meta \<in> set (cm_members meta)"
      using T(2) c(1,2) nr(2) by (auto simp: channels_ok_def)
    then have "channels_ok CR ?t1" using channels_ok_meta [OF T(2) m] by simp
    moreover have "threads_ok E U ?t1" using threads_ok_update [OF T(1), of ?p] by simp
    moreover have "project_refs CR PR ?t1" using refs_meta [OF T(3) m] c(4) nr(3) by simp
    ultimately show ?thesis using 2(2) rolled by (auto simp: project_inv_def tree_inv_def)
  qed (use inv in simp)
qed

interpretation project_machine: step_invariant "project_step E CR PR U"
    "\<lambda>s. json_ok E \<and> project_inv E CR PR U (st_tree s)" for E CR PR U
proof
  fix s s' assume step: "project_step E CR PR U s s'" and inv: "json_ok E \<and> project_inv E CR PR U (st_tree s)"
  from step show "json_ok E \<and> project_inv E CR PR U (st_tree s')"
  proof cases
    case StepOther
    then show ?thesis using inv daemon_step_refs [of E CR U s s' PR] daemon_step_inv [of E CR U s s'] by (simp add: project_inv_def)
  next
    case StepCreateProject
    then show ?thesis using inv create_project_inv by blast
  next
    case StepSetProject
    then show ?thesis using inv set_project_inv by blast
  qed
qed

subsection \<open>Listing\<close>

lemma fold_counts:
  "fold (\<lambda>cn counts. case f cn of None \<Rightarrow> counts | Some p \<Rightarrow> counts(p := counts p + (1::nat))) xs k q
   = k q + length (filter (\<lambda>cn. f cn = Some q) xs)"
  by (induction xs arbitrary: k) (auto split: option.splits)

lemma read_dir_set:
  assumes "order_ok V"
  shows "distinct (read_dir V s d)"
    and "no_slash n \<Longrightarrow> map_of (st_tree s) (d @ ''/'' @ n) \<noteq> None \<Longrightarrow> n \<in> set (read_dir V s d)"
    and "n \<in> set (read_dir V s d) \<Longrightarrow> no_slash n"
proof -
  let ?f = "\<lambda>(p, _). map_option (takeWhile (\<lambda>c. c \<noteq> CHR ''/'')) (strip_prefix (d @ ''/'') p)"
  have m: "mset (read_dir V s d) = mset (remdups (List.map_filter ?f (st_tree s)))"
    using assms by (simp add: read_dir_def order_ok_def)
  then show "distinct (read_dir V s d)" using mset_eq_imp_distinct_iff by force
  have set: "set (read_dir V s d) = {n. \<exists>(p, c) \<in> set (st_tree s). ?f (p, c) = Some n}"
    using mset_eq_setD [OF m] by (simp add: set_eq_iff map_filter_iff case_prod_beta)
  show "no_slash n" if "n \<in> set (read_dir V s d)" using that set by (auto dest: set_takeWhileD)
  assume n: "no_slash n" "map_of (st_tree s) (d @ ''/'' @ n) \<noteq> None"
  then obtain c where c: "(d @ ''/'' @ n, c) \<in> set (st_tree s)" by (auto dest: map_of_SomeD)
  have "takeWhile (\<lambda>c. c \<noteq> CHR ''/'') n = n" using n(1) by (induction n) auto
  moreover have "strip_prefix (d @ ''/'') (d @ ''/'' @ n) = Some n" by simp
  ultimately have "?f (d @ ''/'' @ n, c) = Some n" by simp
  then show "n \<in> set (read_dir V s d)" using set c by blast
qed

lemma channel_project_iff:
  assumes "reads_ok V" "order_ok V"
  shows "{cn \<in> set (read_dir V s ''channels''). channel_project V s cn = Some p}
    = (\<lambda>n. n @ ''.meta.yaml'') ` {n. no_slash n \<and> assigned (en_channel_read V) (st_tree s) n p}"
proof (intro set_eqI iffI)
  fix cn assume "cn \<in> {cn \<in> set (read_dir V s ''channels''). channel_project V s cn = Some p}"
  then have cn: "cn \<in> set (read_dir V s ''channels'')" "channel_project V s cn = Some p" by auto
  then obtain n where n: "cn = n @ ''.meta.yaml''" by (auto simp: channel_project_def ends_with_iff split: if_splits)
  have "no_slash n" using read_dir_set(3) [OF assms(2) cn(1)] n by simp
  moreover have "assigned (en_channel_read V) (st_tree s) n p"
    using cn(2) n by (auto simp: channel_project_def assigned_iff read_file_value channel_meta_path_def split: if_splits sum.splits option.splits)
  ultimately show "cn \<in> (\<lambda>n. n @ ''.meta.yaml'') ` {n. no_slash n \<and> assigned (en_channel_read V) (st_tree s) n p}" using n by blast
next
  fix cn assume "cn \<in> (\<lambda>n. n @ ''.meta.yaml'') ` {n. no_slash n \<and> assigned (en_channel_read V) (st_tree s) n p}"
  then obtain n where n: "cn = n @ ''.meta.yaml''" "no_slash n" "assigned (en_channel_read V) (st_tree s) n p" by auto
  then obtain c m where c: "map_of (st_tree s) (''channels/'' @ cn) = Some c" "en_channel_read V c = Some m" "cm_project m = Some p"
    by (auto simp: assigned_iff channel_meta_path_def)
  have "cn \<in> set (read_dir V s ''channels'')"
    by (rule read_dir_set(2) [OF assms(2)]) (use n c in auto)
  moreover have "ends_with ''.meta.yaml'' cn" using n(1) by (auto simp: ends_with_iff)
  ultimately show "cn \<in> {cn \<in> set (read_dir V s ''channels''). channel_project V s cn = Some p}"
    using c assms(1) by (simp add: channel_project_def read_file_ok)
qed

lemma file_dir_exists: "map_of (st_tree s) (d @ ''/'' @ n) = Some c \<Longrightarrow> path_exists s d"
  by (rule path_exists_below [of s "d @ ''/'' @ n"]) (auto simp: below_iff)

lemma slug_counts_card:
  assumes "reads_ok V" "order_ok V"
  shows "slug_counts V s p = card {n. no_slash n \<and> assigned (en_channel_read V) (st_tree s) n p}"
    and "finite {n. no_slash n \<and> assigned (en_channel_read V) (st_tree s) n p}"
proof -
  let ?A = "{n. no_slash n \<and> assigned (en_channel_read V) (st_tree s) n p}"
  let ?names = "if path_exists s ''channels'' \<and> en_io V (IoRead ''channels'') = None then read_dir V s ''channels'' else []"
  have inj: "inj_on (\<lambda>n. n @ ''.meta.yaml'') ?A" by (simp add: inj_on_def)
  have img: "set (filter (\<lambda>cn. channel_project V s cn = Some p) (read_dir V s ''channels'')) = (\<lambda>n. n @ ''.meta.yaml'') ` ?A"
    using channel_project_iff [OF assms, of s p] by simp
  show fin: "finite ?A" using finite_imageD [OF _ inj] img by (metis List.finite_set)
  have no: "?A = {}" if "\<not> path_exists s ''channels''"
    using that file_dir_exists [of s "''channels''"] by (auto simp: assigned_iff channel_meta_path_def)
  have "slug_counts V s p = length (filter (\<lambda>cn. channel_project V s cn = Some p) ?names)"
    unfolding slug_counts_def fold_counts by simp
  also have "\<dots> = card ?A"
  proof (cases "path_exists s ''channels''")
    case True
    then have "?names = read_dir V s ''channels''" using assms(1) by (simp add: reads_ok_def)
    moreover have "length (filter (\<lambda>cn. channel_project V s cn = Some p) (read_dir V s ''channels'')) = card ?A"
      using distinct_card [OF distinct_filter [OF read_dir_set(1) [OF assms(2), of s "''channels''"]],
          of "\<lambda>cn. channel_project V s cn = Some p"]
      unfolding img card_image [OF inj] by (rule sym)
    ultimately show ?thesis by (simp only:)
  next
    case False
    have "card ?A = 0" unfolding no [OF False] by (rule card.empty)
    with False show ?thesis by simp
  qed
  finally show "slug_counts V s p = card ?A" .
qed

lemma project_slug_no_slash: "is_ok (project_slug_new p) \<Longrightarrow> no_slash p"
  using kebab_no_slash by (auto simp: is_ok_iff project_slug_new_Inr)

lemma listed_project:
  assumes "reads_ok V" "order_ok V" "project_there (en_project_read V) (st_tree s) p"
  shows "\<exists>es e. handle_list_projects V s = Inr es \<and> e \<in> set es \<and> pe_slug e = p
    \<and> pe_channel_count e = card {n. no_slash n \<and> assigned (en_channel_read V) (st_tree s) n p}"
proof -
  obtain c m where c: "map_of (st_tree s) (project_path p) = Some c" "en_project_read V c = Some m" "is_ok (project_slug_new p)"
    using assms(3) by (auto simp: project_there_def validate_project_meta_def is_ok_iff split: option.splits)
  let ?e = "\<lparr>pe_slug = p, pe_meta = m, pe_channel_count = slug_counts V s p\<rparr>"
  have e: "project_entry_of V s p = Some ?e" using assms(1) c by (simp add: project_entry_of_def read_file_ok)
  have dir: "path_exists s ''projects''" using c(1) file_dir_exists [of s "''projects''"] by (simp add: project_path_def)
  have "p @ ''.meta.yaml'' \<in> set (read_dir V s ''projects'')"
    by (rule read_dir_set(2) [OF assms(2)]) (use c(1) project_slug_no_slash [OF c(3)] in \<open>auto simp: project_path_def\<close>)
  then have "p \<in> set (project_slugs V s)"
    using c(3) unfolding project_slugs_def set_sort set_filter map_filter_iff by (intro CollectI conjI bexI [of _ "p @ ''.meta.yaml''"]) simp_all
  then have "?e \<in> set (List.map_filter (project_entry_of V s) (project_slugs V s))"
    using e unfolding map_filter_iff by (rule bexI [rotated])
  moreover have "handle_list_projects V s = Inr (List.map_filter (project_entry_of V s) (project_slugs V s))"
    using dir assms(1) by (simp add: handle_list_projects_def reads_ok_def)
  ultimately show ?thesis using slug_counts_card(1) [OF assms(1,2)] by fastforce
qed

subsection \<open>A concrete environment\<close>

text \<open>Codecs of comma-separated fields, of channels with their project and of projects.\<close>

definition grouped_read :: "string \<Rightarrow> channel_meta option" where
  "grouped_read c =
     (case split_on (CHR '','') c of
        d # b # a # i # p # ms \<Rightarrow>
          Some \<lparr>cm_display_name = d, cm_created_by = b, cm_created_at = a, cm_introduction = i,
                cm_members = ms, cm_project = (if p = [] then None else Some p)\<rparr>
      | _ \<Rightarrow> None)"

definition grouped_print :: "channel_meta \<Rightarrow> string" where
  "grouped_print m =
     join_with '','' (cm_display_name m # cm_created_by m # cm_created_at m # cm_introduction m
       # (case cm_project m of None \<Rightarrow> [] | Some p \<Rightarrow> p) # cm_members m)"

definition plan_read :: "string \<Rightarrow> project_meta option" where
  "plan_read c =
     (case split_on (CHR '','') c of
        [d, b, a, i] \<Rightarrow> Some \<lparr>pm_display_name = d, pm_created_by = b, pm_created_at = a, pm_introduction = i\<rparr>
      | _ \<Rightarrow> None)"

definition plan_print :: "project_meta \<Rightarrow> string" where
  "plan_print m = join_with '','' [pm_display_name m, pm_created_by m, pm_created_at m, pm_introduction m]"

definition grouped_env :: env where
  "grouped_env = sample_env\<lparr>en_channel_read := grouped_read,
      en_channel_write := (\<lambda>m. if grouped_read (grouped_print m) = Some m then Some (grouped_print m) else None),
      en_project_read := plan_read, en_project_write := (\<lambda>m. Some (plan_print m))\<rparr>"

lemma grouped_env_ok: "project_env list_ext grouped_read plan_read grouped_env" "order_ok grouped_env"
proof -
  have "compact_timestamp ''20260101T000000Z''" by code_simp
  then show "project_env list_ext grouped_read plan_read grouped_env"
    by (auto simp: project_env_def env_ok_def reads_ok_def git_ok_def no_rebase_def grouped_env_def sample_env_def base_env_def
        split: if_splits)
  show "order_ok grouped_env" by (simp add: order_ok_def grouped_env_def sample_env_def base_env_def)
qed

text \<open>alice creates a channel and a project and assigns the one to the other; meanwhile bob's departure removes him from the channel.\<close>

definition grouped_channel :: app_state where
  "grouped_channel = snd (handle_create_channel grouped_env base_state ''general'' None None ''alice'' [''bob''] base_state)"

definition grouped_project :: app_state where
  "grouped_project = snd (handle_create_project grouped_env grouped_channel ''core'' ''Core'' ''work'' ''alice'' grouped_channel)"

definition grouped_assigned :: app_state where
  "grouped_assigned =
     snd (handle_set_channel_project grouped_env grouped_project ''general'' (Some ''core'') ''alice'' grouped_project)"

definition grouped_left :: app_state where
  "grouped_left = snd (remove_member grouped_env grouped_project ''bob'' ''general'' grouped_project)"

definition grouped_race :: app_state where
  "grouped_race =
     snd (handle_set_channel_project grouped_env grouped_project ''general'' (Some ''core'') ''alice'' grouped_left)"

lemma grouped_run: "(project_step list_ext grouped_read plan_read [''alice'', ''bob''])\<^sup>*\<^sup>* base_state grouped_assigned"
proof -
  let ?step = "project_step list_ext grouped_read plan_read [''alice'', ''bob'']"
  have E: "env_ok list_ext grouped_read grouped_env" using grouped_env_ok(1) by (simp add: project_env_def)
  have "daemon_step list_ext grouped_read [''alice'', ''bob''] base_state grouped_channel"
    by (rule StepCreate [OF E, of base_state])
      (unfold grouped_channel_def, simp add: base_state_def, rule prod.collapse [symmetric])
  then have "?step base_state grouped_channel" by (rule StepOther)
  moreover have "?step grouped_channel grouped_project"
    by (rule StepCreateProject [OF grouped_env_ok(1)]) (unfold grouped_project_def, rule prod.collapse [symmetric])
  moreover have "?step grouped_project grouped_assigned"
    by (rule StepSetProject [OF grouped_env_ok(1)]) (unfold grouped_assigned_def, rule prod.collapse [symmetric])
  ultimately show ?thesis by auto
qed

lemma base_state_project_inv: "project_inv list_ext grouped_read plan_read [''alice'', ''bob''] (st_tree base_state)"
  by (simp add: project_inv_def project_refs_def assigned_def tree_inv_def threads_ok_def channels_ok_def base_state_def)

lemma grouped_assigned_meta:
  "map_of (st_tree grouped_assigned) (channel_meta_path ''general'') = Some ''general,alice,20260101T000000Z,,core,alice,bob''"
  by code_simp

subsection \<open>Properties\<close>



text \<open>C40: The assignment of a channel to a project is computed from the metadata read before the lock was taken (\<open>s0\<close>)
  and written over what the file holds by then (\<open>s\<close>): members who joined, left or departed in between, with success,
  are as they were before.\<close>

theorem set_project_undoes_leave:
  assumes "handle_set_channel_project V s0 channel project author s = (Inr r, s')" "env_ok E R V"
  shows "\<exists>meta. read_channel_meta V s0 channel = Inr meta
    \<and> read_channel_meta V s' channel = Inr (meta\<lparr>cm_project := project\<rparr>)"
proof -
  have V: "no_rebase V" "reads_ok V" "en_channel_read V = R" using assms(2) by (auto simp: env_ok_def)
  obtain yaml meta new_yaml where ch: "set_project_checks V s0 channel project author = Inr (yaml, meta, new_yaml)"
      and t: "st_tree s' = AList.update (channel_meta_path channel) new_yaml (st_tree s)"
    using set_project_tree [OF assms(1) V(1)] by auto
  note c = set_project_checks_Inr [OF ch]
  have "R new_yaml = Some (meta\<lparr>cm_project := project\<rparr>)" using c(3) assms(2) by (auto simp: env_ok_def)
  then show ?thesis using c(1,2) t V by (simp add: read_channel_meta_def read_file_ok update_conv')
qed

lemma grouped_race_facts:
  "fst (remove_member grouped_env grouped_project ''bob'' ''general'' grouped_project) = Inr True"
  "fst (handle_set_channel_project grouped_env grouped_project ''general'' (Some ''core'') ''alice'' grouped_left)
    = Inr (''general'', Some ''core'')"
  "map_of (st_tree grouped_left) (channel_meta_path ''general'') = Some ''general,alice,20260101T000000Z,,,alice''"
  "map_of (st_tree grouped_project) (channel_meta_path ''general'') = Some ''general,alice,20260101T000000Z,,,alice,bob''"
  by code_simp+

theorem set_project_undoes_leave_witness:
  "map_of (st_tree grouped_left) (channel_meta_path ''general'') = Some ''general,alice,20260101T000000Z,,,alice''
   \<and> (\<exists>m. read_channel_meta grouped_env grouped_race ''general'' = Inr m \<and> cm_members m = [''alice'', ''bob''])"
proof -
  have run: "handle_set_channel_project grouped_env grouped_project ''general'' (Some ''core'') ''alice'' grouped_left
      = (Inr (''general'', Some ''core''), grouped_race)"
    using grouped_race_facts(2) by (simp add: grouped_race_def prod_eq_iff)
  have E: "env_ok list_ext grouped_read grouped_env" using grouped_env_ok(1) by (simp add: project_env_def)
  obtain m where m: "read_channel_meta grouped_env grouped_project ''general'' = Inr m"
      "read_channel_meta grouped_env grouped_race ''general'' = Inr (m\<lparr>cm_project := Some ''core''\<rparr>)"
    using set_project_undoes_leave [OF run E] by blast
  have "en_channel_read grouped_env = grouped_read" by (simp add: grouped_env_def)
  then have "cm_members m = [''alice'', ''bob'']"
    using read_channel_meta_Inr [OF m(1)] grouped_race_facts(4) by (auto simp: grouped_read_def)
  then show ?thesis using m(2) grouped_race_facts(3) by simp
qed

end
