(* ===== verification/Spec2Isabelle.thy ===== *)
theory Spec2Isabelle
  imports Daemon_Boards Daemon_Flows Daemon_Sessions Daemon_Archive Daemon_Projects
begin

text \<open>
  \<^bold>\<open>GitIM.\<close>  GitIM is a chat system whose storage is a git repository: channels and direct messages are
  append-only \<^verbatim>\<open>.thread\<close> files, metadata are YAML files beside them, and every clone runs a daemon that serves
  requests, commits what they write, and synchronises with a remote.  The crates are \<^verbatim>\<open>gitim-core\<close> (data,
  parsers, validators), \<^verbatim>\<open>gitim-sync\<close> (conflict resolution, git), \<^verbatim>\<open>gitim-daemon\<close> (request handlers), and
  \<^verbatim>\<open>gitim-runtime\<close>, \<^verbatim>\<open>gitim-agent-provider\<close>, \<^verbatim>\<open>gitim-cli\<close>, \<^verbatim>\<open>gitim-client\<close>, \<^verbatim>\<open>gitim-updater\<close>, \<^verbatim>\<open>gitim-wasm\<close> around
  them.  This development models the core, the conflict resolution, and a growing part of the daemon.

  \<^bold>\<open>Conventions.\<close>  A Rust string is a list of bytes (\<open>string\<close>, every char one byte of UTF-8); \<open>chars\<close> groups the
  bytes into characters.  \<^verbatim>\<open>u64\<close> values are naturals with the wrap-around of release builds written out
  (\<open>u64_add\<close>).  \<^verbatim>\<open>Result\<close> is a sum with the error on the left; a panic is an error value of its own
  (\<open>ParsePanic\<close>).  A record or datatype has the source's fields and constructors.  Loops
  are recursive functions; all of them terminate, so no fuel is needed.

  \<^bold>\<open>External code.\<close>  serde_json, serde_yaml, percent-encoding, the Unicode tables, the clock, the random
  numbers, the file system's failures and the git executable are parameters: the record \<open>ext\<close>
  (External.thy) and the record \<open>env\<close> (Daemon.thy).  What a property needs of them is a named hypothesis
  (\<open>percent_codec\<close>, \<open>json_ok\<close>, \<open>git_ok\<close>, \<open>env_ok\<close>, ...), and its witness gives a concrete instance.

  \<^bold>\<open>Theories.\<close>
  \<^item> \<open>Prelude\<close>, \<open>Rust_Strings\<close>: result combinators, characters, the string library (lines, split, trim,
    numbers), the locale \<open>step_invariant\<close> of step relations with an invariant.
  \<^item> \<open>Names\<close> (types/handler.rs, channel.rs, project.rs, labels.rs, dm.rs): the validating constructors.  The
    locales \<open>path_component\<close> and \<open>kebab_name\<close> state what the rest relies on (bounded length, no separator, no
    dot names) and are interpreted by every name of the system.
  \<^item> \<open>External\<close>, \<open>Asset\<close> (types/asset.rs), \<open>Card_Meta\<close> (types/card.rs), \<open>Quick_Session\<close>
    (types/quick_session.rs): a session is a state machine with claims and attempts; its transitions keep
    validity, no line is answered twice, retries are recognised.
  \<^item> \<open>Thread_Format\<close>, \<open>Links\<close>, \<open>Thread_Parser\<close> (formatter.rs, mention.rs, link.rs, parser.rs, thread_io.rs): what
    the formatter writes is what the parser reads, and no body forges an entry.
  \<^item> \<open>Validators\<close> (validator/): the compliance check of an append, the integrity check of a thread, the
    membership rules.
  \<^item> \<open>Sync\<close> (conflict.rs, renumber.rs): renumbering of local lines behind the remote ones, merges of
    channel and session metadata.
  \<^item> \<open>Flow\<close>, \<open>Flow_Text\<close>, \<open>Flow_Run\<close> (flow/): flow documents, their cycle check against the dependency
    relation, their markdown, and the life of a run.
  \<^item> \<open>Recipients\<close> (recipients.rs): whom a message notifies.
  \<^item> \<open>Board\<close> (types/board.rs): board documents, their size bound and their section edits.
  \<^item> \<open>Daemon\<close> (state.rs, api.rs, handlers/mod.rs, the git interface), \<open>Daemon_Channels\<close> (handlers/send.rs,
    channel.rs, dm.rs), \<open>Daemon_Invariants\<close>: the handlers over a working tree, and what every sequence of
    requests keeps true.
  \<^item> \<open>Daemon_Store\<close>: the commit of a document, and the locale \<open>file_store\<close>, the contract that every file of an
    area has acceptable content.  \<open>Daemon_Boards\<close> (board_handlers.rs) and \<open>Daemon_Flows\<close> (flow_handlers.rs,
    flow_run_handlers.rs) interpret it: stored boards, flows and runs stay readable and valid.
  \<^item> \<open>Daemon_Sessions\<close> (quick_session_handlers.rs): the handlers of quick sessions with their rollbacks.  Stored
    sessions stay consistent with their discussions, a request answered with an error has changed nothing,
    and a repeated request is answered as before.
  \<^item> \<open>Daemon_Labels\<close> (handlers/labels.rs): a user's labels, changed by the user alone, and the search by labels.
  \<^item> \<open>Daemon_Moves\<close>: groups of moves that are one change, and that undoing them in any order gives the tree back.
    \<open>Daemon_Cards\<close> (card_handlers.rs) and \<open>Daemon_Archive\<close> (the archiving of channels in handlers/channel.rs) use
    it: stored cards are well typed (another interpretation of \<open>file_store\<close>), a move to the archive is all or
    nothing, and archiving and restoring are inverse.
  \<^item> \<open>Daemon_Users\<close> (handlers/user.rs): registering, updating, archiving and restoring users; the last two are
    inverse.  \<open>Daemon_Depart\<close> (handlers/depart.rs): the four phases of a departure.  The locale \<open>resumable\<close> states
    what a phase promises (its steps can be repeated, and a finished run leaves nothing to do), the phases
    interpret it, and a departure that succeeds after any number of broken-off attempts is complete.
  \<^item> \<open>Daemon_Projects\<close> (handlers/project.rs): a channel never refers to a missing project, and the listing counts
    the channels of each.

  \<^bold>\<open>Interleaving.\<close>  A handler is a function of two states: \<open>s0\<close>, read before it takes \<^verbatim>\<open>commit_lock\<close>, and \<open>s\<close>,
  the state under the lock.  The invariants hold for every \<open>s0\<close>, so for every interleaving of the unlocked
  parts.  The writes of one handler are taken as contiguous; \<^verbatim>\<open>handle_create_channel\<close>, which does not take the
  lock, is a step of its own as well.  The card handlers other than sending do not take the lock either, and two
  overlapping updates lose one (\<open>concurrent_update_lost\<close>); their invariant is stated for requests that do not
  overlap.  So is that of the two project requests, which prepare under no lock what they write
  (\<open>set_project_undoes_leave\<close>).  A departure may stop at any step, but no other request runs between its steps.

  \<^bold>\<open>Abstractions of the daemon.\<close>  A directory exists when a file lies below it.  Within one request the clock, the
  HEAD commit and the failures of file operations are fixed (\<open>en_now\<close>, \<open>en_head\<close>, \<open>en_io\<close>); the write that undoes
  another is an operation of its own (\<open>IoRestore\<close>).  The git index is not part of the state, so \<^verbatim>\<open>git reset\<close> has no
  effect.  A response carries the data of the source's response structure; the wording of error messages is
  replaced by an error value.

  \<^bold>\<open>Not modelled.\<close>  Cron, search and polling handlers, the request dispatch, the sync loop and the git driver,
  the runtime, the agent providers, the client, the command line and the updater: they drive processes, sockets and the git executable.
\<close>

end
